(* ===== verification/Prelude.thy ===== *)
theory Prelude
  imports Main "HOL-Library.Multiset"
begin

text \<open>
  Shared vocabulary of the development: Go's errors and gRPC status codes as data, the
  fixed-width integer conversions the code performs, UTF-8 decoding and decimal integers as
  in Go's \<^verbatim>\<open>unicode/utf8\<close> and \<^verbatim>\<open>strconv\<close>, the outcome of a call over the network, and the generic
  list and map lemmas that the component theories share.
\<close>

section \<open>Lemma collections\<close>

named_theorems err_simps \<open>how Go errors are classified\<close>
named_theorems redis_simps \<open>effect of the Redis scripts on the keyspace view\<close>
named_theorems hub_simps \<open>frame and effect of the hub operations\<close>
named_theorems pipe_simps \<open>bookkeeping of the persistence pipeline\<close>
named_theorems db_simps \<open>effect of the SQL statements on the tables\<close>

section \<open>Errors\<close>

text \<open>gRPC status codes (\<^verbatim>\<open>google.golang.org/grpc/codes\<close>), the values the services return.\<close>

datatype codes =
    OK | Canceled | Unknown | InvalidArgument | DeadlineExceeded | NotFound | AlreadyExists
  | PermissionDenied | ResourceExhausted | FailedPrecondition | Aborted | OutOfRange
  | Unimplemented | Internal | Unavailable | DataLoss | Unauthenticated

text \<open>
  A Go error value: a gRPC status, an error made by \<^verbatim>\<open>errors.New\<close>, one of the sentinel
  variables of the packages, a context error, an error of an external service, or an error
  that wraps one (\<^verbatim>\<open>%w\<close>) or two (\<^verbatim>\<open>%w: %w\<close>) others.
\<close>

datatype go_error =
    StatusErr codes string
  | ErrNew string
  | ErrBusy | ErrLost
  | ErrRoomHandoffInProgress | ErrRoomSequenceUnavailable
  | ErrSequenceConflict
  | ErrQueueFull | ErrClosed
  | ErrMismatchedHashAndPassword
  | ErrNoRows | UniqueViolation
  | CtxErr
  | External string
  | Wrap string go_error
  | Wrap2 go_error go_error

text \<open>\<^verbatim>\<open>errors.Is(err, target)\<close>: the error or one it wraps is the target.\<close>

fun errors_is :: "go_error \<Rightarrow> go_error \<Rightarrow> bool" where
  "errors_is (Wrap m e) t = (Wrap m e = t \<or> errors_is e t)"
| "errors_is (Wrap2 a b) t = (Wrap2 a b = t \<or> errors_is a t \<or> errors_is b t)"
| "errors_is e t = (e = t)"

text \<open>\<^verbatim>\<open>status.FromError(err)\<close>: the status found in the error or in what it wraps, if any.\<close>

fun status_from_error :: "go_error \<Rightarrow> (codes \<times> string) option" where
  "status_from_error (StatusErr c m) = Some (c, m)"
| "status_from_error (Wrap m e) = status_from_error e"
| "status_from_error (Wrap2 a b) =
     (case status_from_error a of Some s \<Rightarrow> Some s | None \<Rightarrow> status_from_error b)"
| "status_from_error e = None"

text \<open>\<^verbatim>\<open>status.Code(err)\<close>: \<^verbatim>\<open>Unknown\<close> for an error that carries no status.\<close>

definition status_code :: "go_error \<Rightarrow> codes" where
  "status_code e = (case status_from_error e of Some (c, m) \<Rightarrow> c | None \<Rightarrow> Unknown)"

lemma status_code_simps [simp, err_simps]:
  "status_code (StatusErr c m) = c"
  "status_code (Wrap m e) = status_code e"
  by (simp_all add: status_code_def)

section \<open>The outcome of a call over the network\<close>

text \<open>
  A call to an external service either completes, or fails before the service acted, or
  fails after it acted (the reply was lost). The caller sees the same error in both failures.
\<close>

datatype net = Reply | NoRequest go_error | NoReply go_error

definition net_call :: "net \<Rightarrow> ('s \<Rightarrow> 'a \<times> 's) \<Rightarrow> 's \<Rightarrow> (go_error + 'a) \<times> 's" where
  "net_call n f s = (case n of
      Reply \<Rightarrow> (case f s of (a, s') \<Rightarrow> (Inr a, s'))
    | NoRequest e \<Rightarrow> (Inl e, s)
    | NoReply e \<Rightarrow> (Inl e, snd (f s)))"

lemma net_call_simps [simp]:
  "net_call Reply f s = (Inr (fst (f s)), snd (f s))"
  "net_call (NoRequest e) f s = (Inl e, s)"
  "net_call (NoReply e) f s = (Inl e, snd (f s))"
  by (simp_all add: net_call_def case_prod_beta)

lemma net_call_ok: "fst (net_call n f s) = Inr a \<longleftrightarrow> n = Reply \<and> fst (f s) = a"
  by (cases n) auto

lemma net_call_state: "snd (net_call n f s) = s \<or> snd (net_call n f s) = snd (f s)"
  by (cases n) auto

section \<open>Fixed-width integers\<close>

text \<open>Conversion to Go's signed 32 and 64 bit integers, with the wrap-around written out.\<close>

definition int32_of :: "int \<Rightarrow> int" where
  "int32_of x = (x + 2 ^ 31) mod 2 ^ 32 - 2 ^ 31"

definition int64_of :: "int \<Rightarrow> int" where
  "int64_of x = (x + 2 ^ 63) mod 2 ^ 64 - 2 ^ 63"

lemma int32_of_id [simp]: "- (2 ^ 31) \<le> x \<Longrightarrow> x < 2 ^ 31 \<Longrightarrow> int32_of x = x"
  by (simp add: int32_of_def)

lemma int64_of_id [simp]: "- (2 ^ 63) \<le> x \<Longrightarrow> x < 2 ^ 63 \<Longrightarrow> int64_of x = x"
  by (simp add: int64_of_def)

lemma int32_of_bounds: "- (2 ^ 31) \<le> int32_of x \<and> int32_of x < 2 ^ 31"
  by (simp add: int32_of_def)

lemma int64_of_bounds: "- (2 ^ 63) \<le> int64_of x \<and> int64_of x < 2 ^ 63"
  by (simp add: int64_of_def)

text \<open>Adding and taking back one leaves a 64 bit counter where it was, even at the edge.\<close>

lemma int64_of_add_sub:
  "- (2 ^ 63) \<le> x \<Longrightarrow> x < 2 ^ 63 \<Longrightarrow> int64_of (int64_of (x + 1) - 1) = x"
proof -
  assume x: "- (2 ^ 63) \<le> x" "x < 2 ^ 63"
  have "int64_of (int64_of (x + 1) - 1) = ((x + 1 + 2 ^ 63) mod 2 ^ 64 - 1) mod 2 ^ 64 - 2 ^ 63"
    by (simp add: int64_of_def algebra_simps)
  also have "((x + 1 + 2 ^ 63) mod 2 ^ 64 - 1) mod 2 ^ 64 = (x + 2 ^ 63) mod 2 ^ 64"
    by (simp add: mod_diff_left_eq algebra_simps)
  also have "(x + 2 ^ 63) mod 2 ^ 64 = x + 2 ^ 63" using x by simp
  finally show ?thesis by simp
qed

lemma int64_of_add: "int64_of (int64_of a + b) = int64_of (a + b)"
proof -
  have "(int64_of a + b + 2 ^ 63) mod 2 ^ 64 = ((a + 2 ^ 63) mod 2 ^ 64 + b) mod 2 ^ 64"
    by (simp add: int64_of_def)
  also have "\<dots> = (a + 2 ^ 63 + b) mod 2 ^ 64" by (rule mod_add_left_eq)
  also have "a + 2 ^ 63 + b = a + b + 2 ^ 63" by simp
  finally show ?thesis by (simp add: int64_of_def)
qed

section \<open>UTF-8\<close>

text \<open>
  Go strings are byte strings; a \<^typ>\<open>char\<close> is a byte. \<open>decode_rune\<close> is
  \<^verbatim>\<open>utf8.DecodeRuneInString\<close>: the first code point and its width, or \<^verbatim>\<open>RuneError\<close> (U+FFFD) with
  width 1 for an invalid or truncated encoding.
\<close>

definition byte :: "char \<Rightarrow> nat" where
  "byte c = of_char c"

definition is_cont :: "nat \<Rightarrow> bool" where
  "is_cont b \<longleftrightarrow> 128 \<le> b \<and> b \<le> 191"

fun decode_rune :: "nat list \<Rightarrow> nat \<times> nat" where
  "decode_rune [] = (65533, 0)"
| "decode_rune (b # bs) =
    (if b < 128 then (b, 1)
     else if 194 \<le> b \<and> b \<le> 223 then
       (case bs of b1 # _ \<Rightarrow> if is_cont b1 then ((b - 192) * 64 + (b1 - 128), 2) else (65533, 1)
        | [] \<Rightarrow> (65533, 1))
     else if 224 \<le> b \<and> b \<le> 239 then
       (case bs of b1 # b2 # _ \<Rightarrow>
          if is_cont b1 \<and> is_cont b2 \<and> (b = 224 \<longrightarrow> 160 \<le> b1) \<and> (b = 237 \<longrightarrow> b1 \<le> 159)
          then ((b - 224) * 4096 + (b1 - 128) * 64 + (b2 - 128), 3) else (65533, 1)
        | _ \<Rightarrow> (65533, 1))
     else if 240 \<le> b \<and> b \<le> 244 then
       (case bs of b1 # b2 # b3 # _ \<Rightarrow>
          if is_cont b1 \<and> is_cont b2 \<and> is_cont b3 \<and> (b = 240 \<longrightarrow> 144 \<le> b1) \<and> (b = 244 \<longrightarrow> b1 \<le> 143)
          then ((b - 240) * 262144 + (b1 - 128) * 4096 + (b2 - 128) * 64 + (b3 - 128), 4)
          else (65533, 1)
        | _ \<Rightarrow> (65533, 1))
     else (65533, 1))"

lemma decode_rune_width: "bs \<noteq> [] \<Longrightarrow> 0 < snd (decode_rune bs) \<and> snd (decode_rune bs) \<le> length bs"
  by (cases bs rule: decode_rune.cases) (auto split: list.splits)

declare decode_rune.simps(2) [simp del]

function runes_of :: "nat list \<Rightarrow> nat list" where
  "runes_of bs = (if bs = [] then [] else
     fst (decode_rune bs) # runes_of (drop (snd (decode_rune bs)) bs))"
  by pat_completeness auto
termination
  using decode_rune_width by (relation "measure length") (auto intro!: diff_less)

declare runes_of.simps [simp del]

definition runes :: "string \<Rightarrow> nat list" where
  "runes s = runes_of (map byte s)"

text \<open>\<^verbatim>\<open>utf8.RuneCountInString\<close>.\<close>

definition rune_count :: "string \<Rightarrow> nat" where
  "rune_count s = length (runes s)"

lemma runes_of_Nil [simp]: "runes_of [] = []"
  by (simp add: runes_of.simps)

lemma runes_of_eq_Nil [simp]: "runes_of bs = [] \<longleftrightarrow> bs = []"
  by (subst runes_of.simps) simp

lemma rune_count_0 [simp]: "rune_count s = 0 \<longleftrightarrow> s = []"
  by (simp add: rune_count_def runes_def)

lemma runes_of_ascii:
  "list_all (\<lambda>b. b < 128) bs \<Longrightarrow> runes_of bs = bs"
proof (induction bs)
  case (Cons b bs)
  then show ?case by (subst runes_of.simps) (simp add: decode_rune.simps(2))
qed simp

lemma runes_of_length: "length (runes_of bs) \<le> length bs"
proof (induction bs rule: runes_of.induct)
  case (1 bs)
  show ?case
  proof (cases "bs = []")
    case False
    with "1.IH" decode_rune_width [OF False] show ?thesis
      by (subst runes_of.simps) (simp, linarith)
  qed simp
qed

lemma rune_count_le: "rune_count s \<le> length s"
  using runes_of_length [of "map byte s"] by (simp add: rune_count_def runes_def)

section \<open>Decimal integers\<close>

text \<open>\<^verbatim>\<open>strconv.FormatInt(n, 10)\<close> and \<^verbatim>\<open>strconv.ParseInt(s, 10, 64)\<close>.\<close>

definition digit_char :: "nat \<Rightarrow> char" where
  "digit_char d = char_of (48 + d)"

fun format_nat :: "nat \<Rightarrow> string" where
  "format_nat n = (if n < 10 then [digit_char n] else format_nat (n div 10) @ [digit_char (n mod 10)])"

declare format_nat.simps [simp del]

definition format_int :: "int \<Rightarrow> string" where
  "format_int i = (if i < 0 then CHR ''-'' # format_nat (nat (- i)) else format_nat (nat i))"

definition is_digit :: "char \<Rightarrow> bool" where
  "is_digit c \<longleftrightarrow> 48 \<le> byte c \<and> byte c \<le> 57"

definition parse_digits :: "string \<Rightarrow> nat option" where
  "parse_digits s = (if s \<noteq> [] \<and> list_all is_digit s
     then Some (foldl (\<lambda>a c. 10 * a + (byte c - 48)) 0 s) else None)"

definition parse_signed :: "string \<Rightarrow> int option" where
  "parse_signed s = (case s of
      [] \<Rightarrow> None
    | c # cs \<Rightarrow> if c = CHR ''-'' then map_option (\<lambda>n. - int n) (parse_digits cs)
        else if c = CHR ''+'' then map_option int (parse_digits cs)
        else map_option int (parse_digits s))"

definition ParseInt :: "string \<Rightarrow> nat \<Rightarrow> int option" where
  "ParseInt s bits = (case parse_signed s of
      None \<Rightarrow> None
    | Some i \<Rightarrow> if - (2 ^ (bits - 1)) \<le> i \<and> i < 2 ^ (bits - 1) then Some i else None)"

lemma byte_digit_char [simp]: "d < 10 \<Longrightarrow> byte (digit_char d) = 48 + d"
  by (simp add: byte_def digit_char_def)

lemma is_digit_digit_char [simp]: "d < 10 \<Longrightarrow> is_digit (digit_char d)"
  by (simp add: is_digit_def)

lemma format_nat_digits: "list_all is_digit (format_nat n)"
  by (induction n rule: format_nat.induct) (subst format_nat.simps, simp)

lemma format_nat_Nil [simp]: "format_nat n \<noteq> []"
  by (subst format_nat.simps) simp

lemma foldl_format_nat: "foldl (\<lambda>a c. 10 * a + (byte c - 48)) 0 (format_nat n) = n"
proof (induction n rule: format_nat.induct)
  case (1 n)
  then show ?case by (cases "n < 10") (simp_all add: format_nat.simps [of n])
qed

lemma parse_format_nat [simp]: "parse_digits (format_nat n) = Some n"
  by (simp add: parse_digits_def format_nat_digits foldl_format_nat)

lemma format_nat_hd: "format_nat n = c # cs \<Longrightarrow> c \<noteq> CHR ''-'' \<and> c \<noteq> CHR ''+''"
  using format_nat_digits [of n] by (auto simp: is_digit_def byte_def)

lemma parse_format_int: "parse_signed (format_int i) = Some i"
proof (cases "i < 0")
  case False
  obtain c cs where c: "format_nat (nat i) = c # cs"
    by (cases "format_nat (nat i)") auto
  with parse_format_nat [of "nat i"] have "parse_digits (c # cs) = Some (nat i)" by simp
  with False c format_nat_hd [OF c] show ?thesis
    by (simp add: format_int_def parse_signed_def)
qed (simp add: format_int_def parse_signed_def)

lemma ParseInt_format_int [simp]:
  "- (2 ^ 63) \<le> i \<Longrightarrow> i < 2 ^ 63 \<Longrightarrow> ParseInt (format_int i) 64 = Some i"
  by (simp add: ParseInt_def parse_format_int)

section \<open>Lists and maps\<close>

lemma filter_eq_all: "(\<And>x. x \<in> set xs \<Longrightarrow> P x) \<Longrightarrow> filter P xs = xs"
  by (induction xs) auto

lemma list_all_upd: "list_all P xs \<Longrightarrow> (i < length xs \<Longrightarrow> P x) \<Longrightarrow> list_all P (xs[i := x])"
  by (cases "i < length xs") (simp_all add: list_all_length nth_list_update list_update_beyond)

lemma add_mset_subset: "A \<subseteq># B \<Longrightarrow> m \<in># B - A \<Longrightarrow> add_mset m A \<subseteq># B"
  by (auto simp: mset_subset_eq_exists_conv dest!: multi_member_split)

lemma card_dom_upd_new [simp]: "finite (dom m) \<Longrightarrow> m k = None \<Longrightarrow> card (dom (m(k \<mapsto> v))) = Suc (card (dom m))"
  by (simp add: domIff)

lemma card_dom_delete: "finite (dom m) \<Longrightarrow> m k = Some v \<Longrightarrow> card (dom (m(k := None))) = card (dom m) - 1"
  by (auto simp: domI card_Diff_singleton)

lemma card_dom_pos: "finite (dom m) \<Longrightarrow> m k = Some v \<Longrightarrow> 0 < card (dom m)"
  by (auto simp: card_gt_0_iff domIff)

lemma dom_map_option_key [simp]: "dom (\<lambda>k. map_option (f k) (m k)) = dom m"
  by (auto simp: dom_def)

lemma prefix_key_inj [simp]: "(p @ x = p @ y) = (x = (y :: string))"
  by simp

end
