(* ===== verification/Message.thy ===== *)
theory Message
  imports Prelude
begin

text \<open>
  Messages of the websocket service (\<^verbatim>\<open>internal/websocket/hub/message.go\<close>): the message and
  request types, their JSON documents as \<^verbatim>\<open>encoding/json\<close> builds and reads them from the field
  tags, and the constructor of system messages. A JSON document is its syntax tree; the
  characters on the wire are not modelled.
\<close>

section \<open>Types\<close>

text \<open>\<^verbatim>\<open>ReceivedAt\<close> is a point in time in nanoseconds, 0 for the zero \<^verbatim>\<open>time.Time\<close>.\<close>

record message =
  ID :: string
  RoomID :: string
  SenderID :: string
  Content :: string
  ClientMsgID :: string
  MType :: string
  SequenceNumber :: int
  Timestamp :: int
  ReceivedAt :: int

record incomingRequest =
  req_Content :: string
  req_ClientMsgID :: string
  req_Type :: string

definition msgTypeChat :: string where "msgTypeChat = ''chat''"
definition msgTypeConflict :: string where "msgTypeConflict = ''conflict''"
definition msgTypeSystem :: string where "msgTypeSystem = ''system''"
definition systemSenderID :: string where "systemSenderID = ''system''"

section \<open>JSON documents\<close>

datatype json = JNull | JBool bool | JNum string | JStr string | JArr "json list" | JObj "(string \<times> json) list"

text \<open>\<^verbatim>\<open>json.Marshal\<close> of a struct of strings and integers; it cannot fail. \<^verbatim>\<open>omitempty\<close> leaves out the
  empty string and 0; \<^verbatim>\<open>json:"-"\<close> leaves out the field.\<close>

definition toRawJSON :: "message \<Rightarrow> go_error + json" where
  "toRawJSON m = Inr (JObj
     ([(''id'', JStr (ID m)), (''room_id'', JStr (RoomID m)), (''sender_id'', JStr (SenderID m)),
       (''content'', JStr (Content m))] @
      (if ClientMsgID m = '''' then [] else [(''client_msg_id'', JStr (ClientMsgID m))]) @
      [(''type'', JStr (MType m)), (''sequence_number'', JNum (format_int (SequenceNumber m)))] @
      (if Timestamp m = 0 then [] else [(''timestamp'', JNum (format_int (Timestamp m)))])))"

text \<open>
  Object keys match the tag after case folding; the letter s folds with U+017F (bytes 197, 191).
\<close>

fun fold_name :: "nat list \<Rightarrow> nat list" where
  "fold_name [] = []"
| "fold_name [b] = [if 65 \<le> b \<and> b \<le> 90 then b + 32 else b]"
| "fold_name (b # c # bs) =
     (if b = 197 \<and> c = 191 then 115 # fold_name bs
      else (if 65 \<le> b \<and> b \<le> 90 then b + 32 else b) # fold_name (c # bs))"

definition key_matches :: "string \<Rightarrow> string \<Rightarrow> bool" where
  "key_matches tag k \<longleftrightarrow> fold_name (map byte k) = map byte tag"

text \<open>
  \<^verbatim>\<open>json.Unmarshal\<close> into \<^verbatim>\<open>incomingRequest\<close>: members are read in order, a later member overrides an
  earlier one, null leaves the field, unknown members are ignored, and a value of the wrong
  type is an error that is reported after the rest has been read.
\<close>

definition decode_member ::
  "(string \<times> json) \<Rightarrow> (incomingRequest \<times> bool) \<Rightarrow> (incomingRequest \<times> bool)" where
  "decode_member kv rb = (case (kv, rb) of ((k, v), (r, bad)) \<Rightarrow>
     if \<not> (key_matches ''content'' k \<or> key_matches ''client_msg_id'' k \<or> key_matches ''type'' k) then (r, bad)
     else (case v of
         JStr x \<Rightarrow> (if key_matches ''content'' k then r\<lparr>req_Content := x\<rparr>
                    else if key_matches ''client_msg_id'' k then r\<lparr>req_ClientMsgID := x\<rparr>
                    else r\<lparr>req_Type := x\<rparr>, bad)
       | JNull \<Rightarrow> (r, bad)
       | _ \<Rightarrow> (r, True)))"

definition unmarshal_incoming :: "json \<Rightarrow> go_error + incomingRequest" where
  "unmarshal_incoming j =
    (let zero = \<lparr>req_Content = '''', req_ClientMsgID = '''', req_Type = ''''\<rparr> in
     case j of
       JNull \<Rightarrow> Inr zero
     | JObj kvs \<Rightarrow> (case fold decode_member kvs (zero, False) of
           (r, bad) \<Rightarrow> if bad then Inl (ErrNew ''json: cannot unmarshal'') else Inr r)
     | _ \<Rightarrow> Inl (ErrNew ''json: cannot unmarshal''))"

section \<open>System messages\<close>

text \<open>\<open>newV7\<close> is the result of \<^verbatim>\<open>uuid.NewV7()\<close>, \<open>now\<close> of \<^verbatim>\<open>time.Now().Unix()\<close>.\<close>

definition NewSystemMessage :: "(go_error + string) \<Rightarrow> int \<Rightarrow> string \<Rightarrow> string \<Rightarrow> go_error + message" where
  "NewSystemMessage newV7 now roomID content = (case newV7 of
      Inl err \<Rightarrow> Inl (Wrap ''generate client message ID'' err)
    | Inr clientMsgID \<Rightarrow> Inr \<lparr>ID = '''', RoomID = roomID, SenderID = systemSenderID, Content = content,
        ClientMsgID = clientMsgID, MType = msgTypeSystem, SequenceNumber = 0, Timestamp = now,
        ReceivedAt = 0\<rparr>)"

section \<open>Reading a document back\<close>

lemma key_matches_tags [simp]:
  "key_matches ''content'' ''content''" "key_matches ''client_msg_id'' ''client_msg_id''"
  "key_matches ''type'' ''type''"
  by (simp_all add: key_matches_def byte_def)

lemma toRawJSON_ok: "\<exists>j. toRawJSON m = Inr j"
  by (simp add: toRawJSON_def)

lemma toRawJSON_not_Inl [simp]: "toRawJSON m \<noteq> Inl e" "Inl e \<noteq> toRawJSON m"
  by (simp_all add: toRawJSON_def)

end
