(* ===== verification/Session.thy ===== *)
theory Session
  imports Message
begin

text \<open>
  One websocket connection (\<^verbatim>\<open>internal/websocket/hub/session.go\<close>): the bounded send queue, the
  closing protocol, the read pump that validates what a client sends, and the write pump that
  empties the queue. The network connection is not modelled: the frames read and the outcomes
  of the writes are arguments, the frames written are a result. A \<^verbatim>\<open>select\<close> is resolved by an
  event of the schedule.
\<close>

section \<open>Data\<close>

text \<open>Durations and times are in nanoseconds, as in Go's \<^verbatim>\<open>time\<close> package.\<close>

record sessionConfig =
  writeWait :: int
  pongWait :: int
  pingPeriod :: int
  maxLength :: int

record egressPacket =
  pk_data :: json
  pk_senderID :: string
  pk_receivedAt :: int

record session =
  s_config :: sessionConfig
  s_senderID :: string
  s_roomID :: string
  sendCh :: "egressPacket list"
  s_closed :: bool
  s_closeCode :: int
  s_closeReason :: string

definition sendBufferSize :: nat where "sendBufferSize = 250"

definition newSession :: "sessionConfig \<Rightarrow> string \<Rightarrow> string \<Rightarrow> session" where
  "newSession cfg senderID roomID = \<lparr>s_config = cfg, s_senderID = senderID, s_roomID = roomID,
     sendCh = [], s_closed = False, s_closeCode = 0, s_closeReason = ''''\<rparr>"

section \<open>Sending and closing\<close>

definition sendWithMeta :: "json \<Rightarrow> string \<Rightarrow> int \<Rightarrow> session \<Rightarrow> session" where
  "sendWithMeta d senderID receivedAt s =
    (if s_closed s then s
     else if length (sendCh s) < sendBufferSize
       then s\<lparr>sendCh := sendCh s @ [\<lparr>pk_data = d, pk_senderID = senderID, pk_receivedAt = receivedAt\<rparr>]\<rparr>
     else s)"

definition send :: "json \<Rightarrow> session \<Rightarrow> session" where
  "send d s = sendWithMeta d '''' 0 s"

definition unix :: "int \<Rightarrow> int" where "unix now = now div 1000000000"

definition system_message :: "int \<Rightarrow> string \<Rightarrow> string \<Rightarrow> message" where
  "system_message now roomID content = \<lparr>ID = '''', RoomID = roomID, SenderID = systemSenderID,
     Content = content, ClientMsgID = '''', MType = msgTypeSystem, SequenceNumber = 0,
     Timestamp = unix now, ReceivedAt = 0\<rparr>"

definition sendSystemMessage :: "int \<Rightarrow> string \<Rightarrow> session \<Rightarrow> session" where
  "sendSystemMessage now content s = (case toRawJSON (system_message now (s_roomID s) content) of
      Inl err \<Rightarrow> s
    | Inr rawData \<Rightarrow> send rawData s)"

definition closeWithCode :: "int \<Rightarrow> string \<Rightarrow> session \<Rightarrow> session" where
  "closeWithCode code reason s =
    (if s_closed s then s else s\<lparr>s_closed := True, s_closeCode := code, s_closeReason := reason\<rparr>)"

definition close :: "session \<Rightarrow> session" where
  "close s = closeWithCode 0 '''' s"

text \<open>\<open>fmt\<close> is \<^verbatim>\<open>websocket.FormatCloseMessage\<close> of the websocket library.\<close>

definition closeMessage :: "(int \<Rightarrow> string \<Rightarrow> string) \<Rightarrow> session \<Rightarrow> string" where
  "closeMessage fmt s = (if s_closeCode s = 0 then [] else fmt (s_closeCode s) (s_closeReason s))"

definition isClosed :: "session \<Rightarrow> bool" where
  "isClosed s = s_closed s"

section \<open>The read pump\<close>

text \<open>
  A frame read from the connection: a read error, or data that is (\<open>Some\<close>) or is not (\<open>None\<close>) a
  JSON document. \<open>allow\<close> and \<open>publish\<close> are the callbacks the session was created with, over the
  state \<open>'w\<close> they change; \<open>None\<close> is a nil callback.
\<close>

datatype read_frame = ReadErr | ReadData "json option"
datatype read_next = Continue | Return

definition incoming :: "json option \<Rightarrow> go_error + incomingRequest" where
  "incoming d = (case d of None \<Rightarrow> Inl (ErrNew ''json: syntax error'') | Some j \<Rightarrow> unmarshal_incoming j)"

definition request_message :: "int \<Rightarrow> session \<Rightarrow> incomingRequest \<Rightarrow> message" where
  "request_message now s req = \<lparr>ID = '''', RoomID = s_roomID s, SenderID = s_senderID s,
     Content = req_Content req, ClientMsgID = req_ClientMsgID req,
     MType = (if req_Type req = '''' then msgTypeChat else req_Type req),
     SequenceNumber = 0, Timestamp = unix now, ReceivedAt = now\<rparr>"

definition read_iter ::
  "(string \<Rightarrow> string \<Rightarrow> 'w \<Rightarrow> bool \<times> 'w) option \<Rightarrow> (message \<Rightarrow> 'w \<Rightarrow> bool \<times> 'w) option \<Rightarrow>
   int \<Rightarrow> read_frame \<Rightarrow> session \<Rightarrow> 'w \<Rightarrow> read_next \<times> message option \<times> session \<times> 'w" where
  "read_iter allow publish now frame s w = (case frame of
      ReadErr \<Rightarrow> (Return, None, s, w)
    | ReadData data \<Rightarrow>
       (let (allowed, w1) = (case allow of None \<Rightarrow> (True, w) | Some f \<Rightarrow> f (s_senderID s) (s_roomID s) w) in
        if \<not> allowed then (Continue, None, sendSystemMessage now ''rate limit exceeded: do not spam'' s, w1)
        else (case incoming data of
            Inl err \<Rightarrow> (Continue, None, sendSystemMessage now ''invalid message format'' s, w1)
          | Inr req \<Rightarrow>
              if req_Content req = '''' \<or> req_ClientMsgID req = '''' then
                (Continue, None, sendSystemMessage now ''missing required fields: content, client_msg_id'' s, w1)
              else if 0 < maxLength (s_config s) \<and> maxLength (s_config s) < int (rune_count (req_Content req)) then
                (Continue, None, sendSystemMessage now
                   (''message too long: max '' @ format_int (maxLength (s_config s)) @ '' characters'') s, w1)
              else (case publish of
                  None \<Rightarrow> (Return, None, s, w1)
                | Some pub \<Rightarrow> (let msg = request_message now s req; (ok, w2) = pub msg w1
                     in (if ok then Continue else Return, Some msg, s, w2))))))"

text \<open>The pump over the frames that arrive, with the time of each; the messages handed to \<open>publish\<close>.\<close>

fun readPump ::
  "(string \<Rightarrow> string \<Rightarrow> 'w \<Rightarrow> bool \<times> 'w) option \<Rightarrow> (message \<Rightarrow> 'w \<Rightarrow> bool \<times> 'w) option \<Rightarrow>
   (int \<times> read_frame) list \<Rightarrow> session \<Rightarrow> 'w \<Rightarrow> message list \<times> session \<times> 'w" where
  "readPump allow publish [] s w = ([], s, w)"
| "readPump allow publish ((now, frame) # fs) s w = (case read_iter allow publish now frame s w of
     (Return, m, s', w') \<Rightarrow> (case m of None \<Rightarrow> [] | Some msg \<Rightarrow> [msg], s', w')
   | (Continue, m, s', w') \<Rightarrow> (case readPump allow publish fs s' w' of
        (ms, s'', w'') \<Rightarrow> ((case m of None \<Rightarrow> ms | Some msg \<Rightarrow> msg # ms), s'', w'')))"

section \<open>The write pump\<close>

datatype frame = TextMessage json | PingMessage | CloseMessage string

text \<open>Which case of the \<^verbatim>\<open>select\<close> is taken, and whether the write it makes succeeds.\<close>

datatype write_event = WRecv bool | WTick bool | WCtx bool

text \<open>
  A receive takes the oldest packet, or, when the queue is empty and closed, ends the pump with
  the close frame; on an empty open queue that case is not ready and nothing happens.
\<close>

fun writePump :: "(int \<Rightarrow> string \<Rightarrow> string) \<Rightarrow> write_event list \<Rightarrow> session \<Rightarrow> frame list \<times> bool \<times> session" where
  "writePump fmt [] s = ([], False, s)"
| "writePump fmt (WRecv ok # evs) s = (case sendCh s of
      [] \<Rightarrow> if s_closed s then (if ok then [CloseMessage (closeMessage fmt s)] else [], True, s)
            else writePump fmt evs s
    | pk # pks \<Rightarrow> if ok then (case writePump fmt evs (s\<lparr>sendCh := pks\<rparr>) of
          (fs, fin, s') \<Rightarrow> (TextMessage (pk_data pk) # fs, fin, s'))
        else ([], True, s\<lparr>sendCh := pks\<rparr>))"
| "writePump fmt (WTick ok # evs) s =
    (if ok then (case writePump fmt evs s of (fs, fin, s') \<Rightarrow> (PingMessage # fs, fin, s'))
     else ([], True, s))"
| "writePump fmt (WCtx ok # evs) s =
    (if isClosed s then (if ok then [CloseMessage (closeMessage fmt s)] else [], True, s)
     else ([], True, s))"

section \<open>The queue\<close>

definition session_ok :: "session \<Rightarrow> bool" where
  "session_ok s \<longleftrightarrow> length (sendCh s) \<le> sendBufferSize"

lemma session_ok_ops [simp, intro]:
  "session_ok (newSession cfg u r)"
  "session_ok s \<Longrightarrow> session_ok (sendWithMeta d u t s)"
  "session_ok s \<Longrightarrow> session_ok (send d s)"
  "session_ok s \<Longrightarrow> session_ok (sendSystemMessage now c s)"
  "session_ok s \<Longrightarrow> session_ok (closeWithCode code reason s)"
  "session_ok s \<Longrightarrow> session_ok (close s)"
  by (auto simp: session_ok_def newSession_def sendWithMeta_def send_def sendSystemMessage_def
      closeWithCode_def close_def split: sum.splits)

lemma session_frame [simp, hub_simps]:
  "s_senderID (sendWithMeta d u t s) = s_senderID s" "s_closed (sendWithMeta d u t s) = s_closed s"
  "s_senderID (send d s) = s_senderID s" "s_closed (send d s) = s_closed s"
  "s_senderID (sendSystemMessage now c s) = s_senderID s" "s_closed (sendSystemMessage now c s) = s_closed s"
  "s_roomID (sendSystemMessage now c s) = s_roomID s" "s_config (sendSystemMessage now c s) = s_config s"
  "s_senderID (closeWithCode code reason s) = s_senderID s" "s_closed (closeWithCode code reason s)"
  "s_senderID (close s) = s_senderID s" "s_closed (close s)"
  "sendCh (closeWithCode code reason s) = sendCh s" "sendCh (close s) = sendCh s"
  by (auto simp: sendWithMeta_def send_def sendSystemMessage_def closeWithCode_def close_def
      split: sum.splits)

lemma send_closed [simp]: "s_closed s \<Longrightarrow> sendWithMeta d u t s = s"
  by (simp add: sendWithMeta_def)

lemma close_once: "closeWithCode c' r' (closeWithCode c r s) = closeWithCode c r s"
  by (simp add: closeWithCode_def)

section \<open>What the pumps guarantee\<close>

definition valid_publish :: "session \<Rightarrow> message \<Rightarrow> bool" where
  "valid_publish s m \<longleftrightarrow> Content m \<noteq> '''' \<and> ClientMsgID m \<noteq> '''' \<and> MType m \<noteq> '''' \<and>
     RoomID m = s_roomID s \<and> SenderID m = s_senderID s \<and> ID m = '''' \<and> SequenceNumber m = 0 \<and>
     (0 < maxLength (s_config s) \<longrightarrow> int (rune_count (Content m)) \<le> maxLength (s_config s))"

lemma read_iter_frame:
  assumes "read_iter allow publish now frame s w = (nx, m, s', w')"
  shows "s_roomID s' = s_roomID s \<and> s_senderID s' = s_senderID s \<and> s_config s' = s_config s \<and>
    (session_ok s \<longrightarrow> session_ok s') \<and> (\<forall>msg. m = Some msg \<longrightarrow> valid_publish s msg \<and> s' = s)"
  using assms
  by (auto simp: read_iter_def valid_publish_def request_message_def msgTypeChat_def Let_def
      split: read_frame.splits option.splits prod.splits sum.splits if_splits)

lemma readPump_valid:
  "readPump allow publish fs s w = (ms, s', w') \<Longrightarrow>
   list_all (valid_publish s) ms \<and> (session_ok s \<longrightarrow> session_ok s')"
proof (induction fs arbitrary: s w ms s' w')
  case (Cons f fs)
  obtain now frame where f: "f = (now, frame)" by (cases f)
  obtain nx m s1 w1 where it: "read_iter allow publish now frame s w = (nx, m, s1, w1)" by (metis surj_pair)
  note fr = read_iter_frame [OF it]
  show ?case
  proof (cases nx)
    case Return
    with Cons.prems fr show ?thesis by (auto simp: f it split: option.splits)
  next
    case Continue
    obtain ms2 s2 w2 where r: "readPump allow publish fs s1 w1 = (ms2, s2, w2)" by (metis surj_pair)
    have "valid_publish s1 = valid_publish s" using fr by (simp add: valid_publish_def fun_eq_iff)
    with Cons.IH [OF r] Cons.prems fr Continue show ?thesis by (auto simp: f it r split: option.splits)
  qed
qed simp

text \<open>The read pump is a validator: whatever frames a client sends and whatever the callbacks
  answer, every message handed to the hub has the session's room and user, non-empty content,
  client message id and type, no id and no sequence number of the client's choosing, and at most
  \<^verbatim>\<open>maxLength\<close> code points; and the session's own queue stays within its bound.\<close>

theorem readPump_validates:
  assumes "session_ok s" "m \<in> set (fst (readPump allow publish fs s w))"
  shows "valid_publish s m \<and> session_ok (fst (snd (readPump allow publish fs s w)))"
proof -
  obtain ms s' w' where r: "readPump allow publish fs s w = (ms, s', w')" by (metis surj_pair)
  with readPump_valid [OF r] assms show ?thesis by (simp add: list_all_iff)
qed

theorem readPump_validates_witness:
  "let s = newSession \<lparr>writeWait = 1, pongWait = 1, pingPeriod = 1, maxLength = 5\<rparr> ''u1'' ''r1'';
       msg = JObj [(''content'', JStr ''hello''), (''client_msg_id'', JStr ''c1'')];
       long = JObj [(''content'', JStr ''hello!''), (''client_msg_id'', JStr ''c2'')];
       run = readPump None (Some (\<lambda>m (w::unit). (True, w))) [(0, ReadData (Some msg)), (0, ReadData (Some long))] s ()
   in length (fst run) = 1 \<and> Content (hd (fst run)) = ''hello'' \<and> valid_publish s (hd (fst run))"
proof -
  let ?s = "newSession \<lparr>writeWait = 1, pongWait = 1, pingPeriod = 1, maxLength = 5\<rparr> ''u1'' ''r1''"
  let ?pub = "Some (\<lambda>m (w::unit). (True, w))"
  let ?fs = "[(0, ReadData (Some (JObj [(''content'', JStr ''hello''), (''client_msg_id'', JStr ''c1'')]))),
      (0, ReadData (Some (JObj [(''content'', JStr ''hello!''), (''client_msg_id'', JStr ''c2'')])))]"
  have keys: "\<not> key_matches ''content'' ''client_msg_id''" "key_matches ''content'' ''content''"
    by (simp_all add: key_matches_def byte_def)
  have runes: "rune_count ''hello'' = 5" "rune_count ''hello!'' = 6"
    by (simp_all add: rune_count_def runes_def byte_def runes_of_ascii)
  obtain m where m: "fst (readPump None ?pub ?fs ?s ()) = [m]" "Content m = ''hello''"
    by (simp add: read_iter_def incoming_def unmarshal_incoming_def decode_member_def keys runes
        newSession_def request_message_def)
  with readPump_validates [of ?s m None ?pub ?fs "()"] show ?thesis by (simp add: Let_def)
qed

text \<open>What is left in the queue of a closed session is written in order, then the close frame.\<close>

lemma writePump_flush:
  "sendCh s = pks \<Longrightarrow> s_closed s \<Longrightarrow> length pks < n \<Longrightarrow>
   writePump fmt (replicate n (WRecv True)) s =
     (map (TextMessage \<circ> pk_data) pks @ [CloseMessage (closeMessage fmt s)], True, s\<lparr>sendCh := []\<rparr>)"
proof (induction pks arbitrary: s n)
  case Nil
  then obtain k where "n = Suc k" by (cases n) auto
  with Nil show ?case by (cases s) simp
next
  case (Cons pk pks)
  then obtain k where "n = Suc k" by (cases n) auto
  with Cons.prems Cons.IH [of "s\<lparr>sendCh := pks\<rparr>" k] show ?case by (simp add: closeMessage_def)
qed

text \<open>Closing a session loses nothing that was queued and tells the client why: after
  \<^verbatim>\<open>closeWithCode\<close>, later sends and closes have no effect, and the write pump writes every packet
  queued before the close, oldest first, followed by exactly one close frame with the code
  and reason of the first close.\<close>

theorem close_flushes:
  assumes "\<not> s_closed s" "code \<noteq> 0" "length (sendCh s) < n"
  shows "writePump fmt (replicate n (WRecv True))
      (closeWithCode c' r' (sendWithMeta d u t (closeWithCode code reason s))) =
    (map (TextMessage \<circ> pk_data) (sendCh s) @ [CloseMessage (fmt code reason)], True,
     (closeWithCode code reason s)\<lparr>sendCh := []\<rparr>)"
proof -
  have "closeMessage fmt (closeWithCode code reason s) = fmt code reason"
    using assms by (simp add: closeMessage_def closeWithCode_def)
  with writePump_flush [of "closeWithCode code reason s" "sendCh s" n fmt] assms
  show ?thesis by (simp add: close_once)
qed

theorem close_flushes_witness:
  "let s = send (JStr ''x'') (newSession \<lparr>writeWait = 1, pongWait = 1, pingPeriod = 1, maxLength = 5\<rparr> ''u1'' ''r1'')
   in fst (writePump (\<lambda>c r. r) [WRecv True, WRecv True]
        (closeWithCode 0 '''' (sendWithMeta JNull ''u2'' 0 (closeWithCode 1012 ''room owner handoff'' s)))) =
      [TextMessage (JStr ''x''), CloseMessage ''room owner handoff'']"
  using close_flushes [of "send (JStr ''x'') (newSession \<lparr>writeWait = 1, pongWait = 1, pingPeriod = 1,
      maxLength = 5\<rparr> ''u1'' ''r1'')" 1012 2 "\<lambda>c r. r" 0 "''''" JNull "''u2''" 0 "''room owner handoff''"]
  by (simp add: newSession_def send_def sendWithMeta_def sendBufferSize_def numeral_2_eq_2 del: writePump.simps)

end
