(* ===== verification/Redis.thy ===== *)
theory Redis
  imports Prelude "HOL-Library.Finite_Map" "HOL-Library.List_Lexorder" "HOL-Library.Char_ord"
begin

text \<open>
  The Redis server as the services see it. Redis is not part of the repository, so its
  commands are a parameter: a record of operations on an abstract server state, and a locale
  that states the documented effect of each command on the live keyspace (the keys that have
  not expired, with their value and expiry time). The Lua scripts of the repository are
  translated, in the theories of the components that own them, into sequences of these
  commands; a script runs atomically, so the server's clock does not move inside one.
  An in-memory server shows that the laws can hold and evaluates the concrete examples.
\<close>

section \<open>Commands\<close>

datatype rvalue =
    RStr string
  | RHash "string \<rightharpoonup> string"
  | RZSet "(string, int) fmap"

text \<open>A live key: its value and the time (in ms, server clock) at which it expires.\<close>

type_synonym rentry = "rvalue \<times> int option"
type_synonym keyspace = "string \<Rightarrow> rentry option"

record 'r redis_api =
  r_exists :: "'r \<Rightarrow> string \<Rightarrow> bool"
  r_get :: "'r \<Rightarrow> string \<Rightarrow> string option"
  r_set :: "'r \<Rightarrow> string \<Rightarrow> string \<Rightarrow> int option \<Rightarrow> 'r"
  r_setnx :: "'r \<Rightarrow> string \<Rightarrow> string \<Rightarrow> int \<Rightarrow> bool \<times> 'r"
  r_getdel :: "'r \<Rightarrow> string \<Rightarrow> string option \<times> 'r"
  r_del :: "'r \<Rightarrow> string \<Rightarrow> int \<times> 'r"
  r_hset :: "'r \<Rightarrow> string \<Rightarrow> (string \<times> string) list \<Rightarrow> 'r"
  r_hget :: "'r \<Rightarrow> string \<Rightarrow> string \<Rightarrow> string option"
  r_pexpire :: "'r \<Rightarrow> string \<Rightarrow> int \<Rightarrow> 'r"
  r_pttl :: "'r \<Rightarrow> string \<Rightarrow> int"
  r_zadd :: "'r \<Rightarrow> string \<Rightarrow> int \<Rightarrow> string \<Rightarrow> 'r"
  r_zrem :: "'r \<Rightarrow> string \<Rightarrow> string \<Rightarrow> 'r"
  r_zremrangebyscore :: "'r \<Rightarrow> string \<Rightarrow> int \<Rightarrow> 'r"
  r_zrange :: "'r \<Rightarrow> string \<Rightarrow> string list"
  r_tonumber :: "string \<Rightarrow> int"
  r_tick :: "'r \<Rightarrow> int \<Rightarrow> 'r"

text \<open>An aggregate that becomes empty is removed with its key.\<close>

definition zset_entry :: "(string, int) fmap \<Rightarrow> int option \<Rightarrow> rentry option" where
  "zset_entry z e = (if z = fmempty then None else Some (RZSet z, e))"

text \<open>The members of a sorted set with a score above a bound.\<close>

definition zset_above :: "int \<Rightarrow> (string, int) fmap \<Rightarrow> (string, int) fmap" where
  "zset_above mx z = fmfilter (\<lambda>m. \<exists>sc. fmlookup z m = Some sc \<and> mx < sc) z"

lemma zset_above_lookup [simp]:
  "fmlookup (zset_above mx z) m = (case fmlookup z m of Some sc \<Rightarrow> if mx < sc then Some sc else None | None \<Rightarrow> None)"
  by (auto simp: zset_above_def split: option.splits)

section \<open>Documented behaviour\<close>

locale redis =
  fixes api :: "'r redis_api"
    and view :: "'r \<Rightarrow> keyspace"
    and clock :: "'r \<Rightarrow> int"
  assumes exists_law: "r_exists api s k \<longleftrightarrow> view s k \<noteq> None"
    and get_none: "view s k = None \<Longrightarrow> r_get api s k = None"
    and get_str: "view s k = Some (RStr v, e) \<Longrightarrow> r_get api s k = Some v"
    and set_plain: "view (r_set api s k v None) = (view s)(k \<mapsto> (RStr v, None))"
    and set_px: "0 < ms \<Longrightarrow> view (r_set api s k v (Some ms)) = (view s)(k \<mapsto> (RStr v, Some (clock s + ms)))"
    and setnx_new: "view s k = None \<Longrightarrow> 0 < ms \<Longrightarrow> fst (r_setnx api s k v ms) \<and>
          view (snd (r_setnx api s k v ms)) = (view s)(k \<mapsto> (RStr v, Some (clock s + ms)))"
    and setnx_old: "view s k \<noteq> None \<Longrightarrow> \<not> fst (r_setnx api s k v ms) \<and>
          view (snd (r_setnx api s k v ms)) = view s"
    and getdel_none: "view s k = None \<Longrightarrow> fst (r_getdel api s k) = None"
    and getdel_str: "view s k = Some (RStr v, e) \<Longrightarrow> fst (r_getdel api s k) = Some v"
    and getdel_view: "view s k = None \<or> (\<exists>v e. view s k = Some (RStr v, e)) \<Longrightarrow>
          view (snd (r_getdel api s k)) = (view s)(k := None)"
    and del_count: "fst (r_del api s k) = (if view s k = None then 0 else 1)"
    and del_view: "view (snd (r_del api s k)) = (view s)(k := None)"
    and hset_new: "view s k = None \<Longrightarrow>
          view (r_hset api s k fs) = (view s)(k \<mapsto> (RHash (map_of (rev fs)), None))"
    and hset_old: "view s k = Some (RHash h, e) \<Longrightarrow>
          view (r_hset api s k fs) = (view s)(k \<mapsto> (RHash (h ++ map_of (rev fs)), e))"
    and hget_none: "view s k = None \<Longrightarrow> r_hget api s k f = None"
    and hget_hash: "view s k = Some (RHash h, e) \<Longrightarrow> r_hget api s k f = h f"
    and pexpire_live: "view s k = Some (w, e) \<Longrightarrow> 0 < ms \<Longrightarrow>
          view (r_pexpire api s k ms) = (view s)(k \<mapsto> (w, Some (clock s + ms)))"
    and pexpire_none: "view s k = None \<Longrightarrow> view (r_pexpire api s k ms) = view s"
    and pttl_expiring: "view s k = Some (w, Some t) \<Longrightarrow> r_pttl api s k = t - clock s"
    and pttl_plain: "view s k = Some (w, None) \<Longrightarrow> r_pttl api s k = -1"
    and pttl_none: "view s k = None \<Longrightarrow> r_pttl api s k = -2"
    and zadd_new: "view s k = None \<Longrightarrow>
          view (r_zadd api s k sc m) = (view s)(k \<mapsto> (RZSet (fmupd m sc fmempty), None))"
    and zadd_old: "view s k = Some (RZSet z, e) \<Longrightarrow>
          view (r_zadd api s k sc m) = (view s)(k \<mapsto> (RZSet (fmupd m sc z), e))"
    and zrem_none: "view s k = None \<Longrightarrow> view (r_zrem api s k m) = view s"
    and zrem_old: "view s k = Some (RZSet z, e) \<Longrightarrow>
          view (r_zrem api s k m) = (view s)(k := zset_entry (fmdrop m z) e)"
    and zremrange_none: "view s k = None \<Longrightarrow> view (r_zremrangebyscore api s k mx) = view s"
    and zremrange_old: "view s k = Some (RZSet z, e) \<Longrightarrow>
          view (r_zremrangebyscore api s k mx) =
            (view s)(k := zset_entry (zset_above mx z) e)"
    and zrange_none: "view s k = None \<Longrightarrow> r_zrange api s k = []"
    and zrange_old: "view s k = Some (RZSet z, e) \<Longrightarrow> set (r_zrange api s k) = fset (fmdom z)"
    and tonumber_law: "\<bar>n\<bar> \<le> 2 ^ 53 \<Longrightarrow> r_tonumber api (format_int n) = n"
    and clock_set [simp]: "clock (r_set api s k v px) = clock s"
    and clock_setnx [simp]: "clock (snd (r_setnx api s k v ms)) = clock s"
    and clock_getdel [simp]: "clock (snd (r_getdel api s k)) = clock s"
    and clock_del [simp]: "clock (snd (r_del api s k)) = clock s"
    and clock_hset [simp]: "clock (r_hset api s k fs) = clock s"
    and clock_pexpire [simp]: "clock (r_pexpire api s k ms) = clock s"
    and clock_zadd [simp]: "clock (r_zadd api s k sc m) = clock s"
    and clock_zrem [simp]: "clock (r_zrem api s k m) = clock s"
    and clock_zremrange [simp]: "clock (r_zremrangebyscore api s k mx) = clock s"
    and clock_tick [simp]: "clock (r_tick api s d) = clock s + d"
    and tick_keeps: "0 \<le> d \<Longrightarrow> view s k = Some (w, e) \<Longrightarrow> (\<forall>t. e = Some t \<longrightarrow> clock s + d < t) \<Longrightarrow>
          view (r_tick api s d) k = Some (w, e)"
    and tick_expires: "0 \<le> d \<Longrightarrow> view s k = Some (w, Some t) \<Longrightarrow> t < clock s + d \<Longrightarrow>
          view (r_tick api s d) k = None"
    and tick_sub: "0 \<le> d \<Longrightarrow> view (r_tick api s d) k = None \<or> view (r_tick api s d) k = view s k"

section \<open>An in-memory server\<close>

record mem_redis =
  mem_clock :: int
  mem_keys :: keyspace

definition mem_put :: "mem_redis \<Rightarrow> string \<Rightarrow> rentry option \<Rightarrow> mem_redis" where
  "mem_put s k e = s\<lparr>mem_keys := (mem_keys s)(k := e)\<rparr>"

definition mem_str :: "mem_redis \<Rightarrow> string \<Rightarrow> string option" where
  "mem_str s k = (case mem_keys s k of Some (RStr v, _) \<Rightarrow> Some v | _ \<Rightarrow> None)"

definition mem_hash :: "mem_redis \<Rightarrow> string \<Rightarrow> string \<rightharpoonup> string" where
  "mem_hash s k = (case mem_keys s k of Some (RHash h, _) \<Rightarrow> h | _ \<Rightarrow> Map.empty)"

definition mem_zset :: "mem_redis \<Rightarrow> string \<Rightarrow> (string, int) fmap" where
  "mem_zset s k = (case mem_keys s k of Some (RZSet z, _) \<Rightarrow> z | _ \<Rightarrow> fmempty)"

definition mem_expiry :: "mem_redis \<Rightarrow> string \<Rightarrow> int option" where
  "mem_expiry s k = (case mem_keys s k of Some (_, e) \<Rightarrow> e | None \<Rightarrow> None)"

definition mem_tick :: "mem_redis \<Rightarrow> int \<Rightarrow> mem_redis" where
  "mem_tick s d = \<lparr>mem_clock = mem_clock s + d,
     mem_keys = (\<lambda>k. case mem_keys s k of
        Some (v, Some t) \<Rightarrow> if t < mem_clock s + d then None else Some (v, Some t)
      | e \<Rightarrow> e)\<rparr>"

definition mem_api :: "mem_redis redis_api" where
  "mem_api = \<lparr>
     r_exists = (\<lambda>s k. mem_keys s k \<noteq> None),
     r_get = mem_str,
     r_set = (\<lambda>s k v px. mem_put s k (Some (RStr v, map_option (\<lambda>ms. mem_clock s + ms) px))),
     r_setnx = (\<lambda>s k v ms. if mem_keys s k = None
        then (True, mem_put s k (Some (RStr v, Some (mem_clock s + ms)))) else (False, s)),
     r_getdel = (\<lambda>s k. (mem_str s k, mem_put s k None)),
     r_del = (\<lambda>s k. (if mem_keys s k = None then 0 else 1, mem_put s k None)),
     r_hset = (\<lambda>s k fs. mem_put s k (Some (RHash (mem_hash s k ++ map_of (rev fs)), mem_expiry s k))),
     r_hget = mem_hash,
     r_pexpire = (\<lambda>s k ms. mem_put s k (map_option (\<lambda>(v, e). (v, Some (mem_clock s + ms))) (mem_keys s k))),
     r_pttl = (\<lambda>s k. case mem_keys s k of None \<Rightarrow> -2 | Some (v, None) \<Rightarrow> -1 | Some (v, Some t) \<Rightarrow> t - mem_clock s),
     r_zadd = (\<lambda>s k sc m. mem_put s k (Some (RZSet (fmupd m sc (mem_zset s k)), mem_expiry s k))),
     r_zrem = (\<lambda>s k m. if mem_keys s k = None then s
        else mem_put s k (zset_entry (fmdrop m (mem_zset s k)) (mem_expiry s k))),
     r_zremrangebyscore = (\<lambda>s k mx. if mem_keys s k = None then s
        else mem_put s k (zset_entry (zset_above mx (mem_zset s k)) (mem_expiry s k))),
     r_zrange = (\<lambda>s k. sorted_list_of_fset (fmdom (mem_zset s k))),
     r_tonumber = (\<lambda>t. case parse_signed t of Some i \<Rightarrow> i | None \<Rightarrow> 0),
     r_tick = mem_tick\<rparr>"

lemmas mem_defs = mem_api_def mem_put_def mem_str_def mem_hash_def mem_zset_def mem_expiry_def

lemma mem_zset_eq [simp]: "mem_keys s k = Some (RZSet z, e) \<Longrightarrow> mem_zset s k = z"
  by (simp add: mem_zset_def)

lemma sorted_list_of_fset_empty [simp]: "sorted_list_of_fset {||} = []"
  by (simp add: sorted_list_of_fset.rep_eq)

interpretation mem: redis mem_api mem_keys mem_clock
  by unfold_locales
    (auto simp: mem_defs mem_tick_def parse_format_int fun_eq_iff split: option.splits prod.splits)

end
