(* ===== verification/Room_Seq.thy ===== *)
theory Room_Seq
  imports Redis Message
begin

text \<open>
  The sequence floor of a room: the highest sequence number that an owner recorded before it
  gave the room away although some numbers were not yet persisted. The Redis store
  (\<^verbatim>\<open>internal/websocket/roomseq/redis.go\<close>), its contract as a locale, and the message store that
  starts a room above both the persisted numbers and the floor
  (\<^verbatim>\<open>internal/websocket/hub/sequence_floor.go\<close>).
\<close>

section \<open>The Redis store\<close>

record seq_store =
  ss_keyPrefix :: string

definition NewSeqStore :: "string \<Rightarrow> seq_store" where
  "NewSeqStore keyPrefix = \<lparr>ss_keyPrefix = keyPrefix\<rparr>"

definition seq_key :: "seq_store \<Rightarrow> string \<Rightarrow> string" where
  "seq_key st roomID = ss_keyPrefix st @ roomID"

definition setMaxLua :: "'r redis_api \<Rightarrow> string \<Rightarrow> string \<Rightarrow> 'r \<Rightarrow> int \<times> 'r" where
  "setMaxLua api key arg1 s =
     (let current = r_get api s key in
      if current = None \<or> r_tonumber api (the current) < r_tonumber api arg1
      then (1, r_set api s key arg1 None)
      else (0, s))"

definition seq_Get ::
  "'r redis_api \<Rightarrow> seq_store option \<Rightarrow> net \<Rightarrow> string \<Rightarrow> 'r \<Rightarrow> (go_error + int) \<times> 'r" where
  "seq_Get api sto n roomID s = (case sto of
      None \<Rightarrow> (Inl (ErrNew ''room sequence floor store is nil''), s)
    | Some st \<Rightarrow> (case net_call n (\<lambda>s. (r_get api s (seq_key st roomID), s)) s of
        (Inl err, s') \<Rightarrow> (Inl (Wrap ''get room sequence floor'' err), s')
      | (Inr None, s') \<Rightarrow> (Inr 0, s')
      | (Inr (Some value), s') \<Rightarrow> (case ParseInt value 64 of
            None \<Rightarrow> (Inl (Wrap ''parse room sequence floor'' (ErrNew ''invalid syntax'')), s')
          | Some seq \<Rightarrow> (Inr seq, s'))))"

definition SetMax ::
  "'r redis_api \<Rightarrow> seq_store option \<Rightarrow> net \<Rightarrow> string \<Rightarrow> int \<Rightarrow> 'r \<Rightarrow> go_error option \<times> 'r" where
  "SetMax api sto n roomID seq s = (case sto of
      None \<Rightarrow> (Some (ErrNew ''room sequence floor store is nil''), s)
    | Some st \<Rightarrow>
        if seq \<le> 0 then (None, s)
        else (case net_call n (setMaxLua api (seq_key st roomID) (format_int seq)) s of
            (Inl err, s') \<Rightarrow> (Some (Wrap ''set room sequence floor'' err), s')
          | (Inr _, s') \<Rightarrow> (None, s')))"

section \<open>The contract\<close>

text \<open>
  What a client of \<^verbatim>\<open>SequenceFloorStore\<close> relies on: a successful read is the floor, a recorded
  number raises the floor of that room to at least the number and no other floor, and a call
  that failed has either happened or not.
\<close>

datatype floor_op = Record net string int | Wait int

fun floor_op_ok :: "floor_op \<Rightarrow> bool" where
  "floor_op_ok (Record n room seq) = (seq \<le> 2 ^ 53)"
| "floor_op_ok (Wait d) = (0 \<le> d)"

fun floor_run :: "(net \<Rightarrow> string \<Rightarrow> int \<Rightarrow> 's \<Rightarrow> go_error option \<times> 's) \<Rightarrow> ('s \<Rightarrow> int \<Rightarrow> 's) \<Rightarrow>
    floor_op list \<Rightarrow> 's \<Rightarrow> 's" where
  "floor_run set_max wait [] s = s"
| "floor_run set_max wait (Record n room seq # ops) s =
     floor_run set_max wait ops (snd (set_max n room seq s))"
| "floor_run set_max wait (Wait d # ops) s = floor_run set_max wait ops (wait s d)"

locale floor_contract =
  fixes get :: "net \<Rightarrow> string \<Rightarrow> 's \<Rightarrow> (go_error + int) \<times> 's"
    and set_max :: "net \<Rightarrow> string \<Rightarrow> int \<Rightarrow> 's \<Rightarrow> go_error option \<times> 's"
    and wait :: "'s \<Rightarrow> int \<Rightarrow> 's"
    and floor :: "'s \<Rightarrow> string \<Rightarrow> int"
    and wf :: "'s \<Rightarrow> bool"
  assumes get_value: "wf s \<Longrightarrow> get n room s = (Inr v, s') \<Longrightarrow> v = floor s room"
    and get_state: "wf s \<Longrightarrow> floor (snd (get n room s)) = floor s \<and> wf (snd (get n room s))"
    and set_max_wf: "wf s \<Longrightarrow> seq \<le> 2 ^ 53 \<Longrightarrow> wf (snd (set_max n room seq s))"
    and set_max_ok: "wf s \<Longrightarrow> 0 < seq \<Longrightarrow> seq \<le> 2 ^ 53 \<Longrightarrow> set_max n room seq s = (None, s') \<Longrightarrow>
          floor s' = (floor s)(room := max (floor s room) seq)"
    and set_max_any: "wf s \<Longrightarrow> seq \<le> 2 ^ 53 \<Longrightarrow> set_max n room seq s = (r, s') \<Longrightarrow>
          floor s' = floor s \<or> (0 < seq \<and> floor s' = (floor s)(room := max (floor s room) seq))"
    and wait_keeps: "wf s \<Longrightarrow> 0 \<le> d \<Longrightarrow> wf (wait s d) \<and> floor (wait s d) = floor s"
begin

text \<open>Recording numbers never lowers a floor, whatever the outcomes.\<close>

lemma set_max_mono:
  assumes "wf s" "seq \<le> 2 ^ 53"
  shows "floor s room' \<le> floor (snd (set_max n room seq s)) room'"
proof -
  obtain r s' where "set_max n room seq s = (r, s')" by fastforce
  with set_max_any [OF assms this] show ?thesis by auto
qed

lemma recorded_mono:
  assumes "wf s" "list_all floor_op_ok ops"
  shows "wf (floor_run set_max wait ops s) \<and> floor s room' \<le> floor (floor_run set_max wait ops s) room'"
  using assms
proof (induction ops arbitrary: s)
  case (Cons op ops)
  show ?case
  proof (cases op)
    case (Record n room seq)
    with Cons.prems have seq: "seq \<le> 2 ^ 53" by simp
    from Cons.IH [OF set_max_wf [OF Cons.prems(1) seq]] set_max_mono [OF Cons.prems(1) seq] Cons.prems(2)
    show ?thesis by (fastforce simp: Record intro: order_trans)
  next
    case (Wait d)
    with Cons.IH [of "wait s d"] wait_keeps [OF Cons.prems(1)] Cons.prems(2) show ?thesis by simp
  qed
qed simp

text \<open>A number that was recorded is below every later successful read.\<close>

lemma recorded_visible:
  assumes wf: "wf s" and seq: "0 < seq" "seq \<le> 2 ^ 53" and ok: "fst (set_max n room seq s) = None"
    and ops: "list_all floor_op_ok ops"
    and get: "fst (get n' room (floor_run set_max wait ops (snd (set_max n room seq s)))) = Inr v"
  shows "seq \<le> v"
proof -
  let ?s1 = "snd (set_max n room seq s)"
  let ?s2 = "floor_run set_max wait ops ?s1"
  have "seq \<le> floor ?s1 room"
    using set_max_ok [OF wf seq, of n room ?s1] ok by (simp add: prod_eq_iff)
  also have "\<dots> \<le> floor ?s2 room" and "wf ?s2"
    using recorded_mono [OF set_max_wf [OF wf seq(2)] ops, of n room room] by auto
  moreover have "v = floor ?s2 room"
    using get_value [OF \<open>wf ?s2\<close>, of n' room v "snd (get n' room ?s2)"] get by (simp add: prod_eq_iff)
  ultimately show ?thesis by simp
qed

end

section \<open>The Redis store meets the contract\<close>

definition seq_keyspace :: "string \<Rightarrow> keyspace \<Rightarrow> bool" where
  "seq_keyspace p ks \<longleftrightarrow> (\<forall>room. ks (p @ room) = None \<or>
     (\<exists>n. ks (p @ room) = Some (RStr (format_int n), None) \<and> 0 < n \<and> n \<le> 2 ^ 53))"

definition seq_floor :: "string \<Rightarrow> keyspace \<Rightarrow> string \<Rightarrow> int" where
  "seq_floor p ks room = (case ks (p @ room) of
      Some (RStr v, _) \<Rightarrow> (case ParseInt v 64 of Some i \<Rightarrow> i | None \<Rightarrow> 0)
    | _ \<Rightarrow> 0)"

lemma seq_keyspaceE:
  assumes "seq_keyspace p ks"
  obtains "ks (p @ room) = None"
  | n where "ks (p @ room) = Some (RStr (format_int n), None)" "0 < n" "n \<le> 2 ^ 53"
  using assms [unfolded seq_keyspace_def, rule_format, of room] by (elim disjE exE conjE)

lemma seq_floor_none [simp]: "ks (p @ room) = None \<Longrightarrow> seq_floor p ks room = 0"
  by (simp add: seq_floor_def)

lemma seq_floor_some [simp]:
  "ks (p @ room) = Some (RStr (format_int n), e) \<Longrightarrow> 0 < n \<Longrightarrow> n \<le> 2 ^ 53 \<Longrightarrow> seq_floor p ks room = n"
  by (simp add: seq_floor_def)

lemma seq_floor_upd:
  "0 < n \<Longrightarrow> n \<le> 2 ^ 53 \<Longrightarrow>
   seq_floor p (ks(p @ room \<mapsto> (RStr (format_int n), e))) = (seq_floor p ks)(room := n)"
  by (rule ext) (simp add: seq_floor_def)

lemma seq_keyspace_upd:
  "seq_keyspace p ks \<Longrightarrow> 0 < n \<Longrightarrow> n \<le> 2 ^ 53 \<Longrightarrow>
   seq_keyspace p (ks(p @ room \<mapsto> (RStr (format_int n), None)))"
  by (auto simp: seq_keyspace_def)

lemma setMaxLua_eff:
  fixes room :: string
  assumes R: "redis api view clock" and wf: "seq_keyspace p (view s)" and seq: "0 < seq" "seq \<le> 2 ^ 53"
  defines "s' \<equiv> snd (setMaxLua api (p @ room) (format_int seq) s)"
  shows "seq_keyspace p (view s')"
    and "seq_floor p (view s') = (seq_floor p (view s))(room := max (seq_floor p (view s) room) seq)"
proof -
  consider (new) "view s (p @ room) = None"
    | (old) n where "view s (p @ room) = Some (RStr (format_int n), None)" "0 < n" "n \<le> 2 ^ 53"
    by (rule seq_keyspaceE [OF wf])
  then have "seq_keyspace p (view s') \<and>
    seq_floor p (view s') = (seq_floor p (view s))(room := max (seq_floor p (view s) room) seq)"
  proof cases
    case new
    then have "view s' = (view s)(p @ room \<mapsto> (RStr (format_int seq), None))"
      by (simp add: s'_def setMaxLua_def redis.get_none [OF R] redis.set_plain [OF R])
    with seq wf new show ?thesis by (simp add: seq_floor_upd seq_keyspace_upd)
  next
    case (old n)
    then have "view s' = (if n < seq then (view s)(p @ room \<mapsto> (RStr (format_int seq), None)) else view s)"
      using seq by (simp add: s'_def setMaxLua_def redis.get_str [OF R] redis.set_plain [OF R]
          redis.tonumber_law [OF R])
    with seq wf old show ?thesis
      by (auto simp: seq_floor_upd seq_keyspace_upd max_def fun_upd_idem)
  qed
  then show "seq_keyspace p (view s')"
    and "seq_floor p (view s') = (seq_floor p (view s))(room := max (seq_floor p (view s) room) seq)"
    by auto
qed

lemma seq_Get_value:
  assumes "redis api view clock" "seq_keyspace p (view s)"
    "seq_Get api (Some (NewSeqStore p)) n room s = (Inr v, s')"
  shows "v = seq_floor p (view s) room"
proof -
  from assms(2) consider "view s (p @ room) = None"
    | m where "view s (p @ room) = Some (RStr (format_int m), None)" "0 < m" "m \<le> 2 ^ 53"
    by (rule seq_keyspaceE)
  then show ?thesis
    using assms(3) by cases (cases n; simp add: seq_Get_def NewSeqStore_def seq_key_def
        redis.get_none [OF assms(1)] redis.get_str [OF assms(1)])+
qed

lemma seq_Get_state [simp]: "snd (seq_Get api sto n room s) = s"
  by (cases n) (auto simp: seq_Get_def split: option.splits)

lemma SetMax_state:
  "SetMax api (Some (NewSeqStore p)) n room seq s = (r, s') \<Longrightarrow>
   s' = s \<or> (0 < seq \<and> s' = snd (setMaxLua api (p @ room) (format_int seq) s))"
  by (cases n) (auto simp: SetMax_def NewSeqStore_def seq_key_def split: if_splits)

lemma SetMax_ok:
  "SetMax api (Some (NewSeqStore p)) n room seq s = (None, s') \<Longrightarrow> 0 < seq \<Longrightarrow>
   s' = snd (setMaxLua api (p @ room) (format_int seq) s)"
  by (cases n) (auto simp: SetMax_def NewSeqStore_def seq_key_def)

lemma seq_tick:
  assumes "redis api view clock" "seq_keyspace p (view s)" "0 \<le> d"
  shows "view (r_tick api s d) (p @ room) = view s (p @ room)"
proof (rule seq_keyspaceE [OF assms(2), of room])
  assume "view s (p @ room) = None"
  with redis.tick_sub [OF assms(1,3), of s "p @ room"] show ?thesis by auto
next
  fix n
  assume "view s (p @ room) = Some (RStr (format_int n), None)"
  with redis.tick_keeps [OF assms(1,3), of s "p @ room" _ None] show ?thesis by simp
qed

text \<open>The store on any server that follows the documentation is a sequence floor store.\<close>

lemma redis_floor_contract:
  assumes R: "redis api view clock"
  shows "floor_contract (seq_Get api (Some (NewSeqStore p))) (SetMax api (Some (NewSeqStore p)))
    (r_tick api) (\<lambda>s. seq_floor p (view s)) (\<lambda>s. seq_keyspace p (view s))"
proof
  fix s n room seq v s' d r
  assume wf: "seq_keyspace p (view s)"
  show "seq_Get api (Some (NewSeqStore p)) n room s = (Inr v, s') \<Longrightarrow> v = seq_floor p (view s) room"
    by (rule seq_Get_value [OF R wf])
  show "seq_floor p (view (snd (seq_Get api (Some (NewSeqStore p)) n room s))) = seq_floor p (view s) \<and>
    seq_keyspace p (view (snd (seq_Get api (Some (NewSeqStore p)) n room s)))"
    using wf by simp
  show "seq_keyspace p (view (snd (SetMax api (Some (NewSeqStore p)) n room seq s)))" if "seq \<le> 2 ^ 53"
    using SetMax_state [OF surjective_pairing, of api p n room seq s] setMaxLua_eff(1) [OF R wf] wf that by auto
  show "seq_floor p (view s') = (seq_floor p (view s))(room := max (seq_floor p (view s) room) seq)"
    if "0 < seq" "seq \<le> 2 ^ 53" "SetMax api (Some (NewSeqStore p)) n room seq s = (None, s')"
    using SetMax_ok [OF that(3,1)] setMaxLua_eff(2) [OF R wf that(1,2)] by simp
  show "seq_floor p (view s') = seq_floor p (view s) \<or>
      (0 < seq \<and> seq_floor p (view s') = (seq_floor p (view s))(room := max (seq_floor p (view s) room) seq))"
    if "seq \<le> 2 ^ 53" "SetMax api (Some (NewSeqStore p)) n room seq s = (r, s')"
    using SetMax_state [OF that(2)] setMaxLua_eff(2) [OF R wf _ that(1)] by auto
  show "seq_keyspace p (view (r_tick api s d)) \<and> seq_floor p (view (r_tick api s d)) = seq_floor p (view s)"
    if "0 \<le> d"
    using seq_tick [OF R wf that] wf by (simp add: seq_keyspace_def seq_floor_def fun_eq_iff)
qed

definition sequenceFloorPrefix :: string where
  "sequenceFloorPrefix = ''wss:room:seqfloor:''"

interpretation mem_floor: floor_contract
  "seq_Get mem_api (Some (NewSeqStore sequenceFloorPrefix))" "SetMax mem_api (Some (NewSeqStore sequenceFloorPrefix))"
  "r_tick mem_api" "\<lambda>s. seq_floor sequenceFloorPrefix (mem_keys s)" "\<lambda>s. seq_keyspace sequenceFloorPrefix (mem_keys s)"
  by (rule redis_floor_contract [OF mem.redis_axioms])

section \<open>The message store with a floor\<close>

text \<open>The interfaces \<^verbatim>\<open>MessageStore\<close> and \<^verbatim>\<open>SequenceFloorStore\<close> of the hub package, over a state of the
  services behind them.\<close>

record 'w MessageStore =
  ms_GetLastSequenceNumber :: "string \<Rightarrow> 'w \<Rightarrow> (go_error + int) \<times> 'w"
  ms_SaveMany :: "message list \<Rightarrow> 'w \<Rightarrow> go_error option \<times> 'w"

record 'w SequenceFloorStore =
  fs_Get :: "string \<Rightarrow> 'w \<Rightarrow> (go_error + int) \<times> 'w"
  fs_SetMax :: "string \<Rightarrow> int \<Rightarrow> 'w \<Rightarrow> go_error option \<times> 'w"

definition sfms_GetLastSequenceNumber ::
  "'w MessageStore \<Rightarrow> 'w SequenceFloorStore \<Rightarrow> string \<Rightarrow> 'w \<Rightarrow> (go_error + int) \<times> 'w" where
  "sfms_GetLastSequenceNumber base fstore roomID w =
    (case ms_GetLastSequenceNumber base roomID w of
       (Inl err, w1) \<Rightarrow> (Inl err, w1)
     | (Inr seq, w1) \<Rightarrow> (case fs_Get fstore roomID w1 of
         (Inl err, w2) \<Rightarrow> (Inl err, w2)
       | (Inr fl, w2) \<Rightarrow> (Inr (max seq fl), w2)))"

definition sfms_SaveMany :: "'w MessageStore \<Rightarrow> message list \<Rightarrow> 'w \<Rightarrow> go_error option \<times> 'w" where
  "sfms_SaveMany base msgs w = ms_SaveMany base msgs w"

definition sequenceFloorMessageStore :: "'w MessageStore \<Rightarrow> 'w SequenceFloorStore \<Rightarrow> 'w MessageStore" where
  "sequenceFloorMessageStore base fstore =
    \<lparr>ms_GetLastSequenceNumber = sfms_GetLastSequenceNumber base fstore, ms_SaveMany = sfms_SaveMany base\<rparr>"

lemma sfms_last:
  "ms_GetLastSequenceNumber (sequenceFloorMessageStore base fstore) room w = (Inr v, w2) \<longleftrightarrow>
   (\<exists>seq w1 fl. ms_GetLastSequenceNumber base room w = (Inr seq, w1) \<and> fs_Get fstore room w1 = (Inr fl, w2) \<and>
      v = max seq fl)"
  by (auto simp: sequenceFloorMessageStore_def sfms_GetLastSequenceNumber_def split: prod.splits sum.splits)

text \<open>A recorded sequence floor is never lost or lowered: after \<^verbatim>\<open>SetMax(room, seq)\<close> reported
  success, every later successful \<^verbatim>\<open>Get(room)\<close> returns at least \<open>seq\<close>, whatever further \<^verbatim>\<open>SetMax\<close>
  calls (on this or other rooms, succeeding or failing) and waiting time lie in between.\<close>

theorem sequence_floor_monotone:
  assumes R: "redis api view clock" and "seq_keyspace p (view s)" "0 < seq" "seq \<le> 2 ^ 53"
    and "fst (SetMax api (Some (NewSeqStore p)) n room seq s) = None"
    and "list_all floor_op_ok ops"
    and "fst (seq_Get api (Some (NewSeqStore p)) n' room
           (floor_run (SetMax api (Some (NewSeqStore p))) (r_tick api) ops
             (snd (SetMax api (Some (NewSeqStore p)) n room seq s)))) = Inr v"
  shows "seq \<le> v"
  by (rule floor_contract.recorded_visible [OF redis_floor_contract [OF R] assms(2-7)])

theorem sequence_floor_monotone_witness:
  "let s = \<lparr>mem_clock = 0, mem_keys = Map.empty\<rparr>; st = Some (NewSeqStore sequenceFloorPrefix);
       s1 = snd (SetMax mem_api st Reply ''r1'' 7 s);
       s2 = snd (SetMax mem_api st (NoReply CtxErr) ''r1'' 5 s1)
   in (\<exists>v. fst (seq_Get mem_api st Reply ''r1'' s2) = Inr v \<and> 7 \<le> v)"
proof -
  let ?s = "\<lparr>mem_clock = 0, mem_keys = Map.empty\<rparr>" and ?st = "Some (NewSeqStore sequenceFloorPrefix)"
  let ?s1 = "snd (SetMax mem_api ?st Reply ''r1'' 7 ?s)"
  let ?s2 = "snd (SetMax mem_api ?st (NoReply CtxErr) ''r1'' 5 ?s1)"
  have wf: "seq_keyspace sequenceFloorPrefix (mem_keys ?s)" by (simp add: seq_keyspace_def)
  have s1: "?s1 = \<lparr>mem_clock = 0, mem_keys = [sequenceFloorPrefix @ ''r1'' \<mapsto> (RStr (format_int 7), None)]\<rparr>"
    by (simp add: SetMax_def setMaxLua_def mem_defs NewSeqStore_def seq_key_def)
  then have "?s2 = ?s1"
    by (simp add: SetMax_def setMaxLua_def mem_defs NewSeqStore_def seq_key_def parse_format_int)
  note s2 = trans [OF this s1]
  have g: "fst (seq_Get mem_api ?st Reply ''r1'' ?s2) = Inr 7"
    unfolding s2 by (simp add: seq_Get_def mem_defs NewSeqStore_def seq_key_def)
  have "fst (SetMax mem_api ?st Reply ''r1'' 7 ?s) = None"
    by (simp add: SetMax_def NewSeqStore_def)
  from sequence_floor_monotone [OF mem.redis_axioms wf, of 7 Reply "''r1''"
      "[Record (NoReply CtxErr) ''r1'' 5]" Reply 7] this g
  have "(7::int) \<le> 7" by simp
  then show ?thesis unfolding Let_def using g by blast
qed

end
