(* ===== verification/Hub.thy ===== *)
theory Hub
  imports Session Room_Seq
begin

text \<open>
  The actor of one room (\<^verbatim>\<open>internal/websocket/hub/hub.go\<close>): its sessions, the sequence counter, the
  idempotency cache, the hand-over of messages to the persistence pipeline, and the draining
  protocol. Every method of the actor is a function on the hub's state; the cases of the
  \<^verbatim>\<open>select\<close> in \<^verbatim>\<open>run\<close> and the methods that other goroutines call are the steps of a relation.
\<close>

section \<open>The idempotency cache\<close>

text \<open>
  \<^verbatim>\<open>github.com/hashicorp/golang-lru/v2\<close> is not part of the repository: its operations are a record, and
  the locale states that it keeps the most recently used keys, up to its size.
\<close>

record 'c lru_api =
  lru_New :: "nat \<Rightarrow> 'c"
  lru_Get :: "'c \<Rightarrow> string \<Rightarrow> bool \<times> 'c"
  lru_Add :: "'c \<Rightarrow> string \<Rightarrow> message \<Rightarrow> 'c"

locale lru_cache =
  fixes api :: "'c lru_api" and keys :: "'c \<Rightarrow> string list" and size_of :: "'c \<Rightarrow> nat"
  assumes new_keys: "0 < n \<Longrightarrow> keys (lru_New api n) = [] \<and> size_of (lru_New api n) = n"
    and get_found: "fst (lru_Get api c k) \<longleftrightarrow> k \<in> set (keys c)"
    and get_keys: "keys (snd (lru_Get api c k)) = (if k \<in> set (keys c) then k # remove1 k (keys c) else keys c)"
    and add_keys: "keys (lru_Add api c k m) = take (size_of c) (k # remove1 k (keys c))"
    and size_get: "size_of (snd (lru_Get api c k)) = size_of c"
    and size_add: "size_of (lru_Add api c k m) = size_of c"
begin

definition wf :: "'c \<Rightarrow> bool" where
  "wf c \<longleftrightarrow> distinct (keys c) \<and> length (keys c) \<le> size_of c \<and> 0 < size_of c"

text \<open>\<open>k\<close> is cached and every key used since is in \<open>T\<close>.\<close>

definition recent :: "string \<Rightarrow> string set \<Rightarrow> 'c \<Rightarrow> bool" where
  "recent k T c \<longleftrightarrow> (\<exists>xs ys. keys c = xs @ k # ys \<and> set xs \<subseteq> T)"

lemma wf_new: "0 < n \<Longrightarrow> wf (lru_New api n)"
  by (simp add: wf_def new_keys)

lemma wf_get: "wf c \<Longrightarrow> wf (snd (lru_Get api c k))"
  by (auto simp: wf_def get_keys size_get length_remove1 Suc_le_eq intro: length_pos_if_in_set)

lemma wf_add: "wf c \<Longrightarrow> wf (lru_Add api c k m)"
  by (auto simp: wf_def add_keys size_add distinct_take)

lemma recent_found: "recent k T c \<Longrightarrow> fst (lru_Get api c k)"
  by (auto simp: recent_def get_found)

lemma recent_add_self: "wf c \<Longrightarrow> recent k T (lru_Add api c k m)"
proof -
  assume "wf c"
  then have "keys (lru_Add api c k m) = [] @ k # take (size_of c - 1) (remove1 k (keys c))"
    by (cases "size_of c") (auto simp: wf_def add_keys)
  then show ?thesis unfolding recent_def by (metis empty_subsetI list.set(1))
qed

lemma recent_get:
  assumes "recent k T c" "k' \<in> T"
  shows "recent k T (snd (lru_Get api c k'))"
proof -
  from assms(1) obtain xs ys where k: "keys c = xs @ k # ys" "set xs \<subseteq> T" by (auto simp: recent_def)
  show ?thesis
  proof (cases "k' = k")
    case True
    with k have "keys (snd (lru_Get api c k')) = [] @ k # remove1 k (keys c)" by (simp add: get_keys)
    then show ?thesis unfolding recent_def by (metis empty_subsetI list.set(1))
  next
    case False
    let ?ys = "if k' \<in> set xs then ys else remove1 k' ys"
    have "keys (snd (lru_Get api c k')) =
      (if k' \<in> set (keys c) then (k' # remove1 k' xs) @ k # ?ys else xs @ k # ys)"
      using k False by (auto simp: get_keys remove1_append remove1_idem)
    moreover have "set (k' # remove1 k' xs) \<subseteq> T" using assms(2) k(2) set_remove1_subset by fastforce
    ultimately show ?thesis using k(2) unfolding recent_def by metis
  qed
qed

lemma recent_add:
  assumes wf: "wf c" and r: "recent k T c" and k': "k' \<in> T" and T: "finite T" "card T < size_of c"
  shows "recent k T (lru_Add api c k' m)"
proof (cases "k' = k")
  case True
  then show ?thesis using recent_add_self [OF wf] by simp
next
  case False
  from r obtain xs ys where k: "keys c = xs @ k # ys" "set xs \<subseteq> T" by (auto simp: recent_def)
  let ?xs = "k' # remove1 k' xs" and ?ys = "if k' \<in> set xs then ys else remove1 k' ys"
  have eq: "k' # remove1 k' (keys c) = ?xs @ k # ?ys" using k False by (auto simp: remove1_append remove1_idem)
  have "distinct (keys c)" using wf by (simp add: wf_def)
  then have "distinct ?xs" using k by (simp add: distinct_remove1)
  moreover have sub: "set ?xs \<subseteq> T" using k' k(2) set_remove1_subset by fastforce
  ultimately have "length ?xs \<le> card T" using T(1) by (metis card_mono distinct_card)
  then have "length ?xs < size_of c" using T(2) by (rule order_le_less_trans)
  then obtain j where "size_of c = Suc (length ?xs + j)" by (metis less_iff_Suc_add)
  then have "keys (lru_Add api c k' m) = ?xs @ k # take j ?ys"
    by (simp only: add_keys eq) (simp add: take_Cons')
  with sub show ?thesis unfolding recent_def by blast
qed

end

text \<open>A cache as the list of its keys, for concrete examples.\<close>

definition list_lru :: "(nat \<times> string list) lru_api" where
  "list_lru = \<lparr>
     lru_New = (\<lambda>n. (n, [])),
     lru_Get = (\<lambda>(n, ks) k. if k \<in> set ks then (True, (n, k # remove1 k ks)) else (False, (n, ks))),
     lru_Add = (\<lambda>(n, ks) k m. (n, take n (k # remove1 k ks)))\<rparr>"

interpretation list_lru: lru_cache list_lru snd fst
  by unfold_locales (auto simp: list_lru_def split: prod.splits)


section \<open>State\<close>

definition idempotencyCacheSize :: nat where "idempotencyCacheSize = 250"
definition hubUnregisterBufferSize :: nat where "hubUnregisterBufferSize = 50"
definition hubBroadcastBufferSize :: nat where "hubBroadcastBufferSize = 250"
definition handoffCloseCode :: int where "handoffCloseCode = 1012"
definition handoffCloseReason :: string where "handoffCloseReason = ''room owner handoff''"
definition persistBackpressureMsg :: string where
  "persistBackpressureMsg = ''message temporarily unavailable, please retry''"

text \<open>
  A task of the pipeline: the copy of the message, and the acknowledgement, a closure over the
  hub that made it and here that hub's identity (\<open>None\<close> for a nil function).
\<close>

record persistTask =
  task_msg :: message
  task_ack :: "nat option"

text \<open>The channels a hub shares with the workers. \<^verbatim>\<open>persistSlots\<close> may be nil.\<close>

record pipe =
  persistCh :: "persistTask list"
  persistCap :: nat
  persistSlots :: "nat option"
  slotsCap :: nat

text \<open>
  The hub. Sessions are objects: \<^verbatim>\<open>objs\<close> holds them, a pointer is an index into it, and the map from
  users to sessions is an association list (the order of a Go map is unspecified, and no
  operation depends on it). \<^verbatim>\<open>h_persist\<close> says that the hub was given a persist channel, \<^verbatim>\<open>h_store\<close> that
  it was given a store; \<^verbatim>\<open>idleTimer\<close> that the timer is running; \<^verbatim>\<open>stopCh\<close>, \<^verbatim>\<open>doneCh\<close> that the channel is
  closed (\<^verbatim>\<open>drainCh\<close> is closed exactly when \<^verbatim>\<open>draining\<close> is set).
\<close>

record 'c hub =
  h_id :: nat
  h_roomID :: string
  h_sessionCfg :: sessionConfig
  h_drainTimeout :: int
  h_store :: bool
  h_persist :: bool
  objs :: "session list"
  sessions :: "(string \<times> nat) list"
  lastSequence :: int
  idempotencyCache :: 'c
  unregisterCh :: "nat list"
  broadcastCh :: "message list"
  persistDone :: bool
  idleTimer :: bool
  doneCh :: bool
  stopCh :: bool
  draining :: bool
  pendingPersist :: int
  persistFailed :: bool
  activeSessions :: int
  closeReason :: "string option"

definition newHub ::
  "'c lru_api \<Rightarrow> nat \<Rightarrow> string \<Rightarrow> sessionConfig \<Rightarrow> bool \<Rightarrow> bool \<Rightarrow> int \<Rightarrow> 'c hub" where
  "newHub lru hid roomID cfg store persist drainTimeout = \<lparr>h_id = hid, h_roomID = roomID, h_sessionCfg = cfg,
     h_drainTimeout = drainTimeout, h_store = store, h_persist = persist, objs = [], sessions = [],
     lastSequence = 0, idempotencyCache = lru_New lru idempotencyCacheSize, unregisterCh = [],
     broadcastCh = [], persistDone = False, idleTimer = False, doneCh = False, stopCh = False,
     draining = False, pendingPersist = 0, persistFailed = False, activeSessions = 0, closeReason = None\<rparr>"

definition initializeSequence ::
  "'w MessageStore option \<Rightarrow> 'w \<Rightarrow> 'c hub \<Rightarrow> go_error option \<times> 'c hub \<times> 'w" where
  "initializeSequence store w h = (case store of
      None \<Rightarrow> (None, h, w)
    | Some ms \<Rightarrow> (case ms_GetLastSequenceNumber ms (h_roomID h) w of
         (Inl err, w') \<Rightarrow> (Some (Wrap2 ErrRoomSequenceUnavailable err), h, w')
       | (Inr seq, w') \<Rightarrow> (None, h\<lparr>lastSequence := seq\<rparr>, w')))"

section \<open>Sessions\<close>

definition on_obj :: "nat \<Rightarrow> (session \<Rightarrow> session) \<Rightarrow> 'c hub \<Rightarrow> 'c hub" where
  "on_obj p f h = h\<lparr>objs := (objs h)[p := f (objs h ! p)]\<rparr>"

definition forget_session :: "string \<Rightarrow> 'c hub \<Rightarrow> 'c hub" where
  "forget_session u h = h\<lparr>sessions := filter (\<lambda>(u', p). u' \<noteq> u) (sessions h), activeSessions := activeSessions h - 1\<rparr>"

definition conflict_message :: "string \<Rightarrow> message" where
  "conflict_message roomID = \<lparr>ID = '''', RoomID = roomID, SenderID = systemSenderID,
     Content = ''disconnected due to multiple tabs in the same room'', ClientMsgID = '''',
     MType = msgTypeConflict, SequenceNumber = 0, Timestamp = 0, ReceivedAt = 0\<rparr>"

text \<open>\<^verbatim>\<open>registerSession\<close>; the new session is the pointer \<open>p\<close> of user \<open>u\<close>.\<close>

definition registerSession :: "nat \<Rightarrow> string \<Rightarrow> 'c hub \<Rightarrow> 'c hub" where
  "registerSession p u h0 =
    (let h = h0\<lparr>idleTimer := False\<rparr>;
         h1 = (case map_of (sessions h) u of
             None \<Rightarrow> h
           | Some old \<Rightarrow>
               forget_session u (on_obj old close
                 (case toRawJSON (conflict_message (h_roomID h)) of
                    Inl err \<Rightarrow> h
                  | Inr rawData \<Rightarrow> on_obj old (send rawData) h)))
     in h1\<lparr>sessions := (u, p) # sessions h1, activeSessions := activeSessions h1 + 1\<rparr>)"

text \<open>The case of \<^verbatim>\<open>registerCh\<close> in \<^verbatim>\<open>run\<close>: what is sent to \<^verbatim>\<open>errCh\<close>, and the new state.\<close>

definition run_register :: "string \<Rightarrow> 'c hub \<Rightarrow> go_error option \<times> 'c hub" where
  "run_register userID h =
    (if draining h then (Some (ErrNew ''hub shutting down''), h)
     else (let p = length (objs h);
               h1 = h\<lparr>objs := objs h @ [newSession (h_sessionCfg h) userID (h_roomID h)]\<rparr>
           in (None, registerSession p userID h1)))"

text \<open>The case of \<^verbatim>\<open>unregisterCh\<close>.\<close>

definition run_unregister :: "nat \<Rightarrow> 'c hub \<Rightarrow> 'c hub" where
  "run_unregister p h =
    (let u = s_senderID (objs h ! p);
         h1 = (if map_of (sessions h) u = Some p then on_obj p close (forget_session u h) else h)
     in if sessions h1 = [] then h1\<lparr>idleTimer := True\<rparr> else h1)"

text \<open>\<^verbatim>\<open>register\<close>: which case of the \<^verbatim>\<open>select\<close> the caller gets.\<close>

datatype register_event = RegAccepted | RegDone | RegCtx

definition hub_register :: "register_event \<Rightarrow> string \<Rightarrow> 'c hub \<Rightarrow> go_error option \<times> 'c hub" where
  "hub_register ev userID h =
    (if draining h then (Some (ErrNew ''hub shutting down''), h)
     else case ev of
         RegAccepted \<Rightarrow> run_register userID h
       | RegDone \<Rightarrow> (Some (ErrNew ''hub closed''), h)
       | RegCtx \<Rightarrow> (Some CtxErr, h))"

definition sendSystemTo :: "int \<Rightarrow> string \<Rightarrow> string \<Rightarrow> 'c hub \<Rightarrow> 'c hub" where
  "sendSystemTo now senderID content h = (case map_of (sessions h) senderID of
      None \<Rightarrow> h
    | Some p \<Rightarrow> (case toRawJSON (system_message now (h_roomID h) content) of
         Inl err \<Rightarrow> h
       | Inr rawData \<Rightarrow> on_obj p (send rawData) h))"

text \<open>The loop over the sessions in \<^verbatim>\<open>fanOut\<close>.\<close>

definition send_all :: "json \<Rightarrow> string \<Rightarrow> int \<Rightarrow> 'c hub \<Rightarrow> 'c hub" where
  "send_all rawData senderID receivedAt h =
     fold (\<lambda>(u, p). on_obj p (sendWithMeta rawData senderID receivedAt)) (sessions h) h"

section \<open>Handing messages to the pipeline\<close>

definition notifyPersistDone :: "'c hub \<Rightarrow> 'c hub" where
  "notifyPersistDone h = h\<lparr>persistDone := True\<rparr>"

definition reservePersistSlot :: "pipe \<Rightarrow> bool \<times> pipe" where
  "reservePersistSlot p = (case persistSlots p of
      None \<Rightarrow> (True, p)
    | Some n \<Rightarrow> if n < slotsCap p then (True, p\<lparr>persistSlots := Some (Suc n)\<rparr>) else (False, p))"

definition releasePersistSlot :: "pipe \<Rightarrow> pipe" where
  "releasePersistSlot p = (case persistSlots p of
      None \<Rightarrow> p
    | Some n \<Rightarrow> if 0 < n then p\<lparr>persistSlots := Some (n - 1)\<rparr> else p)"

definition rollbackSequenceAndSlot :: "bool \<Rightarrow> 'c hub \<Rightarrow> pipe \<Rightarrow> 'c hub \<times> pipe" where
  "rollbackSequenceAndSlot reserved h p =
     (h\<lparr>lastSequence := int64_of (lastSequence h - 1)\<rparr>, if reserved then releasePersistSlot p else p)"

text \<open>The acknowledgement a task carries.\<close>

definition dec_pending :: "'c hub \<Rightarrow> 'c hub" where
  "dec_pending h = (let h1 = h\<lparr>pendingPersist := pendingPersist h - 1\<rparr>
     in if pendingPersist h1 = 0 then notifyPersistDone h1 else h1)"

definition ack :: "go_error option \<Rightarrow> 'c hub \<Rightarrow> 'c hub" where
  "ack err h = dec_pending (if err \<noteq> None then h\<lparr>persistFailed := True\<rparr> else h)"

text \<open>
  \<^verbatim>\<open>fanOut\<close>, with the branch it took: \<open>newV7\<close> is the result of \<^verbatim>\<open>uuid.NewV7()\<close>, \<open>now\<close> the time. The
  message is returned as the code leaves it.
\<close>

datatype fan_outcome = Accepted | Backpressure | NoID | NoJSON | ChannelFull

definition fanOut ::
  "(go_error + string) \<Rightarrow> int \<Rightarrow> message \<Rightarrow> 'c hub \<Rightarrow> pipe \<Rightarrow> fan_outcome \<times> message \<times> 'c hub \<times> pipe" where
  "fanOut newV7 now msg0 h0 p0 =
    (let needsPersist = h_store h0 \<and> h_persist h0;
         (reserved, p1) = (if needsPersist then reservePersistSlot p0 else (True, p0)) in
     if \<not> reserved then (Backpressure, msg0, sendSystemTo now (SenderID msg0) persistBackpressureMsg h0, p0)
     else
      (let h1 = h0\<lparr>lastSequence := int64_of (lastSequence h0 + 1)\<rparr>;
           msg1 = msg0\<lparr>SequenceNumber := lastSequence h1\<rparr> in
       case (if ID msg1 = '''' then newV7 else Inr (ID msg1)) of
         Inl err \<Rightarrow> (case rollbackSequenceAndSlot needsPersist h1 p1 of (h2, p2) \<Rightarrow> (NoID, msg1, h2, p2))
       | Inr newID \<Rightarrow>
        (let msg2 = msg1\<lparr>ID := newID\<rparr>;
             msg3 = (if Timestamp msg2 = 0 then msg2\<lparr>Timestamp := unix now\<rparr> else msg2) in
         case toRawJSON msg3 of
           Inl err \<Rightarrow> (case rollbackSequenceAndSlot needsPersist h1 p1 of (h2, p2) \<Rightarrow> (NoJSON, msg3, h2, p2))
         | Inr rawData \<Rightarrow>
            if needsPersist then
             (let h2 = h1\<lparr>pendingPersist := pendingPersist h1 + 1\<rparr>;
                  task = \<lparr>task_msg = msg3, task_ack = Some (h_id h2)\<rparr> in
              if length (persistCh p1) < persistCap p1 then
                (Accepted, msg3, send_all rawData (SenderID msg3) (ReceivedAt msg3) h2,
                 p1\<lparr>persistCh := persistCh p1 @ [task]\<rparr>)
              else
               (case rollbackSequenceAndSlot True (dec_pending h2) p1 of (h3, p3) \<Rightarrow>
                  (ChannelFull, msg3, sendSystemTo now (SenderID msg3) persistBackpressureMsg h3, p3)))
            else (Accepted, msg3, send_all rawData (SenderID msg3) (ReceivedAt msg3) h1, p1))))"

text \<open>\<^verbatim>\<open>handleBroadcast\<close>; no outcome means the message was dropped as a duplicate.\<close>

definition handleBroadcast ::
  "'c lru_api \<Rightarrow> (go_error + string) \<Rightarrow> int \<Rightarrow> message \<Rightarrow> 'c hub \<Rightarrow> pipe \<Rightarrow>
   (fan_outcome \<times> message) option \<times> 'c hub \<times> pipe" where
  "handleBroadcast lru newV7 now msg h p =
    (let (exists, cache) = (if ClientMsgID msg \<noteq> '''' then lru_Get lru (idempotencyCache h) (ClientMsgID msg)
                            else (False, idempotencyCache h));
         h1 = h\<lparr>idempotencyCache := cache\<rparr> in
     if exists then (None, h1, p)
     else (case fanOut newV7 now msg h1 p of (out, msg', h2, p2) \<Rightarrow>
        (Some (out, msg'),
         if ClientMsgID msg' \<noteq> '''' then h2\<lparr>idempotencyCache := lru_Add lru (idempotencyCache h2) (ClientMsgID msg') msg'\<rparr>
         else h2, p2)))"

section \<open>Accepting and draining\<close>

definition beginDrain :: "'c hub \<Rightarrow> 'c hub" where
  "beginDrain h = h\<lparr>draining := True\<rparr>"

definition forceClose :: "string \<Rightarrow> 'c hub \<Rightarrow> 'c hub" where
  "forceClose reason h =
    (let h1 = (if reason \<noteq> '''' then h\<lparr>closeReason := Some reason\<rparr> else h)
     in (beginDrain h1)\<lparr>stopCh := True\<rparr>)"

text \<open>
  \<^verbatim>\<open>enqueueBroadcast\<close>: one attempt, and the loop around it. While the caller waits, other goroutines
  change the hub: \<open>waits\<close> gives for each wait the change and the case that ends it. No result
  means that the caller is still waiting when \<open>waits\<close> ends.
\<close>

datatype wake = WakeTimer | WakeDrain | WakeDone | WakeCtx

definition enqueue_attempt :: "message \<Rightarrow> 'c hub \<Rightarrow> bool option \<times> 'c hub" where
  "enqueue_attempt msg h =
    (if draining h then (Some False, h)
     else if length (broadcastCh h) < hubBroadcastBufferSize
       then (Some True, h\<lparr>broadcastCh := broadcastCh h @ [msg]\<rparr>)
     else (None, h))"

fun enqueueBroadcast :: "message \<Rightarrow> (('c hub \<Rightarrow> 'c hub) \<times> wake) list \<Rightarrow> 'c hub \<Rightarrow> bool option \<times> 'c hub" where
  "enqueueBroadcast msg [] h = enqueue_attempt msg h"
| "enqueueBroadcast msg ((f, wk) # ws) h = (case enqueue_attempt msg h of
      (Some b, h') \<Rightarrow> (Some b, h')
    | (None, h') \<Rightarrow> if wk = WakeTimer then enqueueBroadcast msg ws (f h') else (Some False, f h'))"

text \<open>\<^verbatim>\<open>broadcast\<close>: the message is dropped when it is not accepted.\<close>

definition broadcast :: "message \<Rightarrow> (('c hub \<Rightarrow> 'c hub) \<times> wake) list \<Rightarrow> 'c hub \<Rightarrow> 'c hub" where
  "broadcast msg waits h = snd (enqueueBroadcast msg waits h)"

text \<open>
  \<^verbatim>\<open>drain\<close>: the queued messages are handled, then the loop waits for acknowledgements. An event is
  the case a \<^verbatim>\<open>select\<close> takes (\<open>DCtx\<close> also in the inner \<^verbatim>\<open>select\<close>, where it precedes the default case),
  or an acknowledgement by a worker that happens meanwhile; a case that is not ready does nothing.
\<close>

datatype drain_event =
    DMessage "go_error + string" int
  | DAck "go_error option"
  | DDone
  | DTick
  | DTimer
  | DCtx

datatype drain_result = DrainOk | DrainTimeout | DrainInterrupted | DrainRunning

definition drained :: "'c hub \<Rightarrow> bool" where
  "drained h \<longleftrightarrow> broadcastCh h = [] \<and> pendingPersist h = 0"

fun drain ::
  "'c lru_api \<Rightarrow> drain_event list \<Rightarrow> 'c hub \<Rightarrow> pipe \<Rightarrow> drain_result \<times> 'c hub \<times> pipe" where
  "drain lru [] h p = (if drained h then DrainOk else DrainRunning, h, p)"
| "drain lru (DCtx # es) h p = (DrainInterrupted, h, p)"
| "drain lru (DAck err # es) h p =
    (if drained h then (DrainOk, h, p) else drain lru es (ack err h) p)"
| "drain lru (DMessage newV7 now # es) h p =
    (if drained h then (DrainOk, h, p)
     else case broadcastCh h of
        [] \<Rightarrow> drain lru es h p
      | msg # msgs \<Rightarrow> (case handleBroadcast lru newV7 now msg (h\<lparr>broadcastCh := msgs\<rparr>) p of
           (out, h', p') \<Rightarrow> drain lru es h' p'))"
| "drain lru (DDone # es) h p =
    (if drained h then (DrainOk, h, p)
     else drain lru es (if broadcastCh h = [] then h\<lparr>persistDone := False\<rparr> else h) p)"
| "drain lru (DTick # es) h p = (if drained h then (DrainOk, h, p) else drain lru es h p)"
| "drain lru (DTimer # es) h p =
    (if drained h then (DrainOk, h, p)
     else if broadcastCh h = [] then (DrainTimeout, h, p) else drain lru es h p)"

definition sessionCloseFrame :: "'c hub \<Rightarrow> string \<times> int" where
  "sessionCloseFrame h = (case closeReason h of
      None \<Rightarrow> ('''', 0)
    | Some reason \<Rightarrow> if reason = handoffCloseReason \<or> reason = ''lease_lost'' \<or> reason = ''lease_renew_stale''
        then (handoffCloseReason, handoffCloseCode) else ('''', 0))"

definition shutdown :: "'c hub \<Rightarrow> 'c hub" where
  "shutdown h0 =
    (let h = beginDrain h0; (reason, code) = sessionCloseFrame h;
         h1 = fold (\<lambda>(u, p). on_obj p (if code \<noteq> 0 then closeWithCode code reason else close)) (sessions h) h
     in h1\<lparr>activeSessions := 0, sessions := [], unregisterCh := [], broadcastCh := []\<rparr>)"

text \<open>The end of \<^verbatim>\<open>run\<close>: the deferred \<^verbatim>\<open>shutdown\<close>, then \<^verbatim>\<open>doneCh\<close> is closed.\<close>

definition run_return :: "'c hub \<Rightarrow> 'c hub" where
  "run_return h = (shutdown h)\<lparr>doneCh := True\<rparr>"

definition isDraining :: "'c hub \<Rightarrow> bool" where "isDraining h = draining h"
definition activeSessionCount :: "'c hub \<Rightarrow> int" where "activeSessionCount h = activeSessions h"


section \<open>Frames\<close>

definition upd_objs :: "(session \<Rightarrow> session) \<Rightarrow> (string \<times> nat) list \<Rightarrow> session list \<Rightarrow> session list" where
  "upd_objs f ss os = fold (\<lambda>(u, p) os. os[p := f (os ! p)]) ss os"

lemma fold_on_obj: "fold (\<lambda>(u, p). on_obj p f) ss h = h\<lparr>objs := upd_objs f ss (objs h)\<rparr>"
proof (induction ss arbitrary: h)
  case (Cons a ss)
  then show ?case by (cases a) (simp add: upd_objs_def on_obj_def)
qed (simp add: upd_objs_def)

lemma length_upd_objs [simp]: "length (upd_objs f ss os) = length os"
  by (induction ss arbitrary: os) (auto simp: upd_objs_def)

lemma upd_objs_other: "q \<notin> snd ` set ss \<Longrightarrow> upd_objs f ss os ! q = os ! q"
  by (induction ss arbitrary: os) (force simp: upd_objs_def)+

lemma upd_objs_nth:
  "(u, q) \<in> set ss \<Longrightarrow> distinct (map snd ss) \<Longrightarrow> q < length os \<Longrightarrow> upd_objs f ss os ! q = f (os ! q)"
proof (induction ss arbitrary: os)
  case (Cons a ss)
  obtain u' p' where a: "a = (u', p')" by (cases a)
  have step: "upd_objs f (a # ss) os = upd_objs f ss (os[p' := f (os ! p')])"
    by (simp add: upd_objs_def a)
  show ?case
  proof (cases "q = p'")
    case True
    with Cons.prems a have "q \<notin> snd ` set ss" by auto
    with True Cons.prems(3) show ?thesis by (simp add: step upd_objs_other)
  next
    case False
    with Cons.prems a have "(u, q) \<in> set ss" by auto
    with False Cons.IH [of "os[p' := f (os ! p')]"] Cons.prems show ?thesis unfolding step by simp
  qed
qed simp

lemma upd_objs_all:
  "(\<And>s. P s \<Longrightarrow> P (f s)) \<Longrightarrow> list_all P os \<Longrightarrow> (\<forall>(u, p) \<in> set ss. p < length os) \<Longrightarrow>
   list_all P (upd_objs f ss os)"
proof (induction ss arbitrary: os)
  case (Cons a ss)
  obtain u p where a: "a = (u, p)" by (cases a)
  with Cons.prems have "p < length os" "P (f (os ! p))" by (auto simp: list_all_length)
  then have "list_all P (os[p := f (os ! p)])"
    using Cons.prems(2) by (intro list_all_upd) auto
  with Cons a show ?case by (simp add: upd_objs_def)
qed (simp add: upd_objs_def)

lemma send_all_eq: "send_all d u t h = h\<lparr>objs := upd_objs (sendWithMeta d u t) (sessions h) (objs h)\<rparr>"
  by (simp add: send_all_def fold_on_obj)

definition told :: "json \<Rightarrow> string \<Rightarrow> 'c hub \<Rightarrow> session list" where
  "told d u h = (case map_of (sessions h) u of None \<Rightarrow> objs h | Some p \<Rightarrow> (objs h)[p := send d (objs h ! p)])"

lemma sendSystemTo_eq: "\<exists>d. sendSystemTo now u c h = h\<lparr>objs := told d u h\<rparr>"
proof -
  obtain d where d: "toRawJSON (system_message now (h_roomID h) c) = Inr d" using toRawJSON_ok by blast
  show ?thesis
    by (rule exI [of _ d]) (cases "map_of (sessions h) u"; simp add: sendSystemTo_def told_def on_obj_def d)
qed

section \<open>The effect of fanOut\<close>

text \<open>
  The reservation discipline of the shared channels: no more tasks queued than slots taken, and
  as much room in the channel as there are slots. \<open>Pipeline\<close> steps keep it.
\<close>

definition slots_ok :: "pipe \<Rightarrow> bool" where
  "slots_ok p \<longleftrightarrow> (\<exists>n. persistSlots p = Some n \<and> length (persistCh p) \<le> n \<and> n \<le> slotsCap p) \<and>
     slotsCap p \<le> persistCap p"

definition persists :: "'c hub \<Rightarrow> bool" where
  "persists h \<longleftrightarrow> h_store h \<and> h_persist h"

lemma persists_upd [simp, hub_simps]:
  "persists (h\<lparr>lastSequence := x0\<rparr>) = persists h"
  "persists (h\<lparr>idempotencyCache := x1\<rparr>) = persists h"
  "persists (h\<lparr>unregisterCh := x2\<rparr>) = persists h"
  "persists (h\<lparr>broadcastCh := x3\<rparr>) = persists h"
  "persists (h\<lparr>persistDone := x4\<rparr>) = persists h"
  "persists (h\<lparr>idleTimer := x5\<rparr>) = persists h"
  "persists (h\<lparr>doneCh := x6\<rparr>) = persists h"
  "persists (h\<lparr>stopCh := x7\<rparr>) = persists h"
  "persists (h\<lparr>draining := x8\<rparr>) = persists h"
  "persists (h\<lparr>pendingPersist := x9\<rparr>) = persists h"
  "persists (h\<lparr>persistFailed := x10\<rparr>) = persists h"
  "persists (h\<lparr>closeReason := x11\<rparr>) = persists h"
  "persists (h\<lparr>objs := x12\<rparr>) = persists h"
  "persists (h\<lparr>sessions := x13\<rparr>) = persists h"
  "persists (h\<lparr>activeSessions := x14\<rparr>) = persists h"
  by (simp_all add: persists_def)

definition int64 :: "int \<Rightarrow> bool" where
  "int64 x \<longleftrightarrow> - (2 ^ 63) \<le> x \<and> x < 2 ^ 63"

lemma int64_int64_of [simp]: "int64 (int64_of x)"
  using int64_of_bounds [of x] by (simp add: int64_def)

lemma int64_add_sub [simp]: "int64 x \<Longrightarrow> int64_of (int64_of (x + 1) - 1) = x"
  using int64_of_add_sub [of x] by (simp add: int64_def)

text \<open>The message as it is issued.\<close>

definition stamped :: "int \<Rightarrow> string \<Rightarrow> int \<Rightarrow> message \<Rightarrow> message" where
  "stamped seq newID now m =
    (if Timestamp m = 0 then m\<lparr>SequenceNumber := seq, ID := newID, Timestamp := unix now\<rparr>
     else m\<lparr>SequenceNumber := seq, ID := newID\<rparr>)"

lemma stamped_simps [simp]:
  "SequenceNumber (stamped seq newID now m) = seq" "ID (stamped seq newID now m) = newID"
  "SenderID (stamped seq newID now m) = SenderID m" "RoomID (stamped seq newID now m) = RoomID m"
  "Content (stamped seq newID now m) = Content m" "ClientMsgID (stamped seq newID now m) = ClientMsgID m"
  "MType (stamped seq newID now m) = MType m" "ReceivedAt (stamped seq newID now m) = ReceivedAt m"
  by (simp_all add: stamped_def)

lemma reserve_release:
  "reservePersistSlot p = (True, p1) \<Longrightarrow> releasePersistSlot p1 = p"
  by (auto simp: reservePersistSlot_def releasePersistSlot_def split: option.splits if_splits)

lemma reserve_room:
  assumes "slots_ok p" "reservePersistSlot p = (True, p1)"
  shows "persistCh p1 = persistCh p" "length (persistCh p1) < persistCap p1"
    "slots_ok (p1\<lparr>persistCh := persistCh p1 @ [t]\<rparr>)"
  using assms by (auto simp: reservePersistSlot_def slots_ok_def split: option.splits if_splits)

lemma reserve_False [simp]: "reservePersistSlot p = (False, p1) \<Longrightarrow> p1 = p"
  by (auto simp: reservePersistSlot_def split: option.splits if_splits)

text \<open>
  The three ways a call of \<^verbatim>\<open>fanOut\<close> can end while the reservation discipline holds; the other two
  branches of the code are unreachable.
\<close>

lemma fanOut_cases:
  assumes run: "fanOut newV7 now m h p = (out, m', h', p')"
    and ok: "persists h \<longrightarrow> slots_ok p" and seq: "int64 (lastSequence h)"
  obtains (accepted) d newID p1 where "out = Accepted" "m' = stamped (int64_of (lastSequence h + 1)) newID now m"
      "toRawJSON m' = Inr d" "(if ID m = '''' then newV7 else Inr (ID m)) = Inr newID"
      "persists h \<longrightarrow> reservePersistSlot p = (True, p1)"
      "h' = h\<lparr>lastSequence := int64_of (lastSequence h + 1),
         pendingPersist := (if persists h then pendingPersist h + 1 else pendingPersist h),
         objs := upd_objs (sendWithMeta d (SenderID m) (ReceivedAt m)) (sessions h) (objs h)\<rparr>"
      "p' = (if persists h then p1\<lparr>persistCh := persistCh p @ [\<lparr>task_msg = m', task_ack = Some (h_id h)\<rparr>]\<rparr> else p)"
  | (backpressure) d where "out = Backpressure" "m' = m" "h' = h\<lparr>objs := told d (SenderID m) h\<rparr>" "p' = p"
      "persists h"
  | (no_id) err where "out = NoID" "m' = m\<lparr>SequenceNumber := int64_of (lastSequence h + 1)\<rparr>" "h' = h" "p' = p"
      "ID m = ''''" "newV7 = Inl err"
proof -
  define np where "np = persists h"
  obtain reserved p1 where r: "(if np then reservePersistSlot p else (True, p)) = (reserved, p1)" by fastforce
  show ?thesis
  proof (cases reserved)
    case False
    then have "np" "p1 = p" using r by (auto split: if_splits)
    moreover obtain d where "sendSystemTo now (SenderID m) persistBackpressureMsg h = h\<lparr>objs := told d (SenderID m) h\<rparr>"
      using sendSystemTo_eq by blast
    ultimately have "fanOut newV7 now m h p = (Backpressure, m, h\<lparr>objs := told d (SenderID m) h\<rparr>, p)"
      unfolding fanOut_def Let_def np_def [unfolded persists_def, symmetric] r using False by simp
    with run \<open>np\<close> show ?thesis unfolding np_def by (intro backpressure [of d]) auto
  next
    case True
    let ?h1 = "h\<lparr>lastSequence := int64_of (lastSequence h + 1)\<rparr>"
    have rb: "rollbackSequenceAndSlot np ?h1 p1 = (h, p)"
      using r True seq reserve_release [of p p1]
      by (cases h) (auto simp: rollbackSequenceAndSlot_def split: if_splits)
    show ?thesis
    proof (cases "if ID m = '''' then newV7 else Inr (ID m)")
      case (Inl err)
      then have id: "ID m = ''''" "newV7 = Inl err" by (auto split: if_splits)
      then have "fanOut newV7 now m h p = (NoID, m\<lparr>SequenceNumber := int64_of (lastSequence h + 1)\<rparr>, h, p)"
        unfolding fanOut_def Let_def np_def [unfolded persists_def, symmetric] r using True rb by simp
      with run id show ?thesis by (intro no_id) simp_all
    next
      case (Inr newID)
      obtain d where d: "toRawJSON (stamped (int64_of (lastSequence h + 1)) newID now m) = Inr d"
        using toRawJSON_ok by blast
      have res: "np \<Longrightarrow> reservePersistSlot p = (True, p1)" and same: "\<not> np \<Longrightarrow> p1 = p" using r True by auto
      have room: "np \<Longrightarrow> length (persistCh p1) < persistCap p1" "np \<Longrightarrow> persistCh p1 = persistCh p"
        using reserve_room [of p p1] ok res by (auto simp: np_def)
      let ?m = "stamped (int64_of (lastSequence h + 1)) newID now m"
      let ?h = "h\<lparr>lastSequence := int64_of (lastSequence h + 1),
         pendingPersist := (if np then pendingPersist h + 1 else pendingPersist h),
         objs := upd_objs (sendWithMeta d (SenderID m) (ReceivedAt m)) (sessions h) (objs h)\<rparr>"
      have "fanOut newV7 now m h p = (Accepted, ?m, ?h,
         if np then p1\<lparr>persistCh := persistCh p @ [\<lparr>task_msg = ?m, task_ack = Some (h_id h)\<rparr>]\<rparr> else p)"
      proof -
        have m1: "ID m = [] \<and> newV7 = Inr newID \<or> ID m \<noteq> [] \<and> newID = ID m" using Inr by (auto split: if_splits)
        show ?thesis
          unfolding fanOut_def Let_def np_def [unfolded persists_def, symmetric] r
          using m1 True d room same
          by (elim disjE conjE; cases np; cases "Timestamp m = 0") (simp_all add: stamped_def send_all_eq)
      qed
      with run res Inr d show ?thesis unfolding np_def by (intro accepted [of newID d p1]) auto
    qed
  qed
qed


section \<open>Sessions of a hub\<close>

text \<open>Users are registered at most once, each with an open session of that user.\<close>

definition sessions_ok :: "'c hub \<Rightarrow> bool" where
  "sessions_ok h \<longleftrightarrow> distinct (map fst (sessions h)) \<and> distinct (map snd (sessions h)) \<and>
     activeSessions h = int (length (sessions h)) \<and> list_all session_ok (objs h) \<and>
     (\<forall>(u, p) \<in> set (sessions h). p < length (objs h) \<and> s_senderID (objs h ! p) = u \<and> \<not> s_closed (objs h ! p))"

lemma sessions_okD:
  assumes "sessions_ok h"
  shows "distinct (map fst (sessions h))" "distinct (map snd (sessions h))"
    "activeSessions h = int (length (sessions h))" "list_all session_ok (objs h)"
    "(u, p) \<in> set (sessions h) \<Longrightarrow> p < length (objs h) \<and> s_senderID (objs h ! p) = u \<and> \<not> s_closed (objs h ! p)"
  using assms by (auto simp: sessions_ok_def)

lemma sessions_ok_upd_objs:
  assumes h: "sessions_ok h"
    and f: "\<And>s. session_ok s \<Longrightarrow> session_ok (f s)" "\<And>s. s_senderID (f s) = s_senderID s" "\<And>s. s_closed (f s) = s_closed s"
    and h': "sessions h' = sessions h" "activeSessions h' = activeSessions h"
      "objs h' = upd_objs f (sessions h) (objs h)"
  shows "sessions_ok h'"
proof -
  note D = sessions_okD [OF h]
  have "list_all session_ok (objs h')"
    unfolding h' using D(4,5) f(1) by (intro upd_objs_all) auto
  moreover have "objs h' ! p = f (objs h ! p)" if "(u, p) \<in> set (sessions h)" for u p
    unfolding h' using upd_objs_nth [OF that D(2)] D(5) [OF that] by simp
  ultimately show ?thesis using D f h' unfolding sessions_ok_def by fastforce
qed

lemma sessions_ok_upd_one:
  assumes h: "sessions_ok h"
    and f: "\<And>s. session_ok s \<Longrightarrow> session_ok (f s)" "\<And>s. s_senderID (f s) = s_senderID s" "\<And>s. s_closed (f s) = s_closed s"
    and h': "sessions h' = sessions h" "activeSessions h' = activeSessions h"
      "objs h' = (objs h)[p := f (objs h ! p)]"
  shows "sessions_ok h'"
proof -
  note D = sessions_okD [OF h]
  have "list_all session_ok (objs h')"
    unfolding h' using D(4) f(1) by (intro list_all_upd) (auto simp: list_all_length)
  moreover have "s_senderID (objs h' ! q) = s_senderID (objs h ! q) \<and> s_closed (objs h' ! q) = s_closed (objs h ! q)" for q
    unfolding h' using f by (cases "q = p"; cases "p < length (objs h)") (auto simp: list_update_beyond)
  ultimately show ?thesis using D h' unfolding sessions_ok_def by fastforce
qed

lemma sessions_ok_upd [simp, hub_simps]:
  "sessions_ok (h\<lparr>lastSequence := x0\<rparr>) = sessions_ok h"
  "sessions_ok (h\<lparr>idempotencyCache := x1\<rparr>) = sessions_ok h"
  "sessions_ok (h\<lparr>unregisterCh := x2\<rparr>) = sessions_ok h"
  "sessions_ok (h\<lparr>broadcastCh := x3\<rparr>) = sessions_ok h"
  "sessions_ok (h\<lparr>persistDone := x4\<rparr>) = sessions_ok h"
  "sessions_ok (h\<lparr>idleTimer := x5\<rparr>) = sessions_ok h"
  "sessions_ok (h\<lparr>doneCh := x6\<rparr>) = sessions_ok h"
  "sessions_ok (h\<lparr>stopCh := x7\<rparr>) = sessions_ok h"
  "sessions_ok (h\<lparr>draining := x8\<rparr>) = sessions_ok h"
  "sessions_ok (h\<lparr>pendingPersist := x9\<rparr>) = sessions_ok h"
  "sessions_ok (h\<lparr>persistFailed := x10\<rparr>) = sessions_ok h"
  "sessions_ok (h\<lparr>closeReason := x11\<rparr>) = sessions_ok h"
  by (simp_all add: sessions_ok_def)

lemma sessions_ok_cong:
  "sessions h' = sessions h \<Longrightarrow> activeSessions h' = activeSessions h \<Longrightarrow> objs h' = objs h \<Longrightarrow>
   sessions_ok h' = sessions_ok h"
  by (simp add: sessions_ok_def)

lemma sessions_ok_told:
  assumes "sessions_ok h" shows "sessions_ok (h\<lparr>objs := told d u h\<rparr>)"
proof (cases "map_of (sessions h) u")
  case None
  then show ?thesis using assms by (simp add: told_def)
next
  case (Some p)
  then show ?thesis using sessions_ok_upd_one [OF assms, of "send d" "h\<lparr>objs := told d u h\<rparr>" p] by (simp add: told_def)
qed

lemma sessions_ok_fanOut:
  assumes run: "fanOut newV7 now m h p = (out, m', h', p')" and ok: "persists h \<longrightarrow> slots_ok p"
    and seq: "int64 (lastSequence h)" and h: "sessions_ok h"
  shows "sessions_ok h'"
  using run ok seq
proof (cases rule: fanOut_cases)
  case (accepted d newID p1)
  then show ?thesis
    by (intro sessions_ok_upd_objs [OF h, of "sendWithMeta d (SenderID m) (ReceivedAt m)"]) simp_all
next
  case (backpressure d)
  then show ?thesis using sessions_ok_told [OF h] by simp
next
  case no_id
  then show ?thesis using h by simp
qed

lemma filter_forget: "map_of xs u = None \<Longrightarrow> filter (\<lambda>(u', p). u' \<noteq> u) xs = xs"
  by (induction xs) (auto split: if_splits)

lemma sessions_ok_forget:
  assumes h: "sessions_ok h" and u: "map_of (sessions h) u = Some p"
  shows "sessions_ok (on_obj p close (forget_session u h))" "p \<notin> snd ` set (sessions (forget_session u h))"
    "u \<notin> fst ` set (sessions (forget_session u h))"
proof -
  note D = sessions_okD [OF h]
  let ?f = "filter (\<lambda>(u', p). u' \<noteq> u) (sessions h)"
  have mem: "(u, p) \<in> set (sessions h)" using u by (rule map_of_SomeD)
  have only: "u' = u" if "(u', p) \<in> set (sessions h)" for u'
    using D(5) [OF that] D(5) [OF mem] by simp
  then show p: "p \<notin> snd ` set (sessions (forget_session u h))" by (auto simp: forget_session_def)
  show "u \<notin> fst ` set (sessions (forget_session u h))" by (auto simp: forget_session_def)
  have "length ?f + length (filter (\<lambda>(u', p). u' = u) (sessions h)) = length (sessions h)"
    using sum_length_filter_compl [of "\<lambda>(u', p). u' \<noteq> u" "sessions h"] by (simp add: case_prod_unfold)
  moreover have "filter (\<lambda>(u', p). u' = u) (sessions h) = [(u, p)]"
  proof -
    have "filter (\<lambda>(u', p). u' = u) xs = [(u, p)]" if "distinct (map fst xs)" "(u, p) \<in> set xs" for xs :: "(string \<times> nat) list"
      using that by (induction xs) (force simp: filter_empty_conv)+
    with D(1) mem show ?thesis by blast
  qed
  ultimately have len: "int (length ?f) = int (length (sessions h)) - 1" by simp
  have "list_all session_ok ((objs h)[p := close (objs h ! p)])"
    using D(4) by (intro list_all_upd) (auto simp: list_all_length)
  moreover have "(objs h)[p := close (objs h ! p)] ! b = objs h ! b" if "(a, b) \<in> set (sessions h)" "a \<noteq> u" for a b
    using only that by (metis nth_list_update_neq)
  ultimately show "sessions_ok (on_obj p close (forget_session u h))"
    using D len unfolding sessions_ok_def on_obj_def forget_session_def
    by (auto simp: distinct_map_filter)
qed

end
