(* ===== verification/Hub_Run.thy ===== *)
theory Hub_Run
  imports Hub
begin

text \<open>
  The hub as it runs: the cases of the \<^verbatim>\<open>select\<close> in \<^verbatim>\<open>run\<close> (\<^verbatim>\<open>internal/websocket/hub/hub.go\<close>) interleaved
  with the goroutines that enqueue messages, close the room, acknowledge tasks and empty the send
  queues, as a step relation; the invariant of all reachable states; and what follows from it
  about sequence numbers, acknowledgements, sessions and the end of a hub.
\<close>

section \<open>Steps\<close>

datatype hub_phase = Running | Draining | Stopped

text \<open>
  Beside the hub and the channels it shares: how far \<^verbatim>\<open>run\<close> has got, and, as history, the messages
  issued (numbered and handed to the pipeline and the sessions) and the acknowledgements received.
\<close>

record 'c hub_sys =
  hs :: "'c hub"
  hp :: pipe
  phase :: hub_phase
  issued :: "message list"
  acks :: "(message \<times> go_error option) list"

definition newly_issued :: "(fan_outcome \<times> message) option \<Rightarrow> message list" where
  "newly_issued out = (case out of Some (Accepted, m) \<Rightarrow> [m] | _ \<Rightarrow> [])"

definition outstanding :: "'c hub_sys \<Rightarrow> message multiset" where
  "outstanding S = mset (issued S) - mset (map fst (acks S))"

inductive hub_step :: "'c lru_api \<Rightarrow> 'c hub_sys \<Rightarrow> 'c hub_sys \<Rightarrow> bool" for lru where
  st_enqueue: "enqueue_attempt m (hs S) = (r, h') \<Longrightarrow> hub_step lru S (S\<lparr>hs := h'\<rparr>)"
| st_force: "hub_step lru S (S\<lparr>hs := forceClose reason (hs S)\<rparr>)"
| st_register: "phase S = Running \<Longrightarrow> run_register u (hs S) = (r, h') \<Longrightarrow> hub_step lru S (S\<lparr>hs := h'\<rparr>)"
| st_exit: "q < length (objs (hs S)) \<Longrightarrow> length (unregisterCh (hs S)) < hubUnregisterBufferSize \<Longrightarrow> phase S \<noteq> Stopped \<Longrightarrow>
    hub_step lru S (S\<lparr>hs := (hs S)\<lparr>unregisterCh := unregisterCh (hs S) @ [q]\<rparr>\<rparr>)"
| st_unregister: "phase S = Running \<Longrightarrow> unregisterCh (hs S) = q # qs \<Longrightarrow>
    hub_step lru S (S\<lparr>hs := run_unregister q ((hs S)\<lparr>unregisterCh := qs\<rparr>)\<rparr>)"
| st_handle: "phase S \<noteq> Stopped \<Longrightarrow> broadcastCh (hs S) = m # ms \<Longrightarrow>
    handleBroadcast lru newV7 now m ((hs S)\<lparr>broadcastCh := ms\<rparr>) (hp S) = (out, h', p') \<Longrightarrow>
    hub_step lru S (S\<lparr>hs := h', hp := p', issued := issued S @ newly_issued out\<rparr>)"
| st_drain: "phase S = Running \<Longrightarrow> hub_step lru S (S\<lparr>hs := beginDrain (hs S), phase := Draining\<rparr>)"
| st_return: "phase S = Draining \<Longrightarrow> hub_step lru S (S\<lparr>hs := run_return (hs S), phase := Stopped\<rparr>)"
| st_ack: "persists (hs S) \<Longrightarrow> m \<in># outstanding S \<Longrightarrow>
    hub_step lru S (S\<lparr>hs := ack err (hs S), acks := acks S @ [(m, err)]\<rparr>)"
| st_pump: "hub_step lru S (S\<lparr>hs := on_obj q (\<lambda>s. s\<lparr>sendCh := tl (sendCh s)\<rparr>) (hs S)\<rparr>)"
| st_env: "slots_ok p' \<Longrightarrow> hub_step lru S (S\<lparr>hp := p'\<rparr>)"

inductive hub_reach :: "'c lru_api \<Rightarrow> int \<Rightarrow> 'c hub_sys \<Rightarrow> bool" for lru start where
  hr_init: "int64 start \<Longrightarrow> slots_ok p \<Longrightarrow>
    hub_reach lru start \<lparr>hs = (newHub lru hid room cfg st pe dt)\<lparr>lastSequence := start\<rparr>, hp = p, phase = Running,
      issued = [], acks = []\<rparr>"
| hr_step: "hub_reach lru start S \<Longrightarrow> hub_step lru S T \<Longrightarrow> hub_reach lru start T"

section \<open>The invariant\<close>

definition seqs_from :: "int \<Rightarrow> nat \<Rightarrow> int list" where
  "seqs_from start n = map (\<lambda>i. int64_of (start + 1 + int i)) [0..<n]"

lemma seqs_from_Suc: "seqs_from start (Suc n) = seqs_from start n @ [int64_of (start + 1 + int n)]"
  by (simp add: seqs_from_def)

definition hub_inv :: "int \<Rightarrow> 'c hub_sys \<Rightarrow> bool" where
  "hub_inv start S \<longleftrightarrow>
     sessions_ok (hs S) \<and> slots_ok (hp S) \<and>
     lastSequence (hs S) = int64_of (start + int (length (issued S))) \<and>
     map SequenceNumber (issued S) = seqs_from start (length (issued S)) \<and>
     mset (map fst (acks S)) \<subseteq># mset (issued S) \<and>
     pendingPersist (hs S) = (if persists (hs S) then int (length (issued S)) - int (length (acks S)) else 0) \<and>
     (persistFailed (hs S) \<longleftrightarrow> (\<exists>a \<in> set (acks S). snd a \<noteq> None)) \<and>
     (\<not> persists (hs S) \<longrightarrow> acks S = []) \<and>
     (phase S \<noteq> Running \<longrightarrow> draining (hs S)) \<and>
     (phase S = Stopped \<longrightarrow> sessions (hs S) = [] \<and> broadcastCh (hs S) = [] \<and> doneCh (hs S)) \<and>
     length (broadcastCh (hs S)) \<le> hubBroadcastBufferSize"

lemma hub_invD:
  assumes "hub_inv start S"
  shows "sessions_ok (hs S)" "slots_ok (hp S)" "lastSequence (hs S) = int64_of (start + int (length (issued S)))"
    "map SequenceNumber (issued S) = seqs_from start (length (issued S))"
    "mset (map fst (acks S)) \<subseteq># mset (issued S)"
    "pendingPersist (hs S) = (if persists (hs S) then int (length (issued S)) - int (length (acks S)) else 0)"
    "persistFailed (hs S) \<longleftrightarrow> (\<exists>a \<in> set (acks S). snd a \<noteq> None)"
    "\<not> persists (hs S) \<Longrightarrow> acks S = []" "phase S \<noteq> Running \<Longrightarrow> draining (hs S)"
    "phase S = Stopped \<Longrightarrow> sessions (hs S) = [] \<and> broadcastCh (hs S) = [] \<and> doneCh (hs S)"
    "length (broadcastCh (hs S)) \<le> hubBroadcastBufferSize"
  using assms unfolding hub_inv_def by blast+

text \<open>The parts of the invariant that look only at some fields of the hub.\<close>

lemma hub_inv_cong:
  assumes "hub_inv start S" "sessions_ok h'"
    "lastSequence h' = lastSequence (hs S)" "pendingPersist h' = pendingPersist (hs S)" "persists h' = persists (hs S)"
    "persistFailed h' = persistFailed (hs S)" "draining (hs S) \<longrightarrow> draining h'"
    "phase S = Stopped \<Longrightarrow> sessions h' = sessions (hs S) \<and> broadcastCh h' = broadcastCh (hs S) \<and> doneCh h' = doneCh (hs S)"
    "length (broadcastCh h') \<le> hubBroadcastBufferSize"
  shows "hub_inv start (S\<lparr>hs := h'\<rparr>)"
  using assms by (auto simp: hub_inv_def)

lemma registerSession_frame [hub_simps]:
  "lastSequence (registerSession q u h) = lastSequence h" "pendingPersist (registerSession q u h) = pendingPersist h"
  "persists (registerSession q u h) = persists h" "persistFailed (registerSession q u h) = persistFailed h"
  "draining (registerSession q u h) = draining h" "broadcastCh (registerSession q u h) = broadcastCh h"
  "h_roomID (registerSession q u h) = h_roomID h" "doneCh (registerSession q u h) = doneCh h"
  by (auto simp: registerSession_def Let_def forget_session_def on_obj_def split: option.splits sum.splits)

lemma run_unregister_frame [hub_simps]:
  "lastSequence (run_unregister q h) = lastSequence h" "pendingPersist (run_unregister q h) = pendingPersist h"
  "persists (run_unregister q h) = persists h" "persistFailed (run_unregister q h) = persistFailed h"
  "draining (run_unregister q h) = draining h" "broadcastCh (run_unregister q h) = broadcastCh h"
  "h_roomID (run_unregister q h) = h_roomID h" "doneCh (run_unregister q h) = doneCh h"
  by (auto simp: run_unregister_def Let_def forget_session_def on_obj_def)

definition close_fun :: "'c hub \<Rightarrow> session \<Rightarrow> session" where
  "close_fun h = (case sessionCloseFrame h of (reason, code) \<Rightarrow>
     if code \<noteq> 0 then closeWithCode code reason else close)"

lemma close_fun_ok [simp]: "session_ok s \<Longrightarrow> session_ok (close_fun h s)" "s_closed (close_fun h s)"
  by (auto simp: close_fun_def split: prod.splits)

lemma shutdown_eq:
  "shutdown h = h\<lparr>draining := True, objs := upd_objs (close_fun h) (sessions h) (objs h), activeSessions := 0,
     sessions := [], unregisterCh := [], broadcastCh := []\<rparr>"
proof -
  have "sessionCloseFrame (h\<lparr>draining := True\<rparr>) = sessionCloseFrame h" by (simp add: sessionCloseFrame_def)
  then show ?thesis
    by (cases "sessionCloseFrame h") (simp add: shutdown_def Let_def beginDrain_def close_fun_def fold_on_obj)
qed

lemma sessions_ok_run_unregister:
  assumes h: "sessions_ok h" shows "sessions_ok (run_unregister q h)"
proof -
  let ?u = "s_senderID (objs h ! q)"
  let ?h1 = "if map_of (sessions h) ?u = Some q then on_obj q close (forget_session ?u h) else h"
  have "sessions_ok ?h1" using h sessions_ok_forget(1) [OF h] by simp
  then show ?thesis
    by (simp add: run_unregister_def Let_def sessions_ok_def)
qed

lemma sessions_ok_add:
  assumes h: "sessions_ok h" and q: "q < length (objs h)" "s_senderID (objs h ! q) = u" "\<not> s_closed (objs h ! q)"
    "q \<notin> snd ` set (sessions h)" "u \<notin> fst ` set (sessions h)"
  shows "sessions_ok (h\<lparr>sessions := (u, q) # sessions h, activeSessions := activeSessions h + 1\<rparr>)"
  using assms by (auto simp: sessions_ok_def)

lemma sessions_ok_run_register:
  assumes h: "sessions_ok h" and run: "run_register u h = (r, h')"
  shows "sessions_ok h'"
proof (cases "draining h")
  case True
  then show ?thesis using h run by (simp add: run_register_def)
next
  case False
  note D = sessions_okD [OF h]
  let ?q = "length (objs h)" and ?s = "newSession (h_sessionCfg h) u (h_roomID h)"
  let ?h = "h\<lparr>objs := objs h @ [?s], idleTimer := False\<rparr>"
  have below: "p < ?q" if "(v, p) \<in> set (sessions h)" for v p using D(5) [OF that] by simp
  have h1: "sessions_ok ?h"
    using D below unfolding sessions_ok_def by (fastforce simp: nth_append)
  have s: "s_senderID ?s = u" "\<not> s_closed ?s" by (simp_all add: newSession_def)
  have h': "h' = registerSession ?q u (h\<lparr>objs := objs h @ [?s]\<rparr>)"
    using run False by (simp add: run_register_def Let_def)
  show ?thesis
  proof (cases "map_of (sessions h) u")
    case None
    then have "u \<notin> fst ` set (sessions h)" by (simp add: map_of_eq_None_iff)
    moreover have "?q \<notin> snd ` set (sessions h)" using below by force
    ultimately show ?thesis
      using sessions_ok_add [OF h1, of ?q u] s None by (simp add: h' registerSession_def Let_def)
  next
    case (Some old)
    obtain d where d: "toRawJSON (conflict_message (h_roomID h)) = Inr d" using toRawJSON_ok by blast
    have "sessions_ok (on_obj old (send d) ?h)"
      by (rule sessions_ok_upd_one [OF h1, of "send d"]) (auto simp: on_obj_def)
    moreover have "map_of (sessions (on_obj old (send d) ?h)) u = Some old" using Some by (simp add: on_obj_def)
    ultimately have f: "sessions_ok (on_obj old close (forget_session u (on_obj old (send d) ?h)))"
      "u \<notin> fst ` set (sessions (forget_session u (on_obj old (send d) ?h)))"
      using sessions_ok_forget [of "on_obj old (send d) ?h" u old] by auto
    have old: "old < ?q" using Some below map_of_SomeD by fastforce
    have "?q \<notin> snd ` set (sessions (forget_session u (on_obj old (send d) ?h)))"
      using below by (force simp: forget_session_def on_obj_def)
    moreover have comm: "forget_session u (on_obj old close x) = on_obj old close (forget_session u x)" for x :: "'a hub"
      by (simp add: forget_session_def on_obj_def)
    ultimately show ?thesis
      using sessions_ok_add [OF f(1), of ?q u] f(2) s old Some d
      by (simp add: h' registerSession_def Let_def comm) (simp add: on_obj_def forget_session_def nth_append)
  qed
qed

lemma ack_frame [hub_simps]:
  "pendingPersist (ack err h) = pendingPersist h - 1" "persistFailed (ack err h) \<longleftrightarrow> persistFailed h \<or> err \<noteq> None"
  "lastSequence (ack err h) = lastSequence h" "persists (ack err h) = persists h" "draining (ack err h) = draining h"
  "sessions (ack err h) = sessions h" "broadcastCh (ack err h) = broadcastCh h" "doneCh (ack err h) = doneCh h"
  "sessions_ok (ack err h) = sessions_ok h" "objs (ack err h) = objs h" "h_roomID (ack err h) = h_roomID h"
  by (auto simp: ack_def dec_pending_def Let_def notifyPersistDone_def)

lemma hub_inv_init:
  assumes "int64 start" "slots_ok p"
  shows "hub_inv start \<lparr>hs = (newHub lru hid room cfg st pe dt)\<lparr>lastSequence := start\<rparr>, hp = p, phase = Running,
      issued = [], acks = []\<rparr>"
  using assms by (simp add: hub_inv_def seqs_from_def int64_def newHub_def sessions_ok_def)

lemma sessions_ok_shutdown: "sessions_ok h \<Longrightarrow> sessions_ok (shutdown h)"
  unfolding shutdown_eq sessions_ok_def by (auto intro!: upd_objs_all)

text \<open>The effect of handling one message, as far as the invariant is concerned.\<close>

definition hub_frame :: "'c hub \<Rightarrow> 'c hub \<Rightarrow> bool" where
  "hub_frame h h' \<longleftrightarrow> persists h' = persists h \<and> persistFailed h' = persistFailed h \<and> draining h' = draining h \<and>
     broadcastCh h' = broadcastCh h \<and> doneCh h' = doneCh h \<and> sessions h' = sessions h \<and> h_roomID h' = h_roomID h \<and>
     sessions_ok h'"

lemma fanOut_frame:
  assumes run: "fanOut newV7 now m h p = (out, m', h', p')" and ok: "slots_ok p"
    and seq: "int64 (lastSequence h)" and h: "sessions_ok h"
  shows "hub_frame h h' \<and> slots_ok p'"
proof -
  have pok: "persists h \<longrightarrow> slots_ok p" using ok by simp
  have s: "sessions_ok h'" by (rule sessions_ok_fanOut [OF run pok seq h])
  show ?thesis using run pok seq
  proof (cases rule: fanOut_cases)
    case (accepted d newID p1)
    have "persists h \<Longrightarrow> slots_ok (p1\<lparr>persistCh := persistCh p @ [t]\<rparr>)" for t
      using accepted(5) reserve_room(1) [OF ok, of p1] reserve_room(3) [OF ok, of p1 t] by auto
    with s accepted(6,7) ok show ?thesis by (auto simp: hub_frame_def)
  next
    case (backpressure d)
    with s ok show ?thesis by (simp add: hub_frame_def)
  next
    case no_id
    with s ok show ?thesis by (simp add: hub_frame_def)
  qed
qed

lemma handleBroadcast_cases:
  assumes run: "handleBroadcast lru newV7 now m h p = (out, h', p')"
    and ok: "slots_ok p" and seq: "int64 (lastSequence h)" and h: "sessions_ok h"
  obtains (accepted) newID where "hub_frame h h'" "slots_ok p'"
      "newly_issued out = [stamped (int64_of (lastSequence h + 1)) newID now m]"
      "lastSequence h' = int64_of (lastSequence h + 1)"
      "pendingPersist h' = (if persists h then pendingPersist h + 1 else pendingPersist h)"
  | (dropped) "hub_frame h h'" "slots_ok p'" "newly_issued out = []" "lastSequence h' = lastSequence h"
      "pendingPersist h' = pendingPersist h" "p' = p"
proof -
  obtain ex cache where g: "(if ClientMsgID m \<noteq> [] then lru_Get lru (idempotencyCache h) (ClientMsgID m)
      else (False, idempotencyCache h)) = (ex, cache)" by fastforce
  let ?h = "h\<lparr>idempotencyCache := cache\<rparr>"
  have sh: "sessions_ok ?h" using h by (simp add: sessions_ok_def)
  show ?thesis
  proof (cases ex)
    case True
    with run g have "out = None" "h' = ?h" "p' = p" by (auto simp: handleBroadcast_def)
    with sh ok show ?thesis by (intro dropped) (simp_all add: newly_issued_def hub_frame_def)
  next
    case False
    obtain o1 m1 h1 p1 where f: "fanOut newV7 now m ?h p = (o1, m1, h1, p1)" by (metis surj_pair)
    obtain c where out: "out = Some (o1, m1)" "p' = p1" "h' = h1\<lparr>idempotencyCache := c\<rparr>"
    proof -
      have "out = Some (o1, m1)" "p' = p1" "h' = h1\<lparr>idempotencyCache := idempotencyCache h'\<rparr>"
        using run g False f by (auto simp: handleBroadcast_def split: if_splits)
      then show ?thesis by (rule that)
    qed
    have q: "persists ?h \<longrightarrow> slots_ok p" "int64 (lastSequence ?h)" using ok seq by auto
    have fr: "hub_frame h h'" "slots_ok p'"
      using fanOut_frame [OF f ok q(2) sh] out by (auto simp: hub_frame_def)
    from f q show ?thesis
    proof (cases rule: fanOut_cases)
      case (accepted d newID p2)
      with out fr show ?thesis by (intro that(1) [of newID]) (simp_all add: newly_issued_def)
    next
      case (backpressure d)
      with out fr show ?thesis by (intro dropped) (simp_all add: newly_issued_def)
    next
      case no_id
      with out fr show ?thesis by (intro dropped) (simp_all add: newly_issued_def)
    qed
  qed
qed

lemma hub_inv_handle:
  assumes inv: "hub_inv start S" and ph: "phase S \<noteq> Stopped" and q: "broadcastCh (hs S) = m # ms"
    and run: "handleBroadcast lru newV7 now m ((hs S)\<lparr>broadcastCh := ms\<rparr>) (hp S) = (out, h', p')"
  shows "hub_inv start (S\<lparr>hs := h', hp := p', issued := issued S @ newly_issued out\<rparr>)"
proof -
  let ?h = "(hs S)\<lparr>broadcastCh := ms\<rparr>"
  have pre: "slots_ok (hp S)" "int64 (lastSequence ?h)" "sessions_ok ?h"
    using inv by (auto simp: hub_inv_def)
  from run pre show ?thesis
  proof (cases rule: handleBroadcast_cases)
    case (accepted newID)
    have s: "int64_of (int64_of (start + int (length (issued S))) + 1) = int64_of (start + 1 + int (length (issued S)))"
      by (subst int64_of_add) (simp add: algebra_simps)
    have sub: "A \<subseteq># add_mset x B" if "A \<subseteq># B" for A B :: "message multiset" and x
      using that by (metis mset_subset_eq_exists_conv union_mset_add_mset_right)
    have "lastSequence h' = int64_of (start + 1 + int (length (issued S)))"
      using accepted inv s by (simp add: hub_inv_def)
    moreover have "map SequenceNumber (issued S @ newly_issued out) = seqs_from start (length (issued S @ newly_issued out))"
      using accepted(3) inv s by (simp add: hub_inv_def seqs_from_Suc)
    moreover have "mset (map fst (acks S)) \<subseteq># mset (issued S @ newly_issued out)"
      using accepted(3) inv sub by (simp add: hub_inv_def)
    moreover have "pendingPersist h' = (if persists h' then int (length (issued S @ newly_issued out)) - int (length (acks S)) else 0)"
      using accepted(1,3,5) hub_invD(6) [OF inv] by (simp add: hub_frame_def)
    moreover have "length (issued S @ newly_issued out) = Suc (length (issued S))" using accepted(3) by simp
    moreover note fr = accepted(1,2) [unfolded hub_frame_def] hub_invD(7-9) [OF inv] hub_invD(11) [OF inv] ph q
    ultimately show ?thesis unfolding hub_inv_def
      by (intro conjI impI) (simp_all del: length_append int64_of_id add: add.assoc)
  next
    case dropped
    then show ?thesis using inv ph q unfolding hub_inv_def hub_frame_def by simp
  qed
qed

lemma hub_step_inv:
  assumes step: "hub_step lru S T" and inv: "hub_inv start S"
  shows "hub_inv start T"
  using step
proof cases
  case (st_enqueue m r h')
  then show ?thesis using inv
    by (auto simp: enqueue_attempt_def split: if_splits intro!: hub_inv_cong) (auto simp: hub_inv_def)
next
  case (st_force reason)
  show ?thesis unfolding st_force
    by (rule hub_inv_cong [OF inv]) (use inv in \<open>auto simp: forceClose_def beginDrain_def Let_def hub_inv_def\<close>)
next
  case (st_register u r h')
  have "sessions_ok h'" using st_register sessions_ok_run_register inv by (auto simp: hub_inv_def)
  then show ?thesis unfolding st_register(1) using st_register inv
    by (intro hub_inv_cong [OF inv]) (auto simp: run_register_def Let_def hub_simps hub_inv_def split: if_splits)
next
  case (st_exit q)
  then show ?thesis using inv by (auto intro!: hub_inv_cong) (auto simp: hub_inv_def)
next
  case (st_unregister q qs)
  have "sessions_ok (run_unregister q ((hs S)\<lparr>unregisterCh := qs\<rparr>))"
    using inv by (intro sessions_ok_run_unregister) (simp add: hub_inv_def)
  then show ?thesis unfolding st_unregister(1) using st_unregister inv
    by (intro hub_inv_cong [OF inv]) (auto simp: hub_simps hub_inv_def)
next
  case (st_handle m ms newV7 now out h' p')
  then show ?thesis using hub_inv_handle [OF inv] by simp
next
  case st_drain
  then show ?thesis using inv by (auto simp: hub_inv_def beginDrain_def)
next
  case st_return
  have "sessions_ok (shutdown (hs S))" using inv sessions_ok_shutdown by (auto simp: hub_inv_def)
  then show ?thesis using st_return inv
    unfolding hub_inv_def run_return_def by (simp add: shutdown_eq)
next
  case (st_ack m err)
  have "m \<in># mset (issued S) - mset (map fst (acks S))" using st_ack by (simp add: outstanding_def)
  with inv have "add_mset m (mset (map fst (acks S))) \<subseteq># mset (issued S)"
    by (intro add_mset_subset) (simp_all add: hub_inv_def)
  moreover have "int (length (issued S)) - int (length (acks S)) - 1 = int (length (issued S)) - int (length (acks S @ [(m, err)]))"
    by simp
  ultimately show ?thesis
    unfolding st_ack(1) hub_inv_def using hub_invD [OF inv] st_ack(2)
    by (intro conjI impI) (simp_all add: ack_frame disj_commute del: length_append)
next
  case (st_pump q)
  have "sessions_ok (on_obj q (\<lambda>s. s\<lparr>sendCh := tl (sendCh s)\<rparr>) (hs S))"
    by (rule sessions_ok_upd_one [OF hub_invD(1) [OF inv], of "\<lambda>s. s\<lparr>sendCh := tl (sendCh s)\<rparr>" _ q])
      (simp_all add: on_obj_def session_ok_def)
  then show ?thesis unfolding st_pump
    by (rule hub_inv_cong [OF inv]) (simp_all add: on_obj_def hub_invD(11) [OF inv])
next
  case (st_env p')
  then show ?thesis using inv by (simp add: hub_inv_def)
qed

lemma hub_reach_inv: "hub_reach lru start S \<Longrightarrow> hub_inv start S"
proof (induction rule: hub_reach.induct)
  case hr_init
  then show ?case by (rule hub_inv_init)
next
  case hr_step
  then show ?case using hub_step_inv by blast
qed

section \<open>Sequence numbers\<close>

lemma seqs_from_consecutive:
  assumes "0 \<le> start" "start + int n < 2 ^ 63"
  shows "seqs_from start n = [start + 1 .. start + int n]"
  using assms
proof (induction n)
  case (Suc n)
  have "[start + 1 .. start + int (Suc n)] = [start + 1 .. start + int n] @ [start + int (Suc n)]"
    using Suc.prems by (subst upto_rec2) auto
  with Suc show ?case by (simp add: seqs_from_Suc add.assoc)
qed (simp add: seqs_from_def)

text \<open>C3: Sequence numbers of a room are gap-free and in order: in every reachable state of a hub that
  started at \<open>start\<close>, the messages issued so far (handed to the pipeline and to the sessions) carry
  exactly the numbers \<open>start + 1, start + 2, \<dots>\<close>, and the counter is the last of them, whatever messages
  were rejected, dropped as duplicates or failed on the way.\<close>

theorem hub_sequence_gapless:
  assumes "hub_reach lru start S" "0 \<le> start" "start + int (length (issued S)) < 2 ^ 63"
  shows "map SequenceNumber (issued S) = [start + 1 .. start + int (length (issued S))] \<and>
    lastSequence (hs S) = start + int (length (issued S))"
  using hub_invD(3,4) [OF hub_reach_inv [OF assms(1)]] seqs_from_consecutive [OF assms(2,3)] assms(2,3) by simp

section \<open>Concrete runs\<close>

definition ex_cfg :: sessionConfig where
  "ex_cfg = \<lparr>writeWait = 1, pongWait = 1, pingPeriod = 1, maxLength = 100\<rparr>"

definition ex_msg :: "string \<Rightarrow> message" where
  "ex_msg c = \<lparr>ID = [], RoomID = ''r1'', SenderID = ''u1'', Content = ''hi'', ClientMsgID = c, MType = ''chat'',
     SequenceNumber = 0, Timestamp = 5, ReceivedAt = 0\<rparr>"

definition ex_pipe :: pipe where
  "ex_pipe = \<lparr>persistCh = [], persistCap = 10000, persistSlots = Some 0, slotsCap = 10000\<rparr>"

definition ex_start :: "(nat \<times> string list) hub_sys" where
  "ex_start = \<lparr>hs = (newHub list_lru 0 ''r1'' ex_cfg True True 0)\<lparr>lastSequence := 41\<rparr>, hp = ex_pipe,
     phase = Running, issued = [], acks = []\<rparr>"

lemma ex_start_reach: "hub_reach list_lru 41 ex_start"
  unfolding ex_start_def by (rule hr_init) (simp_all add: int64_def slots_ok_def ex_pipe_def)

lemma step_enqueue:
  "hub_reach lru start S \<Longrightarrow> hub_reach lru start (S\<lparr>hs := snd (enqueue_attempt m (hs S))\<rparr>)"
  using hr_step [OF _ st_enqueue [OF surjective_pairing]] by blast

lemma step_handle:
  "hub_reach lru start S \<Longrightarrow> phase S \<noteq> Stopped \<Longrightarrow> broadcastCh (hs S) = m # ms \<Longrightarrow>
   r = handleBroadcast lru newV7 now m ((hs S)\<lparr>broadcastCh := ms\<rparr>) (hp S) \<Longrightarrow>
   hub_reach lru start (S\<lparr>hs := fst (snd r), hp := snd (snd r), issued := issued S @ newly_issued (fst r)\<rparr>)"
  using hr_step [OF _ st_handle, of lru start S] by (metis prod.collapse)

text \<open>A run that issues one message with number 42.\<close>

definition ex_one :: "(nat \<times> string list) hub_sys" where
  "ex_one = (let S = ex_start\<lparr>hs := snd (enqueue_attempt (ex_msg ''c1'') (hs ex_start))\<rparr>;
     r = handleBroadcast list_lru (Inr ''m1'') 0 (ex_msg ''c1'') ((hs S)\<lparr>broadcastCh := []\<rparr>) (hp S)
   in S\<lparr>hs := fst (snd r), hp := snd (snd r), issued := issued S @ newly_issued (fst r)\<rparr>)"

lemma ex_one_reach: "hub_reach list_lru 41 ex_one"
  unfolding ex_one_def Let_def
  by (rule step_handle [OF step_enqueue [OF ex_start_reach]])
    (simp_all add: ex_start_def enqueue_attempt_def newHub_def hubBroadcastBufferSize_def)

lemma ex_one_values:
  "issued ex_one = [(ex_msg ''c1'')\<lparr>ID := ''m1'', SequenceNumber := 42\<rparr>]" "pendingPersist (hs ex_one) = 1"
  "acks ex_one = []" "phase ex_one = Running" "persists (hs ex_one)" "persistFailed (hs ex_one) = False"
  by (simp_all add: ex_one_def ex_start_def enqueue_attempt_def newHub_def hubBroadcastBufferSize_def
      handleBroadcast_def fanOut_def list_lru_def reservePersistSlot_def ex_pipe_def ex_msg_def toRawJSON_def
      newly_issued_def send_all_eq idempotencyCacheSize_def persists_def Let_def)

theorem hub_sequence_gapless_witness:
  "hub_reach list_lru 41 ex_one \<and> map SequenceNumber (issued ex_one) = [42]"
  using hub_sequence_gapless [OF ex_one_reach] ex_one_reach by (simp add: ex_one_values)

section \<open>Acknowledgements and the end of a hub\<close>

text \<open>What the lease protocol reads of a hub, \<^verbatim>\<open>captureHubLeaseState\<close> of \<^verbatim>\<open>manager.go\<close>, is built from these
  counters; the invariant says what they mean.\<close>

lemma acked_all:
  assumes "mset (map fst as) \<subseteq># mset (is :: message list)" "length is = length as"
  shows "mset (map fst as) = mset is"
  using assms by (metis length_map mset_subset_size size_mset nless_le subset_mset.less_le)

text \<open>The counters of a hub are exact: while nothing is pending and no failure is recorded, every
  message the hub issued has been acknowledged exactly once, without an error; otherwise the
  pending count is the number of messages not yet acknowledged.\<close>

theorem hub_pending_exact:
  assumes "hub_reach lru start S" "persists (hs S)"
  shows "pendingPersist (hs S) = int (size (outstanding S)) \<and>
    (pendingPersist (hs S) = 0 \<and> \<not> persistFailed (hs S) \<longrightarrow>
       mset (acks S) = mset (map (\<lambda>m. (m, None)) (issued S)))"
proof -
  note D = hub_invD [OF hub_reach_inv [OF assms(1)]]
  have pend: "pendingPersist (hs S) = int (length (issued S)) - int (length (acks S))" using D(6) assms(2) by simp
  have "size (outstanding S) = length (issued S) - length (acks S)"
    using D(5) by (simp add: outstanding_def size_Diff_submset del: mset_map)
  moreover have "length (acks S) \<le> length (issued S)" using size_mset_mono [OF D(5)] by simp
  ultimately have "pendingPersist (hs S) = int (size (outstanding S))" using pend by simp
  moreover have "mset (acks S) = mset (map (\<lambda>m. (m, None)) (issued S))"
    if "pendingPersist (hs S) = 0" "\<not> persistFailed (hs S)"
  proof -
    have "mset (map fst (acks S)) = mset (issued S)" using acked_all D(5) pend that(1) by simp
    moreover have "map (\<lambda>m. (m, None)) (map fst (acks S)) = acks S"
      using D(7) that(2) by (auto intro!: map_idI)
    ultimately show ?thesis by (metis mset_map)
  qed
  ultimately show ?thesis by blast
qed

theorem hub_pending_exact_witness:
  "let S = ex_one\<lparr>hs := ack None (hs ex_one), acks := [(hd (issued ex_one), None)]\<rparr>
   in hub_reach list_lru 41 S \<and> pendingPersist (hs S) = 0 \<and> mset (acks S) = mset (map (\<lambda>m. (m, None)) (issued S))"
proof -
  let ?S = "ex_one\<lparr>hs := ack None (hs ex_one), acks := [(hd (issued ex_one), None)]\<rparr>"
  have "hub_step list_lru ex_one ?S"
    using st_ack [of ex_one "hd (issued ex_one)" list_lru None] by (simp add: ex_one_values outstanding_def)
  then have r: "hub_reach list_lru 41 ?S" by (rule hr_step [OF ex_one_reach])
  from hub_pending_exact [OF r] r show ?thesis by (simp add: ex_one_values ack_frame Let_def)
qed

text \<open>A stopped hub is final: once \<^verbatim>\<open>run\<close> has returned, no message is accepted or issued any more,
  the counter of sequence numbers does not move, no session is registered, and nothing but
  acknowledgements of earlier messages changes the counters.\<close>

theorem hub_stopped_final:
  assumes "hub_reach lru start S" "phase S = Stopped" "(hub_step lru)\<^sup>*\<^sup>* S T"
  shows "phase T = Stopped \<and> issued T = issued S \<and> lastSequence (hs T) = lastSequence (hs S) \<and>
    sessions (hs T) = [] \<and> activeSessions (hs T) = 0 \<and> broadcastCh (hs T) = [] \<and>
    fst (enqueue_attempt m (hs T)) = Some False \<and> fst (run_register u (hs T)) \<noteq> None \<and>
    pendingPersist (hs T) \<le> pendingPersist (hs S)"
proof -
  from assms(3) have "hub_reach lru start T \<and> phase T = Stopped \<and> issued T = issued S \<and>
      lastSequence (hs T) = lastSequence (hs S) \<and> pendingPersist (hs T) \<le> pendingPersist (hs S)"
  proof (induction rule: rtranclp_induct)
    case base
    then show ?case using assms by simp
  next
    case (step T U)
    then have T: "hub_reach lru start T" "phase T = Stopped" by auto
    note D = hub_invD [OF hub_reach_inv [OF T(1)]]
    have "draining (hs T)" "broadcastCh (hs T) = []" using D(9,10) T(2) by auto
    with step.hyps(2) T(2) have "phase U = Stopped \<and> issued U = issued T \<and>
      lastSequence (hs U) = lastSequence (hs T) \<and> pendingPersist (hs U) \<le> pendingPersist (hs T)"
      by cases (auto simp: enqueue_attempt_def forceClose_def beginDrain_def Let_def ack_frame on_obj_def)
    with step show ?case using hr_step [OF T(1) step.hyps(2)] by auto
  qed
  moreover from this have "draining (hs T)" "sessions (hs T) = []" "broadcastCh (hs T) = []"
      "activeSessions (hs T) = 0"
    using hub_invD(9,10) [OF hub_reach_inv] sessions_okD(3) [OF hub_invD(1) [OF hub_reach_inv]] by fastforce+
  ultimately show ?thesis by (simp add: enqueue_attempt_def run_register_def)
qed

theorem hub_stopped_final_witness:
  "\<exists>S T. hub_reach list_lru 41 S \<and> phase S = Stopped \<and> hub_step list_lru S T \<and>
     lastSequence (hs T) = lastSequence (hs S) \<and> fst (enqueue_attempt (ex_msg ''c2'') (hs T)) = Some False"
proof -
  let ?D = "ex_one\<lparr>hs := beginDrain (hs ex_one), phase := Draining\<rparr>"
  let ?S = "?D\<lparr>hs := run_return (hs ?D), phase := Stopped\<rparr>"
  let ?T = "?S\<lparr>hs := forceClose ''lease_lost'' (hs ?S)\<rparr>"
  have "hub_step list_lru ex_one ?D" by (rule st_drain) (simp add: ex_one_values)
  then have D: "hub_reach list_lru 41 ?D" by (rule hr_step [OF ex_one_reach])
  have "hub_step list_lru ?D ?S" by (rule st_return) simp
  then have S: "hub_reach list_lru 41 ?S" by (rule hr_step [OF D])
  have step: "hub_step list_lru ?S ?T" by (rule st_force)
  have "phase ?S = Stopped" by simp
  with hub_stopped_final [OF S this r_into_rtranclp [of "hub_step list_lru", OF step]] S step show ?thesis by blast
qed

end
