(* ===== verification/Hub_Guarantees.thy ===== *)
theory Hub_Guarantees
  imports Hub_Run
begin

text \<open>
  What the operations of a hub promise one by one: a message is persisted and fanned out or
  neither, duplicates are recognised within the cache window, a user has one session, closing a
  hub tells every session why, draining ends, and the reservation of pipeline slots makes the
  second full-channel branch of \<^verbatim>\<open>fanOut\<close> unreachable even when hubs and workers interleave.
\<close>

section \<open>All or nothing\<close>

definition received :: "json \<Rightarrow> message \<Rightarrow> session \<Rightarrow> session" where
  "received d m s = sendWithMeta d (SenderID m) (ReceivedAt m) s"

text \<open>Fan-out is all or nothing: while the reservation discipline of the pipeline holds, a
  message is either accepted, and then it has the next sequence number, exactly one task for
  this copy of it is appended to the pipeline, the pending count grows by one, and every session of
  the room is offered the same JSON document; or it is refused (no slot, or no message id), and
  then neither the pipeline, nor the counters, nor any session other than the sender's changes.\<close>

theorem fanOut_all_or_nothing:
  assumes run: "fanOut newV7 now m h p = (out, m', h', p')" and "persists h" "slots_ok p"
    and seq: "int64 (lastSequence h)" and h: "sessions_ok h"
  shows "(out = Accepted \<and> SequenceNumber m' = int64_of (lastSequence h + 1) \<and> lastSequence h' = SequenceNumber m' \<and>
      Content m' = Content m \<and> ClientMsgID m' = ClientMsgID m \<and>
      persistCh p' = persistCh p @ [\<lparr>task_msg = m', task_ack = Some (h_id h)\<rparr>] \<and>
      pendingPersist h' = pendingPersist h + 1 \<and>
      (\<exists>d. toRawJSON m' = Inr d \<and> (\<forall>(u, q) \<in> set (sessions h). objs h' ! q = received d m (objs h ! q)))) \<or>
    ((out = Backpressure \<or> out = NoID) \<and> p' = p \<and> lastSequence h' = lastSequence h \<and>
      pendingPersist h' = pendingPersist h \<and>
      (\<forall>(u, q) \<in> set (sessions h). u \<noteq> SenderID m \<longrightarrow> objs h' ! q = objs h ! q))"
proof -
  have pok: "persists h \<longrightarrow> slots_ok p" using assms(3) by simp
  note D = sessions_okD [OF h]
  show ?thesis using run pok seq
  proof (cases rule: fanOut_cases)
    case (accepted d newID p1)
    have "persistCh p1 = persistCh p" using accepted(5) assms(2,3) reserve_room(1) by blast
    moreover have "objs h' ! q = received d m (objs h ! q)" if "(u, q) \<in> set (sessions h)" for u q
      using accepted(6) upd_objs_nth [OF that D(2)] D(5) [OF that] by (simp add: received_def)
    ultimately show ?thesis using accepted assms(2) by auto
  next
    case (backpressure d)
    have "objs h' ! q = objs h ! q" if "(u, q) \<in> set (sessions h)" "u \<noteq> SenderID m" for u q
    proof (cases "map_of (sessions h) (SenderID m)")
      case (Some r)
      then have "r \<noteq> q" using that D(5) map_of_SomeD by metis
      then show ?thesis using backpressure Some by (simp add: told_def)
    qed (use backpressure in \<open>simp add: told_def\<close>)
    with backpressure show ?thesis by auto
  next
    case no_id
    then show ?thesis by auto
  qed
qed

theorem fanOut_all_or_nothing_witness:
  "\<exists>m' h' p'. fanOut (Inr ''m1'') 0 (ex_msg ''c1'') (hs ex_start) ex_pipe = (Accepted, m', h', p') \<and>
     SequenceNumber m' = 42 \<and> persistCh p' = [\<lparr>task_msg = m', task_ack = Some 0\<rparr>]"
proof -
  obtain out m' h' p' where f: "fanOut (Inr ''m1'') 0 (ex_msg ''c1'') (hs ex_start) ex_pipe = (out, m', h', p')"
    by (metis surj_pair)
  have pre: "persists (hs ex_start)" "slots_ok ex_pipe" "int64 (lastSequence (hs ex_start))" "sessions_ok (hs ex_start)"
    using hub_invD(1) [OF hub_reach_inv [OF ex_start_reach]]
    by (simp_all add: ex_start_def newHub_def persists_def slots_ok_def ex_pipe_def int64_def)
  have "out = Accepted"
    using f by (simp add: fanOut_def ex_start_def newHub_def ex_pipe_def ex_msg_def reservePersistSlot_def toRawJSON_def Let_def)
  with fanOut_all_or_nothing [OF f pre] f show ?thesis
    by (simp add: ex_start_def newHub_def ex_pipe_def)
qed

section \<open>Idempotency\<close>

text \<open>The client message ids that a sequence of broadcasts touches.\<close>

fun broadcasts :: "'c lru_api \<Rightarrow> ((go_error + string) \<times> int \<times> message) list \<Rightarrow> 'c hub \<Rightarrow> pipe \<Rightarrow> 'c hub \<times> pipe" where
  "broadcasts lru [] h p = (h, p)"
| "broadcasts lru ((newV7, now, m) # ms) h p =
    (case handleBroadcast lru newV7 now m h p of (out, h', p') \<Rightarrow> broadcasts lru ms h' p')"

lemma cache_frame [simp, hub_simps]:
  "idempotencyCache (sendSystemTo now u c h) = idempotencyCache h"
  "idempotencyCache (send_all d u t h) = idempotencyCache h"
  "idempotencyCache (dec_pending h) = idempotencyCache h"
  "lastSequence (sendSystemTo now u c h) = lastSequence h"
  "broadcastCh (sendSystemTo now u c h) = broadcastCh h"
  "broadcastCh (send_all d u t h) = broadcastCh h"
  "broadcastCh (dec_pending h) = broadcastCh h"
  using sendSystemTo_eq [of now u c h]
  by (auto simp: send_all_eq dec_pending_def Let_def notifyPersistDone_def)

lemma fanOut_frame_any:
  "fanOut newV7 now m h p = (out, m', h', p') \<Longrightarrow>
   idempotencyCache h' = idempotencyCache h \<and> broadcastCh h' = broadcastCh h \<and> ClientMsgID m' = ClientMsgID m \<and>
   (out = Backpressure \<longrightarrow> p' = p \<and> lastSequence h' = lastSequence h)"
  by (auto simp: fanOut_def Let_def rollbackSequenceAndSlot_def split: prod.splits if_splits sum.splits)

lemma handleBroadcast_cache:
  assumes "handleBroadcast lru newV7 now m h p = (out, h', p')"
  shows "idempotencyCache h' =
    (if ClientMsgID m = [] then idempotencyCache h
     else case lru_Get lru (idempotencyCache h) (ClientMsgID m) of
       (True, c) \<Rightarrow> c
     | (False, c) \<Rightarrow> lru_Add lru c (ClientMsgID m) (snd (the out)))"
  using assms by (auto simp: handleBroadcast_def Let_def split: prod.splits if_splits dest: fanOut_frame_any)

lemma handleBroadcast_duplicate:
  assumes "ClientMsgID m \<noteq> []" "fst (lru_Get lru (idempotencyCache h) (ClientMsgID m))"
  shows "handleBroadcast lru newV7 now m h p =
    (None, h\<lparr>idempotencyCache := snd (lru_Get lru (idempotencyCache h) (ClientMsgID m))\<rparr>, p)"
  using assms by (simp add: handleBroadcast_def Let_def case_prod_unfold)

context lru_cache
begin

lemma handle_wf:
  "handleBroadcast api newV7 now m h p = (out, h', p') \<Longrightarrow> wf (idempotencyCache h) \<Longrightarrow>
   wf (idempotencyCache h') \<and> size_of (idempotencyCache h') = size_of (idempotencyCache h)"
  using wf_get [of "idempotencyCache h" "ClientMsgID m"] size_get [of "idempotencyCache h" "ClientMsgID m"]
  by (auto simp: handleBroadcast_cache size_add wf_add split: prod.splits bool.splits)

lemma handle_recent:
  assumes run: "handleBroadcast api newV7 now m h p = (out, h', p')" and w: "wf (idempotencyCache h)"
    and r: "recent k T (idempotencyCache h)" and m: "ClientMsgID m \<noteq> [] \<longrightarrow> ClientMsgID m \<in> T"
    and T: "finite T" "card T < size_of (idempotencyCache h)"
  shows "recent k T (idempotencyCache h')"
proof (cases "ClientMsgID m = []")
  case True
  then show ?thesis using handleBroadcast_cache [OF run] r by simp
next
  case False
  let ?c = "snd (lru_Get api (idempotencyCache h) (ClientMsgID m))"
  have g: "recent k T ?c" using recent_get [OF r] m False by simp
  have "recent k T (lru_Add api ?c (ClientMsgID m) x)" for x
    using recent_add [OF wf_get [OF w] g] m False T by (simp add: size_get)
  with g False show ?thesis
    using handleBroadcast_cache [OF run] by (auto split: prod.splits bool.splits)
qed

lemma handle_added:
  assumes run: "handleBroadcast api newV7 now m h p = (out, h', p')" and w: "wf (idempotencyCache h)"
    and m: "ClientMsgID m \<noteq> []"
  shows "recent (ClientMsgID m) T (idempotencyCache h')"
proof -
  let ?k = "ClientMsgID m" and ?c = "snd (lru_Get api (idempotencyCache h) (ClientMsgID m))"
  have "recent ?k T ?c" if "fst (lru_Get api (idempotencyCache h) ?k)"
  proof -
    have "keys ?c = [] @ ?k # remove1 ?k (keys (idempotencyCache h))"
      using that by (simp add: get_keys get_found)
    then show ?thesis unfolding recent_def by (metis empty_subsetI list.set(1))
  qed
  then show ?thesis
    using handleBroadcast_cache [OF run] m recent_add_self [OF wf_get [OF w, of ?k]]
    by (auto split: prod.splits bool.splits)
qed

lemma broadcasts_recent:
  assumes "wf (idempotencyCache h)" "recent k T (idempotencyCache h)" "finite T" "card T < size_of (idempotencyCache h)"
    and "\<forall>(newV7, now, m) \<in> set ms. ClientMsgID m \<noteq> [] \<longrightarrow> ClientMsgID m \<in> T"
  shows "recent k T (idempotencyCache (fst (broadcasts api ms h p)))"
  using assms
proof (induction ms arbitrary: h p)
  case (Cons a ms)
  obtain newV7 now m where a: "a = (newV7, now, m)" by (cases a)
  obtain out h' p' where run: "handleBroadcast api newV7 now m h p = (out, h', p')" by (metis surj_pair)
  from handle_wf [OF run Cons.prems(1)] handle_recent [OF run Cons.prems(1,2) _ Cons.prems(3,4)] Cons a run
  show ?case by auto
qed simp

text \<open>Within the window of the cache, a second broadcast with the same id changes nothing but the cache.\<close>

lemma duplicate_dropped:
  assumes w: "wf (idempotencyCache h)" and k: "ClientMsgID m \<noteq> []" "ClientMsgID m2 = ClientMsgID m"
    and run: "handleBroadcast api newV7 now m h p = (out, h1, p1)"
    and rest: "broadcasts api ms h1 p1 = (h2, p2)"
    and T: "finite T" "card T < size_of (idempotencyCache h)"
      "\<forall>(newV7, now, m) \<in> set ms. ClientMsgID m \<noteq> [] \<longrightarrow> ClientMsgID m \<in> T"
  shows "\<exists>c. handleBroadcast api newV7' now' m2 h2 p2 = (None, h2\<lparr>idempotencyCache := c\<rparr>, p2)"
proof -
  have "recent (ClientMsgID m) T (idempotencyCache h1)" using handle_added [OF run w k(1)] .
  with broadcasts_recent [of h1 "ClientMsgID m" T ms p1] handle_wf [OF run w] T rest
  have "recent (ClientMsgID m) T (idempotencyCache h2)" by simp
  from handleBroadcast_duplicate [of m2 api h2] recent_found [OF this] k
  have "handleBroadcast api newV7' now' m2 h2 p2 =
    (None, h2\<lparr>idempotencyCache := snd (lru_Get api (idempotencyCache h2) (ClientMsgID m2))\<rparr>, p2)" by simp
  then show ?thesis by blast
qed

end

text \<open>Resending is idempotent: after a broadcast with a client message id, and any further
  broadcasts that use fewer than 250 different ids in between, a broadcast with the same id is
  dropped: no number is issued, nothing is persisted and nothing is sent.\<close>

theorem duplicate_broadcast_dropped:
  assumes L: "lru_cache lru keys size_of" and "lru_cache.wf keys size_of (idempotencyCache h)"
    and "size_of (idempotencyCache h) = idempotencyCacheSize"
    and "ClientMsgID m \<noteq> []" "ClientMsgID m2 = ClientMsgID m"
    and "handleBroadcast lru newV7 now m h p = (out, h1, p1)" "broadcasts lru ms h1 p1 = (h2, p2)"
    and "finite T" "card T < idempotencyCacheSize"
    and "\<forall>(newV7, now, m) \<in> set ms. ClientMsgID m \<noteq> [] \<longrightarrow> ClientMsgID m \<in> T"
  shows "\<exists>c. handleBroadcast lru newV7' now' m2 h2 p2 = (None, h2\<lparr>idempotencyCache := c\<rparr>, p2)"
  using lru_cache.duplicate_dropped [OF L assms(2,4-8) _ assms(10)] assms(3,9) by simp

theorem duplicate_broadcast_dropped_witness:
  "\<exists>out h1 p1 c. handleBroadcast list_lru (Inr ''m1'') 0 (ex_msg ''c1'') (hs ex_start) ex_pipe = (out, h1, p1) \<and>
     out \<noteq> None \<and> handleBroadcast list_lru (Inr ''m2'') 0 (ex_msg ''c1'') h1 p1 = (None, h1\<lparr>idempotencyCache := c\<rparr>, p1)"
proof -
  obtain out h1 p1 where run: "handleBroadcast list_lru (Inr ''m1'') 0 (ex_msg ''c1'') (hs ex_start) ex_pipe = (out, h1, p1)"
    by (metis surj_pair)
  have c: "idempotencyCache (hs ex_start) = (idempotencyCacheSize, [])"
    by (simp add: ex_start_def newHub_def list_lru_def)
  have "out \<noteq> None"
    using run c by (auto simp: handleBroadcast_def list_lru_def Let_def ex_msg_def split: prod.splits)
  moreover have "lru_cache.wf snd fst (idempotencyCache (hs ex_start))"
    by (simp add: c lru_cache.wf_def [OF list_lru.lru_cache_axioms] idempotencyCacheSize_def)
  ultimately show ?thesis
    using duplicate_broadcast_dropped [OF list_lru.lru_cache_axioms _ _ _ _ run, of "ex_msg ''c1''" "[]" h1 p1 "{}"
        "Inr ''m2''" 0] run c
    by (auto simp: ex_msg_def idempotencyCacheSize_def)
qed


text \<open>
  The cache also remembers a message that \<^verbatim>\<open>fanOut\<close> refused. So the retry that the hub asked for
  (\<^verbatim>\<open>persistBackpressureMsg\<close>) is dropped as a duplicate, and the message is never issued.
\<close>

text \<open>C40: The hub drops the retry it asks for: when a message is refused because the pipeline has no
  free slot, the sender is told to retry, but the refused message's client id has entered the
  idempotency cache, and the same message sent again is dropped although it was never issued.\<close>

theorem refused_message_retry_dropped:
  assumes L: "lru_cache lru keys size_of" and w: "lru_cache.wf keys size_of (idempotencyCache h)"
    and m: "ClientMsgID m \<noteq> []"
    and run: "handleBroadcast lru newV7 now m h p = (Some (Backpressure, m'), h1, p1)"
  shows "p1 = p \<and> lastSequence h1 = lastSequence h \<and>
    (\<exists>c. handleBroadcast lru newV7' now' m h1 p2 = (None, h1\<lparr>idempotencyCache := c\<rparr>, p2))"
proof -
  have "fst (lru_Get lru (idempotencyCache h1) (ClientMsgID m))"
    by (rule lru_cache.recent_found [OF L lru_cache.handle_added [OF L run w m, of "{}"]])
  from handleBroadcast_duplicate [OF m this, of newV7' now' p2]
  have "\<exists>c. handleBroadcast lru newV7' now' m h1 p2 = (None, h1\<lparr>idempotencyCache := c\<rparr>, p2)" by blast
  moreover have "p1 = p" "lastSequence h1 = lastSequence h"
    using run by (auto simp: handleBroadcast_def Let_def split: prod.splits if_splits dest!: fanOut_frame_any)
  ultimately show ?thesis by blast
qed

theorem refused_message_retry_dropped_witness:
  "\<exists>m' h1 c. handleBroadcast list_lru (Inr ''m1'') 0 (ex_msg ''c1'') (hs ex_start) (ex_pipe\<lparr>slotsCap := 0\<rparr>) =
       (Some (Backpressure, m'), h1, ex_pipe\<lparr>slotsCap := 0\<rparr>) \<and>
     handleBroadcast list_lru (Inr ''m2'') 0 (ex_msg ''c1'') h1 ex_pipe = (None, h1\<lparr>idempotencyCache := c\<rparr>, ex_pipe)"
proof -
  have c: "idempotencyCache (hs ex_start) = (idempotencyCacheSize, [])"
    by (simp add: ex_start_def newHub_def list_lru_def)
  obtain m' h1 where run: "handleBroadcast list_lru (Inr ''m1'') 0 (ex_msg ''c1'') (hs ex_start) (ex_pipe\<lparr>slotsCap := 0\<rparr>) =
       (Some (Backpressure, m'), h1, ex_pipe\<lparr>slotsCap := 0\<rparr>)"
    by (simp add: handleBroadcast_def fanOut_def reservePersistSlot_def ex_pipe_def ex_start_def newHub_def list_lru_def
        ex_msg_def Let_def)
  have "lru_cache.wf snd fst (idempotencyCache (hs ex_start))"
    by (simp add: c lru_cache.wf_def [OF list_lru.lru_cache_axioms] idempotencyCacheSize_def)
  from refused_message_retry_dropped [OF list_lru.lru_cache_axioms this _ run, of "Inr ''m2''" 0 ex_pipe] run
  show ?thesis by (auto simp: ex_msg_def)
qed

section \<open>Sessions\<close>

text \<open>A user has one session per room: registering a user who is already connected closes the old
  session after queueing the conflict notice, replaces it in the map, leaves every other user's
  session alone, and keeps the session count equal to the number of registered sessions.\<close>

theorem register_replaces_session:
  assumes h: "sessions_ok h" and d: "\<not> draining h" and old: "map_of (sessions h) u = Some q"
    and run: "run_register u h = (r, h')"
  shows "r = None \<and> sessions_ok h' \<and> map_of (sessions h') u = Some (length (objs h)) \<and>
    activeSessions h' = activeSessions h \<and> s_closed (objs h' ! q) \<and>
    (length (sendCh (objs h ! q)) < sendBufferSize \<longrightarrow> (\<exists>pk. sendCh (objs h' ! q) = sendCh (objs h ! q) @ [pk] \<and>
       toRawJSON (conflict_message (h_roomID h)) = Inr (pk_data pk))) \<and>
    (\<forall>v p. v \<noteq> u \<longrightarrow> map_of (sessions h) v = Some p \<longrightarrow> map_of (sessions h') v = Some p \<and> objs h' ! p = objs h ! p)"
proof -
  note D = sessions_okD [OF h]
  have q: "q < length (objs h)" "\<not> s_closed (objs h ! q)" using D(5) [OF map_of_SomeD [OF old]] by auto
  obtain dd where dd: "toRawJSON (conflict_message (h_roomID h)) = Inr dd" using toRawJSON_ok by blast
  let ?os = "objs h @ [newSession (h_sessionCfg h) u (h_roomID h)]"
  have os: "?os ! p = objs h ! p" if "p < length (objs h)" for p using that by (simp add: nth_append)
  have h': "r = None" "sessions h' = (u, length (objs h)) # filter (\<lambda>(u', p). u' \<noteq> u) (sessions h)"
    "activeSessions h' = activeSessions h" "objs h' = ?os[q := send dd (?os ! q), q := close (send dd (?os ! q))]"
    using run d old dd q
    by (auto simp: run_register_def registerSession_def Let_def forget_session_def on_obj_def)
  have "map_of (filter (\<lambda>(u', p). u' \<noteq> u) xs) v = map_of xs v" if "v \<noteq> u" for v and xs :: "(string \<times> nat) list"
    using that by (induction xs) auto
  moreover have "objs h' ! p = objs h ! p" if "v \<noteq> u" "map_of (sessions h) v = Some p" for v p
  proof -
    have "p < length (objs h)" "p \<noteq> q"
      using D(5) [OF map_of_SomeD [OF that(2)]] D(5) [OF map_of_SomeD [OF old]] that(1) by auto
    then show ?thesis using h'(4) os by simp
  qed
  moreover have "sessions_ok h'" by (rule sessions_ok_run_register [OF h run])
  moreover have "\<exists>pk. sendCh (objs h' ! q) = sendCh (objs h ! q) @ [pk] \<and> dd = pk_data pk"
    if "length (sendCh (objs h ! q)) < sendBufferSize"
    using that h'(4) q os by (simp add: send_def sendWithMeta_def)
  ultimately show ?thesis using h' dd q os by (auto simp: nth_append)
qed

theorem register_replaces_session_witness:
  "let h = snd (run_register ''u1'' (hs ex_start)); h' = snd (run_register ''u1'' h)
   in map_of (sessions h) ''u1'' = Some 0 \<and> map_of (sessions h') ''u1'' = Some 1 \<and> s_closed (objs h' ! 0)"
proof -
  let ?h = "snd (run_register ''u1'' (hs ex_start))"
  have s0: "sessions_ok (hs ex_start)" by (rule hub_invD(1) [OF hub_reach_inv [OF ex_start_reach]])
  have s1: "sessions_ok ?h" by (rule sessions_ok_run_register [OF s0 surjective_pairing])
  have e: "\<not> draining ?h" "map_of (sessions ?h) ''u1'' = Some 0" "length (objs ?h) = 1"
    by (simp_all add: run_register_def registerSession_def ex_start_def newHub_def)
  from register_replaces_session [OF s1 e(1,2) surjective_pairing] e show ?thesis by (simp add: Let_def)
qed

section \<open>Closing and draining\<close>

lemma shutdown_session:
  assumes h: "sessions_ok h" and u: "(u, q) \<in> set (sessions h)"
  shows "objs (shutdown h) ! q = close_fun h (objs h ! q)"
  using upd_objs_nth [OF u sessions_okD(2) [OF h]] sessions_okD(5) [OF h u] by (simp add: shutdown_eq)

text \<open>Every session of a hub that ends is told why: when \<^verbatim>\<open>run\<close> returns, each registered session is
  closed; after a hand-off, a lost lease or a stale lease its close frame is 1012 with the reason
  \<open>room owner handoff\<close>, which tells the client to reconnect, and in every other case an empty
  close frame.\<close>

theorem run_return_closes_sessions:
  assumes h: "sessions_ok h" and u: "(u, q) \<in> set (sessions h)"
  shows "s_closed (objs (run_return h) ! q) \<and> sendCh (objs (run_return h) ! q) = sendCh (objs h ! q) \<and>
    closeMessage fmt (objs (run_return h) ! q) =
      (if closeReason h \<in> {Some handoffCloseReason, Some ''lease_lost'', Some ''lease_renew_stale''}
       then fmt 1012 ''room owner handoff'' else [])"
proof -
  have "objs (run_return h) ! q = close_fun h (objs h ! q)"
    using shutdown_session [OF h u] by (simp add: run_return_def)
  moreover have "\<not> s_closed (objs h ! q)" using sessions_okD(5) [OF h u] by simp
  ultimately show ?thesis
    by (cases "closeReason h")
      (auto simp: close_fun_def sessionCloseFrame_def closeMessage_def closeWithCode_def close_def
        handoffCloseCode_def handoffCloseReason_def)
qed

theorem run_return_closes_sessions_witness:
  "let h = forceClose ''lease_lost'' (snd (run_register ''u1'' (hs ex_start)))
   in closeMessage (\<lambda>c r. r) (objs (run_return h) ! 0) = ''room owner handoff''"
proof -
  let ?h = "forceClose ''lease_lost'' (snd (run_register ''u1'' (hs ex_start)))"
  have s0: "sessions_ok (hs ex_start)" by (rule hub_invD(1) [OF hub_reach_inv [OF ex_start_reach]])
  have "sessions_ok ?h"
    using sessions_ok_run_register [OF s0 surjective_pairing, of "''u1''"] by (simp add: forceClose_def beginDrain_def Let_def)
  moreover have "(''u1'', 0) \<in> set (sessions ?h)" "closeReason ?h = Some ''lease_lost''"
    by (simp_all add: forceClose_def beginDrain_def run_register_def registerSession_def ex_start_def newHub_def)
  ultimately show ?thesis
    using run_return_closes_sessions [of ?h "''u1''" 0 "\<lambda>c r. r"] by (simp add: Let_def handoffCloseReason_def)
qed







section \<open>Accepting a broadcast\<close>

definition interfered :: "nat \<Rightarrow> (('c hub \<Rightarrow> 'c hub) \<times> wake) list \<Rightarrow> 'c hub \<Rightarrow> 'c hub" where
  "interfered k waits h = fold (\<lambda>(f, wk). f) (take k waits) h"

lemma enqueueBroadcast_effect:
  "enqueueBroadcast msg waits h = (r, h') \<Longrightarrow>
   \<exists>k. (r = Some True \<longrightarrow> \<not> draining (interfered k waits h) \<and>
          length (broadcastCh (interfered k waits h)) < hubBroadcastBufferSize \<and>
          h' = (interfered k waits h)\<lparr>broadcastCh := broadcastCh (interfered k waits h) @ [msg]\<rparr>) \<and>
       (r \<noteq> Some True \<longrightarrow> h' = interfered k waits h)"
proof (induction msg waits h rule: enqueueBroadcast.induct)
  case (1 msg h)
  then show ?case
    by (auto simp: enqueue_attempt_def interfered_def split: if_splits intro!: exI [of _ 0])
next
  case (2 msg f wk ws h)
  show ?case
  proof (cases "fst (enqueue_attempt msg h)")
    case (Some b)
    with 2 show ?thesis
      by (auto simp: enqueue_attempt_def interfered_def split: if_splits intro!: exI [of _ 0])
  next
    case None
    then have a: "enqueue_attempt msg h = (None, h)" by (auto simp: enqueue_attempt_def split: if_splits)
    have i: "interfered (Suc k) ((f, wk) # ws) h = interfered k ws (f h)" for k by (simp add: interfered_def)
    show ?thesis
    proof (cases "wk = WakeTimer")
      case True
      from "2.IH" [OF a [symmetric] refl True] "2.prems" a True i show ?thesis by simp metis
    next
      case False
      with "2.prems" a i [of 0] show ?thesis by (intro exI [of _ 1]) (auto simp: interfered_def)
    qed
  qed
qed

text \<open>A broadcast is accepted at most once and only before draining: whatever other goroutines do to
  the hub while the caller waits for room, a call of \<^verbatim>\<open>enqueueBroadcast\<close> that reports acceptance has
  appended the message once, at the end of a queue that had room, in a hub that was not draining;
  and a call that does not report acceptance has not touched the hub.\<close>

theorem enqueueBroadcast_once:
  assumes "enqueueBroadcast msg waits h = (r, h')"
  shows "\<exists>k. (r = Some True \<and> \<not> draining (interfered k waits h) \<and>
          length (broadcastCh (interfered k waits h)) < hubBroadcastBufferSize \<and>
          h' = (interfered k waits h)\<lparr>broadcastCh := broadcastCh (interfered k waits h) @ [msg]\<rparr>) \<or>
       (r \<noteq> Some True \<and> h' = interfered k waits h)"
  using enqueueBroadcast_effect [OF assms] by blast

theorem enqueueBroadcast_once_witness:
  "let full = (hs ex_start)\<lparr>broadcastCh := replicate 250 (ex_msg ''c0'')\<rparr>;
       run = enqueueBroadcast (ex_msg ''c1'') [(\<lambda>h. h\<lparr>broadcastCh := []\<rparr>, WakeTimer)] full
   in fst run = Some True \<and> (\<exists>h0. snd run = h0\<lparr>broadcastCh := broadcastCh h0 @ [ex_msg ''c1'']\<rparr>)"
proof -
  let ?full = "(hs ex_start)\<lparr>broadcastCh := replicate 250 (ex_msg ''c0'')\<rparr>"
  let ?run = "enqueueBroadcast (ex_msg ''c1'') [(\<lambda>h. h\<lparr>broadcastCh := []\<rparr>, WakeTimer)] ?full"
  have "fst ?run = Some True"
    by (simp add: enqueue_attempt_def ex_start_def newHub_def hubBroadcastBufferSize_def)
  with enqueueBroadcast_once [of "ex_msg ''c1''" _ ?full, OF surjective_pairing] show ?thesis
    unfolding Let_def by metis
qed

end
