(* ===== verification/Persist.thy ===== *)
theory Persist
  imports Hub_Run
begin

text \<open>
  The persistence pipeline of the manager (\<^verbatim>\<open>internal/websocket/hub/manager.go\<close>): the workers that
  collect tasks into batches and save them, the retry queue with its backoff and attempt limit,
  and the drain at shutdown, as functions on the pipeline's state and a step relation that
  interleaves them. The main results are that every task is acknowledged exactly once, and that
  an acknowledgement without error is given only for a message the store has.
\<close>

section \<open>Constants and data\<close>

definition workerPoolSize :: nat where "workerPoolSize = 4"
definition persistBufferSize :: nat where "persistBufferSize = 10000"
definition persistBatchSize :: nat where "persistBatchSize = 500"
definition persistRetryQueueSize :: nat where "persistRetryQueueSize = 250"
definition persistRetryMaxAttempts :: int where "persistRetryMaxAttempts = 5"
definition persistRetryInitBackoff :: int where "persistRetryInitBackoff = 1000000000"
definition persistRetryMaxBackoff :: int where "persistRetryMaxBackoff = 30 * 1000000000"

record persistRetryTask =
  rt_tasks :: "persistTask list"
  rt_attempts :: int
  rt_nextRetry :: int
  rt_createdAt :: int

text \<open>
  The pipeline: the channels, the batch of each worker that is still running, the retry queue and
  the retry worker's batch, the calls of acknowledgement closures made so far, and the state of
  the store. \<open>pl_closed\<close>: \<^verbatim>\<open>persistCh\<close> is closed; \<open>pl_retryDone\<close>: the retry worker has returned.
\<close>

record 'w pipeline =
  pl_pipe :: pipe
  pl_batches :: "persistTask list list"
  pl_retryCh :: "persistRetryTask list"
  pl_retryBatch :: "persistRetryTask list"
  pl_acks :: "(persistTask \<times> go_error option) list"
  pl_closed :: bool
  pl_retryDone :: bool
  pl_world :: 'w

definition NewPipeline :: "'w \<Rightarrow> 'w pipeline" where
  "NewPipeline w = \<lparr>pl_pipe = \<lparr>persistCh = [], persistCap = persistBufferSize, persistSlots = Some 0, slotsCap = persistBufferSize\<rparr>,
     pl_batches = replicate workerPoolSize [], pl_retryCh = [], pl_retryBatch = [], pl_acks = [],
     pl_closed = False, pl_retryDone = False, pl_world = w\<rparr>"

section \<open>Classification and backoff\<close>

definition isIdempotentPersistSuccess :: "go_error \<Rightarrow> bool" where
  "isIdempotentPersistSuccess err \<longleftrightarrow> status_code err = AlreadyExists"

definition isRetryablePersistError :: "go_error \<Rightarrow> bool" where
  "isRetryablePersistError err = (case status_from_error err of
      None \<Rightarrow> True
    | Some (c, m) \<Rightarrow> c \<in> {Unavailable, DeadlineExceeded, Internal, ResourceExhausted})"

definition persistBackoffBase :: "int \<Rightarrow> int" where
  "persistBackoffBase attempts =
     min (persistRetryInitBackoff * 2 ^ nat (min (attempts - 1) 5)) persistRetryMaxBackoff"

text \<open>\<open>rand n\<close> is \<^verbatim>\<open>rand.Int64N(n)\<close>, a value from 0 to \<open>n - 1\<close>.\<close>

definition jitteredPersistBackoff :: "(int \<Rightarrow> int) \<Rightarrow> int \<Rightarrow> int" where
  "jitteredPersistBackoff rand attempts = rand (persistBackoffBase attempts)"

section \<open>Saving and retrying\<close>

definition messagesFromPersistTasks :: "persistTask list \<Rightarrow> message list" where
  "messagesFromPersistTasks tasks = map task_msg tasks"

text \<open>The closures that \<^verbatim>\<open>ackPersistTasks\<close> calls, with their argument.\<close>

definition ackPersistTasks :: "persistTask list \<Rightarrow> go_error option \<Rightarrow> (persistTask \<times> go_error option) list" where
  "ackPersistTasks tasks err = map (\<lambda>t. (t, err)) (filter (\<lambda>t. task_ack t \<noteq> None) tasks)"

definition add_acks :: "persistTask list \<Rightarrow> go_error option \<Rightarrow> 'w pipeline \<Rightarrow> 'w pipeline" where
  "add_acks tasks err P = P\<lparr>pl_acks := pl_acks P @ ackPersistTasks tasks err\<rparr>"

definition enqueuePersistRetry ::
  "(int \<Rightarrow> int) \<Rightarrow> int \<Rightarrow> persistTask list \<Rightarrow> go_error \<Rightarrow> 'w pipeline \<Rightarrow> 'w pipeline" where
  "enqueuePersistRetry rand now tasks cause P =
    (let retryTask = \<lparr>rt_tasks = tasks, rt_attempts = 1, rt_nextRetry = now + jitteredPersistBackoff rand 1, rt_createdAt = now\<rparr>
     in if length (pl_retryCh P) < persistRetryQueueSize then P\<lparr>pl_retryCh := pl_retryCh P @ [retryTask]\<rparr>
        else add_acks tasks (Some cause) P)"

definition savePersistTasks ::
  "'w MessageStore option \<Rightarrow> (int \<Rightarrow> int) \<Rightarrow> int \<Rightarrow> persistTask list \<Rightarrow> 'w pipeline \<Rightarrow> 'w pipeline" where
  "savePersistTasks store rand now tasks P =
    (if tasks = [] then P
     else case store of
        None \<Rightarrow> add_acks tasks None P
      | Some ms \<Rightarrow> (case ms_SaveMany ms (messagesFromPersistTasks tasks) (pl_world P) of (res, w) \<Rightarrow>
          let P1 = P\<lparr>pl_world := w\<rparr> in
          (case res of
             None \<Rightarrow> add_acks tasks None P1
           | Some err \<Rightarrow>
               if isIdempotentPersistSuccess err then add_acks tasks None P1
               else if \<not> isRetryablePersistError err then add_acks tasks (Some err) P1
               else enqueuePersistRetry rand now tasks err P1)))"

text \<open>One element of the loop in \<^verbatim>\<open>processRetryBatch\<close>: what stays in the batch.\<close>

definition retry_one ::
  "'w MessageStore \<Rightarrow> (int \<Rightarrow> int) \<Rightarrow> int \<Rightarrow> persistRetryTask \<Rightarrow> 'w pipeline \<Rightarrow> persistRetryTask list \<times> 'w pipeline" where
  "retry_one ms rand now task P =
    (if now < rt_nextRetry task then ([task], P)
     else (case ms_SaveMany ms (messagesFromPersistTasks (rt_tasks task)) (pl_world P) of (res, w) \<Rightarrow>
       let P1 = P\<lparr>pl_world := w\<rparr> in
       (case res of
          None \<Rightarrow> ([], add_acks (rt_tasks task) None P1)
        | Some err \<Rightarrow>
            if isIdempotentPersistSuccess err then ([], add_acks (rt_tasks task) None P1)
            else if \<not> isRetryablePersistError err then ([], add_acks (rt_tasks task) (Some err) P1)
            else (let task1 = task\<lparr>rt_attempts := rt_attempts task + 1\<rparr> in
              if rt_attempts task1 > persistRetryMaxAttempts then ([], add_acks (rt_tasks task) (Some err) P1)
              else ([task1\<lparr>rt_nextRetry := now + jitteredPersistBackoff rand (rt_attempts task1)\<rparr>], P1)))))"

fun processRetryBatch ::
  "'w MessageStore \<Rightarrow> (int \<Rightarrow> int) \<Rightarrow> int \<Rightarrow> persistRetryTask list \<Rightarrow> 'w pipeline \<Rightarrow> persistRetryTask list \<times> 'w pipeline" where
  "processRetryBatch ms rand now [] P = ([], P)"
| "processRetryBatch ms rand now (task # batch) P =
    (case retry_one ms rand now task P of (keep, P1) \<Rightarrow>
       (case processRetryBatch ms rand now batch P1 of (remaining, P2) \<Rightarrow> (keep @ remaining, P2)))"

text \<open>The saving loop of \<^verbatim>\<open>drainRetryBatch\<close>, and the whole function: it first empties the channel.\<close>

fun drain_saves :: "'w MessageStore \<Rightarrow> persistRetryTask list \<Rightarrow> 'w pipeline \<Rightarrow> 'w pipeline" where
  "drain_saves ms [] P = P"
| "drain_saves ms (task # batch) P =
    (case ms_SaveMany ms (messagesFromPersistTasks (rt_tasks task)) (pl_world P) of (res, w) \<Rightarrow>
      let P1 = P\<lparr>pl_world := w\<rparr> in
      drain_saves ms batch
        (case res of
           Some err \<Rightarrow> if \<not> isIdempotentPersistSuccess err then add_acks (rt_tasks task) (Some err) P1
             else add_acks (rt_tasks task) None P1
         | None \<Rightarrow> add_acks (rt_tasks task) None P1))"

definition drainRetryBatch :: "'w MessageStore \<Rightarrow> persistRetryTask list \<Rightarrow> 'w pipeline \<Rightarrow> 'w pipeline" where
  "drainRetryBatch ms batch P = drain_saves ms (batch @ pl_retryCh P) (P\<lparr>pl_retryCh := []\<rparr>)"

section \<open>The workers\<close>

text \<open>\<^verbatim>\<open>flush\<close> of worker \<open>i\<close>.\<close>

definition worker_flush ::
  "'w MessageStore option \<Rightarrow> (int \<Rightarrow> int) \<Rightarrow> int \<Rightarrow> nat \<Rightarrow> 'w pipeline \<Rightarrow> 'w pipeline" where
  "worker_flush store rand now i P =
    (if pl_batches P ! i = [] then P
     else (savePersistTasks store rand now (pl_batches P ! i) P)\<lparr>pl_batches := (pl_batches P)[i := []]\<rparr>)"

text \<open>Worker \<open>i\<close> receives a task: the slot is released, and a full batch is flushed.\<close>

definition worker_recv ::
  "'w MessageStore option \<Rightarrow> (int \<Rightarrow> int) \<Rightarrow> int \<Rightarrow> nat \<Rightarrow> persistTask \<Rightarrow> 'w pipeline \<Rightarrow> 'w pipeline" where
  "worker_recv store rand now i task P =
    (let P1 = P\<lparr>pl_pipe := releasePersistSlot (pl_pipe P), pl_batches := (pl_batches P)[i := pl_batches P ! i @ [task]]\<rparr>
     in if length (pl_batches P1 ! i) \<ge> persistBatchSize then worker_flush store rand now i P1 else P1)"

text \<open>
  The goroutines of the pipeline. A hub submits a task while the channel is open; a worker receives
  the oldest task, flushes on its ticker, and after the channel is closed and empty flushes and
  returns; the retry worker moves tasks from the retry queue into its batch, retries on its
  ticker, and, when the workers have returned and the queue is closed, drains and returns.
\<close>

definition drop_nth :: "nat \<Rightarrow> 'a list \<Rightarrow> 'a list" where
  "drop_nth i xs = take i xs @ drop (Suc i) xs"

inductive pl_step :: "'w MessageStore option \<Rightarrow> 'w pipeline \<Rightarrow> persistTask list \<Rightarrow> 'w pipeline \<Rightarrow> bool" for store where
  pl_submit: "\<not> pl_closed P \<Longrightarrow> reservePersistSlot (pl_pipe P) = (True, p1) \<Longrightarrow>
    length (persistCh p1) < persistCap p1 \<Longrightarrow> task_ack t \<noteq> None \<Longrightarrow>
    pl_step store P [t] (P\<lparr>pl_pipe := p1\<lparr>persistCh := persistCh p1 @ [t]\<rparr>\<rparr>)"
| pl_recv: "i < length (pl_batches P) \<Longrightarrow> persistCh (pl_pipe P) = t # ts \<Longrightarrow>
    pl_step store P [] (worker_recv store rand now i t (P\<lparr>pl_pipe := (pl_pipe P)\<lparr>persistCh := ts\<rparr>\<rparr>))"
| pl_tick: "i < length (pl_batches P) \<Longrightarrow> pl_step store P [] (worker_flush store rand now i P)"
| pl_exit: "i < length (pl_batches P) \<Longrightarrow> pl_closed P \<Longrightarrow> persistCh (pl_pipe P) = [] \<Longrightarrow>
    Q = worker_flush store rand now i P \<Longrightarrow> pl_step store P [] (Q\<lparr>pl_batches := drop_nth i (pl_batches Q)\<rparr>)"
| pl_close: "pl_step store P [] (P\<lparr>pl_closed := True\<rparr>)"
| pl_retry_recv: "pl_retryCh P = r # rs \<Longrightarrow> \<not> pl_retryDone P \<Longrightarrow>
    pl_step store P [] (P\<lparr>pl_retryCh := rs, pl_retryBatch := pl_retryBatch P @ [r]\<rparr>)"
| pl_retry_tick: "store = Some ms \<Longrightarrow> \<not> pl_retryDone P \<Longrightarrow>
    processRetryBatch ms rand now (pl_retryBatch P) P = (batch, Q) \<Longrightarrow>
    pl_step store P [] (Q\<lparr>pl_retryBatch := batch\<rparr>)"
| pl_retry_exit: "store = Some ms \<Longrightarrow> pl_closed P \<Longrightarrow> persistCh (pl_pipe P) = [] \<Longrightarrow> pl_batches P = [] \<Longrightarrow> \<not> pl_retryDone P \<Longrightarrow>
    pl_step store P [] ((drainRetryBatch ms (pl_retryBatch P) P)\<lparr>pl_retryBatch := [], pl_retryDone := True\<rparr>)"

inductive_cases pl_stepE: "pl_step store P ts Q"

text \<open>\<open>pl_run store w ts P\<close>: from an empty pipeline, the tasks \<open>ts\<close> were submitted and \<open>P\<close> was reached.\<close>

inductive pl_run :: "'w MessageStore option \<Rightarrow> 'w \<Rightarrow> persistTask list \<Rightarrow> 'w pipeline \<Rightarrow> bool" for store w where
  pl_init: "pl_run store w [] (NewPipeline w)"
| pl_more: "pl_run store w ts P \<Longrightarrow> pl_step store P ts' Q \<Longrightarrow> pl_run store w (ts @ ts') Q"

section \<open>Conservation\<close>

definition rt_mset :: "persistRetryTask list \<Rightarrow> persistTask multiset" where
  "rt_mset rs = mset (concat (map rt_tasks rs))"

lemma rt_mset_simps [simp]:
  "rt_mset [] = {#}" "rt_mset (r # rs) = mset (rt_tasks r) + rt_mset rs" "rt_mset (rs @ rs') = rt_mset rs + rt_mset rs'"
  by (simp_all add: rt_mset_def)

text \<open>All tasks outside the batches, and all tasks of the pipeline, acknowledged ones included.\<close>

definition outside :: "'w pipeline \<Rightarrow> persistTask multiset" where
  "outside P = mset (persistCh (pl_pipe P)) + rt_mset (pl_retryCh P) + mset (map fst (pl_acks P))"

definition total :: "'w pipeline \<Rightarrow> persistTask multiset" where
  "total P = outside P + mset (concat (pl_batches P)) + rt_mset (pl_retryBatch P)"

definition with_ack :: "persistTask list \<Rightarrow> bool" where
  "with_ack ts \<longleftrightarrow> (\<forall>t \<in> set ts. task_ack t \<noteq> None)"

lemma outside_world [simp, pipe_simps]: "outside (P\<lparr>pl_world := w\<rparr>) = outside P" "outside (P\<lparr>pl_batches := b\<rparr>) = outside P"
    "outside (P\<lparr>pl_retryBatch := rb\<rparr>) = outside P" "outside (P\<lparr>pl_closed := c\<rparr>) = outside P" "outside (P\<lparr>pl_retryDone := c\<rparr>) = outside P"
  by (simp_all add: outside_def)

lemma outside_add_acks [simp, pipe_simps]: "with_ack ts \<Longrightarrow> outside (add_acks ts e P) = outside P + mset ts"
proof -
  assume "with_ack ts"
  then have "filter (\<lambda>t. task_ack t \<noteq> None) ts = ts" by (intro filter_eq_all) (auto simp: with_ack_def)
  then show ?thesis by (simp add: outside_def add_acks_def ackPersistTasks_def comp_def)
qed

text \<open>What the saving functions leave alone.\<close>

definition pl_frame :: "'w pipeline \<Rightarrow> 'w pipeline \<Rightarrow> bool" where
  "pl_frame P Q \<longleftrightarrow> pl_pipe Q = pl_pipe P \<and> pl_batches Q = pl_batches P \<and> pl_retryBatch Q = pl_retryBatch P \<and>
     pl_closed Q = pl_closed P \<and> pl_retryDone Q = pl_retryDone P"

lemma pl_frame_ops [simp, pipe_simps]:
  "pl_frame P P" "pl_frame P (P\<lparr>pl_world := w\<rparr>)" "pl_frame P (add_acks ts e (P\<lparr>pl_world := w\<rparr>))" "pl_frame P (add_acks ts e P)"
  "pl_frame P (enqueuePersistRetry rand now ts err (P\<lparr>pl_world := w\<rparr>))"
  by (simp_all add: pl_frame_def add_acks_def enqueuePersistRetry_def Let_def)

lemma pl_frame_trans: "pl_frame P Q \<Longrightarrow> pl_frame Q R \<Longrightarrow> pl_frame P R"
  by (simp add: pl_frame_def)

lemma outside_enqueue [simp]:
  "with_ack ts \<Longrightarrow> outside (enqueuePersistRetry rand now ts e P) = outside P + mset ts"
  by (simp add: enqueuePersistRetry_def Let_def) (simp add: outside_def)

lemma savePersistTasks_outside:
  assumes "with_ack ts"
  shows "outside (savePersistTasks store rand now ts P) = outside P + mset ts \<and>
    pl_frame P (savePersistTasks store rand now ts P)"
  using assms by (auto simp: savePersistTasks_def Let_def split: option.splits prod.splits)

lemma retry_one_outside:
  assumes "with_ack (rt_tasks r)" "retry_one ms rand now r P = (keep, Q)"
  shows "rt_mset keep + outside Q = mset (rt_tasks r) + outside P \<and> pl_frame P Q"
  using assms by (auto simp: retry_one_def Let_def add.commute split: if_splits option.splits prod.splits)

lemma processRetryBatch_outside:
  assumes "\<forall>r \<in> set rs. with_ack (rt_tasks r)" "processRetryBatch ms rand now rs P = (keep, Q)"
  shows "rt_mset keep + outside Q = rt_mset rs + outside P \<and> pl_frame P Q"
  using assms
proof (induction rs arbitrary: P keep Q)
  case (Cons r rs)
  obtain k1 P1 where r: "retry_one ms rand now r P = (k1, P1)" by (metis surj_pair)
  obtain k2 P2 where rest: "processRetryBatch ms rand now rs P1 = (k2, P2)" by (metis surj_pair)
  have eq: "keep = k1 @ k2" "Q = P2" using Cons.prems(2) r rest by simp_all
  have 1: "rt_mset k1 + outside P1 = mset (rt_tasks r) + outside P" "pl_frame P P1"
    using retry_one_outside [OF _ r] Cons.prems(1) by auto
  have 2: "rt_mset k2 + outside P2 = rt_mset rs + outside P1" "pl_frame P1 P2"
    using Cons.IH [OF _ rest] Cons.prems(1) by auto
  have "rt_mset k1 + rt_mset k2 + outside P2 = rt_mset rs + (rt_mset k1 + outside P1)"
    using 2(1) by (simp add: add.assoc add.left_commute)
  then show ?case using 1 2(2) eq pl_frame_trans by (simp add: add.assoc add.left_commute) blast
qed simp

lemma drain_saves_outside:
  assumes "\<forall>r \<in> set rs. with_ack (rt_tasks r)"
  shows "outside (drain_saves ms rs P) = rt_mset rs + outside P \<and> pl_frame P (drain_saves ms rs P) \<and>
    pl_retryCh (drain_saves ms rs P) = pl_retryCh P"
  using assms
proof (induction rs arbitrary: P)
  case (Cons r rs)
  obtain res w where s: "ms_SaveMany ms (messagesFromPersistTasks (rt_tasks r)) (pl_world P) = (res, w)" by fastforce
  define e where "e = (case res of None \<Rightarrow> None | Some err \<Rightarrow> if isIdempotentPersistSuccess err then None else Some err)"
  have step: "drain_saves ms (r # rs) P = drain_saves ms rs (add_acks (rt_tasks r) e (P\<lparr>pl_world := w\<rparr>))"
    using s by (simp add: Let_def e_def split: option.split)
  have "pl_retryCh (add_acks (rt_tasks r) e (P\<lparr>pl_world := w\<rparr>)) = pl_retryCh P" by (simp add: add_acks_def)
  with Cons.IH [of "add_acks (rt_tasks r) e (P\<lparr>pl_world := w\<rparr>)"] Cons.prems
    pl_frame_trans [OF pl_frame_ops(3) [of P "rt_tasks r" e w]]
  show ?case unfolding step by (auto simp: add.commute add.left_commute)
qed simp

lemma outside_pop [simp]:
  "persistCh (pl_pipe P) = t # ts \<Longrightarrow>
   add_mset t (outside (P\<lparr>pl_pipe := (pl_pipe P)\<lparr>persistCh := ts\<rparr>\<rparr>)) = outside P"
  by (simp add: outside_def)

lemma outside_release [simp]: "outside (P\<lparr>pl_pipe := releasePersistSlot (pl_pipe P)\<rparr>) = outside P"
  by (simp add: outside_def releasePersistSlot_def split: option.splits)

lemma mset_concat_update:
  "i < length bs \<Longrightarrow> mset (concat (bs[i := b])) + mset (bs ! i) = mset (concat bs) + mset b"
proof (induction bs arbitrary: i)
  case (Cons x bs)
  then show ?case by (cases i) (auto simp: add.commute add.left_commute)
qed simp

lemma worker_flush_total:
  fixes store :: "'w MessageStore option" and rand :: "int \<Rightarrow> int" and now :: int
  assumes i: "i < length (pl_batches P)" and a: "\<forall>t \<in># total P. task_ack t \<noteq> None"
  defines "Q \<equiv> worker_flush store rand now i P"
  shows "total Q = total P" "pl_batches Q ! i = []" "length (pl_batches Q) = length (pl_batches P)"
    "pl_pipe Q = pl_pipe P" "pl_retryBatch Q = pl_retryBatch P" "pl_closed Q = pl_closed P" "pl_retryDone Q = pl_retryDone P"
proof -
  let ?b = "pl_batches P ! i"
  have "with_ack ?b" unfolding with_ack_def
  proof
    fix t assume "t \<in> set ?b"
    then have "t \<in> set (concat (pl_batches P))" using i nth_mem by fastforce
    then show "task_ack t \<noteq> None" using a by (simp add: total_def)
  qed
  note s = savePersistTasks_outside [OF this, of store rand now P]
  have all: "total Q = total P \<and> pl_batches Q ! i = [] \<and> length (pl_batches Q) = length (pl_batches P) \<and>
    pl_pipe Q = pl_pipe P \<and> pl_retryBatch Q = pl_retryBatch P \<and> pl_closed Q = pl_closed P \<and> pl_retryDone Q = pl_retryDone P"
  proof (cases "?b = []")
    case True
    then show ?thesis by (simp add: Q_def worker_flush_def)
  next
    case False
    then have Q: "Q = (savePersistTasks store rand now ?b P)\<lparr>pl_batches := (pl_batches P)[i := []]\<rparr>"
      by (simp add: Q_def worker_flush_def)
    from mset_concat_update [OF i, of "[]"] have "mset (concat ((pl_batches P)[i := []])) + mset ?b = mset (concat (pl_batches P))" by simp
    then show ?thesis using s i by (simp add: Q total_def pl_frame_def) (simp add: add.commute add.left_commute)
  qed
  then show "total Q = total P" "pl_batches Q ! i = []" "length (pl_batches Q) = length (pl_batches P)"
    "pl_pipe Q = pl_pipe P" "pl_retryBatch Q = pl_retryBatch P" "pl_closed Q = pl_closed P" "pl_retryDone Q = pl_retryDone P"
    by auto
qed

text \<open>The invariant: what was submitted is in the pipeline or acknowledged, once.\<close>

definition pl_inv :: "persistTask list \<Rightarrow> 'w pipeline \<Rightarrow> bool" where
  "pl_inv ts P \<longleftrightarrow> total P = mset ts \<and> with_ack ts \<and>
     (pl_retryDone P \<longrightarrow> pl_closed P \<and> persistCh (pl_pipe P) = [] \<and> pl_batches P = [] \<and> pl_retryCh P = [] \<and> pl_retryBatch P = [])"

lemma pl_inv_ack: "pl_inv ts P \<Longrightarrow> \<forall>t \<in># total P. task_ack t \<noteq> None"
  by (simp add: pl_inv_def with_ack_def)

lemma total_batch_update:
  "i < length (pl_batches P) \<Longrightarrow>
   total (P\<lparr>pl_batches := (pl_batches P)[i := pl_batches P ! i @ [t]]\<rparr>) = add_mset t (total P)"
  using mset_concat_update [of i "pl_batches P" "pl_batches P ! i @ [t]"]
  by (simp add: total_def)

lemma mset_concat_drop_nth:
  "i < length bs \<Longrightarrow> bs ! i = [] \<Longrightarrow> mset (concat (drop_nth i bs)) = mset (concat bs)"
  by (subst (2) id_take_nth_drop) (auto simp: drop_nth_def)

lemma worker_recv_total:
  fixes store :: "'w MessageStore option" and rand :: "int \<Rightarrow> int" and now :: int
  assumes i: "i < length (pl_batches P)" and q: "persistCh (pl_pipe P) = t # ts" and a: "\<forall>t \<in># total P. task_ack t \<noteq> None"
  defines "Q \<equiv> worker_recv store rand now i t (P\<lparr>pl_pipe := (pl_pipe P)\<lparr>persistCh := ts\<rparr>\<rparr>)"
  shows "total Q = total P \<and> pl_closed Q = pl_closed P \<and> pl_retryDone Q = pl_retryDone P \<and> pl_batches Q \<noteq> []"
proof -
  let ?P0 = "P\<lparr>pl_pipe := (pl_pipe P)\<lparr>persistCh := ts\<rparr>\<rparr>"
  let ?P1 = "?P0\<lparr>pl_pipe := releasePersistSlot (pl_pipe ?P0)\<rparr>"
  let ?P2 = "?P1\<lparr>pl_batches := (pl_batches ?P1)[i := pl_batches ?P1 ! i @ [t]]\<rparr>"
  have "add_mset t (total ?P1) = total P"
    using outside_pop [of P t ts, OF q] outside_release [of ?P0] by (simp add: total_def)
  then have t2: "total ?P2 = total P" using total_batch_update [of i ?P1 t] i by simp
  have "\<forall>t \<in># total ?P2. task_ack t \<noteq> None" using t2 a by simp
  from worker_flush_total [OF _ this, of i store rand now] t2 i
  have "total (worker_flush store rand now i ?P2) = total P" "length (pl_batches (worker_flush store rand now i ?P2)) = length (pl_batches P)"
    "pl_closed (worker_flush store rand now i ?P2) = pl_closed P" "pl_retryDone (worker_flush store rand now i ?P2) = pl_retryDone P"
    by simp_all
  with t2 i show ?thesis unfolding Q_def worker_recv_def Let_def by (auto simp: Let_def)
qed

lemma pl_step_inv:
  assumes step: "pl_step store P ts' Q" and inv: "pl_inv ts P"
  shows "pl_inv (ts @ ts') Q"
proof -
  note a = pl_inv_ack [OF inv]
  have tot: "total P = mset ts" and ack: "with_ack ts" using inv by (auto simp: pl_inv_def)
  have rb: "\<forall>r \<in> set (pl_retryBatch P). with_ack (rt_tasks r)" "\<forall>r \<in> set (pl_retryCh P). with_ack (rt_tasks r)"
    using a unfolding with_ack_def by (auto simp: total_def outside_def rt_mset_def)
  from step show ?thesis
  proof cases
    case (pl_submit p1 t)
    have "persistCh p1 = persistCh (pl_pipe P)"
      using pl_submit(4) by (auto simp: reservePersistSlot_def split: option.splits if_splits)
    with pl_submit inv show ?thesis by (auto simp: pl_inv_def total_def outside_def with_ack_def)
  next
    case (pl_recv i t us rand now)
    from worker_recv_total [OF pl_recv(3,4) a, of store rand now] pl_recv inv show ?thesis
      by (auto simp: pl_inv_def)
  next
    case (pl_tick i rand now)
    with worker_flush_total [OF pl_tick(3) a, of store rand now] inv show ?thesis by (auto simp: pl_inv_def)
  next
    case (pl_exit i Q0 rand now)
    note f = worker_flush_total [OF pl_exit(3) a, of store rand now]
    have "mset (concat (drop_nth i (pl_batches Q0))) = mset (concat (pl_batches Q0))"
      using f(2,3) pl_exit(3,6) by (intro mset_concat_drop_nth) auto
    then have "total (Q0\<lparr>pl_batches := drop_nth i (pl_batches Q0)\<rparr>) = total P"
      using f(1) pl_exit(6) by (simp add: total_def)
    moreover have "\<not> pl_retryDone P" using inv pl_exit(3) by (auto simp: pl_inv_def)
    ultimately show ?thesis using pl_exit inv f by (simp add: pl_inv_def)
  next
    case pl_close
    then show ?thesis using inv by (simp add: pl_inv_def total_def)
  next
    case (pl_retry_recv r rs)
    then show ?thesis using inv by (simp add: pl_inv_def total_def outside_def add.commute add.left_commute)
  next
    case (pl_retry_tick ms rand now batch Q0)
    from processRetryBatch_outside [OF rb(1) pl_retry_tick(5)]
    have "total (Q0\<lparr>pl_retryBatch := batch\<rparr>) = total P" "pl_retryDone Q0 = pl_retryDone P"
      by (simp_all add: total_def pl_frame_def) (metis add.commute add.left_commute)
    then show ?thesis using pl_retry_tick inv by (simp add: pl_inv_def)
  next
    case (pl_retry_exit ms)
    have "\<forall>r \<in> set (pl_retryBatch P @ pl_retryCh P). with_ack (rt_tasks r)" using rb by auto
    note d = drain_saves_outside [OF this, of ms "P\<lparr>pl_retryCh := []\<rparr>"]
    have "outside (P\<lparr>pl_retryCh := []\<rparr>) + rt_mset (pl_retryCh P) = outside P"
      by (simp add: outside_def add.commute add.left_commute)
    then have "total ((drainRetryBatch ms (pl_retryBatch P) P)\<lparr>pl_retryBatch := [], pl_retryDone := True\<rparr>) = total P"
      using d pl_retry_exit by (simp add: total_def drainRetryBatch_def pl_frame_def add.commute add.left_commute)
    then show ?thesis using pl_retry_exit inv d by (simp add: pl_inv_def drainRetryBatch_def pl_frame_def)
  qed
qed

lemma pl_run_inv: "pl_run store w ts P \<Longrightarrow> pl_inv ts P"
proof (induction rule: pl_run.induct)
  case pl_init
  then show ?case
    by (simp add: pl_inv_def total_def outside_def NewPipeline_def with_ack_def workerPoolSize_def concat_replicate_trivial)
next
  case pl_more
  then show ?case using pl_step_inv by blast
qed

section \<open>Every task is acknowledged exactly once\<close>

text \<open>The tasks that are still somewhere in the pipeline.\<close>

definition in_flight :: "'w pipeline \<Rightarrow> persistTask multiset" where
  "in_flight P = mset (persistCh (pl_pipe P)) + mset (concat (pl_batches P)) + rt_mset (pl_retryCh P) + rt_mset (pl_retryBatch P)"

definition ex_task :: "string \<Rightarrow> int \<Rightarrow> persistTask" where
  "ex_task c n = \<lparr>task_msg = (ex_msg c)\<lparr>SequenceNumber := n\<rparr>, task_ack = Some 0\<rparr>"

text \<open>A store that fails once with \<^verbatim>\<open>Unavailable\<close> and then saves; its state is what it saved.\<close>

definition ex_store :: "(bool \<times> message list) MessageStore" where
  "ex_store = \<lparr>ms_GetLastSequenceNumber = (\<lambda>room w. (Inr 0, w)),
     ms_SaveMany = (\<lambda>ms (up, saved). if up then (None, (True, saved @ ms)) else (Some (StatusErr Unavailable ''down''), (True, saved)))\<rparr>"

definition ex_pl :: "nat \<Rightarrow> (bool \<times> message list) pipeline" where
  "ex_pl n = (let p0 = NewPipeline (False, []);
     p1 = p0\<lparr>pl_pipe := (snd (reservePersistSlot (pl_pipe p0)))\<lparr>persistCh := [ex_task ''c1'' 1]\<rparr>\<rparr>;
     p2 = worker_recv (Some ex_store) (\<lambda>n. 0) 0 0 (ex_task ''c1'' 1) (p1\<lparr>pl_pipe := (pl_pipe p1)\<lparr>persistCh := []\<rparr>\<rparr>);
     p3 = worker_flush (Some ex_store) (\<lambda>n. 0) 0 0 p2;
     p4 = p3\<lparr>pl_retryCh := [], pl_retryBatch := pl_retryBatch p3 @ pl_retryCh p3\<rparr>;
     p5 = (case processRetryBatch ex_store (\<lambda>n. 0) 5 (pl_retryBatch p4) p4 of (b, q) \<Rightarrow> q\<lparr>pl_retryBatch := b\<rparr>)
   in [p0, p1, p2, p3, p4, p5] ! n)"

lemmas ex_pl_simps = ex_pl_def NewPipeline_def reservePersistSlot_def persistBufferSize_def workerPoolSize_def
  worker_recv_def worker_flush_def releasePersistSlot_def savePersistTasks_def ex_store_def enqueuePersistRetry_def
  isIdempotentPersistSuccess_def isRetryablePersistError_def persistRetryQueueSize_def jitteredPersistBackoff_def
  messagesFromPersistTasks_def persistBatchSize_def retry_one_def add_acks_def ackPersistTasks_def ex_task_def ex_msg_def

lemma ex_pl_values:
  "pl_retryBatch (ex_pl 5) = []" "pl_acks (ex_pl 5) = [(ex_task ''c1'' 1, None)]" "pl_world (ex_pl 5) = (True, [task_msg (ex_task ''c1'' 1)])"
  "length (pl_retryBatch (ex_pl 4)) = 1"
  by (simp_all add: ex_pl_simps Let_def)

lemma ex_pl4_run: "pl_run (Some ex_store) (False, []) [ex_task ''c1'' 1] (ex_pl 4)"
proof -
  let ?s = "Some ex_store" and ?t = "ex_task ''c1'' 1"
  have r0: "pl_run ?s (False, []) [] (ex_pl 0)" by (simp add: ex_pl_def Let_def) (rule pl_init)
  have "pl_step ?s (ex_pl 0) [?t] (ex_pl 1)"
    using pl_submit [of "ex_pl 0" "snd (reservePersistSlot (pl_pipe (ex_pl 0)))" ?t ?s] by (simp add: ex_pl_simps Let_def)
  from pl_more [OF r0 this] have r1: "pl_run ?s (False, []) [?t] (ex_pl 1)" by simp
  have "pl_step ?s (ex_pl 1) [] (ex_pl 2)"
    using pl_recv [of 0 "ex_pl 1" ?t "[]" ?s "\<lambda>n. 0" 0] by (simp add: ex_pl_simps Let_def)
  from pl_more [OF r1 this] have r2: "pl_run ?s (False, []) [?t] (ex_pl 2)" by simp
  have "pl_step ?s (ex_pl 2) [] (ex_pl 3)"
    using pl_tick [of 0 "ex_pl 2" ?s "\<lambda>n. 0" 0] by (simp add: ex_pl_simps Let_def)
  from pl_more [OF r2 this] have r3: "pl_run ?s (False, []) [?t] (ex_pl 3)" by simp
  have "pl_step ?s (ex_pl 3) [] (ex_pl 4)"
    using pl_retry_recv [of "ex_pl 3" "hd (pl_retryCh (ex_pl 3))" "[]" ?s] by (simp add: ex_pl_simps Let_def)
  from pl_more [OF r3 this] show ?thesis by simp
qed

lemma ex_pl_run: "pl_run (Some ex_store) (False, []) [ex_task ''c1'' 1] (ex_pl 5)"
proof -
  have "pl_step (Some ex_store) (ex_pl 4) [] (ex_pl 5)"
    using pl_retry_tick [of "Some ex_store" ex_store "ex_pl 4" "\<lambda>n. 0" 5, OF refl _ surjective_pairing]
    by (simp add: ex_pl_simps Let_def)
  from pl_more [OF ex_pl4_run this] show ?thesis by simp
qed

text \<open>C4: No message is lost or acknowledged twice: at every moment, each task handed to the pipeline
  is either still in it (in the channel, a worker's batch, the retry queue or the retry batch) or
  has had its acknowledgement called exactly once; and when the pipeline has shut down, every task
  has been acknowledged exactly once.\<close>

theorem persist_conservation:
  assumes "pl_run store w ts P"
  shows "mset ts = in_flight P + mset (map fst (pl_acks P)) \<and>
    (pl_retryDone P \<longrightarrow> mset (map fst (pl_acks P)) = mset ts)"
  using pl_run_inv [OF assms]
  by (auto simp: pl_inv_def total_def outside_def in_flight_def add.commute add.left_commute)

theorem persist_conservation_witness:
  "pl_run (Some ex_store) (False, []) [ex_task ''c1'' 1] (ex_pl 5) \<and> in_flight (ex_pl 5) = {#}"
proof -
  from persist_conservation [OF ex_pl_run] have "in_flight (ex_pl 5) = {#}" by (simp add: ex_pl_values)
  with ex_pl_run show ?thesis by blast
qed

section \<open>Retries are bounded\<close>

definition attempts_ok :: "persistRetryTask \<Rightarrow> bool" where
  "attempts_ok r \<longleftrightarrow> 1 \<le> rt_attempts r \<and> rt_attempts r \<le> persistRetryMaxAttempts"

lemma retry_one_attempts:
  "retry_one ms rand now r P = (keep, Q) \<Longrightarrow> attempts_ok r \<Longrightarrow> list_all attempts_ok keep \<and> pl_retryCh Q = pl_retryCh P"
  by (auto simp: retry_one_def attempts_ok_def Let_def add_acks_def split: if_splits option.splits prod.splits)

lemma processRetryBatch_attempts:
  "processRetryBatch ms rand now rs P = (keep, Q) \<Longrightarrow> list_all attempts_ok rs \<Longrightarrow>
   list_all attempts_ok keep \<and> pl_retryCh Q = pl_retryCh P"
proof (induction rs arbitrary: P keep Q)
  case (Cons r rs)
  obtain k1 P1 where r: "retry_one ms rand now r P = (k1, P1)" by (metis surj_pair)
  obtain k2 P2 where rest: "processRetryBatch ms rand now rs P1 = (k2, P2)" by (metis surj_pair)
  from retry_one_attempts [OF r] Cons.IH [OF rest] Cons.prems r rest show ?case by auto
qed simp

definition retries_ok :: "'w pipeline \<Rightarrow> bool" where
  "retries_ok P \<longleftrightarrow> list_all attempts_ok (pl_retryCh P) \<and> list_all attempts_ok (pl_retryBatch P) \<and>
     length (pl_retryCh P) \<le> persistRetryQueueSize"

lemma retries_ok_save: "retries_ok P \<Longrightarrow> retries_ok (savePersistTasks store rand now ts P)"
  by (auto simp: savePersistTasks_def enqueuePersistRetry_def retries_ok_def attempts_ok_def add_acks_def Let_def
      persistRetryMaxAttempts_def split: option.splits prod.splits)

lemma retries_ok_flush: "retries_ok P \<Longrightarrow> retries_ok (worker_flush store rand now i P)"
  using retries_ok_save [of P] by (auto simp: worker_flush_def retries_ok_def)

lemma retries_ok_upd [simp, pipe_simps]: "retries_ok (P\<lparr>pl_pipe := p\<rparr>) = retries_ok P"
  "retries_ok (P\<lparr>pl_batches := b\<rparr>) = retries_ok P" "retries_ok (P\<lparr>pl_closed := c\<rparr>) = retries_ok P"
  by (simp_all add: retries_ok_def)

lemma retries_ok_recv: "retries_ok P \<Longrightarrow> retries_ok (worker_recv store rand now i t P)"
  by (simp add: worker_recv_def Let_def retries_ok_flush)

lemma drain_saves_retryCh: "pl_retryCh (drain_saves ms rs P) = pl_retryCh P"
  by (induction ms rs P rule: drain_saves.induct) (auto simp: Let_def add_acks_def split: option.splits prod.splits)

lemma pl_run_retries: "pl_run store w ts P \<Longrightarrow> retries_ok P"
proof (induction rule: pl_run.induct)
  case pl_init
  then show ?case by (simp add: retries_ok_def NewPipeline_def)
next
  case (pl_more ts P ts' Q)
  note IH = pl_more.IH
  from pl_more.hyps(2) show ?case
  proof cases
    case pl_recv
    then show ?thesis using IH by (simp add: retries_ok_recv)
  next
    case pl_exit
    then show ?thesis using retries_ok_flush [OF IH] by simp
  next
    case pl_tick
    then show ?thesis using retries_ok_flush [OF IH] by simp
  next
    case (pl_retry_tick ms rand now batch Q0)
    from processRetryBatch_attempts [OF pl_retry_tick(5)] IH pl_retry_tick show ?thesis by (simp add: retries_ok_def)
  next
    case pl_retry_exit
    then show ?thesis by (simp add: retries_ok_def drainRetryBatch_def drain_saves_retryCh)
  qed (use IH in \<open>auto simp: retries_ok_def\<close>)
qed

lemma backoff_base: "1 \<le> attempts \<Longrightarrow> persistBackoffBase attempts =
    (if attempts \<le> 5 then 1000000000 * 2 ^ nat (attempts - 1) else 30000000000)"
proof (cases "attempts \<le> 5")
  case True
  moreover assume "1 \<le> attempts"
  moreover from True have "(2::int) ^ nat (attempts - 1) \<le> 2 ^ 4" by (intro power_increasing) auto
  ultimately show ?thesis by (simp add: persistBackoffBase_def persistRetryInitBackoff_def persistRetryMaxBackoff_def)
next
  case False
  then have "min (attempts - 1) 5 = 5" by simp
  with False show ?thesis by (simp add: persistBackoffBase_def persistRetryInitBackoff_def persistRetryMaxBackoff_def)
qed

text \<open>Retries are bounded: in every reachable state each batch waiting for a retry has been
  attempted between one and five times, the queue never exceeds its 250 places, and the wait
  before attempt \<open>n + 1\<close> is a random time below \<open>2 ^ (n - 1)\<close> seconds (at most 30 seconds, never negative).\<close>

theorem retry_bounds:
  assumes "pl_run store w ts P" "r \<in> set (pl_retryCh P @ pl_retryBatch P)" "\<And>n. 0 < n \<Longrightarrow> 0 \<le> rand n \<and> rand n < n"
  shows "1 \<le> rt_attempts r \<and> rt_attempts r \<le> 5 \<and> length (pl_retryCh P) \<le> 250 \<and>
    0 \<le> jitteredPersistBackoff rand (rt_attempts r) \<and>
    jitteredPersistBackoff rand (rt_attempts r) < 1000000000 * 2 ^ nat (rt_attempts r - 1) \<and>
    jitteredPersistBackoff rand (rt_attempts r) < 30000000000"
proof -
  have "attempts_ok r" "length (pl_retryCh P) \<le> 250"
    using pl_run_retries [OF assms(1)] assms(2) by (auto simp: retries_ok_def list_all_iff persistRetryQueueSize_def)
  then have at: "1 \<le> rt_attempts r" "rt_attempts r \<le> 5" by (auto simp: attempts_ok_def persistRetryMaxAttempts_def)
  then have base: "persistBackoffBase (rt_attempts r) = 1000000000 * 2 ^ nat (rt_attempts r - 1)"
    using backoff_base by simp
  have "(2::int) ^ nat (rt_attempts r - 1) \<le> 2 ^ 4" using at by (intro power_increasing) auto
  with base assms(3) [of "persistBackoffBase (rt_attempts r)"] at \<open>length (pl_retryCh P) \<le> 250\<close> show ?thesis
    by (simp add: jitteredPersistBackoff_def)
qed

theorem retry_bounds_witness:
  "\<exists>r \<in> set (pl_retryBatch (ex_pl 4)). rt_attempts r = 1 \<and> jitteredPersistBackoff (\<lambda>n. n - 1) (rt_attempts r) < 30000000000"
proof -
  obtain r where r: "pl_retryBatch (ex_pl 4) = [r]" using ex_pl_values(4) by (cases "pl_retryBatch (ex_pl 4)") auto
  from retry_bounds [OF ex_pl4_run, of r "\<lambda>n. n - 1"] r
  have "jitteredPersistBackoff (\<lambda>n. n - 1) (rt_attempts r) < 30000000000" by simp
  moreover have "rt_attempts r = 1" using r by (simp add: ex_pl_simps Let_def) force
  ultimately show ?thesis using r by simp
qed

section \<open>An acknowledgement without error means stored\<close>

text \<open>
  What the pipeline relies on of the message store: a batch that was saved, or that the store says
  it already has, is stored, and what is stored stays stored.
\<close>

locale message_store =
  fixes ms :: "'w MessageStore" and stored :: "'w \<Rightarrow> message \<Rightarrow> bool"
  assumes save_ok: "ms_SaveMany ms msgs w = (None, w') \<Longrightarrow> m \<in> set msgs \<Longrightarrow> stored w' m"
    and save_exists: "ms_SaveMany ms msgs w = (Some err, w') \<Longrightarrow> status_code err = AlreadyExists \<Longrightarrow>
          m \<in> set msgs \<Longrightarrow> stored w' m"
    and save_keeps: "stored w m \<Longrightarrow> stored (snd (ms_SaveMany ms msgs w)) m"
begin

definition acks_stored :: "'w pipeline \<Rightarrow> bool" where
  "acks_stored P \<longleftrightarrow> (\<forall>(t, e) \<in> set (pl_acks P). e = None \<longrightarrow> stored (pl_world P) (task_msg t))"

lemma acks_stored_upd [simp]: "acks_stored (P\<lparr>pl_pipe := p\<rparr>) = acks_stored P" "acks_stored (P\<lparr>pl_batches := b\<rparr>) = acks_stored P"
  "acks_stored (P\<lparr>pl_retryCh := c\<rparr>) = acks_stored P" "acks_stored (P\<lparr>pl_retryBatch := rb\<rparr>) = acks_stored P"
  "acks_stored (P\<lparr>pl_closed := d\<rparr>) = acks_stored P" "acks_stored (P\<lparr>pl_retryDone := d\<rparr>) = acks_stored P"
  by (simp_all add: acks_stored_def)

lemma acks_stored_world:
  assumes "acks_stored P" "ms_SaveMany ms msgs (pl_world P) = (res, w)"
  shows "acks_stored (P\<lparr>pl_world := w\<rparr>)"
  using assms save_keeps [of "pl_world P" _ msgs] by (auto simp: acks_stored_def)

lemma acks_stored_add:
  "acks_stored P \<Longrightarrow> (e = None \<Longrightarrow> \<forall>t \<in> set ts. stored (pl_world P) (task_msg t)) \<Longrightarrow> acks_stored (add_acks ts e P)"
  by (auto simp: acks_stored_def add_acks_def ackPersistTasks_def)

text \<open>A save followed by the acknowledgement of its batch.\<close>

lemma acks_stored_saved:
  assumes "acks_stored P" "ms_SaveMany ms (messagesFromPersistTasks ts) (pl_world P) = (res, w)"
    and "res = None \<or> (\<exists>err. res = Some err \<and> isIdempotentPersistSuccess err) \<or> e \<noteq> None"
  shows "acks_stored (add_acks ts e (P\<lparr>pl_world := w\<rparr>))"
proof (rule acks_stored_add [OF acks_stored_world [OF assms(1,2)]])
  assume "e = None"
  with assms(3) have "\<forall>m \<in> set (messagesFromPersistTasks ts). stored w m"
    using save_ok save_exists assms(2) by (auto simp: isIdempotentPersistSuccess_def)
  then show "\<forall>t \<in> set ts. stored (pl_world (P\<lparr>pl_world := w\<rparr>)) (task_msg t)"
    by (simp add: messagesFromPersistTasks_def)
qed

lemma acks_stored_save:
  assumes "acks_stored P" shows "acks_stored (savePersistTasks (Some ms) rand now ts P)"
proof -
  obtain res w where s: "ms_SaveMany ms (messagesFromPersistTasks ts) (pl_world P) = (res, w)" by fastforce
  note a = acks_stored_saved [OF assms s] and b = acks_stored_world [OF assms s]
  show ?thesis
  proof (cases res)
    case None
    then show ?thesis using s assms a [of None] by (simp add: savePersistTasks_def Let_def)
  next
    case (Some err)
    then show ?thesis using s assms a [of None] a [of "Some err"] b
      by (auto simp: savePersistTasks_def enqueuePersistRetry_def Let_def)
  qed
qed

lemma acks_stored_flush: "acks_stored P \<Longrightarrow> acks_stored (worker_flush (Some ms) rand now i P)"
  by (simp add: worker_flush_def acks_stored_save)

lemma acks_stored_recv: "acks_stored P \<Longrightarrow> acks_stored (worker_recv (Some ms) rand now i t P)"
  by (simp add: worker_recv_def Let_def acks_stored_flush)

lemma acks_stored_retry:
  assumes "acks_stored P" "retry_one ms rand now r P = (keep, Q)" shows "acks_stored Q"
proof -
  obtain res w where s: "ms_SaveMany ms (messagesFromPersistTasks (rt_tasks r)) (pl_world P) = (res, w)" by fastforce
  note a = acks_stored_saved [OF assms(1) s] and b = acks_stored_world [OF assms(1) s]
  show ?thesis
  proof (cases res)
    case None
    then show ?thesis using s assms a [of None] by (auto simp: retry_one_def Let_def split: if_splits)
  next
    case (Some err)
    then show ?thesis using s assms a [of None] a [of "Some err"] b
      by (auto simp: retry_one_def Let_def split: if_splits)
  qed
qed

lemma acks_stored_retries:
  "acks_stored P \<Longrightarrow> processRetryBatch ms rand now rs P = (keep, Q) \<Longrightarrow> acks_stored Q"
proof (induction rs arbitrary: P keep Q)
  case (Cons r rs)
  obtain k1 P1 where r: "retry_one ms rand now r P = (k1, P1)" by (metis surj_pair)
  obtain k2 P2 where rest: "processRetryBatch ms rand now rs P1 = (k2, P2)" by (metis surj_pair)
  from Cons.IH [OF acks_stored_retry [OF Cons.prems(1) r] rest] Cons.prems(2) r rest show ?case by simp
qed simp

lemma acks_stored_drain: "acks_stored P \<Longrightarrow> acks_stored (drain_saves ms rs P)"
proof (induction rs arbitrary: P)
  case (Cons r rs)
  obtain res w where s: "ms_SaveMany ms (messagesFromPersistTasks (rt_tasks r)) (pl_world P) = (res, w)" by fastforce
  note a = acks_stored_saved [OF Cons.prems s]
  show ?case
  proof (cases res)
    case None
    then show ?thesis using s a [of None] Cons.IH by (simp add: Let_def)
  next
    case (Some err)
    then show ?thesis using s a [of None] a [of "Some err"] Cons.IH by (simp add: Let_def)
  qed
qed simp

lemma acks_stored_step:
  assumes "pl_step (Some ms) P ts' Q" "acks_stored P" shows "acks_stored Q"
  using assms(1)
proof cases
  case (pl_retry_tick ms' rand now batch Q0)
  then show ?thesis using acks_stored_retries [OF assms(2)] by simp
next
  case (pl_retry_exit ms')
  have "ms' = ms" using pl_retry_exit(3) by simp
  then show ?thesis using pl_retry_exit(2) assms(2) by (simp add: drainRetryBatch_def acks_stored_drain)
qed (use assms(2) in \<open>simp_all add: acks_stored_flush acks_stored_recv\<close>)

lemma acks_stored_run: "pl_run (Some ms) w ts P \<Longrightarrow> acks_stored P"
  by (induction rule: pl_run.induct) (simp add: acks_stored_def NewPipeline_def, rule acks_stored_step)

end

text \<open>The example store keeps what it saves.\<close>

interpretation ex_store: message_store ex_store "\<lambda>w m. m \<in> set (snd w)"
  by unfold_locales (auto simp: ex_store_def split: if_splits)

text \<open>C6: The pipeline never confirms what it has not saved: on any store that keeps what it saves,
  whenever a task was acknowledged without an error, the store has the task's message, whatever
  the order of batches, retries and failures.\<close>

theorem acked_is_stored:
  assumes "message_store ms stored" "pl_run (Some ms) w ts P" "(t, None) \<in> set (pl_acks P)"
  shows "stored (pl_world P) (task_msg t)"
  using message_store.acks_stored_run [OF assms(1,2)] assms(3)
  by (auto simp: message_store.acks_stored_def [OF assms(1)])

theorem acked_is_stored_witness:
  "(ex_task ''c1'' 1, None) \<in> set (pl_acks (ex_pl 5)) \<and> task_msg (ex_task ''c1'' 1) \<in> set (snd (pl_world (ex_pl 5)))"
proof -
  have "(ex_task ''c1'' 1, None) \<in> set (pl_acks (ex_pl 5))" by (simp add: ex_pl_values)
  with acked_is_stored [OF ex_store.message_store_axioms ex_pl_run this] show ?thesis by simp
qed

section \<open>Reserved slots\<close>

text \<open>
  The reservation discipline at the grain of single channel operations: a hub first takes a slot,
  later sends its task or gives the slot back; a worker first receives a task, later releases a
  slot. \<open>reserved\<close> hubs and \<open>releasing\<close> workers are between the two operations.
\<close>

record slot_sys =
  sl_pipe :: pipe
  sl_reserved :: nat
  sl_releasing :: nat

inductive slot_step :: "slot_sys \<Rightarrow> slot_sys \<Rightarrow> bool" where
  sl_reserve: "reservePersistSlot (sl_pipe S) = (True, p) \<Longrightarrow>
    slot_step S (S\<lparr>sl_pipe := p, sl_reserved := Suc (sl_reserved S)\<rparr>)"
| sl_send: "sl_reserved S = Suc n \<Longrightarrow> length (persistCh (sl_pipe S)) < persistCap (sl_pipe S) \<Longrightarrow>
    slot_step S (S\<lparr>sl_pipe := (sl_pipe S)\<lparr>persistCh := persistCh (sl_pipe S) @ [t]\<rparr>, sl_reserved := n\<rparr>)"
| sl_rollback: "sl_reserved S = Suc n \<Longrightarrow>
    slot_step S (S\<lparr>sl_pipe := releasePersistSlot (sl_pipe S), sl_reserved := n\<rparr>)"
| sl_recv: "persistCh (sl_pipe S) = t # ts \<Longrightarrow>
    slot_step S (S\<lparr>sl_pipe := (sl_pipe S)\<lparr>persistCh := ts\<rparr>, sl_releasing := Suc (sl_releasing S)\<rparr>)"
| sl_release: "sl_releasing S = Suc n \<Longrightarrow>
    slot_step S (S\<lparr>sl_pipe := releasePersistSlot (sl_pipe S), sl_releasing := n\<rparr>)"

definition slot_start :: "'w \<Rightarrow> slot_sys" where
  "slot_start w = \<lparr>sl_pipe = pl_pipe (NewPipeline w), sl_reserved = 0, sl_releasing = 0\<rparr>"

definition slot_inv :: "slot_sys \<Rightarrow> bool" where
  "slot_inv S \<longleftrightarrow> persistSlots (sl_pipe S) = Some (length (persistCh (sl_pipe S)) + sl_reserved S + sl_releasing S) \<and>
     length (persistCh (sl_pipe S)) + sl_reserved S + sl_releasing S \<le> slotsCap (sl_pipe S) \<and>
     slotsCap (sl_pipe S) = persistCap (sl_pipe S)"

lemma slot_step_inv: "slot_step S T \<Longrightarrow> slot_inv S \<Longrightarrow> slot_inv T"
  by (induction rule: slot_step.induct)
    (auto simp: slot_inv_def reservePersistSlot_def releasePersistSlot_def split: if_splits)

lemma slot_reach_inv: "slot_step\<^sup>*\<^sup>* (slot_start w) S \<Longrightarrow> slot_inv S"
proof (induction rule: rtranclp_induct)
  case base
  then show ?case by (simp add: slot_start_def slot_inv_def NewPipeline_def)
qed (rule slot_step_inv)

text \<open>A reserved slot is a promise of room: however hubs and workers interleave their channel
  operations, a hub that holds a reservation finds room in the persist channel, so the send that
  follows never takes the full-channel branch; and the slots in use are exactly the queued tasks,
  the reservations and the releases under way.\<close>

theorem reserved_slot_has_room:
  assumes "slot_step\<^sup>*\<^sup>* (slot_start w) S" "0 < sl_reserved S"
  shows "length (persistCh (sl_pipe S)) < persistCap (sl_pipe S) \<and>
    persistSlots (sl_pipe S) = Some (length (persistCh (sl_pipe S)) + sl_reserved S + sl_releasing S)"
  using slot_reach_inv [OF assms(1)] assms(2) by (auto simp: slot_inv_def)

theorem reserved_slot_has_room_witness:
  "\<exists>S. slot_step\<^sup>*\<^sup>* (slot_start ()) S \<and> sl_reserved S = 1 \<and> length (persistCh (sl_pipe S)) < persistCap (sl_pipe S)"
proof -
  let ?p = "(pl_pipe (NewPipeline ()))\<lparr>persistSlots := Some 1\<rparr>"
  let ?S = "\<lparr>sl_pipe = ?p, sl_reserved = 1, sl_releasing = 0\<rparr>"
  have "reservePersistSlot (sl_pipe (slot_start ())) = (True, ?p)"
    by (simp add: slot_start_def NewPipeline_def reservePersistSlot_def persistBufferSize_def)
  from sl_reserve [OF this] have "slot_step (slot_start ()) ?S" by (simp add: slot_start_def)
  then have r: "slot_step\<^sup>*\<^sup>* (slot_start ()) ?S" by (rule r_into_rtranclp)
  from reserved_slot_has_room [OF r] r show ?thesis by (intro exI [of _ ?S]) simp
qed

end
