(* ===== verification/Room_Lease.thy ===== *)
theory Room_Lease
  imports Redis
begin

text \<open>
  Room ownership leases (\<^verbatim>\<open>internal/websocket/roomlease/redis.go\<close>): the three Lua scripts as
  sequences of Redis commands, the operations \<^verbatim>\<open>Acquire\<close>, \<^verbatim>\<open>RenewBatch\<close> and \<^verbatim>\<open>Release\<close> with their
  error branches, the contract of a lease store as a locale, and the exclusion property of
  a set of instances that use the same keys.
\<close>

section \<open>Data\<close>

record Lease =
  lease_RoomID :: string
  lease_OwnerAddr :: string
  lease_Token :: string

record lease_store =
  ls_keyPrefix :: string
  ls_ownerAddr :: string
  ls_ttl :: int

definition fieldOwnerAddr :: string where
  "fieldOwnerAddr = ''owner_addr''"

definition fieldToken :: string where
  "fieldToken = ''token''"

definition lease_key :: "lease_store \<Rightarrow> string \<Rightarrow> string" where
  "lease_key st roomID = ls_keyPrefix st @ roomID"

section \<open>The Lua scripts\<close>

definition acquireLua ::
  "'r redis_api \<Rightarrow> string \<Rightarrow> string \<Rightarrow> string \<Rightarrow> string \<Rightarrow> string \<Rightarrow> int \<Rightarrow> 'r \<Rightarrow> int \<times> 'r" where
  "acquireLua api key arg1 arg2 arg3 arg4 arg5 s =
     (if \<not> r_exists api s key then
        (let s1 = r_hset api s key [(arg1, arg2), (arg3, arg4)];
             s2 = r_pexpire api s1 key arg5
         in (1, s2))
      else (0, s))"

definition renewLua ::
  "'r redis_api \<Rightarrow> string \<Rightarrow> string \<Rightarrow> string \<Rightarrow> int \<Rightarrow> 'r \<Rightarrow> int \<times> 'r" where
  "renewLua api key arg1 arg2 arg3 s =
     (if r_hget api s key arg1 = Some arg2 then (1, r_pexpire api s key arg3)
      else if \<not> r_exists api s key then (-1, s)
      else (0, s))"

definition releaseLua ::
  "'r redis_api \<Rightarrow> string \<Rightarrow> string \<Rightarrow> string \<Rightarrow> 'r \<Rightarrow> int \<times> 'r" where
  "releaseLua api key arg1 arg2 s =
     (if r_hget api s key arg1 = Some arg2 then r_del api s key else (0, s))"

section \<open>Operations\<close>

text \<open>
  A nil \<^verbatim>\<open>*Store\<close> is \<open>None\<close>. The token is the value of \<^verbatim>\<open>uuid.NewString()\<close>; \<open>n\<close> is the outcome of
  the network call.
\<close>

definition Acquire ::
  "'r redis_api \<Rightarrow> lease_store option \<Rightarrow> net \<Rightarrow> string \<Rightarrow> string \<Rightarrow> 'r \<Rightarrow> (go_error + Lease) \<times> 'r" where
  "Acquire api store n token roomID s = (case store of
      None \<Rightarrow> (Inl (ErrNew ''room lease store is nil''), s)
    | Some st \<Rightarrow>
      (case net_call n (acquireLua api (lease_key st roomID)
              fieldOwnerAddr (ls_ownerAddr st) fieldToken token (ls_ttl st)) s of
         (Inl err, s') \<Rightarrow> (Inl (Wrap ''acquire room lease'' err), s')
       | (Inr result, s') \<Rightarrow>
           if result = 0 then (Inl ErrBusy, s')
           else (Inr \<lparr>lease_RoomID = roomID, lease_OwnerAddr = ls_ownerAddr st, lease_Token = token\<rparr>, s')))"

type_synonym RenewResult = "Lease \<times> go_error option"

text \<open>
  One command of the renewal pipeline: queued in the first loop of \<^verbatim>\<open>RenewBatch\<close>, executed by
  \<^verbatim>\<open>pipe.Exec\<close>, its result read in the second loop.
\<close>

definition renew_cmd :: "'r redis_api \<Rightarrow> lease_store \<Rightarrow> net \<Rightarrow> Lease \<Rightarrow> 'r \<Rightarrow> RenewResult \<times> 'r" where
  "renew_cmd api st n lease s =
     (case net_call n (renewLua api (lease_key st (lease_RoomID lease))
             fieldToken (lease_Token lease) (ls_ttl st)) s of
        (Inl err, s') \<Rightarrow> ((lease, Some (Wrap ''renew room lease'' err)), s')
      | (Inr result, s') \<Rightarrow>
          if result \<noteq> 1 then ((lease, Some ErrLost), s') else ((lease, None), s'))"

fun renew_pipeline ::
  "'r redis_api \<Rightarrow> lease_store \<Rightarrow> (Lease \<Rightarrow> net) \<Rightarrow> Lease list \<Rightarrow> 'r \<Rightarrow> RenewResult list \<times> 'r" where
  "renew_pipeline api st ns [] s = ([], s)"
| "renew_pipeline api st ns (l # ls) s =
     (case renew_cmd api st (ns l) l s of
        (r, s1) \<Rightarrow> (case renew_pipeline api st ns ls s1 of (rs, s2) \<Rightarrow> (r # rs, s2)))"

definition RenewBatch ::
  "'r redis_api \<Rightarrow> lease_store option \<Rightarrow> (Lease \<Rightarrow> net) \<Rightarrow> Lease option list \<Rightarrow> 'r \<Rightarrow> RenewResult list \<times> 'r" where
  "RenewBatch api store ns leases s = (case store of
      None \<Rightarrow> ([], s)
    | Some st \<Rightarrow> if leases = [] then ([], s)
        else renew_pipeline api st ns (map the (filter (\<lambda>l. l \<noteq> None) leases)) s)"

definition Release ::
  "'r redis_api \<Rightarrow> lease_store option \<Rightarrow> net \<Rightarrow> Lease option \<Rightarrow> 'r \<Rightarrow> go_error option \<times> 'r" where
  "Release api store n lease s = (case (store, lease) of
      (Some st, Some l) \<Rightarrow>
        (case net_call n (releaseLua api (lease_key st (lease_RoomID l)) fieldToken (lease_Token l)) s of
           (Inl err, s') \<Rightarrow> (Some (Wrap ''release room lease'' err), s')
         | (Inr result, s') \<Rightarrow> if result = 0 then (Some ErrLost, s') else (None, s'))
    | _ \<Rightarrow> (None, s))"

section \<open>The entry of a held lease\<close>

text \<open>The value a lease key holds while \<open>l\<close> owns the room.\<close>

definition lease_hash :: "Lease \<Rightarrow> rvalue" where
  "lease_hash l = RHash [fieldOwnerAddr \<mapsto> lease_OwnerAddr l, fieldToken \<mapsto> lease_Token l]"

text \<open>Lease keys hold hashes only: nothing else writes below the prefix.\<close>

definition lease_keyspace :: "string \<Rightarrow> keyspace \<Rightarrow> bool" where
  "lease_keyspace prefix ks \<longleftrightarrow>
     (\<forall>room v e. ks (prefix @ room) = Some (v, e) \<longrightarrow> (\<exists>l. lease_RoomID l = room \<and> v = lease_hash l))"

definition owns :: "keyspace \<Rightarrow> string \<Rightarrow> Lease \<Rightarrow> bool" where
  "owns ks prefix l \<longleftrightarrow> (\<exists>e. ks (prefix @ lease_RoomID l) = Some (lease_hash l, e))"

text \<open>The owner recorded under a room's key.\<close>

definition read_lease :: "string \<Rightarrow> rvalue \<Rightarrow> Lease option" where
  "read_lease room v = (case v of
      RHash h \<Rightarrow> (case (h fieldOwnerAddr, h fieldToken) of
          (Some ad, Some t) \<Rightarrow> Some \<lparr>lease_RoomID = room, lease_OwnerAddr = ad, lease_Token = t\<rparr>
        | _ \<Rightarrow> None)
    | _ \<Rightarrow> None)"

definition lease_owner :: "string \<Rightarrow> keyspace \<Rightarrow> string \<Rightarrow> Lease option" where
  "lease_owner prefix ks room = (case ks (prefix @ room) of Some (v, e) \<Rightarrow> read_lease room v | None \<Rightarrow> None)"

lemma field_names [simp]: "fieldOwnerAddr \<noteq> fieldToken" "fieldToken \<noteq> fieldOwnerAddr"
  by (simp_all add: fieldOwnerAddr_def fieldToken_def)

lemma lease_hash_inject:
  assumes "lease_RoomID l = lease_RoomID l'" "lease_hash l = lease_hash l'"
  shows "l = l'"
proof -
  from assms(2) have m: "[fieldOwnerAddr \<mapsto> lease_OwnerAddr l, fieldToken \<mapsto> lease_Token l] =
      [fieldOwnerAddr \<mapsto> lease_OwnerAddr l', fieldToken \<mapsto> lease_Token l']"
    by (simp add: lease_hash_def)
  have "lease_OwnerAddr l = lease_OwnerAddr l'" "lease_Token l = lease_Token l'"
    using fun_cong [OF m, of fieldOwnerAddr] fun_cong [OF m, of fieldToken] by simp_all
  with assms(1) show ?thesis by simp
qed

lemma owns_unique: "owns ks p l \<Longrightarrow> owns ks p l' \<Longrightarrow> lease_RoomID l = lease_RoomID l' \<Longrightarrow> l = l'"
  by (auto simp: owns_def intro: lease_hash_inject)

lemma lease_keyspaceD:
  "lease_keyspace p ks \<Longrightarrow> ks (p @ room) = Some (v, e) \<Longrightarrow> \<exists>l. lease_RoomID l = room \<and> v = lease_hash l"
  by (auto simp: lease_keyspace_def)

lemma lease_keyspace_upd [intro]:
  "lease_keyspace p ks \<Longrightarrow> lease_RoomID l = room \<Longrightarrow> lease_keyspace p (ks(p @ room \<mapsto> (lease_hash l, e)))"
  by (auto simp: lease_keyspace_def)

lemma lease_keyspace_del [intro]: "lease_keyspace p ks \<Longrightarrow> lease_keyspace p (ks(k := None))"
  by (auto simp: lease_keyspace_def)

lemma read_lease_hash [simp]: "lease_RoomID l = room \<Longrightarrow> read_lease room (lease_hash l) = Some l"
  by (auto simp: read_lease_def lease_hash_def)

lemma lease_owner_None:
  "lease_keyspace p ks \<Longrightarrow> lease_owner p ks room = None \<longleftrightarrow> ks (p @ room) = None"
  by (auto simp: lease_owner_def dest: lease_keyspaceD split: option.splits)

lemma lease_owner_Some:
  "lease_keyspace p ks \<Longrightarrow> lease_owner p ks room = Some l \<longleftrightarrow>
     (\<exists>e. ks (p @ room) = Some (lease_hash l, e)) \<and> lease_RoomID l = room"
  by (auto simp: lease_owner_def dest: lease_keyspaceD split: option.splits)

lemma lease_owner_upd [simp]:
  "lease_RoomID l = room \<Longrightarrow> lease_owner p (ks(p @ room \<mapsto> (lease_hash l, e))) = (lease_owner p ks)(room \<mapsto> l)"
  by (auto simp: lease_owner_def fun_eq_iff)

lemma lease_owner_del [simp]: "lease_owner p (ks(p @ room := None)) = (lease_owner p ks)(room := None)"
  by (auto simp: lease_owner_def fun_eq_iff)

context redis
begin

text \<open>What each script does to the keyspace.\<close>

lemma acquireLua_free:
  assumes "view s key = None" "0 < ttl"
  shows "fst (acquireLua api key fieldOwnerAddr o1 fieldToken t ttl s) = 1"
    and "view (snd (acquireLua api key fieldOwnerAddr o1 fieldToken t ttl s)) =
      (view s)(key \<mapsto> (RHash [fieldOwnerAddr \<mapsto> o1, fieldToken \<mapsto> t], Some (clock s + ttl)))"
  using assms by (simp_all add: acquireLua_def exists_law hset_new pexpire_live fun_upd_twist)

lemma acquireLua_taken:
  "view s key \<noteq> None \<Longrightarrow> acquireLua api key a b c d ttl s = (0, s)"
  by (auto simp: acquireLua_def exists_law)

lemma hget_token:
  "view s key = Some (lease_hash l, e) \<Longrightarrow> r_hget api s key fieldToken = Some (lease_Token l)"
  by (simp add: lease_hash_def hget_hash)

lemma renewLua_owner:
  assumes "view s key = Some (lease_hash l, e)" "0 < ttl"
  shows "fst (renewLua api key fieldToken (lease_Token l) ttl s) = 1"
    and "view (snd (renewLua api key fieldToken (lease_Token l) ttl s)) =
      (view s)(key \<mapsto> (lease_hash l, Some (clock s + ttl)))"
  using assms by (simp_all add: renewLua_def hget_token pexpire_live)

lemma renewLua_other:
  "view s key = Some (lease_hash l, e) \<Longrightarrow> lease_Token l \<noteq> t \<Longrightarrow> renewLua api key fieldToken t ttl s = (0, s)"
  by (simp add: renewLua_def hget_token exists_law)

lemma renewLua_gone:
  "view s key = None \<Longrightarrow> renewLua api key fieldToken t ttl s = (-1, s)"
  by (simp add: renewLua_def hget_none exists_law)

lemma releaseLua_owner:
  assumes "view s key = Some (lease_hash l, e)"
  shows "fst (releaseLua api key fieldToken (lease_Token l) s) = 1"
    and "view (snd (releaseLua api key fieldToken (lease_Token l) s)) = (view s)(key := None)"
  using assms by (simp_all add: releaseLua_def hget_token del_count del_view)

lemma releaseLua_other:
  "view s key = Some (lease_hash l, e) \<Longrightarrow> lease_Token l \<noteq> t \<Longrightarrow> releaseLua api key fieldToken t s = (0, s)"
  by (simp add: releaseLua_def hget_token)

lemma releaseLua_gone: "view s key = None \<Longrightarrow> releaseLua api key fieldToken t s = (0, s)"
  by (simp add: releaseLua_def hget_none)

end

section \<open>The contract of a lease store\<close>

text \<open>
  What the hub manager relies on: a room has at most one owner; acquiring succeeds only on
  a free room and makes the caller its owner; renewing and releasing act for the owner only.
  \<open>owner\<close> reads the owner of a room off the server state.
\<close>

locale lease_contract =
  fixes acquire :: "net \<Rightarrow> string \<Rightarrow> string \<Rightarrow> 's \<Rightarrow> (go_error + Lease) \<times> 's"
    and renew :: "net \<Rightarrow> Lease \<Rightarrow> 's \<Rightarrow> RenewResult \<times> 's"
    and release :: "net \<Rightarrow> Lease \<Rightarrow> 's \<Rightarrow> go_error option \<times> 's"
    and owner :: "'s \<Rightarrow> string \<Rightarrow> Lease option"
    and wf :: "'s \<Rightarrow> bool"
  assumes acquire_ok: "wf s \<Longrightarrow> acquire n t room s = (Inr l, s') \<Longrightarrow>
        owner s room = None \<and> owner s' = (owner s)(room \<mapsto> l) \<and> lease_RoomID l = room \<and> lease_Token l = t"
    and acquire_free: "wf s \<Longrightarrow> owner s room = None \<Longrightarrow> \<exists>l s'. acquire Reply t room s = (Inr l, s')"
    and acquire_busy: "wf s \<Longrightarrow> owner s room \<noteq> None \<Longrightarrow> owner (snd (acquire n t room s)) = owner s"
    and renew_owner: "wf s \<Longrightarrow> owner (snd (renew n l s)) = owner s"
    and renew_ok: "wf s \<Longrightarrow> renew n l s = ((l', None), s') \<Longrightarrow> l' = l \<and>
        (\<exists>o1. owner s (lease_RoomID l) = Some o1 \<and> lease_Token o1 = lease_Token l)"
    and release_ok: "wf s \<Longrightarrow> release n l s = (None, s') \<Longrightarrow>
        (\<exists>o1. owner s (lease_RoomID l) = Some o1 \<and> lease_Token o1 = lease_Token l) \<and>
        owner s' = (owner s)(lease_RoomID l := None)"
    and release_other: "wf s \<Longrightarrow>
        (\<And>o1. owner s (lease_RoomID l) = Some o1 \<Longrightarrow> lease_Token o1 \<noteq> lease_Token l) \<Longrightarrow>
        owner (snd (release n l s)) = owner s"
    and wf_acquire: "wf s \<Longrightarrow> wf (snd (acquire n t room s))"
    and wf_renew: "wf s \<Longrightarrow> wf (snd (renew n l s))"
    and wf_release: "wf s \<Longrightarrow> wf (snd (release n l s))"
begin

text \<open>Only the holder of the token can act on an owned room.\<close>

lemma fenced:
  assumes "wf s" "owner s room = Some holder" "lease_RoomID l = room" "lease_Token l \<noteq> lease_Token holder"
  shows "isl (fst (acquire n t room s))" "owner (snd (acquire n t room s)) = owner s"
    "snd (fst (renew n l s)) \<noteq> None" "owner (snd (renew n l s)) = owner s"
    "fst (release n l s) \<noteq> None" "owner (snd (release n l s)) = owner s"
proof -
  show "isl (fst (acquire n t room s))"
    using acquire_ok [OF assms(1), of n t room "projr (fst (acquire n t room s))" "snd (acquire n t room s)"] assms(2)
    by (cases "fst (acquire n t room s)") (auto simp: prod_eq_iff)
  show "owner (snd (acquire n t room s)) = owner s" using acquire_busy [OF assms(1)] assms(2) by simp
  show "snd (fst (renew n l s)) \<noteq> None"
    using renew_ok [OF assms(1), of n l "fst (fst (renew n l s))" "snd (renew n l s)"] assms(2-4)
    by (auto simp: prod_eq_iff)
  show "owner (snd (renew n l s)) = owner s" by (rule renew_owner [OF assms(1)])
  show "fst (release n l s) \<noteq> None"
    using release_ok [OF assms(1), of n l "snd (release n l s)"] assms(2-4) by (auto simp: prod_eq_iff)
  show "owner (snd (release n l s)) = owner s" using assms(2-4) by (intro release_other [OF assms(1)]) auto
qed

end

text \<open>A lease store on a Redis server: positive TTL, as all configurations have.\<close>

locale redis_lease = redis api view clock
  for api :: "'r redis_api" and view clock +
  fixes st :: lease_store
  assumes ttl_pos: "0 < ls_ttl st"
begin

lemma clock_scripts [simp]:
  "clock (snd (acquireLua api k a b c d ttl s)) = clock s"
  "clock (snd (renewLua api k a b ttl s)) = clock s"
  "clock (snd (releaseLua api k a b s)) = clock s"
  by (simp_all add: acquireLua_def renewLua_def releaseLua_def Let_def)

lemma acquireLua_view:
  fixes s t room
  defines "run \<equiv> acquireLua api (lease_key st room) fieldOwnerAddr (ls_ownerAddr st) fieldToken t (ls_ttl st) s"
    and "l \<equiv> \<lparr>lease_RoomID = room, lease_OwnerAddr = ls_ownerAddr st, lease_Token = t\<rparr>"
  shows "view s (lease_key st room) \<noteq> None \<and> run = (0, s) \<or>
    view s (lease_key st room) = None \<and> (\<exists>s1. run = (1, s1) \<and> clock s1 = clock s \<and>
      view s1 = (view s)(lease_key st room \<mapsto> (lease_hash l, Some (clock s + ls_ttl st))))"
proof (cases "view s (lease_key st room) = None")
  case True
  note eff = acquireLua_free [OF True ttl_pos, of "ls_ownerAddr st" t]
  have "run = (1, snd run)" using eff by (simp add: run_def prod_eq_iff)
  moreover have "view (snd run) = (view s)(lease_key st room \<mapsto> (lease_hash l, Some (clock s + ls_ttl st)))"
    using eff by (simp add: run_def l_def lease_hash_def)
  moreover have "clock (snd run) = clock s" by (simp add: run_def)
  ultimately show ?thesis using True by blast
next
  case False
  then show ?thesis using acquireLua_taken by (simp add: run_def)
qed

lemma Acquire_ok:
  assumes "Acquire api (Some st) n t room s = (Inr l, s')"
  shows "n = Reply \<and> view s (lease_key st room) = None \<and>
    l = \<lparr>lease_RoomID = room, lease_OwnerAddr = ls_ownerAddr st, lease_Token = t\<rparr> \<and>
    view s' = (view s)(lease_key st room \<mapsto> (lease_hash l, Some (clock s + ls_ttl st))) \<and> clock s' = clock s"
  using assms acquireLua_view [of s room t] by (cases n) (auto simp: Acquire_def)

lemma Acquire_fail:
  assumes "Acquire api (Some st) n t room s = (Inl e, s')"
  shows "clock s' = clock s \<and> (view s' = view s \<or> view s (lease_key st room) = None \<and>
    (\<exists>l. lease_RoomID l = room \<and> lease_Token l = t \<and>
      view s' = (view s)(lease_key st room \<mapsto> (lease_hash l, Some (clock s + ls_ttl st)))))"
  using assms acquireLua_view [of s room t] by (cases n) (auto simp: Acquire_def intro!: exI [of _ "Lease.make room (ls_ownerAddr st) t"] simp: Lease.make_def)

text \<open>A renewal by the token in the key moves its expiry; any other changes nothing.\<close>

lemma renewLua_view:
  assumes "lease_keyspace (ls_keyPrefix st) (view s)"
  shows "renewLua api (lease_key st room) fieldToken t (ls_ttl st) s = (-1, s) \<and> view s (lease_key st room) = None \<or>
    renewLua api (lease_key st room) fieldToken t (ls_ttl st) s = (0, s) \<or>
    (\<exists>l e s'. view s (lease_key st room) = Some (lease_hash l, e) \<and> lease_Token l = t \<and> lease_RoomID l = room \<and>
      renewLua api (lease_key st room) fieldToken t (ls_ttl st) s = (1, s') \<and>
      view s' = (view s)(lease_key st room \<mapsto> (lease_hash l, Some (clock s + ls_ttl st))))"
proof (cases "view s (lease_key st room)")
  case None
  then show ?thesis by (simp add: renewLua_gone)
next
  case (Some ve)
  then obtain l e where l: "view s (lease_key st room) = Some (lease_hash l, e)" "lease_RoomID l = room"
    using lease_keyspaceD [OF assms, of room] by (cases ve) (auto simp: lease_key_def)
  show ?thesis
  proof (cases "lease_Token l = t")
    case True
    note eff = renewLua_owner [OF l(1) ttl_pos]
    with True l have "renewLua api (lease_key st room) fieldToken t (ls_ttl st) s =
        (1, snd (renewLua api (lease_key st room) fieldToken t (ls_ttl st) s))"
      by (simp add: prod_eq_iff)
    with True l eff show ?thesis by (metis (no_types))
  qed (simp add: renewLua_other [OF l(1)])
qed

lemma releaseLua_view:
  assumes "lease_keyspace (ls_keyPrefix st) (view s)"
  shows "releaseLua api (lease_key st room) fieldToken t s = (0, s) \<and>
      (\<forall>l e. view s (lease_key st room) = Some (lease_hash l, e) \<longrightarrow> lease_Token l \<noteq> t) \<or>
    (\<exists>l e s'. view s (lease_key st room) = Some (lease_hash l, e) \<and> lease_Token l = t \<and> lease_RoomID l = room \<and>
      releaseLua api (lease_key st room) fieldToken t s = (1, s') \<and> view s' = (view s)(lease_key st room := None))"
proof (cases "view s (lease_key st room)")
  case None
  then show ?thesis by (simp add: releaseLua_gone)
next
  case (Some ve)
  then obtain l e where l: "view s (lease_key st room) = Some (lease_hash l, e)" "lease_RoomID l = room"
    using lease_keyspaceD [OF assms, of room] by (cases ve) (auto simp: lease_key_def)
  show ?thesis
  proof (cases "lease_Token l = t")
    case True
    note eff = releaseLua_owner [OF l(1)]
    with True l have "releaseLua api (lease_key st room) fieldToken t s =
        (1, snd (releaseLua api (lease_key st room) fieldToken t s))"
      by (simp add: prod_eq_iff)
    with True l eff show ?thesis by (metis (no_types))
  next
    case False
    moreover have "lease_Token l' \<noteq> t" if "lease_hash l' = lease_hash l" for l'
      using False that fun_cong [of _ _ fieldToken] by (auto simp: lease_hash_def fun_upd_def fun_eq_iff split: if_splits)
    ultimately show ?thesis using l by (auto simp: releaseLua_other [OF l(1)])
  qed
qed

text \<open>The token recorded for the room of \<open>l\<close> is that of \<open>l\<close>.\<close>

definition token_match :: "'r \<Rightarrow> Lease \<Rightarrow> Lease \<Rightarrow> bool" where
  "token_match s l o1 \<longleftrightarrow> (\<exists>e. view s (lease_key st (lease_RoomID l)) = Some (lease_hash o1, e)) \<and>
     lease_Token o1 = lease_Token l \<and> lease_RoomID o1 = lease_RoomID l"

lemma renew_cmd_eff:
  assumes "lease_keyspace (ls_keyPrefix st) (view s)" "renew_cmd api st n l s = ((l', err), s')"
  shows "l' = l" "clock s' = clock s"
    "err = None \<Longrightarrow> \<exists>o1. token_match s l o1 \<and>
       view s' = (view s)(lease_key st (lease_RoomID l) \<mapsto> (lease_hash o1, Some (clock s + ls_ttl st)))"
    "view s' = view s \<or> (\<exists>o1. token_match s l o1 \<and>
       view s' = (view s)(lease_key st (lease_RoomID l) \<mapsto> (lease_hash o1, Some (clock s + ls_ttl st))))"
  using assms(2) renewLua_view [OF assms(1), of "lease_RoomID l" "lease_Token l"]
    clock_scripts(2) [of "lease_key st (lease_RoomID l)" fieldToken "lease_Token l" "ls_ttl st" s]
  unfolding renew_cmd_def token_match_def by (cases n; auto split: if_splits)+

lemma Release_eff:
  assumes "lease_keyspace (ls_keyPrefix st) (view s)" "Release api (Some st) n (Some l) s = (err, s')"
  shows "clock s' = clock s"
    "err = None \<Longrightarrow> (\<exists>o1. token_match s l o1) \<and> view s' = (view s)(lease_key st (lease_RoomID l) := None)"
    "view s' = view s \<or> (\<exists>o1. token_match s l o1) \<and> view s' = (view s)(lease_key st (lease_RoomID l) := None)"
    "(\<And>o1. \<not> token_match s l o1) \<Longrightarrow> view s' = view s"
  using assms(2) releaseLua_view [OF assms(1), of "lease_RoomID l" "lease_Token l"]
    clock_scripts(3) [of "lease_key st (lease_RoomID l)" fieldToken "lease_Token l" s]
  unfolding Release_def token_match_def by (cases n; auto split: if_splits)+

sublocale leases: lease_contract "Acquire api (Some st)" "renew_cmd api st"
  "\<lambda>n l. Release api (Some st) n (Some l)" "\<lambda>s. lease_owner (ls_keyPrefix st) (view s)"
  "\<lambda>s. lease_keyspace (ls_keyPrefix st) (view s)"
proof (unfold_locales, goal_cases)
  case (1 s n t room l s')
  then show ?case using Acquire_ok [OF 1(2)] by (auto simp: lease_owner_None lease_key_def)
next
  case (2 s room t)
  then show ?case using acquireLua_view [of s room t]
    by (auto simp: Acquire_def lease_owner_None lease_key_def)
next
  case (3 s room n t)
  then show ?case using acquireLua_view [of s room t]
    by (cases n) (auto simp: Acquire_def lease_owner_None lease_key_def)
next
  case (4 s n l)
  then show ?case using renew_cmd_eff(4) [OF 4, of n l "fst (fst (renew_cmd api st n l s))"]
    by (auto simp: token_match_def lease_key_def lease_owner_Some fun_upd_idem_iff prod_eq_iff)
next
  case (5 s n l l' s')
  then show ?case using renew_cmd_eff(1,3) [OF 5] by (auto simp: token_match_def lease_owner_Some lease_key_def)
next
  case (6 s n l s')
  then show ?case using Release_eff(2) [OF 6] by (auto simp: token_match_def lease_owner_Some lease_key_def)
next
  case (7 s l n)
  then show ?case using Release_eff(4) [OF 7(1), of n l]
    by (force simp: token_match_def lease_owner_Some lease_key_def prod_eq_iff)
next
  case (8 s n t room)
  then show ?case using Acquire_ok [of n t room s] Acquire_fail [of n t room s]
    by (cases "Acquire api (Some st) n t room s"; cases "fst (Acquire api (Some st) n t room s)")
      (auto simp: lease_key_def)
next
  case (9 s n l)
  then show ?case using renew_cmd_eff(4) [OF 9, of n l "fst (fst (renew_cmd api st n l s))"]
    by (auto simp: token_match_def lease_key_def prod_eq_iff)
next
  case (10 s n l)
  then show ?case using Release_eff(3) [OF 10, of n l] by (auto simp: prod_eq_iff)
qed

lemmas store_fenced = leases.fenced

end

section \<open>Instances that share a server\<close>

text \<open>
  The stores of the instances differ in their address only (\<^verbatim>\<open>NewStore\<close> is called with the same
  prefix and TTL everywhere). A \<open>claim\<close> is a lease an instance obtained and has not begun to
  release, with the time until which its last successful acquisition or renewal reserved the
  room. Tokens are fresh, as \<^verbatim>\<open>uuid.NewString\<close> makes them.
\<close>

definition NewStore :: "string \<Rightarrow> int \<Rightarrow> string \<Rightarrow> lease_store" where
  "NewStore keyPrefix ttl ownerAddr = \<lparr>ls_keyPrefix = keyPrefix, ls_ownerAddr = ownerAddr, ls_ttl = ttl\<rparr>"

lemma NewStore_simps [simp]:
  "ls_keyPrefix (NewStore p ttl a) = p" "ls_ttl (NewStore p ttl a) = ttl" "ls_ownerAddr (NewStore p ttl a) = a"
  "lease_key (NewStore p ttl a) room = p @ room"
  by (simp_all add: NewStore_def lease_key_def)

record 'r lease_sys =
  srv :: 'r
  claims :: "(Lease \<times> int) set"
  used_tokens :: "string set"

inductive lease_step :: "'r redis_api \<Rightarrow> ('r \<Rightarrow> int) \<Rightarrow> string \<Rightarrow> int \<Rightarrow> 'r lease_sys \<Rightarrow> 'r lease_sys \<Rightarrow> bool"
  for api clock p ttl where
  ls_acquire: "token \<notin> used_tokens S \<Longrightarrow>
     Acquire api (Some (NewStore p ttl addr)) n token room (srv S) = (Inr l, s') \<Longrightarrow>
     lease_step api clock p ttl S (S\<lparr>srv := s', claims := insert (l, clock (srv S) + ttl) (claims S),
       used_tokens := insert token (used_tokens S)\<rparr>)"
| ls_acquire_fail: "token \<notin> used_tokens S \<Longrightarrow>
     Acquire api (Some (NewStore p ttl addr)) n token room (srv S) = (Inl err, s') \<Longrightarrow>
     lease_step api clock p ttl S (S\<lparr>srv := s', used_tokens := insert token (used_tokens S)\<rparr>)"
| ls_renew: "(l, t) \<in> claims S \<Longrightarrow>
     renew_cmd api (NewStore p ttl addr) n l (srv S) = ((l, None), s') \<Longrightarrow>
     lease_step api clock p ttl S (S\<lparr>srv := s', claims := insert (l, clock (srv S) + ttl) (claims S)\<rparr>)"
| ls_renew_fail: "(l, t) \<in> claims S \<Longrightarrow>
     renew_cmd api (NewStore p ttl addr) n l (srv S) = ((l, Some err), s') \<Longrightarrow>
     lease_step api clock p ttl S (S\<lparr>srv := s'\<rparr>)"
| ls_release: "(l, t) \<in> claims S \<Longrightarrow>
     Release api (Some (NewStore p ttl addr)) n (Some l) (srv S) = (r, s') \<Longrightarrow>
     lease_step api clock p ttl S (S\<lparr>srv := s', claims := {c \<in> claims S. fst c \<noteq> l}\<rparr>)"
| ls_tick: "0 \<le> d \<Longrightarrow> lease_step api clock p ttl S (S\<lparr>srv := r_tick api (srv S) d\<rparr>)"

inductive lease_reach :: "'r redis_api \<Rightarrow> ('r \<Rightarrow> keyspace) \<Rightarrow> ('r \<Rightarrow> int) \<Rightarrow> string \<Rightarrow> int \<Rightarrow> 'r lease_sys \<Rightarrow> bool"
  for api view clock p ttl where
  lr_init: "(\<And>room. view s (p @ room) = None) \<Longrightarrow>
     lease_reach api view clock p ttl \<lparr>srv = s, claims = {}, used_tokens = {}\<rparr>"
| lr_step: "lease_reach api view clock p ttl S \<Longrightarrow> lease_step api clock p ttl S T \<Longrightarrow>
     lease_reach api view clock p ttl T"

text \<open>
  The invariant: lease keys hold lease hashes; every token in use was drawn; a claim that has
  not run out is recorded in the server, with an expiry no earlier than the claim's.
\<close>

definition expires_after :: "keyspace \<Rightarrow> string \<Rightarrow> int \<Rightarrow> bool" where
  "expires_after ks k t \<longleftrightarrow> (\<exists>v e. ks k = Some (v, Some e) \<and> t \<le> e)"

definition lease_inv :: "('r \<Rightarrow> keyspace) \<Rightarrow> ('r \<Rightarrow> int) \<Rightarrow> string \<Rightarrow> int \<Rightarrow> 'r lease_sys \<Rightarrow> bool" where
  "lease_inv view clock p ttl S \<longleftrightarrow>
     lease_keyspace p (view (srv S)) \<and>
     (\<forall>room l. lease_owner p (view (srv S)) room = Some l \<longrightarrow> lease_Token l \<in> used_tokens S) \<and>
     (\<forall>l t. (l, t) \<in> claims S \<longrightarrow> lease_Token l \<in> used_tokens S \<and> t \<le> clock (srv S) + ttl) \<and>
     (\<forall>l t l'. (l, t) \<in> claims S \<longrightarrow> lease_owner p (view (srv S)) (lease_RoomID l) = Some l' \<longrightarrow>
        lease_Token l' = lease_Token l \<longrightarrow> l' = l) \<and>
     (\<forall>l t. (l, t) \<in> claims S \<longrightarrow> clock (srv S) < t \<longrightarrow>
        lease_owner p (view (srv S)) (lease_RoomID l) = Some l \<and>
        expires_after (view (srv S)) (p @ lease_RoomID l) t)"

lemma lease_invD:
  assumes "lease_inv view clock p ttl S"
  shows "lease_keyspace p (view (srv S))"
    and "lease_owner p (view (srv S)) room = Some l \<Longrightarrow> lease_Token l \<in> used_tokens S"
    and "(l, t) \<in> claims S \<Longrightarrow> lease_Token l \<in> used_tokens S"
    and "(l, t) \<in> claims S \<Longrightarrow> t \<le> clock (srv S) + ttl"
    and "(l, t) \<in> claims S \<Longrightarrow> lease_owner p (view (srv S)) (lease_RoomID l) = Some l' \<Longrightarrow>
      lease_Token l' = lease_Token l \<Longrightarrow> l' = l"
    and "(l, t) \<in> claims S \<Longrightarrow> clock (srv S) < t \<Longrightarrow>
      lease_owner p (view (srv S)) (lease_RoomID l) = Some l"
    and "(l, t) \<in> claims S \<Longrightarrow> clock (srv S) < t \<Longrightarrow>
      expires_after (view (srv S)) (p @ lease_RoomID l) t"
  using assms by (auto simp: lease_inv_def)

lemma lease_inv_init: "(\<And>room. view s (p @ room) = None) \<Longrightarrow>
    lease_inv view clock p ttl \<lparr>srv = s, claims = {}, used_tokens = {}\<rparr>"
  by (simp add: lease_inv_def lease_keyspace_def lease_owner_def)

text \<open>The server records a new owner of a free room, under a fresh token.\<close>

lemma lease_inv_record:
  assumes inv: "lease_inv view clock p ttl S" and free: "view (srv S) (p @ lease_RoomID l) = None"
    and fresh: "lease_Token l \<notin> used_tokens S"
    and s': "view s' = (view (srv S))(p @ lease_RoomID l \<mapsto> (lease_hash l, Some (clock (srv S) + ttl)))"
      "clock s' = clock (srv S)"
    and cl: "cl = claims S \<or> cl = insert (l, clock (srv S) + ttl) (claims S)"
  shows "lease_inv view clock p ttl (S\<lparr>srv := s', claims := cl,
      used_tokens := insert (lease_Token l) (used_tokens S)\<rparr>)"
proof -
  note D = lease_invD [OF inv]
  have none: "lease_owner p (view (srv S)) (lease_RoomID l) = None"
    using free by (simp add: lease_owner_def)
  have own: "lease_owner p (view s') = (lease_owner p (view (srv S)))(lease_RoomID l \<mapsto> l)"
    by (simp add: s')
  have old: "lease_RoomID c \<noteq> lease_RoomID l" if "(c, t) \<in> claims S" "clock (srv S) < t" for c t
    using D(6) [OF that] none by auto
  have "lease_keyspace p (view s')" using D(1) by (auto simp: s')
  moreover have new: "lease_Token l \<noteq> lease_Token c" if "(c, t) \<in> claims S" for c t
    using D(3) [OF that] fresh by auto
  moreover have "expires_after (view s') (p @ lease_RoomID c) t" if "(c, t) \<in> claims S" "clock (srv S) < t" for c t
    using D(7) [OF that] old [OF that] by (simp add: expires_after_def s')
  moreover have "expires_after (view s') (p @ lease_RoomID l) (clock (srv S) + ttl)"
    by (simp add: expires_after_def s')
  ultimately show ?thesis
    using D(2-6) cl old unfolding lease_inv_def by (auto simp: own s'(2) dest: new)
qed

text \<open>The server extends the expiry of the recorded owner.\<close>

lemma lease_inv_extend:
  assumes inv: "lease_inv view clock p ttl S"
    and own: "lease_owner p (view (srv S)) (lease_RoomID l) = Some l"
    and s': "view s' = (view (srv S))(p @ lease_RoomID l \<mapsto> (lease_hash l, Some (clock (srv S) + ttl)))"
      "clock s' = clock (srv S)"
    and cl: "cl = claims S \<or> cl = insert (l, clock (srv S) + ttl) (claims S)"
  shows "lease_inv view clock p ttl (S\<lparr>srv := s', claims := cl\<rparr>)"
proof -
  note D = lease_invD [OF inv]
  have own': "lease_owner p (view s') = lease_owner p (view (srv S))"
    using own by (simp add: s' fun_upd_idem)
  have "lease_keyspace p (view s')" using D(1) by (auto simp: s')
  moreover have "expires_after (view s') (p @ lease_RoomID c) t" if "(c, t) \<in> claims S" "clock (srv S) < t" for c t
    using D(4,7) [OF that(1)] that by (auto simp: expires_after_def s')
  moreover have "expires_after (view s') (p @ lease_RoomID l) (clock (srv S) + ttl)"
    by (simp add: expires_after_def s')
  ultimately show ?thesis
    using D(2-6) cl own unfolding lease_inv_def by (auto simp: own' s'(2) simp del: s'(1))
qed

text \<open>The server forgets a lease whose claims its holder has given up.\<close>

lemma lease_inv_forget:
  assumes inv: "lease_inv view clock p ttl S"
    and own: "lease_owner p (view (srv S)) (lease_RoomID l) = Some l"
    and s': "view s' = (view (srv S))(p @ lease_RoomID l := None)" "clock s' = clock (srv S)"
  shows "lease_inv view clock p ttl (S\<lparr>srv := s', claims := {c \<in> claims S. fst c \<noteq> l}\<rparr>)"
proof -
  note D = lease_invD [OF inv]
  have own': "lease_owner p (view s') = (lease_owner p (view (srv S)))(lease_RoomID l := None)"
    by (simp add: s')
  have other: "lease_RoomID c \<noteq> lease_RoomID l" if "(c, t) \<in> claims S" "clock (srv S) < t" "c \<noteq> l" for c t
    using D(6) [OF that(1,2)] own that(3) by auto
  have "lease_keyspace p (view s')" using D(1) by (auto simp: s')
  moreover have "expires_after (view s') (p @ lease_RoomID c) t"
    if "(c, t) \<in> claims S" "clock (srv S) < t" "c \<noteq> l" for c t
    using D(7) [OF that(1,2)] other [OF that] by (simp add: expires_after_def s')
  moreover have "lease_owner p (view s') room = Some c \<Longrightarrow> lease_owner p (view (srv S)) room = Some c" for room c
    by (simp add: own' split: if_splits)
  moreover have "lease_owner p (view s') (lease_RoomID c) = Some c"
    if "(c, t) \<in> claims S" "clock (srv S) < t" "c \<noteq> l" for c t
    using D(6) [OF that(1,2)] other [OF that] by (simp add: own')
  ultimately show ?thesis
    using D(2-5) s'(2) unfolding lease_inv_def by (simp, blast)
qed

lemma lease_inv_tick:
  assumes R: "redis api view clock" and d: "0 \<le> d" and inv: "lease_inv view clock p ttl S"
  shows "lease_inv view clock p ttl (S\<lparr>srv := r_tick api (srv S) d\<rparr>)"
proof -
  let ?v = "view (srv S)" and ?v' = "view (r_tick api (srv S) d)"
  have sub: "?v' k = None \<or> ?v' k = ?v k" for k by (rule redis.tick_sub [OF R d])
  have own: "lease_owner p ?v room = Some l" if "lease_owner p ?v' room = Some l" for room l
    using that sub [of "p @ room"] by (auto simp: lease_owner_def)
  have live: "?v' (p @ lease_RoomID l) = ?v (p @ lease_RoomID l)"
    if "(l, t) \<in> claims S" "clock (srv S) + d < t" for l t
  proof -
    have "expires_after ?v (p @ lease_RoomID l) t"
      using lease_invD(7) [OF inv that(1)] that d by simp
    then obtain v e where "?v (p @ lease_RoomID l) = Some (v, Some e)" "t \<le> e"
      by (auto simp: expires_after_def)
    with redis.tick_keeps [OF R d] that show ?thesis by auto
  qed
  have "lease_keyspace p ?v'"
    using inv sub unfolding lease_inv_def lease_keyspace_def by (metis option.distinct(1))
  moreover have "lease_owner p ?v' (lease_RoomID l) = Some l \<and> expires_after ?v' (p @ lease_RoomID l) t"
    if "(l, t) \<in> claims S" "clock (srv S) + d < t" for l t
    using lease_invD(6,7) [OF inv that(1)] that d live [OF that]
    by (simp add: lease_owner_def expires_after_def)
  moreover have "t \<le> clock (srv S) + d + ttl" if "(l, t) \<in> claims S" for l t
    using lease_invD(4) [OF inv that] d by simp
  ultimately show ?thesis
    using lease_invD(2,3,5) [OF inv] own redis.clock_tick [OF R, of "srv S" d]
    unfolding lease_inv_def by (simp, blast)
qed

lemma lease_step_inv:
  assumes R: "redis api view clock" and ttl: "0 < ttl" and step: "lease_step api clock p ttl S T"
    and inv: "lease_inv view clock p ttl S"
  shows "lease_inv view clock p ttl T"
proof -
  have RL: "redis_lease api view clock (NewStore p ttl a)" for a
    using R ttl by (simp add: redis_lease_def redis_lease_axioms_def)
  have ks: "lease_keyspace (ls_keyPrefix (NewStore p ttl a)) (view (srv S))" for a
    using inv by (simp add: lease_inv_def)
  note D = lease_invD [OF inv]
  have matched: "o1 = l" and claimed: "lease_owner p (view (srv S)) (lease_RoomID l) = Some l"
    if c: "(l, t) \<in> claims S" and m: "redis_lease.token_match view (NewStore p ttl a) (srv S) l o1" for l t a o1
  proof -
    from m have "lease_owner p (view (srv S)) (lease_RoomID l) = Some o1" "lease_Token o1 = lease_Token l"
      unfolding redis_lease.token_match_def [OF RL] lease_owner_Some [OF D(1)] by auto
    with D(5) [OF c] show "o1 = l" "lease_owner p (view (srv S)) (lease_RoomID l) = Some l" by auto
  qed
  from step show ?thesis
  proof cases
    case (ls_acquire token addr n room l s')
    note ok = redis_lease.Acquire_ok [OF RL ls_acquire(3), simplified]
    with ls_acquire lease_inv_record [OF inv, of l s' "claims T"] show ?thesis by simp
  next
    case (ls_acquire_fail token addr n room err s')
    from redis_lease.Acquire_fail [OF RL ls_acquire_fail(3)] show ?thesis
    proof (elim conjE disjE exE)
      assume "clock s' = clock (srv S)" "view s' = view (srv S)"
      with inv show ?thesis unfolding ls_acquire_fail(1) lease_inv_def by auto
    next
      fix l
      assume *: "clock s' = clock (srv S)" "lease_RoomID l = room" "lease_Token l = token"
        "view (srv S) (lease_key (NewStore p ttl addr) room) = None"
        "view s' = (view (srv S))(lease_key (NewStore p ttl addr) room \<mapsto>
           (lease_hash l, Some (clock (srv S) + ls_ttl (NewStore p ttl addr))))"
      from lease_inv_record [OF inv, of l s' "claims S"] * ls_acquire_fail show ?thesis by simp
    qed
  next
    case (ls_renew l t addr n s')
    from redis_lease.renew_cmd_eff(2,3) [OF RL ks ls_renew(3)] claimed [OF ls_renew(2)] matched [OF ls_renew(2)]
    show ?thesis unfolding ls_renew(1) by (auto intro!: lease_inv_extend [OF inv])
  next
    case (ls_renew_fail l t addr n err s')
    from redis_lease.renew_cmd_eff(2,4) [OF RL ks ls_renew_fail(3)] show ?thesis
    proof (elim disjE exE conjE)
      assume "clock s' = clock (srv S)" "view s' = view (srv S)"
      with inv show ?thesis unfolding ls_renew_fail(1) lease_inv_def by simp
    next
      fix o1
      assume *: "clock s' = clock (srv S)" "redis_lease.token_match view (NewStore p ttl addr) (srv S) l o1"
        "view s' = (view (srv S))(lease_key (NewStore p ttl addr) (lease_RoomID l) \<mapsto>
          (lease_hash o1, Some (clock (srv S) + ls_ttl (NewStore p ttl addr))))"
      from lease_inv_extend [OF inv, of l s' "claims S"] * claimed [OF ls_renew_fail(2) *(2)]
        matched [OF ls_renew_fail(2) *(2)]
      show ?thesis unfolding ls_renew_fail(1) by simp
    qed
  next
    case (ls_release l t addr n r s')
    from redis_lease.Release_eff(1,3) [OF RL ks ls_release(3)] show ?thesis
    proof (elim disjE exE conjE)
      assume "clock s' = clock (srv S)" "view s' = view (srv S)"
      with inv show ?thesis unfolding ls_release(1) lease_inv_def by auto
    next
      fix o1
      assume *: "clock s' = clock (srv S)" "redis_lease.token_match view (NewStore p ttl addr) (srv S) l o1"
        "view s' = (view (srv S))(lease_key (NewStore p ttl addr) (lease_RoomID l) := None)"
      from lease_inv_forget [OF inv claimed [OF ls_release(2) *(2)]] * show ?thesis
        unfolding ls_release(1) by simp
    qed
  next
    case (ls_tick d)
    with lease_inv_tick [OF R _ inv] show ?thesis by simp
  qed
qed

lemma lease_reach_inv:
  assumes "redis api view clock" "0 < ttl" "lease_reach api view clock p ttl S"
  shows "lease_inv view clock p ttl S"
  using assms(3)
proof induction
  case (lr_init s)
  then show ?case by (rule lease_inv_init)
next
  case (lr_step S T)
  then show ?case using lease_step_inv [OF assms(1,2)] by blast
qed

text \<open>C5: Room ownership is exclusive: in every reachable state of any number of instances on one
  Redis server, two unexpired claims on the same room are the same lease (the same owner and
  the same token), whatever calls failed or lost their reply.\<close>

theorem lease_exclusive:
  assumes "redis api view clock" "0 < ttl" "lease_reach api view clock p ttl S"
    and "(l, t) \<in> claims S" "clock (srv S) < t" "(l', t') \<in> claims S" "clock (srv S) < t'"
    and "lease_RoomID l = lease_RoomID l'"
  shows "l = l'"
  using lease_invD(6) [OF lease_reach_inv [OF assms(1-3)]] assms(4-8) by (metis option.inject)

theorem lease_exclusive_witness:
  "\<exists>S l l'. lease_reach mem_api mem_keys mem_clock ''wss:room:lease:'' 30000 S \<and>
     (l, 30000) \<in> claims S \<and> (l', 40000) \<in> claims S \<and> mem_clock (srv S) = 10000 \<and>
     lease_RoomID l = ''r1'' \<and> lease_RoomID l' = ''r1'' \<and> l = l'"
proof -
  let ?p = "''wss:room:lease:''" and ?st = "NewStore ''wss:room:lease:'' 30000 ''10.0.0.1:8080''"
  let ?l = "\<lparr>lease_RoomID = ''r1'', lease_OwnerAddr = ''10.0.0.1:8080'', lease_Token = ''t1''\<rparr>"
  let ?s0 = "\<lparr>mem_clock = 0, mem_keys = Map.empty\<rparr>"
  let ?S0 = "\<lparr>srv = ?s0, claims = {}, used_tokens = {}\<rparr>"
  let ?s1 = "snd (Acquire mem_api (Some ?st) Reply ''t1'' ''r1'' ?s0)"
  let ?S1 = "\<lparr>srv = ?s1, claims = {(?l, 30000)}, used_tokens = {''t1''}\<rparr>"
  let ?S2 = "?S1\<lparr>srv := mem_tick ?s1 10000\<rparr>"
  let ?s3 = "snd (renew_cmd mem_api ?st Reply ?l (srv ?S2))"
  let ?S3 = "?S2\<lparr>srv := ?s3, claims := insert (?l, 40000) {(?l, 30000)}\<rparr>"
  have keys: "mem_keys ?s1 = [?p @ ''r1'' \<mapsto> (lease_hash ?l, Some 30000)]" "mem_clock ?s1 = 0"
    by (simp_all add: Acquire_def acquireLua_def mem_defs lease_hash_def fun_upd_twist map_add_upd)
  have S0: "lease_reach mem_api mem_keys mem_clock ?p 30000 ?S0"
    by (rule lr_init) simp
  have S1: "lease_reach mem_api mem_keys mem_clock ?p 30000 ?S1"
    by (rule lr_step [OF S0], rule ls_acquire [where token = "''t1''" and addr = "''10.0.0.1:8080''"
          and n = Reply and room = "''r1''" and S = ?S0 and clock = mem_clock and ttl = 30000, simplified])
      (simp add: Acquire_def acquireLua_def mem_defs)
  have "r_tick mem_api = mem_tick" by (simp add: mem_api_def)
  with ls_tick [of 10000 mem_api mem_clock ?p 30000 ?S1]
  have S2: "lease_reach mem_api mem_keys mem_clock ?p 30000 ?S2"
    by (intro lr_step [OF S1]) simp
  have keys2: "mem_keys (srv ?S2) = [?p @ ''r1'' \<mapsto> (lease_hash ?l, Some 30000)]" "mem_clock (srv ?S2) = 10000"
    using keys by (auto simp: mem_tick_def fun_eq_iff)
  have "mem_hash (srv ?S2) (?p @ ''r1'') fieldToken = Some ''t1''"
    using keys2 by (simp add: mem_hash_def lease_hash_def)
  then have ren: "renew_cmd mem_api ?st Reply ?l (srv ?S2) = ((?l, None), ?s3)" "mem_clock ?s3 = 10000"
    using keys2 by (simp_all add: renew_cmd_def renewLua_def mem_api_def mem_put_def)
  have S3: "lease_reach mem_api mem_keys mem_clock ?p 30000 ?S3"
    using ls_renew [of ?l 30000 ?S2 mem_api ?p 30000 "''10.0.0.1:8080''" Reply ?s3 mem_clock] ren keys2
    by (intro lr_step [OF S2]) simp
  have "?l = ?l"
    using lease_exclusive [OF mem.redis_axioms _ S3, of ?l 30000 ?l 40000] ren(2) by simp
  then show ?thesis using S3 ren(2) by (intro exI [of _ ?S3] exI [of _ ?l]) simp
qed

text \<open>A lease is fenced by its token: while a room has an owner, no acquisition, renewal or
  release under another token succeeds or changes who owns any room, whatever becomes of
  the reply.\<close>

theorem lease_fenced:
  assumes "redis api view clock" "0 < ttl" "lease_keyspace p (view s)"
    and "lease_owner p (view s) room = Some holder" "lease_RoomID l = room" "lease_Token l \<noteq> lease_Token holder"
  shows "isl (fst (Acquire api (Some (NewStore p ttl addr)) n t room s)) \<and>
    lease_owner p (view (snd (Acquire api (Some (NewStore p ttl addr)) n t room s))) = lease_owner p (view s) \<and>
    snd (fst (renew_cmd api (NewStore p ttl addr) n l s)) \<noteq> None \<and>
    lease_owner p (view (snd (renew_cmd api (NewStore p ttl addr) n l s))) = lease_owner p (view s) \<and>
    fst (Release api (Some (NewStore p ttl addr)) n (Some l) s) \<noteq> None \<and>
    lease_owner p (view (snd (Release api (Some (NewStore p ttl addr)) n (Some l) s))) = lease_owner p (view s)"
proof -
  have "redis_lease api view clock (NewStore p ttl addr)"
    using assms(1,2) by (simp add: redis_lease_def redis_lease_axioms_def)
  from redis_lease.store_fenced [OF this, unfolded NewStore_simps, OF assms(3-6)] show ?thesis by simp
qed

theorem lease_fenced_witness:
  "let s = \<lparr>mem_clock = 0, mem_keys = [''wss:room:lease:r1'' \<mapsto>
         (RHash [fieldOwnerAddr \<mapsto> ''10.0.0.1:8080'', fieldToken \<mapsto> ''t1''], Some 30000)]\<rparr>;
       l = \<lparr>lease_RoomID = ''r1'', lease_OwnerAddr = ''10.0.0.2:8080'', lease_Token = ''t2''\<rparr>
   in lease_owner ''wss:room:lease:'' (mem_keys s) ''r1'' \<noteq> None \<and>
      lease_owner ''wss:room:lease:'' (mem_keys (snd (Release mem_api
        (Some (NewStore ''wss:room:lease:'' 30000 ''10.0.0.2:8080'')) Reply (Some l) s))) =
      lease_owner ''wss:room:lease:'' (mem_keys s)"
proof -
  let ?h = "\<lparr>lease_RoomID = ''r1'', lease_OwnerAddr = ''10.0.0.1:8080'', lease_Token = ''t1''\<rparr>"
  let ?s = "\<lparr>mem_clock = 0, mem_keys = [''wss:room:lease:r1'' \<mapsto>
         (RHash [fieldOwnerAddr \<mapsto> ''10.0.0.1:8080'', fieldToken \<mapsto> ''t1''], Some 30000)]\<rparr>"
  have "lease_keyspace ''wss:room:lease:'' (mem_keys ?s)"
    by (auto simp: lease_keyspace_def lease_hash_def intro!: exI [of _ ?h])
  moreover have "lease_owner ''wss:room:lease:'' (mem_keys ?s) ''r1'' = Some ?h"
    by (simp add: lease_owner_def read_lease_def)
  ultimately show ?thesis
    using lease_fenced [OF mem.redis_axioms, of 30000 "''wss:room:lease:''" ?s "''r1''" ?h
        "\<lparr>lease_RoomID = ''r1'', lease_OwnerAddr = ''10.0.0.2:8080'', lease_Token = ''t2''\<rparr>"
        "''10.0.0.2:8080''" Reply]
    by (simp add: Let_def)
qed

text \<open>The store of the websocket service (\<^verbatim>\<open>cmd/websocket-service/main.go\<close>) on the in-memory server.\<close>

definition roomLeaseKeyPrefix :: string where
  "roomLeaseKeyPrefix = ''wss:room:lease:''"

definition roomLeaseTTL :: int where
  "roomLeaseTTL = 30 * 1000"

interpretation mem_lease: redis_lease mem_api mem_keys mem_clock "NewStore roomLeaseKeyPrefix roomLeaseTTL addr" for addr
  by unfold_locales (simp add: roomLeaseTTL_def)

end
