(* ===== verification/Manager.thy ===== *)
theory Manager
  imports Persist Room_Lease
begin

text \<open>
  The hub manager (\<^verbatim>\<open>internal/websocket/hub/manager.go\<close>): which rooms have a hub on this instance,
  which leases the instance holds, and when a lease is given back. The cases of the \<^verbatim>\<open>select\<close> in
  \<^verbatim>\<open>Run\<close>, the renewer and the goroutines that wait for a hub's messages to be stored are functions
  on the manager's state and the state of the services behind it; a step relation interleaves
  them with the steps of the hubs.
\<close>

section \<open>Data\<close>

definition broadcastBufferSize :: nat where "broadcastBufferSize = 500"
definition leaseRenewInterval :: int where "leaseRenewInterval = 10 * 1000000000"
definition leaseMaxStale :: int where "leaseMaxStale = 20 * 1000000000"
definition defaultDrainTimeout :: int where "defaultDrainTimeout = 10 * 1000000000"

text \<open>The methods of \<^verbatim>\<open>*roomlease.Store\<close> as the manager calls them, over a state of the services.\<close>

record 'w LeaseStore =
  le_Acquire :: "string \<Rightarrow> string \<Rightarrow> 'w \<Rightarrow> (go_error + Lease) \<times> 'w"
  le_RenewBatch :: "Lease option list \<Rightarrow> 'w \<Rightarrow> RenewResult list \<times> 'w"
  le_Release :: "Lease option \<Rightarrow> 'w \<Rightarrow> go_error option \<times> 'w"

text \<open>Pointers to hubs and to managed leases are indices; a zero \<^verbatim>\<open>time.Time\<close> is \<open>None\<close>.\<close>

record managedLease =
  ml_lease :: "Lease option"
  ml_hub :: "nat option"
  ml_acquiredAt :: int
  ml_lastRenewOK :: int
  ml_handoffAt :: "int option"
  ml_reason :: string
  ml_releaseWaiting :: bool
  ml_releasing :: bool

record hubLeaseState =
  st_lastSequence :: int
  st_pendingPersist :: int
  st_broadcastDepth :: nat
  st_activeSessions :: int
  st_persistFailed :: bool

text \<open>
  A call of \<^verbatim>\<open>leaseStore.Release\<close> for a tracked lease, recorded as history: the room, the hub and the
  state it was made for, and the hubs of the room that were still running.
\<close>

record release_call =
  rc_room :: string
  rc_hub :: "nat option"
  rc_state :: hubLeaseState
  rc_running :: "nat list"

text \<open>
  The manager. \<^verbatim>\<open>m_hubs\<close> is the map of rooms to hubs that is local to \<^verbatim>\<open>Run\<close>, \<^verbatim>\<open>m_heap\<close> the hubs themselves
  (with the history of \<open>hub_sys\<close>), \<^verbatim>\<open>m_managed\<close> the managed leases, \<^verbatim>\<open>m_waiters\<close> the goroutines that run
  \<^verbatim>\<open>releaseLeaseWhenReady\<close>. \<^verbatim>\<open>m_calls\<close> is history.
\<close>

record ('c, 'w) manager =
  m_sessionCfg :: sessionConfig
  m_idleTimeout :: int
  m_drainTimeout :: int
  m_store :: "'w MessageStore option"
  m_floorStore :: "'w SequenceFloorStore option"
  m_leaseStore :: "'w LeaseStore option"
  m_broadcastCh :: "message list"
  m_leases :: "(string \<times> nat) list"
  m_managed :: "managedLease list"
  m_hubs :: "(string \<times> nat) list"
  m_heap :: "'c hub_sys list"
  m_waiters :: "(string \<times> nat \<times> nat) list"
  m_stopped :: bool
  m_calls :: "release_call list"

record ManagerConfig =
  mc_IdleTimeout :: int
  mc_WriteWait :: int
  mc_PongWait :: int
  mc_PingPeriod :: int
  mc_MaxLength :: int

definition NewManager :: "ManagerConfig \<Rightarrow> 'w MessageStore option \<Rightarrow> int list \<Rightarrow> ('c, 'w) manager" where
  "NewManager cfg store drainTimeouts =
    (let drainTimeout = (if drainTimeouts \<noteq> [] \<and> hd drainTimeouts > 0 then hd drainTimeouts else defaultDrainTimeout)
     in \<lparr>m_sessionCfg = \<lparr>writeWait = mc_WriteWait cfg, pongWait = mc_PongWait cfg, pingPeriod = mc_PingPeriod cfg, maxLength = mc_MaxLength cfg\<rparr>,
       m_idleTimeout = mc_IdleTimeout cfg, m_drainTimeout = drainTimeout, m_store = store,
       m_floorStore = None, m_leaseStore = None, m_broadcastCh = [], m_leases = [], m_managed = [],
       m_hubs = [], m_heap = [], m_waiters = [], m_stopped = False, m_calls = []\<rparr>)"

definition SetRoomLeaseStore :: "'w LeaseStore \<Rightarrow> ('c, 'w) manager \<Rightarrow> ('c, 'w) manager" where
  "SetRoomLeaseStore store M = M\<lparr>m_leaseStore := Some store\<rparr>"

definition SetSequenceFloorStore :: "'w SequenceFloorStore \<Rightarrow> ('c, 'w) manager \<Rightarrow> ('c, 'w) manager" where
  "SetSequenceFloorStore store M = M\<lparr>m_floorStore := Some store\<rparr>"

definition del_key :: "string \<Rightarrow> (string \<times> 'a) list \<Rightarrow> (string \<times> 'a) list" where
  "del_key k xs = filter (\<lambda>(k', v). k' \<noteq> k) xs"

definition put_key :: "string \<Rightarrow> 'a \<Rightarrow> (string \<times> 'a) list \<Rightarrow> (string \<times> 'a) list" where
  "put_key k v xs = (k, v) # del_key k xs"

definition on_hub :: "nat \<Rightarrow> ('c hub \<Rightarrow> 'c hub) \<Rightarrow> ('c, 'w) manager \<Rightarrow> ('c, 'w) manager" where
  "on_hub i f M = M\<lparr>m_heap := (m_heap M)[i := (m_heap M ! i)\<lparr>hs := f (hs (m_heap M ! i))\<rparr>]\<rparr>"

definition on_managed :: "nat \<Rightarrow> (managedLease \<Rightarrow> managedLease) \<Rightarrow> ('c, 'w) manager \<Rightarrow> ('c, 'w) manager" where
  "on_managed p f M = M\<lparr>m_managed := (m_managed M)[p := f (m_managed M ! p)]\<rparr>"

section \<open>Tracking leases\<close>

definition trackLease :: "int \<Rightarrow> Lease option \<Rightarrow> ('c, 'w) manager \<Rightarrow> ('c, 'w) manager" where
  "trackLease now lease M = (case lease of
      None \<Rightarrow> M
    | Some l \<Rightarrow> M\<lparr>m_managed := m_managed M @ [\<lparr>ml_lease = Some l, ml_hub = None, ml_acquiredAt = now, ml_lastRenewOK = now,
          ml_handoffAt = None, ml_reason = '''', ml_releaseWaiting = False, ml_releasing = False\<rparr>],
        m_leases := put_key (lease_RoomID l) (length (m_managed M)) (m_leases M)\<rparr>)"

definition releaseAcquiredLease :: "Lease option \<Rightarrow> ('c, 'w) manager \<Rightarrow> 'w \<Rightarrow> 'w" where
  "releaseAcquiredLease lease M w = (case (lease, m_leaseStore M) of
      (Some l, Some ls) \<Rightarrow> snd (le_Release ls (Some l) w)
    | _ \<Rightarrow> w)"

definition markHandoff :: "int \<Rightarrow> string \<Rightarrow> string \<Rightarrow> ('c, 'w) manager \<Rightarrow> ('c, 'w) manager" where
  "markHandoff now roomID reason0 M =
    (let reason = (if reason0 = '''' then ''unknown'' else reason0) in
     case map_of (m_leases M) roomID of
       None \<Rightarrow> M
     | Some p \<Rightarrow> if ml_handoffAt (m_managed M ! p) = None
         then on_managed p (\<lambda>ml. ml\<lparr>ml_handoffAt := Some now, ml_reason := reason\<rparr>) M else M)"

definition captureHubLeaseState :: "'c hub option \<Rightarrow> hubLeaseState" where
  "captureHubLeaseState ho = (case ho of
      None \<Rightarrow> \<lparr>st_lastSequence = 0, st_pendingPersist = 0, st_broadcastDepth = 0, st_activeSessions = 0, st_persistFailed = False\<rparr>
    | Some h \<Rightarrow> \<lparr>st_lastSequence = lastSequence h, st_pendingPersist = pendingPersist h,
        st_broadcastDepth = length (broadcastCh h), st_activeSessions = activeSessions h, st_persistFailed = persistFailed h\<rparr>)"

definition ready :: "hubLeaseState \<Rightarrow> bool" where
  "ready st \<longleftrightarrow> st_pendingPersist st = 0 \<and> st_broadcastDepth st = 0 \<and> \<not> st_persistFailed st"

definition blockReason :: "hubLeaseState \<Rightarrow> string" where
  "blockReason st = (if st_persistFailed st then ''persist_failed'' else ''drain_incomplete'')"

definition rememberLeaseHub :: "string \<Rightarrow> nat \<Rightarrow> nat \<Rightarrow> ('c, 'w) manager \<Rightarrow> ('c, 'w) manager" where
  "rememberLeaseHub roomID p i M =
    (if map_of (m_leases M) roomID = Some p \<and> ml_hub (m_managed M ! p) = None
     then on_managed p (\<lambda>ml. ml\<lparr>ml_hub := Some i\<rparr>) M else M)"

definition markLeaseReleaseWaiting :: "string \<Rightarrow> nat \<Rightarrow> ('c, 'w) manager \<Rightarrow> bool \<times> ('c, 'w) manager" where
  "markLeaseReleaseWaiting roomID p M =
    (if map_of (m_leases M) roomID \<noteq> Some p then (False, M)
     else if ml_releaseWaiting (m_managed M ! p) then (False, M)
     else (True, on_managed p (\<lambda>ml. ml\<lparr>ml_releaseWaiting := True\<rparr>) M))"

section \<open>Giving a lease back\<close>

definition running_hubs :: "string \<Rightarrow> ('c, 'w) manager \<Rightarrow> nat list" where
  "running_hubs roomID M = filter (\<lambda>i. h_roomID (hs (m_heap M ! i)) = roomID \<and> phase (m_heap M ! i) \<noteq> Stopped) [0..<length (m_heap M)]"

text \<open>
  \<^verbatim>\<open>releaseManagedLease\<close>; \<open>ho\<close> is the hub whose state \<open>st\<close> was captured, kept for the history. A store
  that is nil answers nil. The lock is not held during the call of the store: a lease that
  another owner acquires meanwhile is protected by its token.
\<close>

definition releaseManagedLease ::
  "string \<Rightarrow> nat \<Rightarrow> nat option \<Rightarrow> hubLeaseState \<Rightarrow> ('c, 'w) manager \<Rightarrow> 'w \<Rightarrow> bool \<times> ('c, 'w) manager \<times> 'w" where
  "releaseManagedLease roomID p ho st M w =
    (if map_of (m_leases M) roomID \<noteq> Some p \<or> ml_releasing (m_managed M ! p) then (True, M, w)
     else
      (let M1 = on_managed p (\<lambda>ml. ml\<lparr>ml_releasing := True\<rparr>) M;
           (err, w1) = (case m_leaseStore M1 of
               None \<Rightarrow> (None, w)
             | Some ls \<Rightarrow> le_Release ls (ml_lease (m_managed M1 ! p)) w);
           M2 = M1\<lparr>m_calls := m_calls M1 @
             [\<lparr>rc_room = roomID, rc_hub = ho, rc_state = st, rc_running = running_hubs roomID M1\<rparr>]\<rparr>;
           released = (case err of None \<Rightarrow> True | Some e \<Rightarrow> errors_is e ErrLost) in
       if released then
         (True, if map_of (m_leases M2) roomID = Some p then M2\<lparr>m_leases := del_key roomID (m_leases M2)\<rparr> else M2, w1)
       else
         (False, if map_of (m_leases M2) roomID = Some p
                 then on_managed p (\<lambda>ml. ml\<lparr>ml_releasing := False\<rparr>) M2 else M2, w1)))"

definition releaseLeaseAfterPersistFailure ::
  "string \<Rightarrow> nat \<Rightarrow> nat option \<Rightarrow> hubLeaseState \<Rightarrow> ('c, 'w) manager \<Rightarrow> 'w \<Rightarrow> bool \<times> ('c, 'w) manager \<times> 'w" where
  "releaseLeaseAfterPersistFailure roomID p ho st M w = (case m_floorStore M of
      None \<Rightarrow> (False, M, w)
    | Some fs \<Rightarrow> (case fs_SetMax fs roomID (st_lastSequence st) w of
         (Some err, w1) \<Rightarrow> (False, M, w1)
       | (None, w1) \<Rightarrow> releaseManagedLease roomID p ho st M w1))"

text \<open>The goroutine that \<^verbatim>\<open>releaseLease\<close> starts when the lease cannot be given back yet.\<close>

definition start_waiter :: "string \<Rightarrow> nat \<Rightarrow> nat \<Rightarrow> ('c, 'w) manager \<Rightarrow> ('c, 'w) manager" where
  "start_waiter roomID p i M = (case markLeaseReleaseWaiting roomID p M of
      (False, M1) \<Rightarrow> M1
    | (True, M1) \<Rightarrow> M1\<lparr>m_waiters := (roomID, p, i) # m_waiters M1\<rparr>)"

definition releaseLease :: "string \<Rightarrow> nat option \<Rightarrow> ('c, 'w) manager \<Rightarrow> 'w \<Rightarrow> ('c, 'w) manager \<times> 'w" where
  "releaseLease roomID h0 M w = (case map_of (m_leases M) roomID of
      None \<Rightarrow> (M, w)
    | Some p \<Rightarrow>
      if ml_lease (m_managed M ! p) = None \<or> m_leaseStore M = None then (M, w)
      else
       (let ho = (case h0 of None \<Rightarrow> ml_hub (m_managed M ! p) | Some i \<Rightarrow> Some i);
            M1 = (case ho of None \<Rightarrow> M | Some i \<Rightarrow> rememberLeaseHub roomID p i M);
            st = captureHubLeaseState (map_option (\<lambda>i. hs (m_heap M1 ! i)) ho) in
        case ho of
          Some i \<Rightarrow>
            if \<not> ready st then
              if st_persistFailed st then
                (case releaseLeaseAfterPersistFailure roomID p ho st M1 w of
                   (True, M2, w2) \<Rightarrow> (M2, w2)
                 | (False, M2, w2) \<Rightarrow> (start_waiter roomID p i M2, w2))
              else (start_waiter roomID p i M1, w)
            else
              (case releaseManagedLease roomID p ho st M1 w of
                 (True, M2, w2) \<Rightarrow> (M2, w2)
               | (False, M2, w2) \<Rightarrow> (start_waiter roomID p i M2, w2))
        | None \<Rightarrow> snd (releaseManagedLease roomID p ho st M1 w)))"

text \<open>
  \<^verbatim>\<open>releaseLeaseWhenReady\<close>: one iteration, and the loop. While the goroutine waits, the rest of the
  program runs: \<open>waits\<close> gives for each wait the change. The first result says whether the loop
  has returned when \<open>waits\<close> ends.
\<close>

definition release_poll :: "string \<times> nat \<times> nat \<Rightarrow> ('c, 'w) manager \<Rightarrow> 'w \<Rightarrow> bool \<times> ('c, 'w) manager \<times> 'w" where
  "release_poll wt M w = (case wt of (roomID, p, i) \<Rightarrow>
     let st = captureHubLeaseState (Some (hs (m_heap M ! i))) in
     if ready st then releaseManagedLease roomID p (Some i) st M w
     else if st_persistFailed st then releaseLeaseAfterPersistFailure roomID p (Some i) st M w
     else (False, M, w))"

fun releaseLeaseWhenReady ::
  "string \<times> nat \<times> nat \<Rightarrow> (('c, 'w) manager \<times> 'w \<Rightarrow> ('c, 'w) manager \<times> 'w) list \<Rightarrow> ('c, 'w) manager \<Rightarrow> 'w \<Rightarrow>
   bool \<times> ('c, 'w) manager \<times> 'w" where
  "releaseLeaseWhenReady wt [] M w = release_poll wt M w"
| "releaseLeaseWhenReady wt (f # waits) M w = (case release_poll wt M w of
      (True, M1, w1) \<Rightarrow> (True, M1, w1)
    | (False, M1, w1) \<Rightarrow> (case f (M1, w1) of (M2, w2) \<Rightarrow> releaseLeaseWhenReady wt waits M2 w2))"

definition releaseAllLeases :: "('c, 'w) manager \<Rightarrow> 'w \<Rightarrow> ('c, 'w) manager \<times> 'w" where
  "releaseAllLeases M w =
     fold (\<lambda>roomID (M', w'). releaseLease roomID (map_of (m_hubs M) roomID) M' w') (map fst (m_leases M)) (M, w)"

section \<open>Creating hubs\<close>

text \<open>\<open>p\<close> is the pipeline's channels as the new hub finds them.\<close>

definition createHub ::
  "'c lru_api \<Rightarrow> pipe \<Rightarrow> string \<Rightarrow> ('c, 'w) manager \<Rightarrow> 'w \<Rightarrow> (go_error + nat) \<times> ('c, 'w) manager \<times> 'w" where
  "createHub lru p roomID M w =
    (let store = (case (m_store M, m_floorStore M) of
           (Some base, Some fstore) \<Rightarrow> Some (sequenceFloorMessageStore base fstore)
         | _ \<Rightarrow> m_store M);
         i = length (m_heap M);
         h = newHub lru i roomID (m_sessionCfg M) (store \<noteq> None) True (m_drainTimeout M) in
     case initializeSequence store w h of
       (Some err, h1, w1) \<Rightarrow> (Inl err, M, w1)
     | (None, h1, w1) \<Rightarrow>
         (Inr i, M\<lparr>m_heap := m_heap M @ [\<lparr>hs = h1, hp = p, phase = Running, issued = [], acks = []\<rparr>],
            m_hubs := put_key roomID i (m_hubs M)\<rparr>, w1))"

text \<open>\<open>token\<close> is the value of \<^verbatim>\<open>uuid.NewString()\<close>.\<close>

definition getOrCreate ::
  "'c lru_api \<Rightarrow> pipe \<Rightarrow> string \<Rightarrow> int \<Rightarrow> string \<Rightarrow> ('c, 'w) manager \<Rightarrow> 'w \<Rightarrow>
   (go_error + (nat \<times> bool)) \<times> ('c, 'w) manager \<times> 'w" where
  "getOrCreate lru p token now roomID M w = (case map_of (m_hubs M) roomID of
      Some i \<Rightarrow> if isDraining (hs (m_heap M ! i)) then (Inl ErrRoomHandoffInProgress, M, w)
        else (Inr (i, False), M, w)
    | None \<Rightarrow>
       (case (case m_leaseStore M of
                None \<Rightarrow> (Inr None, w)
              | Some ls \<Rightarrow> (case le_Acquire ls token roomID w of
                   (Inl err, w1) \<Rightarrow> (Inl err, w1) | (Inr l, w1) \<Rightarrow> (Inr (Some l), w1))) of
          (Inl err, w1) \<Rightarrow> (Inl err, M, w1)
        | (Inr lease, w1) \<Rightarrow>
            (case createHub lru p roomID M w1 of
               (Inl err, M1, w2) \<Rightarrow> (Inl err, M1, releaseAcquiredLease lease M1 w2)
             | (Inr i, M1, w2) \<Rightarrow> (Inr (i, True), trackLease now lease M1, w2))))"

section \<open>The requests that Run serves\<close>

text \<open>
  A caller sends a request to \<^verbatim>\<open>Run\<close> and waits for the answer: it was answered, the context ended
  while the request was being served, the manager had stopped, or the context ended before.
\<close>

datatype api_event = Answered | CtxAfter | MgrStopped | CtxBefore

fun api_net :: "api_event \<Rightarrow> net" where
  "api_net Answered = Reply"
| "api_net CtxAfter = NoReply CtxErr"
| "api_net MgrStopped = NoRequest (ErrNew ''manager stopped'')"
| "api_net CtxBefore = NoRequest CtxErr"

definition flat_result :: "(go_error + (go_error + 'a)) \<Rightarrow> go_error + 'a" where
  "flat_result r = (case r of Inl err \<Rightarrow> Inl err | Inr x \<Rightarrow> x)"

record Registration =
  rg_roomID :: string
  rg_hub :: nat
  rg_created :: bool
  rg_done :: bool

definition run_prepare ::
  "'c lru_api \<Rightarrow> pipe \<Rightarrow> string \<Rightarrow> int \<Rightarrow> string \<Rightarrow> ('c, 'w) manager \<times> 'w \<Rightarrow>
   (go_error + Registration) \<times> ('c, 'w) manager \<times> 'w" where
  "run_prepare lru p token now roomID S = (case getOrCreate lru p token now roomID (fst S) (snd S) of
      (Inl err, S') \<Rightarrow> (Inl err, S')
    | (Inr (i, created), S') \<Rightarrow>
        (Inr \<lparr>rg_roomID = roomID, rg_hub = i, rg_created = created, rg_done = False\<rparr>, S'))"

definition PrepareRegister ::
  "api_event \<Rightarrow> 'c lru_api \<Rightarrow> pipe \<Rightarrow> string \<Rightarrow> int \<Rightarrow> string \<Rightarrow> ('c, 'w) manager \<times> 'w \<Rightarrow>
   (go_error + Registration) \<times> ('c, 'w) manager \<times> 'w" where
  "PrepareRegister ev lru p token now roomID S =
     (case net_call (api_net ev) (run_prepare lru p token now roomID) S of (r, S') \<Rightarrow> (flat_result r, S'))"

definition run_cancelPrepared :: "string \<Rightarrow> nat \<Rightarrow> ('c, 'w) manager \<Rightarrow> ('c, 'w) manager" where
  "run_cancelPrepared roomID i M =
    (if map_of (m_hubs M) roomID = Some i \<and> activeSessionCount (hs (m_heap M ! i)) = 0
     then on_hub i (forceClose ''prepare_cancel'') M else M)"

definition cancelPrepared :: "api_event \<Rightarrow> string \<Rightarrow> nat \<Rightarrow> ('c, 'w) manager \<Rightarrow> ('c, 'w) manager" where
  "cancelPrepared ev roomID i M = snd (net_call (api_net ev) (\<lambda>M. ((), run_cancelPrepared roomID i M)) M)"

text \<open>A nil registration is \<open>None\<close>. \<open>rv\<close> is how the hub's \<^verbatim>\<open>register\<close> ends, \<open>ev\<close> how \<^verbatim>\<open>cancelPrepared\<close> ends.\<close>

definition Commit ::
  "register_event \<Rightarrow> api_event \<Rightarrow> string \<Rightarrow> Registration option \<Rightarrow> ('c, 'w) manager \<Rightarrow>
   go_error option \<times> Registration option \<times> ('c, 'w) manager" where
  "Commit rv ev userID r M = (case r of
      None \<Rightarrow> (Some (ErrNew ''registration is not prepared''), r, M)
    | Some rg \<Rightarrow>
        if rg_done rg then (Some (ErrNew ''registration already closed''), r, M)
        else (let r1 = Some (rg\<lparr>rg_done := True\<rparr>) in
          case hub_register rv userID (hs (m_heap M ! rg_hub rg)) of
            (Some err, h) \<Rightarrow> (let M1 = on_hub (rg_hub rg) (\<lambda>_. h) M in
              (Some err, r1, if rg_created rg then cancelPrepared ev (rg_roomID rg) (rg_hub rg) M1 else M1))
          | (None, h) \<Rightarrow> (None, r1, on_hub (rg_hub rg) (\<lambda>_. h) M)))"

definition Cancel :: "api_event \<Rightarrow> Registration option \<Rightarrow> ('c, 'w) manager \<Rightarrow> Registration option \<times> ('c, 'w) manager" where
  "Cancel ev r M = (case r of
      None \<Rightarrow> (r, M)
    | Some rg \<Rightarrow>
        if rg_done rg then (r, M)
        else (Some (rg\<lparr>rg_done := True\<rparr>),
          if rg_created rg then cancelPrepared ev (rg_roomID rg) (rg_hub rg) M else M))"

text \<open>The case of \<^verbatim>\<open>registerCh\<close>, with the registration that its goroutine makes, and \<^verbatim>\<open>Register\<close>.\<close>

definition run_registerReq ::
  "'c lru_api \<Rightarrow> pipe \<Rightarrow> string \<Rightarrow> int \<Rightarrow> register_event \<Rightarrow> string \<Rightarrow> string \<Rightarrow> ('c, 'w) manager \<times> 'w \<Rightarrow>
   (go_error + unit) \<times> ('c, 'w) manager \<times> 'w" where
  "run_registerReq lru p token now rv userID roomID S = (case getOrCreate lru p token now roomID (fst S) (snd S) of
      (Inl err, S') \<Rightarrow> (Inl err, S')
    | (Inr (i, created), (M, w)) \<Rightarrow> (case hub_register rv userID (hs (m_heap M ! i)) of
         (Some err, h) \<Rightarrow> (Inl err, on_hub i (\<lambda>_. h) M, w)
       | (None, h) \<Rightarrow> (Inr (), on_hub i (\<lambda>_. h) M, w)))"

definition Register ::
  "api_event \<Rightarrow> 'c lru_api \<Rightarrow> pipe \<Rightarrow> string \<Rightarrow> int \<Rightarrow> register_event \<Rightarrow> string \<Rightarrow> string \<Rightarrow> ('c, 'w) manager \<times> 'w \<Rightarrow>
   (go_error + unit) \<times> ('c, 'w) manager \<times> 'w" where
  "Register ev lru p token now rv userID roomID S =
     (case net_call (api_net ev) (run_registerReq lru p token now rv userID roomID) S of (r, S') \<Rightarrow> (flat_result r, S'))"

text \<open>\<^verbatim>\<open>Broadcast\<close> queues the message (\<open>Answered\<close>: there was room); \<^verbatim>\<open>Run\<close> takes it from the queue.\<close>

definition Broadcast :: "api_event \<Rightarrow> message \<Rightarrow> ('c, 'w) manager \<Rightarrow> go_error option \<times> ('c, 'w) manager" where
  "Broadcast ev msg M = (case api_net ev of
      Reply \<Rightarrow> (None, M\<lparr>m_broadcastCh := m_broadcastCh M @ [msg]\<rparr>)
    | NoRequest err \<Rightarrow> (Some err, M)
    | NoReply err \<Rightarrow> (Some err, M))"

definition run_broadcast ::
  "'c lru_api \<Rightarrow> pipe \<Rightarrow> string \<Rightarrow> int \<Rightarrow> (('c hub \<Rightarrow> 'c hub) \<times> wake) list \<Rightarrow> ('c, 'w) manager \<Rightarrow> 'w \<Rightarrow>
   ('c, 'w) manager \<times> 'w" where
  "run_broadcast lru p token now waits M w = (case m_broadcastCh M of
      [] \<Rightarrow> (M, w)
    | msg # rest \<Rightarrow> (case getOrCreate lru p token now (RoomID msg) (M\<lparr>m_broadcastCh := rest\<rparr>) w of
         (Inl err, S') \<Rightarrow> S'
       | (Inr (i, created), (M1, w1)) \<Rightarrow> (on_hub i (broadcast msg waits) M1, w1)))"

definition run_forceClose :: "int \<Rightarrow> string \<Rightarrow> string \<Rightarrow> ('c, 'w) manager \<Rightarrow> bool \<times> ('c, 'w) manager" where
  "run_forceClose now roomID reason M = (case map_of (m_hubs M) roomID of
      None \<Rightarrow> (False, M)
    | Some i \<Rightarrow>
       (let M1 = (if reason = handoffCloseReason \<or> reason = ''lease_lost'' \<or> reason = ''lease_renew_stale''
                  then markHandoff now roomID reason M else M)
        in (True, on_hub i (forceClose reason) M1)))"

definition forceCloseRoom :: "api_event \<Rightarrow> int \<Rightarrow> string \<Rightarrow> string \<Rightarrow> ('c, 'w) manager \<Rightarrow> (go_error + bool) \<times> ('c, 'w) manager" where
  "forceCloseRoom ev now roomID reason M =
     net_call (api_net ev) (run_forceClose now roomID (if reason = '''' then ''force_close'' else reason)) M"

definition ForceCloseRoom :: "api_event \<Rightarrow> int \<Rightarrow> string \<Rightarrow> ('c, 'w) manager \<Rightarrow> (go_error + bool) \<times> ('c, 'w) manager" where
  "ForceCloseRoom ev now roomID M = forceCloseRoom ev now roomID ''force_close'' M"

text \<open>The case of \<^verbatim>\<open>hubDoneCh\<close>.\<close>

definition run_hubDone :: "nat \<Rightarrow> ('c, 'w) manager \<Rightarrow> 'w \<Rightarrow> ('c, 'w) manager \<times> 'w" where
  "run_hubDone i M w =
    (let room = h_roomID (hs (m_heap M ! i)) in
     if map_of (m_hubs M) room = Some i
     then releaseLease room (Some i) (M\<lparr>m_hubs := del_key room (m_hubs M)\<rparr>) w
     else (M, w))"

definition run_listRooms :: "('c, 'w) manager \<Rightarrow> string list" where
  "run_listRooms M = map fst (m_hubs M)"

text \<open>\<^verbatim>\<open>shutdownHubs\<close>; it then waits for the hubs to stop, up to the drain timeout.\<close>

definition shutdownHubs :: "('c, 'w) manager \<Rightarrow> ('c, 'w) manager" where
  "shutdownHubs M = fold (\<lambda>(room, i). on_hub i (forceClose handoffCloseReason)) (m_hubs M) M"

text \<open>\<^verbatim>\<open>waitForHubsStopped\<close> returns when every hub of the map is done.\<close>

definition hubs_stopped :: "('c, 'w) manager \<Rightarrow> bool" where
  "hubs_stopped M = list_all (\<lambda>(room, i). doneCh (hs (m_heap M ! i))) (m_hubs M)"

text \<open>What the deferred function of \<^verbatim>\<open>Run\<close> does to the manager once the hubs have stopped.\<close>

definition run_deferred :: "('c, 'w) manager \<Rightarrow> 'w \<Rightarrow> ('c, 'w) manager \<times> 'w" where
  "run_deferred M w = (case releaseAllLeases M w of (M1, w1) \<Rightarrow> (M1\<lparr>m_stopped := True\<rparr>, w1))"

section \<open>Renewal and rebalancing\<close>

definition snapshotLeases :: "('c, 'w) manager \<Rightarrow> Lease option list" where
  "snapshotLeases M = map (\<lambda>(room, p). ml_lease (m_managed M ! p)) (m_leases M)"

definition updateLeaseRenewOK :: "string \<Rightarrow> int \<Rightarrow> ('c, 'w) manager \<Rightarrow> ('c, 'w) manager" where
  "updateLeaseRenewOK roomID at M = (case map_of (m_leases M) roomID of
      None \<Rightarrow> M
    | Some p \<Rightarrow> on_managed p (\<lambda>ml. ml\<lparr>ml_lastRenewOK := at\<rparr>) M)"

definition leaseLastRenewOK :: "string \<Rightarrow> ('c, 'w) manager \<Rightarrow> int option" where
  "leaseLastRenewOK roomID M = map_option (\<lambda>p. ml_lastRenewOK (m_managed M ! p)) (map_of (m_leases M) roomID)"

text \<open>One result of the loop in \<^verbatim>\<open>renewLeases\<close>; \<open>evs\<close> says how \<^verbatim>\<open>forceCloseRoom\<close> ends for a room.\<close>

definition renew_result :: "(string \<Rightarrow> api_event) \<Rightarrow> int \<Rightarrow> RenewResult \<Rightarrow> ('c, 'w) manager \<Rightarrow> ('c, 'w) manager" where
  "renew_result evs now res M = (case res of (lease, err) \<Rightarrow>
    let roomID = lease_RoomID lease in
    (case err of
       None \<Rightarrow> updateLeaseRenewOK roomID now M
     | Some e \<Rightarrow>
        if errors_is e ErrLost then snd (forceCloseRoom (evs roomID) now roomID ''lease_lost'' M)
        else (let lastOK = leaseLastRenewOK roomID M in
          if (case lastOK of None \<Rightarrow> True | Some t \<Rightarrow> now - t > leaseMaxStale)
          then snd (forceCloseRoom (evs roomID) now roomID ''lease_renew_stale'' M)
          else M)))"

definition renewLeases :: "(string \<Rightarrow> api_event) \<Rightarrow> int \<Rightarrow> ('c, 'w) manager \<Rightarrow> 'w \<Rightarrow> ('c, 'w) manager \<times> 'w" where
  "renewLeases evs now M w =
    (let leases = snapshotLeases M in
     case m_leaseStore M of
       None \<Rightarrow> (M, w)
     | Some ls \<Rightarrow>
        if leases = [] then (M, w)
        else (case le_RenewBatch ls leases w of (results, w1) \<Rightarrow> (fold (renew_result evs now) results M, w1)))"

text \<open>
  \<^verbatim>\<open>reconcileOwnership\<close>: the rooms whose close is scheduled, each after a random delay below
  \<^verbatim>\<open>maxRebalanceJitter\<close>; and what the timer then does.
\<close>

definition maxRebalanceJitter :: int where "maxRebalanceJitter = 2 * 1000000000"

definition reconcileOwnership :: "(string \<Rightarrow> string) \<Rightarrow> string \<Rightarrow> ('c, 'w) manager \<Rightarrow> string list" where
  "reconcileOwnership Locate addr M = filter (\<lambda>room. Locate room \<noteq> addr) (run_listRooms M)"

definition scheduleRebalanceClose :: "bool \<Rightarrow> api_event \<Rightarrow> int \<Rightarrow> string \<Rightarrow> ('c, 'w) manager \<Rightarrow> ('c, 'w) manager" where
  "scheduleRebalanceClose ctxDone ev now room M =
    (if ctxDone then M else snd (forceCloseRoom ev now room handoffCloseReason M))"

end
