(* ===== verification/Handoff.thy ===== *)
theory Handoff
  imports Manager
begin

text \<open>
  The manager as it runs: its operations interleaved with the steps of its hubs and with changes
  that others make in the stores, as a step relation; the contract of the stores as a locale; the
  invariant of all reachable states; and what it says about handing a room to another instance.
\<close>

section \<open>Steps of a hub as the manager sees them\<close>

lemma hub_step_room:
  assumes "hub_step lru S T" "hub_inv start S"
  shows "h_roomID (hs T) = h_roomID (hs S)" "persists (hs T) = persists (hs S)"
    "(doneCh (hs S) \<longleftrightarrow> phase S = Stopped) \<Longrightarrow> (doneCh (hs T) \<longleftrightarrow> phase T = Stopped)"
    "set (acks S) \<subseteq> set (acks T)"
proof -
  note D = hub_invD [OF assms(2)]
  have "h_roomID (hs T) = h_roomID (hs S) \<and> persists (hs T) = persists (hs S) \<and>
    ((doneCh (hs S) \<longleftrightarrow> phase S = Stopped) \<longrightarrow> (doneCh (hs T) \<longleftrightarrow> phase T = Stopped)) \<and> set (acks S) \<subseteq> set (acks T)"
    using assms(1)
  proof cases
    case (st_handle m ms newV7 now out h' p')
    have "hub_frame ((hs S)\<lparr>broadcastCh := ms\<rparr>) h'"
      using st_handle(4) D(2) by (rule handleBroadcast_cases) (use D in \<open>simp_all\<close>)
    with st_handle show ?thesis by (simp add: hub_frame_def)
  next
    case (st_register u r h')
    then show ?thesis by (auto simp: run_register_def Let_def hub_simps split: if_splits)
  next
    case (st_force reason)
    then show ?thesis by (simp add: forceClose_def beginDrain_def Let_def)
  next
    case st_return
    then show ?thesis by (simp add: run_return_def shutdown_eq)
  next
    case (st_enqueue m r h')
    then show ?thesis by (auto simp: enqueue_attempt_def split: if_splits)
  qed (simp_all add: hub_simps on_obj_def beginDrain_def subset_insertI)
  then show "h_roomID (hs T) = h_roomID (hs S)" "persists (hs T) = persists (hs S)"
    "(doneCh (hs S) \<longleftrightarrow> phase S = Stopped) \<Longrightarrow> (doneCh (hs T) \<longleftrightarrow> phase T = Stopped)"
    "set (acks S) \<subseteq> set (acks T)" by blast+
qed

lemma hub_step_stopped:
  assumes "hub_step lru S T" "hub_inv start S" "phase S = Stopped"
  shows "phase T = Stopped" "lastSequence (hs T) = lastSequence (hs S)" "issued T = issued S"
proof -
  have "draining (hs S)" "broadcastCh (hs S) = []" using hub_invD(9,10) [OF assms(2)] assms(3) by auto
  with assms(1,3) have "phase T = Stopped \<and> lastSequence (hs T) = lastSequence (hs S) \<and> issued T = issued S"
    by cases (auto simp: enqueue_attempt_def forceClose_def beginDrain_def Let_def hub_simps on_obj_def)
  then show "phase T = Stopped" "lastSequence (hs T) = lastSequence (hs S)" "issued T = issued S" by auto
qed

text \<open>The messages of a hub are messages of its room.\<close>

definition room_msgs :: "'c hub_sys \<Rightarrow> bool" where
  "room_msgs S \<longleftrightarrow> (\<forall>m \<in> set (issued S). RoomID m = h_roomID (hs S))"

definition room_queue :: "'c hub_sys \<Rightarrow> bool" where
  "room_queue S = list_all (\<lambda>m. RoomID m = h_roomID (hs S)) (broadcastCh (hs S))"

lemma hub_step_issued:
  assumes "hub_step lru S T" "hub_inv start S"
  shows "issued T = issued S \<or> (\<exists>m newID seq now. m \<in> set (broadcastCh (hs S)) \<and> issued T = issued S @ [stamped seq newID now m])"
  using assms(1)
proof cases
  case (st_handle m ms newV7 now out h' p')
  note D = hub_invD [OF assms(2)]
  have "newly_issued out = [] \<or> (\<exists>newID seq now. newly_issued out = [stamped seq newID now m])"
    using st_handle(4) D(2) by (rule handleBroadcast_cases) (use D in \<open>auto\<close>)
  with st_handle show ?thesis by auto
qed auto

lemma hub_step_room_msgs:
  assumes "hub_step lru S T" "hub_inv start S" "room_msgs S" "room_queue S"
  shows "room_msgs T"
  using hub_step_issued [OF assms(1,2)] hub_step_room(1) [OF assms(1,2)] assms(3,4)
  by (auto simp: room_msgs_def room_queue_def list_all_iff)

section \<open>Keys\<close>

lemma map_of_del_key [simp]: "map_of (del_key k xs) = (map_of xs)(k := None)"
  by (induction xs) (auto simp: del_key_def)

lemma map_of_put_key [simp]: "map_of (put_key k v xs) = (map_of xs)(k \<mapsto> v)"
  by (simp add: put_key_def fun_upd_def fun_eq_iff)

section \<open>The stores behind the manager\<close>

text \<open>
  \<open>level w room\<close> is the sequence number a hub of the room would start from, \<open>stored w m\<close> says that the
  message \<open>m\<close> is in the message store under its own number.
\<close>

definition grows :: "('w \<Rightarrow> string \<Rightarrow> int) \<Rightarrow> ('w \<Rightarrow> message \<Rightarrow> bool) \<Rightarrow> 'w \<Rightarrow> 'w \<Rightarrow> bool" where
  "grows level stored w w' \<longleftrightarrow> (\<forall>room. level w room \<le> level w' room) \<and> (\<forall>m. stored w m \<longrightarrow> stored w' m)"

lemma grows_refl [simp]: "grows level stored w w"
  by (simp add: grows_def)

lemma grows_trans: "grows level stored w w' \<Longrightarrow> grows level stored w' w'' \<Longrightarrow> grows level stored w w''"
  by (auto simp: grows_def intro: order_trans)

text \<open>
  What the manager relies on: reading the start number gives the level, recording a floor raises
  the level, a stored message is below it, and no call lowers it. Numbers are at most \<open>2 ^ 53\<close>, the
  integers that a Redis script compares exactly.
\<close>

locale hub_world =
  fixes base :: "'w MessageStore" and fstore :: "'w SequenceFloorStore" and leases :: "'w LeaseStore"
    and level :: "'w \<Rightarrow> string \<Rightarrow> int" and stored :: "'w \<Rightarrow> message \<Rightarrow> bool" and wf :: "'w \<Rightarrow> bool"
  assumes get_seq: "wf w \<Longrightarrow> ms_GetLastSequenceNumber (sequenceFloorMessageStore base fstore) room w = (r, w') \<Longrightarrow>
          wf w' \<and> grows level stored w w' \<and> (\<forall>v. r = Inr v \<longrightarrow> v = level w' room)"
    and set_max: "wf w \<Longrightarrow> seq \<le> 2 ^ 53 \<Longrightarrow> fs_SetMax fstore room seq w = (e, w') \<Longrightarrow>
          wf w' \<and> grows level stored w w' \<and> (e = None \<longrightarrow> seq \<le> level w' room)"
    and level_bounds: "wf w \<Longrightarrow> 0 \<le> level w room \<and> level w room \<le> 2 ^ 53"
    and stored_level: "wf w \<Longrightarrow> stored w m \<Longrightarrow> SequenceNumber m \<le> level w (RoomID m)"
    and acquire: "wf w \<Longrightarrow> le_Acquire leases token room w = (lr, w') \<Longrightarrow>
          wf w' \<and> grows level stored w w' \<and> (\<forall>a. lr = Inr a \<longrightarrow> lease_RoomID a = room)"
    and renew: "wf w \<Longrightarrow> le_RenewBatch leases ls w = (rs, w') \<Longrightarrow> wf w' \<and> grows level stored w w'"
    and release: "wf w \<Longrightarrow> le_Release leases lo w = (e, w') \<Longrightarrow> wf w' \<and> grows level stored w w'"

section \<open>Steps\<close>

text \<open>
  \<open>E\<close> is what others may do to the stores. A message enters a hub's queue only in its own room
  (a session sends messages of its room, and \<^verbatim>\<open>Run\<close> looks the hub up by the message's room).
\<close>

type_synonym ('c, 'w) mgr_state = "('c, 'w) manager \<times> 'w"

inductive mgr_step :: "'c lru_api \<Rightarrow> ('w \<Rightarrow> 'w \<Rightarrow> bool) \<Rightarrow> ('c, 'w) mgr_state \<Rightarrow> ('c, 'w) mgr_state \<Rightarrow> bool" for lru E where
  ms_create: "slots_ok p \<Longrightarrow> \<not> m_stopped M \<Longrightarrow> getOrCreate lru p token now room M w = (r, M', w') \<Longrightarrow> mgr_step lru E (M, w) (M', w')"
| ms_cancel: "mgr_step lru E (M, w) (run_cancelPrepared room i M, w)"
| ms_force: "run_forceClose now room reason M = (b, M') \<Longrightarrow> mgr_step lru E (M, w) (M', w)"
| ms_hub: "i < length (m_heap M) \<Longrightarrow> hub_step lru (m_heap M ! i) T \<Longrightarrow> room_queue T \<Longrightarrow> lastSequence (hs T) \<le> 2 ^ 53 \<Longrightarrow>
    mgr_step lru E (M, w) (M\<lparr>m_heap := (m_heap M)[i := T]\<rparr>, w)"
| ms_done: "i < length (m_heap M) \<Longrightarrow> doneCh (hs (m_heap M ! i)) \<Longrightarrow> run_hubDone i M w = (M', w') \<Longrightarrow> mgr_step lru E (M, w) (M', w')"
| ms_poll: "wt \<in> set (m_waiters M) \<Longrightarrow> release_poll wt M w = (ret, M', w') \<Longrightarrow>
    mgr_step lru E (M, w) (if ret then M'\<lparr>m_waiters := remove1 wt (m_waiters M')\<rparr> else M', w')"
| ms_renew: "renewLeases evs now M w = (M', w') \<Longrightarrow> mgr_step lru E (M, w) (M', w')"
| ms_shutdown: "mgr_step lru E (M, w) (shutdownHubs M, w)"
| ms_deferred: "hubs_stopped M \<Longrightarrow> run_deferred M w = (M', w') \<Longrightarrow> mgr_step lru E (M, w) (M', w')"
| ms_world: "E w w' \<Longrightarrow> mgr_step lru E (M, w) (M, w')"

inductive mgr_reach ::
  "'c lru_api \<Rightarrow> 'w MessageStore \<Rightarrow> 'w SequenceFloorStore \<Rightarrow> 'w LeaseStore \<Rightarrow> ('w \<Rightarrow> 'w \<Rightarrow> bool) \<Rightarrow> ('w \<Rightarrow> bool) \<Rightarrow>
   ('c, 'w) mgr_state \<Rightarrow> bool" for lru base fstore leases E wf where
  mr_init: "wf w \<Longrightarrow> mgr_reach lru base fstore leases E wf
    (SetRoomLeaseStore leases (SetSequenceFloorStore fstore (NewManager cfg (Some base) dts)), w)"
| mr_step: "mgr_reach lru base fstore leases E wf S \<Longrightarrow> mgr_step lru E S T \<Longrightarrow> mgr_reach lru base fstore leases E wf T"

section \<open>The invariant\<close>

definition hub_good :: "('w \<Rightarrow> string \<Rightarrow> int) \<Rightarrow> 'w \<Rightarrow> 'c hub_sys \<Rightarrow> bool" where
  "hub_good level w S \<longleftrightarrow> (\<exists>start. hub_inv start S \<and> 0 \<le> start \<and> start + int (length (issued S)) \<le> 2 ^ 53 \<and> start \<le> level w (h_roomID (hs S))) \<and>
     persists (hs S) \<and> room_msgs S \<and> room_queue S \<and> (doneCh (hs S) \<longleftrightarrow> phase S = Stopped) \<and> lastSequence (hs S) \<le> 2 ^ 53"

definition stopped_hub :: "('c, 'w) manager \<Rightarrow> string \<Rightarrow> nat \<Rightarrow> bool" where
  "stopped_hub M room i \<longleftrightarrow> i < length (m_heap M) \<and> phase (m_heap M ! i) = Stopped \<and> h_roomID (hs (m_heap M ! i)) = room"

text \<open>Every message of the hub was acknowledged without an error.\<close>

definition all_acked :: "'c hub_sys \<Rightarrow> bool" where
  "all_acked S \<longleftrightarrow> (\<forall>m \<in> set (issued S). (m, None) \<in> set (acks S))"

definition call_ok :: "('w \<Rightarrow> string \<Rightarrow> int) \<Rightarrow> 'w \<Rightarrow> ('c, 'w) manager \<Rightarrow> release_call \<Rightarrow> bool" where
  "call_ok level w M c \<longleftrightarrow> rc_running c = [] \<and>
     (\<exists>i. rc_hub c = Some i \<and> stopped_hub M (rc_room c) i \<and> st_lastSequence (rc_state c) = lastSequence (hs (m_heap M ! i)) \<and>
        (st_lastSequence (rc_state c) \<le> level w (rc_room c) \<or> all_acked (m_heap M ! i)))"

definition lease_ok :: "string set \<Rightarrow> ('c, 'w) manager \<Rightarrow> string \<Rightarrow> nat \<Rightarrow> bool" where
  "lease_ok X M room p \<longleftrightarrow> p < length (m_managed M) \<and> (\<exists>l. ml_lease (m_managed M ! p) = Some l \<and> lease_RoomID l = room) \<and>
     (case ml_hub (m_managed M ! p) of
        None \<Rightarrow> room \<in> X \<or> map_of (m_hubs M) room \<noteq> None
      | Some i \<Rightarrow> stopped_hub M room i \<and> map_of (m_hubs M) room \<in> {None, Some i})"

definition waiter_ok :: "('c, 'w) manager \<Rightarrow> string \<times> nat \<times> nat \<Rightarrow> bool" where
  "waiter_ok M wt \<longleftrightarrow> (case wt of (room, p, i) \<Rightarrow>
     stopped_hub M room i \<and> p < length (m_managed M) \<and> ml_hub (m_managed M ! p) = Some i)"

text \<open>\<open>X\<close> is the rooms whose hub has just been taken out of the map.\<close>

definition mgr_inv ::
  "('w \<Rightarrow> string \<Rightarrow> int) \<Rightarrow> 'w MessageStore \<Rightarrow> 'w SequenceFloorStore \<Rightarrow> 'w LeaseStore \<Rightarrow> string set \<Rightarrow> ('c, 'w) mgr_state \<Rightarrow> bool" where
  "mgr_inv level base fstore leases X S \<longleftrightarrow> (case S of (M, w) \<Rightarrow>
     m_store M = Some base \<and> m_floorStore M = Some fstore \<and> m_leaseStore M = Some leases \<and>
     list_all (hub_good level w) (m_heap M) \<and>
     (\<forall>(room, i) \<in> set (m_hubs M). i < length (m_heap M) \<and> h_roomID (hs (m_heap M ! i)) = room) \<and>
     (\<forall>i < length (m_heap M). phase (m_heap M ! i) \<noteq> Stopped \<longrightarrow> map_of (m_hubs M) (h_roomID (hs (m_heap M ! i))) = Some i) \<and>
     (\<forall>room p. map_of (m_leases M) room = Some p \<longrightarrow> lease_ok X M room p) \<and>
     list_all (waiter_ok M) (m_waiters M) \<and>
     list_all (call_ok level w M) (m_calls M))"

lemma mgr_invD:
  assumes "mgr_inv level base fstore leases X (M, w)"
  shows "m_store M = Some base" "m_floorStore M = Some fstore" "m_leaseStore M = Some leases"
    "i < length (m_heap M) \<Longrightarrow> hub_good level w (m_heap M ! i)"
    "(room, i) \<in> set (m_hubs M) \<Longrightarrow> i < length (m_heap M) \<and> h_roomID (hs (m_heap M ! i)) = room"
    "i < length (m_heap M) \<Longrightarrow> phase (m_heap M ! i) \<noteq> Stopped \<Longrightarrow> map_of (m_hubs M) (h_roomID (hs (m_heap M ! i))) = Some i"
    "map_of (m_leases M) room = Some p \<Longrightarrow> lease_ok X M room p"
    "wt \<in> set (m_waiters M) \<Longrightarrow> waiter_ok M wt" "c \<in> set (m_calls M) \<Longrightarrow> call_ok level w M c"
  using assms by (auto simp: mgr_inv_def list_all_iff)

lemma mgr_invI:
  assumes "m_store M = Some base" "m_floorStore M = Some fstore" "m_leaseStore M = Some leases"
    "\<And>i. i < length (m_heap M) \<Longrightarrow> hub_good level w (m_heap M ! i)"
    "\<And>room i. (room, i) \<in> set (m_hubs M) \<Longrightarrow> i < length (m_heap M) \<and> h_roomID (hs (m_heap M ! i)) = room"
    "\<And>i. i < length (m_heap M) \<Longrightarrow> phase (m_heap M ! i) \<noteq> Stopped \<Longrightarrow> map_of (m_hubs M) (h_roomID (hs (m_heap M ! i))) = Some i"
    "\<And>room p. map_of (m_leases M) room = Some p \<Longrightarrow> lease_ok X M room p"
    "\<And>wt. wt \<in> set (m_waiters M) \<Longrightarrow> waiter_ok M wt" "\<And>c. c \<in> set (m_calls M) \<Longrightarrow> call_ok level w M c"
  shows "mgr_inv level base fstore leases X (M, w)"
  using assms by (auto simp: mgr_inv_def list_all_iff in_set_conv_nth)

lemma hub_good_grows: "hub_good level w S \<Longrightarrow> grows level stored w w' \<Longrightarrow> hub_good level w' S"
  unfolding hub_good_def grows_def by (meson order_trans)

lemma call_ok_grows: "call_ok level w M c \<Longrightarrow> grows level stored w w' \<Longrightarrow> call_ok level w' M c"
  unfolding call_ok_def grows_def by (meson order_trans)

lemma inv_grows:
  assumes "mgr_inv level base fstore leases X (M, w)" "grows level stored w w'"
  shows "mgr_inv level base fstore leases X (M, w')"
  using mgr_invD [OF assms(1)]
  by (intro mgr_invI) (auto intro: hub_good_grows [OF _ assms(2)] call_ok_grows [OF _ assms(2)])

text \<open>A step of one hub.\<close>

lemma hub_good_step:
  assumes "hub_good level w S" "hub_step lru S T" "room_queue T" "lastSequence (hs T) \<le> 2 ^ 53"
  shows "hub_good level w T"
proof -
  obtain start where s: "hub_inv start S" "0 \<le> start" "start + int (length (issued S)) \<le> 2 ^ 53" "start \<le> level w (h_roomID (hs S))"
    using assms(1) by (auto simp: hub_good_def)
  note st = hub_step_room [OF assms(2) s(1)]
  have T: "hub_inv start T" by (rule hub_step_inv [OF assms(2) s(1)])
  have "length (issued T) \<le> Suc (length (issued S))" using hub_step_issued [OF assms(2) s(1)] by auto
  then have "start + int (length (issued T)) \<le> 2 ^ 53 + 1" using s(3) by simp
  then have "lastSequence (hs T) = start + int (length (issued T))" using hub_invD(3) [OF T] s(2) by simp
  with assms(4) have "start + int (length (issued T)) \<le> 2 ^ 53" by simp
  moreover have "room_msgs T" using hub_step_room_msgs [OF assms(2) s(1)] assms(1) by (simp add: hub_good_def)
  ultimately show ?thesis using assms s st T by (auto simp: hub_good_def)
qed

lemma hub_good_inv: "hub_good level w S \<Longrightarrow> \<exists>start. hub_inv start S"
  by (auto simp: hub_good_def)

text \<open>The numbers a hub issued are at most its counter.\<close>

lemma issued_le_last:
  assumes "hub_good level w S" "m \<in> set (issued S)"
  shows "SequenceNumber m \<le> lastSequence (hs S)"
proof -
  obtain start where s: "hub_inv start S" "0 \<le> start" "start + int (length (issued S)) \<le> 2 ^ 53"
    using assms(1) by (auto simp: hub_good_def)
  note D = hub_invD [OF s(1)]
  let ?n = "length (issued S)"
  have "SequenceNumber m \<in> set (seqs_from start ?n)" using D(4) assms(2) by (metis image_eqI set_map)
  then obtain k where k: "k < ?n" "SequenceNumber m = int64_of (start + 1 + int k)" by (auto simp: seqs_from_def)
  with s D(3) show ?thesis by simp
qed

lemma inv_hub:
  assumes inv: "mgr_inv level base fstore leases X (M, w)" and i: "i < length (m_heap M)"
    and step: "hub_step lru (m_heap M ! i) T" and T: "room_queue T" "lastSequence (hs T) \<le> 2 ^ 53"
  shows "mgr_inv level base fstore leases X (M\<lparr>m_heap := (m_heap M)[i := T]\<rparr>, w)" (is "mgr_inv _ _ _ _ _ (?M, w)")
proof -
  note D = mgr_invD [OF inv]
  obtain start where s: "hub_inv start (m_heap M ! i)" using hub_good_inv [OF D(4) [OF i]] ..
  note st = hub_step_room [OF step s] and fin = hub_step_stopped [OF step s]
  have room: "h_roomID (hs (m_heap ?M ! j)) = h_roomID (hs (m_heap M ! j))" for j
    using st(1) i by (cases "j = i") auto
  have run: "phase (m_heap ?M ! j) \<noteq> Stopped \<Longrightarrow> phase (m_heap M ! j) \<noteq> Stopped" for j
    using fin(1) i by (cases "j = i") auto
  have stp: "stopped_hub M r j \<Longrightarrow> stopped_hub ?M r j" for r j
    using fin(1) st(1) i by (cases "j = i") (auto simp: stopped_hub_def)
  have call: "call_ok level w M c \<Longrightarrow> call_ok level w ?M c" for c
  proof -
    assume "call_ok level w M c"
    then obtain j where j: "rc_running c = []" "rc_hub c = Some j" "stopped_hub M (rc_room c) j"
      "st_lastSequence (rc_state c) = lastSequence (hs (m_heap M ! j))"
      "st_lastSequence (rc_state c) \<le> level w (rc_room c) \<or> all_acked (m_heap M ! j)" by (auto simp: call_ok_def)
    have "lastSequence (hs (m_heap ?M ! j)) = lastSequence (hs (m_heap M ! j))"
      "all_acked (m_heap M ! j) \<Longrightarrow> all_acked (m_heap ?M ! j)"
      using j(3) fin st(4) i by (cases "j = i"; auto simp: stopped_hub_def all_acked_def)+
    with j stp show "call_ok level w ?M c" by (auto simp: call_ok_def)
  qed
  have lok: "lease_ok X M r p \<Longrightarrow> lease_ok X ?M r p" for r p
    using stp by (auto simp: lease_ok_def split: option.splits)
  have wok: "waiter_ok M wt \<Longrightarrow> waiter_ok ?M wt" for wt
    using stp by (auto simp: waiter_ok_def split: prod.splits)
  show ?thesis
  proof (rule mgr_invI)
    fix j assume j: "j < length (m_heap ?M)"
    show "hub_good level w (m_heap ?M ! j)"
      using D(4) hub_good_step [OF D(4) [OF i] step T] i j by (cases "j = i") auto
    assume "phase (m_heap ?M ! j) \<noteq> Stopped"
    from D(6) [OF _ run [OF this]] j room show "map_of (m_hubs ?M) (h_roomID (hs (m_heap ?M ! j))) = Some j" by simp
  next
    fix r j assume "(r, j) \<in> set (m_hubs ?M)"
    with D(5) [of r j] room show "j < length (m_heap ?M) \<and> h_roomID (hs (m_heap ?M ! j)) = r" by simp
  qed (use D lok wok call in auto)
qed

lemma inv_force:
  assumes inv: "mgr_inv level base fstore leases X (M, w)" and i: "i < length (m_heap M)"
  shows "mgr_inv level base fstore leases X (on_hub i (forceClose reason) M, w)"
  unfolding on_hub_def
proof (rule inv_hub [OF inv i st_force])
  show "room_queue ((m_heap M ! i)\<lparr>hs := forceClose reason (hs (m_heap M ! i))\<rparr>)"
    "lastSequence (hs ((m_heap M ! i)\<lparr>hs := forceClose reason (hs (m_heap M ! i))\<rparr>)) \<le> 2 ^ 53"
    using mgr_invD(4) [OF inv i] by (auto simp: hub_good_def room_queue_def forceClose_def beginDrain_def Let_def)
qed

text \<open>A change of a managed lease that keeps its lease and its hub.\<close>

lemma lease_ok_cong:
  "m_heap M' = m_heap M \<Longrightarrow> m_hubs M' = m_hubs M \<Longrightarrow> length (m_managed M') = length (m_managed M) \<Longrightarrow>
   ml_lease (m_managed M' ! p) = ml_lease (m_managed M ! p) \<Longrightarrow> ml_hub (m_managed M' ! p) = ml_hub (m_managed M ! p) \<Longrightarrow>
   lease_ok X M' room p = lease_ok X M room p"
  by (simp add: lease_ok_def stopped_hub_def cong: option.case_cong)

lemma waiter_ok_cong:
  "m_heap M' = m_heap M \<Longrightarrow> length (m_managed M') = length (m_managed M) \<Longrightarrow>
   (\<And>p. ml_hub (m_managed M' ! p) = ml_hub (m_managed M ! p)) \<Longrightarrow> waiter_ok M' wt = waiter_ok M wt"
  by (simp add: waiter_ok_def stopped_hub_def split: prod.splits)

lemma call_ok_cong: "m_heap M' = m_heap M \<Longrightarrow> call_ok level w M' c = call_ok level w M c"
  by (simp add: call_ok_def stopped_hub_def)

lemma inv_managed:
  assumes inv: "mgr_inv level base fstore leases X (M, w)"
    and f: "\<And>ml. ml_lease (f ml) = ml_lease ml" "\<And>ml. ml_hub (f ml) = ml_hub ml"
  shows "mgr_inv level base fstore leases X (on_managed p f M, w)"
proof -
  note D = mgr_invD [OF inv]
  let ?M = "on_managed p f M"
  have same: "ml_lease (m_managed ?M ! q) = ml_lease (m_managed M ! q)" "ml_hub (m_managed ?M ! q) = ml_hub (m_managed M ! q)" for q
    using f by (cases "q = p"; cases "p < length (m_managed M)"; simp add: on_managed_def list_update_beyond)+
  have fr: "m_heap ?M = m_heap M" "m_hubs ?M = m_hubs M" "length (m_managed ?M) = length (m_managed M)"
    "m_store ?M = m_store M" "m_floorStore ?M = m_floorStore M" "m_leaseStore ?M = m_leaseStore M"
    "m_leases ?M = m_leases M" "m_waiters ?M = m_waiters M" "m_calls ?M = m_calls M"
    by (simp_all add: on_managed_def)
  note fr2 = lease_ok_cong [OF fr(1-3) same] waiter_ok_cong [OF fr(1,3) same(2)] call_ok_cong [OF fr(1)]
  show ?thesis by (rule mgr_invI) (use D fr fr2 in \<open>simp_all\<close>)
qed

lemma inv_markHandoff:
  "mgr_inv level base fstore leases X (M, w) \<Longrightarrow> mgr_inv level base fstore leases X (markHandoff now room reason M, w)"
  by (auto simp: markHandoff_def Let_def split: option.splits intro: inv_managed)

lemma inv_forceClose:
  assumes "mgr_inv level base fstore leases X (M, w)" "run_forceClose now room reason M = (b, M')"
  shows "mgr_inv level base fstore leases X (M', w)"
proof (cases "map_of (m_hubs M) room")
  case (Some i)
  let ?M = "if reason = handoffCloseReason \<or> reason = ''lease_lost'' \<or> reason = ''lease_renew_stale''
     then markHandoff now room reason M else M"
  have "mgr_inv level base fstore leases X (?M, w)" using assms(1) inv_markHandoff [OF assms(1)] by simp
  moreover have "length (m_heap ?M) = length (m_heap M)" by (simp add: markHandoff_def on_managed_def Let_def split: option.splits)
  moreover have "M' = on_hub i (forceClose reason) ?M" using assms(2) Some by (simp add: run_forceClose_def Let_def)
  moreover have "i < length (m_heap M)" using mgr_invD(5) [OF assms(1) map_of_SomeD [OF Some]] by simp
  ultimately show ?thesis using inv_force by metis
qed (use assms in \<open>simp add: run_forceClose_def\<close>)

lemma inv_shutdown: "mgr_inv level base fstore leases X (M, w) \<Longrightarrow> mgr_inv level base fstore leases X (shutdownHubs M, w)"
proof -
  assume inv: "mgr_inv level base fstore leases X (M, w)"
  have "mgr_inv level base fstore leases X (fold (\<lambda>(room, i). on_hub i (forceClose r)) xs M', w)"
    if "mgr_inv level base fstore leases X (M', w)" "\<forall>(room, i) \<in> set xs. i < length (m_heap M')" for xs r M'
    using that
  proof (induction xs arbitrary: M')
    case (Cons x xs)
    obtain room i where x: "x = (room, i)" by fastforce
    have "mgr_inv level base fstore leases X (on_hub i (forceClose r) M', w)" by (rule inv_force) (use Cons.prems x in auto)
    with Cons.IH [OF this] Cons.prems x show ?case by (auto simp: on_hub_def)
  qed simp
  moreover have "\<forall>(room, i) \<in> set (m_hubs M). i < length (m_heap M)"
    using mgr_invD(5) [OF inv] by auto
  ultimately show ?thesis using inv by (simp add: shutdownHubs_def)
qed

lemma inv_renew_result:
  "mgr_inv level base fstore leases X (M, w) \<Longrightarrow> mgr_inv level base fstore leases X (renew_result evs now res M, w)"
proof -
  assume inv: "mgr_inv level base fstore leases X (M, w)"
  have force: "mgr_inv level base fstore leases X (snd (forceCloseRoom ev now room reason M), w)" for ev room reason
    using inv inv_forceClose [OF inv, of now room "if reason = [] then ''force_close'' else reason"]
    by (cases ev) (auto simp: forceCloseRoom_def prod_eq_iff)
  have upd: "mgr_inv level base fstore leases X (updateLeaseRenewOK room now M, w)" for room
    using inv by (auto simp: updateLeaseRenewOK_def split: option.splits intro: inv_managed)
  show ?thesis using inv force upd by (auto simp: renew_result_def Let_def split: prod.splits option.splits)
qed

lemma inv_renew_results:
  "mgr_inv level base fstore leases X (M, w) \<Longrightarrow> mgr_inv level base fstore leases X (fold (renew_result evs now) rs M, w)"
  by (induction rs arbitrary: M) (auto intro: inv_renew_result)

section \<open>Giving a lease back\<close>

lemma ready_all_acked:
  assumes "hub_good level w S" "ready (captureHubLeaseState (Some (hs S)))"
  shows "all_acked S"
proof -
  obtain start where inv: "hub_inv start S" using hub_good_inv [OF assms(1)] ..
  note D = hub_invD [OF inv]
  have p: "persists (hs S)" "pendingPersist (hs S) = 0" "\<not> persistFailed (hs S)"
    using assms by (auto simp: hub_good_def ready_def captureHubLeaseState_def)
  then have "mset (map fst (acks S)) = mset (issued S)" using acked_all [OF D(5)] D(6) by simp
  then have "set (map fst (acks S)) = set (issued S)" by (metis set_mset_mset)
  moreover have "\<forall>a \<in> set (acks S). snd a = None" using D(7) p(3) by auto
  ultimately show ?thesis by (force simp: all_acked_def)
qed

lemma running_hubs_empty:
  assumes inv: "mgr_inv level base fstore leases X (M, w)" and i: "stopped_hub M room i"
    and h: "map_of (m_hubs M) room \<in> {None, Some i}"
  shows "running_hubs room M = []"
proof -
  have "phase (m_heap M ! j) = Stopped" if "j < length (m_heap M)" "h_roomID (hs (m_heap M ! j)) = room" for j
    using mgr_invD(6) [OF inv that(1)] that(2) h i by (cases "phase (m_heap M ! j) = Stopped") (auto simp: stopped_hub_def)
  then show ?thesis by (simp add: running_hubs_def filter_empty_conv)
qed

lemma inv_leases:
  assumes inv: "mgr_inv level base fstore leases X (M, w)"
    and l: "\<And>room p. map_of ls room = Some p \<Longrightarrow> map_of (m_leases M) room = Some p"
  shows "mgr_inv level base fstore leases X (M\<lparr>m_leases := ls\<rparr>, w)"
proof -
  note D = mgr_invD [OF inv]
  note fr = lease_ok_cong [of "M\<lparr>m_leases := ls\<rparr>" M] waiter_ok_cong [of "M\<lparr>m_leases := ls\<rparr>" M] call_ok_cong [of "M\<lparr>m_leases := ls\<rparr>" M]
  show ?thesis by (rule mgr_invI) (use D l fr in \<open>simp_all\<close>)
qed

lemma inv_call:
  assumes inv: "mgr_inv level base fstore leases X (M, w)" and c: "call_ok level w M c"
  shows "mgr_inv level base fstore leases X (M\<lparr>m_calls := m_calls M @ [c]\<rparr>, w)"
proof -
  let ?M = "M\<lparr>m_calls := m_calls M @ [c]\<rparr>"
  note D = mgr_invD [OF inv]
  note fr = lease_ok_cong [of ?M M] waiter_ok_cong [of ?M M] call_ok_cong [of ?M M]
  show ?thesis by (rule mgr_invI) (use D c fr in \<open>auto\<close>)
qed

lemma inv_waiters:
  assumes inv: "mgr_inv level base fstore leases X (M, w)" and ws: "\<And>wt. wt \<in> set ws \<Longrightarrow> waiter_ok M wt"
  shows "mgr_inv level base fstore leases X (M\<lparr>m_waiters := ws\<rparr>, w)"
proof -
  let ?M = "M\<lparr>m_waiters := ws\<rparr>"
  note D = mgr_invD [OF inv]
  note fr = lease_ok_cong [of ?M M] waiter_ok_cong [of ?M M] call_ok_cong [of ?M M]
  show ?thesis by (rule mgr_invI) (use D ws fr in \<open>simp_all\<close>)
qed

text \<open>The fields that giving a lease back leaves alone.\<close>

definition same_hubs :: "('c, 'w) manager \<Rightarrow> ('c, 'w) manager \<Rightarrow> bool" where
  "same_hubs M M' \<longleftrightarrow> m_heap M' = m_heap M \<and> m_hubs M' = m_hubs M \<and> length (m_managed M') = length (m_managed M) \<and>
     (\<forall>p. ml_hub (m_managed M' ! p) = ml_hub (m_managed M ! p)) \<and> m_waiters M' = m_waiters M"

lemma same_hubs_on_managed [simp]:
  "(\<And>ml. ml_hub (f ml) = ml_hub ml) \<Longrightarrow> same_hubs M (on_managed p f M)"
  by (simp add: same_hubs_def on_managed_def) (metis list_update_beyond not_le nth_list_update)

lemma same_hubs_trans: "same_hubs M M' \<Longrightarrow> same_hubs M' M'' \<Longrightarrow> same_hubs M M''"
  by (simp add: same_hubs_def)

lemma same_hubs_upd [simp]:
  "same_hubs M (M'\<lparr>m_leases := ls\<rparr>) = same_hubs M M'" "same_hubs M (M'\<lparr>m_calls := cs\<rparr>) = same_hubs M M'"
  "same_hubs M M"
  by (simp_all add: same_hubs_def)

lemma same_hubs_managed2:
  "same_hubs M M' \<Longrightarrow> (\<And>ml. ml_hub (f ml) = ml_hub ml) \<Longrightarrow> same_hubs M (on_managed p f M')"
  by (rule same_hubs_trans) auto

context hub_world
begin

lemma release_managed:
  assumes inv: "mgr_inv level base fstore leases X (M, w)" and wf: "wf w"
    and i: "stopped_hub M room i" and p: "ml_hub (m_managed M ! p) = Some i"
    and st: "st_lastSequence st = lastSequence (hs (m_heap M ! i))"
    and safe: "st_lastSequence st \<le> level w room \<or> all_acked (m_heap M ! i)"
    and run: "releaseManagedLease room p (Some i) st M w = (b, M', w')"
  shows "mgr_inv level base fstore leases X (M', w') \<and> wf w' \<and> same_hubs M M'"
proof (cases "map_of (m_leases M) room \<noteq> Some p \<or> ml_releasing (m_managed M ! p)")
  case True
  with run have "M' = M" "w' = w" by (auto simp: releaseManagedLease_def)
  with inv wf show ?thesis by simp
next
  case False
  let ?M1 = "on_managed p (\<lambda>ml. ml\<lparr>ml_releasing := True\<rparr>) M"
  obtain err w1 where rel: "le_Release leases (ml_lease (m_managed ?M1 ! p)) w = (err, w1)" by fastforce
  let ?c = "\<lparr>rc_room = room, rc_hub = Some i, rc_state = st, rc_running = running_hubs room ?M1\<rparr>"
  let ?M2 = "?M1\<lparr>m_calls := m_calls ?M1 @ [?c]\<rparr>"
  have w1: "wf w1" "grows level stored w w1" using release [OF wf rel] by auto
  have inv1: "mgr_inv level base fstore leases X (?M1, w1)"
    by (rule inv_grows [OF inv_managed [OF inv] w1(2)]) simp_all
  have heap: "m_heap ?M1 = m_heap M" "m_hubs ?M1 = m_hubs M" by (simp_all add: on_managed_def)
  have lok: "lease_ok X M room p" using False mgr_invD(7) [OF inv] by simp
  then have "map_of (m_hubs ?M1) room \<in> {None, Some i}" using p heap by (simp add: lease_ok_def)
  moreover have s1: "stopped_hub ?M1 room i" using i heap by (simp add: stopped_hub_def)
  ultimately have "running_hubs room ?M1 = []" by (intro running_hubs_empty [OF inv1])
  then have "call_ok level w1 ?M1 ?c"
    using s1 st safe w1(2) heap by (auto simp: call_ok_def grows_def intro: order_trans)
  then have inv2: "mgr_inv level base fstore leases X (?M2, w1)" by (rule inv_call [OF inv1])
  have s2: "same_hubs M ?M2" by simp
  have ls: "map_of (m_leases ?M2) room = Some p" using False by (simp add: on_managed_def)
  have "w' = w1 \<and> (M' = ?M2\<lparr>m_leases := del_key room (m_leases ?M2)\<rparr> \<or> M' = on_managed p (\<lambda>ml. ml\<lparr>ml_releasing := False\<rparr>) ?M2)"
    using run False rel ls mgr_invD(3) [OF inv1]
    unfolding releaseManagedLease_def Let_def
    by (simp split: if_splits)
  then show ?thesis
  proof (elim conjE disjE)
    assume "w' = w1" "M' = ?M2\<lparr>m_leases := del_key room (m_leases ?M2)\<rparr>"
    moreover have "mgr_inv level base fstore leases X (?M2\<lparr>m_leases := del_key room (m_leases ?M2)\<rparr>, w1)"
      by (rule inv_leases [OF inv2]) (auto split: if_splits)
    ultimately show ?thesis using w1(1) s2 by simp
  next
    assume "w' = w1" "M' = on_managed p (\<lambda>ml. ml\<lparr>ml_releasing := False\<rparr>) ?M2"
    moreover have "mgr_inv level base fstore leases X (on_managed p (\<lambda>ml. ml\<lparr>ml_releasing := False\<rparr>) ?M2, w1)"
      by (rule inv_managed [OF inv2]) simp_all
    ultimately show ?thesis using w1(1) s2 by (simp add: same_hubs_managed2)
  qed
qed

lemma release_failed:
  assumes inv: "mgr_inv level base fstore leases X (M, w)" and wf: "wf w"
    and i: "stopped_hub M room i" and p: "ml_hub (m_managed M ! p) = Some i"
    and st: "st_lastSequence st = lastSequence (hs (m_heap M ! i))"
    and run: "releaseLeaseAfterPersistFailure room p (Some i) st M w = (b, M', w')"
  shows "mgr_inv level base fstore leases X (M', w') \<and> wf w' \<and> same_hubs M M'"
proof -
  obtain err w1 where set: "fs_SetMax fstore room (st_lastSequence st) w = (err, w1)" by fastforce
  have "st_lastSequence st \<le> 2 ^ 53" using mgr_invD(4) [OF inv] i st by (simp add: stopped_hub_def hub_good_def)
  note w1 = set_max [OF wf this set]
  have inv1: "mgr_inv level base fstore leases X (M, w1)" using inv_grows [OF inv] w1 by blast
  show ?thesis
  proof (cases err)
    case None
    with run set mgr_invD(2) [OF inv] have "releaseManagedLease room p (Some i) st M w1 = (b, M', w')"
      by (simp add: releaseLeaseAfterPersistFailure_def)
    from release_managed [OF inv1 _ i p st _ this] w1 None show ?thesis by simp
  next
    case (Some e)
    with run set mgr_invD(2) [OF inv] have "M' = M" "w' = w1" by (auto simp: releaseLeaseAfterPersistFailure_def)
    with inv1 w1 show ?thesis by simp
  qed
qed

lemma release_polled:
  assumes inv: "mgr_inv level base fstore leases X (M, w)" and wf: "wf w" and wt: "waiter_ok M wt"
    and run: "release_poll wt M w = (b, M', w')"
  shows "mgr_inv level base fstore leases X (M', w') \<and> wf w' \<and> same_hubs M M'"
proof -
  obtain room p i where x: "wt = (room, p, i)" by (metis surj_pair)
  let ?st = "captureHubLeaseState (Some (hs (m_heap M ! i)))"
  have i: "stopped_hub M room i" and p: "ml_hub (m_managed M ! p) = Some i" using wt x by (auto simp: waiter_ok_def)
  have st: "st_lastSequence ?st = lastSequence (hs (m_heap M ! i))" by (simp add: captureHubLeaseState_def)
  have "ready ?st \<Longrightarrow> all_acked (m_heap M ! i)"
    using ready_all_acked [OF mgr_invD(4) [OF inv]] i by (simp add: stopped_hub_def)
  with run x release_managed [OF inv wf i p st] release_failed [OF inv wf i p st] inv wf show ?thesis
    by (auto simp: release_poll_def Let_def split: if_splits)
qed

end

lemma waiter_ok_same: "same_hubs M M' \<Longrightarrow> waiter_ok M' wt = waiter_ok M wt"
  by (simp add: same_hubs_def waiter_ok_def stopped_hub_def split: prod.splits)

lemma inv_start_waiter:
  assumes inv: "mgr_inv level base fstore leases X (M, w)" and i: "stopped_hub M room i"
    and p: "p < length (m_managed M)" "ml_hub (m_managed M ! p) = Some i"
  shows "mgr_inv level base fstore leases X (start_waiter room p i M, w)"
proof -
  let ?f = "\<lambda>ml. ml\<lparr>ml_releaseWaiting := True\<rparr>"
  let ?M = "on_managed p ?f M"
  have inv1: "mgr_inv level base fstore leases X (?M, w)" by (rule inv_managed [OF inv]) simp_all
  have "same_hubs M ?M" by simp
  then have "waiter_ok ?M wt = waiter_ok M wt" "m_waiters ?M = m_waiters M" for wt
    by (simp_all add: waiter_ok_same same_hubs_def)
  moreover have "waiter_ok M (room, p, i)" using i p by (simp add: waiter_ok_def)
  ultimately have "mgr_inv level base fstore leases X (?M\<lparr>m_waiters := (room, p, i) # m_waiters ?M\<rparr>, w)"
    using mgr_invD(8) [OF inv] by (intro inv_waiters [OF inv1]) auto
  then show ?thesis using inv by (simp add: start_waiter_def markLeaseReleaseWaiting_def)
qed

lemma inv_exempt:
  assumes "mgr_inv level base fstore leases (insert room X) (M, w)"
    and "\<And>p. map_of (m_leases M) room = Some p \<Longrightarrow> lease_ok X M room p"
  shows "mgr_inv level base fstore leases X (M, w)"
proof -
  note D = mgr_invD [OF assms(1)]
  have "lease_ok X M r p" if "map_of (m_leases M) r = Some p" for r p
    using D(7) [OF that] assms(2) that by (cases "r = room") (auto simp: lease_ok_def split: option.splits)
  then show ?thesis by (intro mgr_invI) (use D in auto)
qed

text \<open>\<^verbatim>\<open>rememberLeaseHub\<close> for the hub that has stopped.\<close>

lemma inv_remember:
  assumes inv: "mgr_inv level base fstore leases (insert room X) (M, w)" and l: "map_of (m_leases M) room = Some p"
    and i: "stopped_hub M room i" "map_of (m_hubs M) room \<in> {None, Some i}" "ml_hub (m_managed M ! p) \<in> {None, Some i}"
  defines "M1 \<equiv> rememberLeaseHub room p i M"
  shows "mgr_inv level base fstore leases X (M1, w)" "stopped_hub M1 room i" "p < length (m_managed M1)"
    "ml_hub (m_managed M1 ! p) = Some i" "m_leases M1 = m_leases M" "m_hubs M1 = m_hubs M" "m_heap M1 = m_heap M"
proof -
  note D = mgr_invD [OF inv]
  have lok: "lease_ok (insert room X) M room p" by (rule D(7) [OF l])
  then have p: "p < length (m_managed M)" by (simp add: lease_ok_def)
  have fr: "m_heap M1 = m_heap M" "m_hubs M1 = m_hubs M" "length (m_managed M1) = length (m_managed M)"
    "m_store M1 = m_store M" "m_floorStore M1 = m_floorStore M" "m_leaseStore M1 = m_leaseStore M"
    "m_leases M1 = m_leases M" "m_waiters M1 = m_waiters M" "m_calls M1 = m_calls M"
    by (simp_all add: M1_def rememberLeaseHub_def on_managed_def)
  have hub: "ml_hub (m_managed M1 ! p) = Some i" using l i(3) p by (auto simp: M1_def rememberLeaseHub_def on_managed_def)
  have lease: "ml_lease (m_managed M1 ! q) = ml_lease (m_managed M ! q)" for q
    using p by (cases "q = p") (auto simp: M1_def rememberLeaseHub_def on_managed_def)
  have other: "q \<noteq> p \<Longrightarrow> ml_hub (m_managed M1 ! q) = ml_hub (m_managed M ! q)" for q
    by (simp add: M1_def rememberLeaseHub_def on_managed_def)
  have st: "stopped_hub M1 r j = stopped_hub M r j" for r j using fr by (simp add: stopped_hub_def)
  have keep: "ml_hub (m_managed M ! q) = Some j \<Longrightarrow> ml_hub (m_managed M1 ! q) = Some j" for q j
    using hub i(3) other by (cases "q = p") auto
  have "waiter_ok M1 wt" if "wt \<in> set (m_waiters M)" for wt
    using D(8) [OF that] keep fr st by (simp add: waiter_ok_def split: prod.splits)
  moreover have "lease_ok X M1 r q" if "map_of (m_leases M) r = Some q" for r q
  proof (cases "q = p")
    case True
    with D(7) [OF that] lok have "r = room" by (auto simp: lease_ok_def)
    with True hub i st fr lok lease show ?thesis by (simp add: lease_ok_def)
  next
    case False
    have "r \<noteq> room" using False that l by auto
    with D(7) [OF that] False show ?thesis using other [OF False] lease fr st
      by (simp add: lease_ok_def cong: option.case_cong)
  qed
  ultimately show "mgr_inv level base fstore leases X (M1, w)"
    by (intro mgr_invI) (use D fr call_ok_cong [OF fr(1)] in \<open>simp_all\<close>)
  show "stopped_hub M1 room i" "p < length (m_managed M1)" "ml_hub (m_managed M1 ! p) = Some i" "m_leases M1 = m_leases M"
    "m_hubs M1 = m_hubs M" "m_heap M1 = m_heap M"
    using st i(1) p fr hub by simp_all
qed

context hub_world
begin

lemma release_lease:
  assumes inv: "mgr_inv level base fstore leases (insert room X) (M, w)" and wf: "wf w"
    and h0: "\<And>p. map_of (m_leases M) room = Some p \<Longrightarrow>
        (case h0 of None \<Rightarrow> ml_hub (m_managed M ! p) | Some i \<Rightarrow> Some i) = Some i \<and> ml_hub (m_managed M ! p) \<in> {None, Some i} \<and>
        stopped_hub M room i \<and> map_of (m_hubs M) room \<in> {None, Some i}"
    and run: "releaseLease room h0 M w = (M', w')"
  shows "mgr_inv level base fstore leases X (M', w') \<and> wf w' \<and> m_hubs M' = m_hubs M \<and> m_heap M' = m_heap M"
proof (cases "map_of (m_leases M) room")
  case None
  with run have "M' = M" "w' = w" by (auto simp: releaseLease_def)
  moreover have "mgr_inv level base fstore leases X (M, w)" by (rule inv_exempt [OF inv]) (simp add: None)
  ultimately show ?thesis using wf by simp
next
  case (Some p)
  note h = h0 [OF Some]
  have i: "stopped_hub M room i" "map_of (m_hubs M) room \<in> {None, Some i}" "ml_hub (m_managed M ! p) \<in> {None, Some i}" using h by auto
  let ?M1 = "rememberLeaseHub room p i M"
  note R = inv_remember [OF inv Some i]
  let ?st = "captureHubLeaseState (Some (hs (m_heap ?M1 ! i)))"
  have st: "st_lastSequence ?st = lastSequence (hs (m_heap ?M1 ! i))" by (simp add: captureHubLeaseState_def)
  have rdy: "ready ?st \<Longrightarrow> all_acked (m_heap ?M1 ! i)"
    using ready_all_acked [OF mgr_invD(4) [OF R(1)]] R(2) by (simp add: stopped_hub_def)
  have guard: "ml_lease (m_managed M ! p) \<noteq> None" "m_leaseStore M \<noteq> None"
    using mgr_invD(7) [OF inv Some] mgr_invD(3) [OF inv] by (auto simp: lease_ok_def)
  obtain b M2 w2 where rm: "releaseManagedLease room p (Some i) ?st ?M1 w = (b, M2, w2)" by (metis surj_pair)
  obtain b' M3 w3 where rf: "releaseLeaseAfterPersistFailure room p (Some i) ?st ?M1 w = (b', M3, w3)" by (metis surj_pair)
  have fin: "mgr_inv level base fstore leases X (N, v) \<and> wf v \<and> same_hubs ?M1 N \<Longrightarrow>
      mgr_inv level base fstore leases X (start_waiter room p i N, v) \<and> m_hubs (start_waiter room p i N) = m_hubs M \<and>
      m_heap (start_waiter room p i N) = m_heap M \<and> m_hubs N = m_hubs M \<and> m_heap N = m_heap M" for N v
    using inv_start_waiter [of level base fstore leases X N v room i p] R
    by (simp add: same_hubs_def stopped_hub_def start_waiter_def markLeaseReleaseWaiting_def on_managed_def)
  have A: "ready ?st \<Longrightarrow> mgr_inv level base fstore leases X (M2, w2) \<and> wf w2 \<and> same_hubs ?M1 M2"
    using release_managed [OF R(1) wf R(2,4) st _ rm] rdy by simp
  have B: "mgr_inv level base fstore leases X (M3, w3) \<and> wf w3 \<and> same_hubs ?M1 M3"
    by (rule release_failed [OF R(1) wf R(2,4) st rf])
  have C: "mgr_inv level base fstore leases X (?M1, w) \<and> wf w \<and> same_hubs ?M1 ?M1" using R(1) wf by simp
  have "(M', w') = (if \<not> ready ?st then
        if st_persistFailed ?st then (if b' then (M3, w3) else (start_waiter room p i M3, w3)) else (start_waiter room p i ?M1, w)
      else (if b then (M2, w2) else (start_waiter room p i M2, w2)))"
    using run Some guard rm rf conjunct1 [OF h]
    by (cases h0; cases b; cases b'; simp add: releaseLease_def Let_def split: if_splits)
  then show ?thesis using fin [OF B] fin [OF C] fin [OF A] A B wf by (auto split: if_splits)
qed

end

section \<open>Creating hubs\<close>

text \<open>A hub as \<^verbatim>\<open>createHub\<close> starts it, with start number \<open>v\<close>.\<close>

definition started :: "'c lru_api \<Rightarrow> pipe \<Rightarrow> nat \<Rightarrow> string \<Rightarrow> ('c, 'w) manager \<Rightarrow> int \<Rightarrow> 'c hub_sys" where
  "started lru p i room M v = \<lparr>hs = (newHub lru i room (m_sessionCfg M) True True (m_drainTimeout M))\<lparr>lastSequence := v\<rparr>,
     hp = p, phase = Running, issued = [], acks = []\<rparr>"

lemma createHub_cases:
  assumes "createHub lru p room M w = (r, M', w')" "m_store M = Some base" "m_floorStore M = Some fstore"
  obtains (failed) err e where "r = Inl err" "M' = M"
      "ms_GetLastSequenceNumber (sequenceFloorMessageStore base fstore) room w = (Inl e, w')"
  | (created) v where "r = Inr (length (m_heap M))"
      "ms_GetLastSequenceNumber (sequenceFloorMessageStore base fstore) room w = (Inr v, w')"
      "M' = M\<lparr>m_heap := m_heap M @ [started lru p (length (m_heap M)) room M v],
         m_hubs := put_key room (length (m_heap M)) (m_hubs M)\<rparr>"
proof -
  obtain g w1 where g: "ms_GetLastSequenceNumber (sequenceFloorMessageStore base fstore) room w = (g, w1)" by fastforce
  have id: "h_roomID (newHub lru i room cfg st pe dt) = room" for i cfg st pe dt by (simp add: newHub_def)
  show ?thesis
  proof (cases g)
    case (Inl e)
    with assms g id show ?thesis
      by (intro failed [of "Wrap2 ErrRoomSequenceUnavailable e" e]) (simp_all add: createHub_def initializeSequence_def Let_def)
  next
    case (Inr v)
    with assms g id show ?thesis
      by (intro created [of v]) (simp_all add: createHub_def initializeSequence_def Let_def started_def)
  qed
qed

lemma started_simps [simp]:
  "h_roomID (hs (started lru p i room M v)) = room" "phase (started lru p i room M v) = Running"
  "lastSequence (hs (started lru p i room M v)) = v"
  by (simp_all add: started_def newHub_def)

lemma hub_good_started:
  assumes "slots_ok p" "0 \<le> v" "v \<le> 2 ^ 53" "v = level w room"
  shows "hub_good level w (started lru p i room M v)"
proof -
  have "hub_inv v (started lru p i room M v)"
    unfolding started_def by (rule hub_inv_init) (use assms in \<open>simp_all add: int64_def\<close>)
  with assms show ?thesis
    by (auto simp: hub_good_def started_def newHub_def persists_def room_msgs_def room_queue_def)
qed

lemma set_put_key: "set (put_key k v xs) \<subseteq> insert (k, v) (set xs)"
  by (auto simp: put_key_def del_key_def)

text \<open>A new hub in a room without one, together with its lease.\<close>

lemma inv_created:
  assumes inv: "mgr_inv level base fstore leases {} (M, w)" and room: "map_of (m_hubs M) room = None"
    and S: "hub_good level w S" "h_roomID (hs S) = room" "phase S = Running" and l: "lease_RoomID l = room"
  defines "M1 \<equiv> M\<lparr>m_heap := m_heap M @ [S], m_hubs := put_key room (length (m_heap M)) (m_hubs M)\<rparr>"
  shows "mgr_inv level base fstore leases {} (trackLease now (Some l) M1, w)" (is "mgr_inv _ _ _ _ _ (?M, w)")
proof -
  note D = mgr_invD [OF inv]
  let ?n = "length (m_heap M)"
  have fr: "m_heap ?M = m_heap M @ [S]" "m_hubs ?M = put_key room ?n (m_hubs M)"
    "map_of (m_leases ?M) = (map_of (m_leases M))(room \<mapsto> length (m_managed M))"
    "m_waiters ?M = m_waiters M" "m_calls ?M = m_calls M" "m_store ?M = m_store M" "m_floorStore ?M = m_floorStore M"
    "m_leaseStore ?M = m_leaseStore M" "length (m_managed ?M) = Suc (length (m_managed M))"
    by (simp_all add: trackLease_def M1_def l)
  have old: "p < length (m_managed M) \<Longrightarrow> m_managed ?M ! p = m_managed M ! p" for p
    by (simp add: trackLease_def M1_def nth_append)
  have new: "ml_hub (m_managed ?M ! length (m_managed M)) = None" "ml_lease (m_managed ?M ! length (m_managed M)) = Some l"
    by (simp_all add: trackLease_def M1_def nth_append)
  have st: "stopped_hub M r j \<Longrightarrow> stopped_hub ?M r j \<and> m_heap ?M ! j = m_heap M ! j" for r j
    using fr(1) by (simp add: stopped_hub_def nth_append)
  show ?thesis
  proof (rule mgr_invI)
    fix j assume "j < length (m_heap ?M)"
    then consider "j < ?n" | "j = ?n" using fr(1) by fastforce
    note c = this
    from c show "hub_good level w (m_heap ?M ! j)" by cases (use D(4) S(1) fr(1) in \<open>simp_all add: nth_append\<close>)
    assume run: "phase (m_heap ?M ! j) \<noteq> Stopped"
    from c show "map_of (m_hubs ?M) (h_roomID (hs (m_heap ?M ! j))) = Some j"
    proof cases
      case 1
      then have "m_heap ?M ! j = m_heap M ! j" using fr(1) by (simp add: nth_append)
      with D(6) [OF 1] run room fr(2) show ?thesis by (cases "h_roomID (hs (m_heap M ! j)) = room") auto
    qed (use S fr in \<open>simp add: nth_append\<close>)
  next
    fix r j assume "(r, j) \<in> set (m_hubs ?M)"
    then have "(r, j) = (room, ?n) \<or> (r, j) \<in> set (m_hubs M)" using fr(2) set_put_key by fastforce
    then show "j < length (m_heap ?M) \<and> h_roomID (hs (m_heap ?M ! j)) = r"
      using D(5) [of r j] S(2) fr(1) by (auto simp: nth_append)
  next
    fix r p assume rp: "map_of (m_leases ?M) r = Some p"
    show "lease_ok {} ?M r p"
    proof (cases "r = room")
      case True
      with rp fr new l show ?thesis by (simp add: lease_ok_def)
    next
      case False
      with rp fr have "lease_ok {} M r p" using D(7) by simp
      with False old st fr show ?thesis by (auto simp: lease_ok_def split: option.splits)
    qed
  next
    fix wt assume "wt \<in> set (m_waiters ?M)"
    with D(8) fr(4) have "waiter_ok M wt" by simp
    with st old fr show "waiter_ok ?M wt" by (auto simp: waiter_ok_def split: prod.splits)
  next
    fix c assume "c \<in> set (m_calls ?M)"
    with D(9) fr(5) have "call_ok level w M c" by simp
    with st show "call_ok level w ?M c" by (fastforce simp: call_ok_def)
  qed (use D fr in simp_all)
qed

context hub_world
begin

lemma release_acquired:
  assumes "mgr_inv level base fstore leases X (M, w)" "wf w"
  shows "wf (releaseAcquiredLease lo M w) \<and> mgr_inv level base fstore leases X (M, releaseAcquiredLease lo M w)"
proof (cases lo)
  case (Some l)
  obtain e w1 where r: "le_Release leases (Some l) w = (e, w1)" by fastforce
  with release [OF assms(2) r] inv_grows [OF assms(1)] Some mgr_invD(3) [OF assms(1)] show ?thesis
    by (auto simp: releaseAcquiredLease_def)
qed (use assms in \<open>simp add: releaseAcquiredLease_def\<close>)

lemma get_or_create:
  assumes inv: "mgr_inv level base fstore leases {} (M, w)" and wf: "wf w" and p: "slots_ok p"
    and run: "getOrCreate lru p token now room M w = (r, M', w')"
  shows "mgr_inv level base fstore leases {} (M', w') \<and> wf w'"
proof (cases "map_of (m_hubs M) room")
  case (Some i)
  with run inv wf show ?thesis by (auto simp: getOrCreate_def split: if_splits)
next
  case None
  note D = mgr_invD [OF inv]
  obtain a w1 where a: "le_Acquire leases token room w = (a, w1)" by fastforce
  note A = acquire [OF wf a]
  have inv1: "mgr_inv level base fstore leases {} (M, w1)" using inv_grows [OF inv] A by blast
  show ?thesis
  proof (cases a)
    case (Inl e)
    with run None a D(3) have "M' = M" "w' = w1" by (auto simp: getOrCreate_def)
    with inv1 A show ?thesis by simp
  next
    case (Inr l)
    obtain c M1 w2 where c: "createHub lru p room M w1 = (c, M1, w2)" by (metis surj_pair)
    from c D(1,2) show ?thesis
    proof (cases rule: createHub_cases)
      case (failed err e)
      note G = get_seq [OF conjunct1 [OF A] failed(3)]
      have "mgr_inv level base fstore leases {} (M, w2)" using inv_grows [OF inv1] G by blast
      with release_acquired [OF this, of "Some l"] G run None a c Inr D(3) failed show ?thesis
        by (auto simp: getOrCreate_def)
    next
      case (created v)
      note G = get_seq [OF conjunct1 [OF A] created(2)]
      have inv2: "mgr_inv level base fstore leases {} (M, w2)" using inv_grows [OF inv1] G by blast
      have "hub_good level w2 (started lru p (length (m_heap M)) room M v)"
        using G level_bounds [of w2 room] by (intro hub_good_started [OF p]) auto
      from inv_created [OF inv2 None this, of l now] A Inr
      have "mgr_inv level base fstore leases {} (trackLease now (Some l) M1, w2)" unfolding created(3) by simp
      with G run None a c Inr D(3) created(1) show ?thesis by (simp add: getOrCreate_def)
    qed
  qed
qed

end

section \<open>All steps\<close>

lemma inv_hub_deleted:
  assumes inv: "mgr_inv level base fstore leases {} (M, w)" and i: "stopped_hub M room i" and h: "map_of (m_hubs M) room = Some i"
  shows "mgr_inv level base fstore leases {room} (M\<lparr>m_hubs := del_key room (m_hubs M)\<rparr>, w)" (is "mgr_inv _ _ _ _ _ (?M, w)")
proof -
  note D = mgr_invD [OF inv]
  have st: "stopped_hub ?M r j = stopped_hub M r j" for r j by (simp add: stopped_hub_def)
  show ?thesis
  proof (rule mgr_invI)
    fix j assume j: "j < length (m_heap ?M)" "phase (m_heap ?M ! j) \<noteq> Stopped"
    then show "map_of (m_hubs ?M) (h_roomID (hs (m_heap ?M ! j))) = Some j"
      using D(6) [of j] i h by (cases "h_roomID (hs (m_heap M ! j)) = room") (auto simp: stopped_hub_def)
  next
    fix r p assume "map_of (m_leases ?M) r = Some p"
    then have "lease_ok {} M r p" using D(7) by simp
    then show "lease_ok {room} ?M r p" using st by (auto simp: lease_ok_def split: option.splits)
  qed (use D st call_ok_cong [of ?M M] in \<open>auto simp: waiter_ok_def del_key_def split: prod.splits\<close>)
qed

context hub_world
begin

lemma hub_done:
  assumes inv: "mgr_inv level base fstore leases {} (M, w)" and wf: "wf w" and i: "i < length (m_heap M)" "doneCh (hs (m_heap M ! i))"
    and run: "run_hubDone i M w = (M', w')"
  shows "mgr_inv level base fstore leases {} (M', w') \<and> wf w'"
proof -
  let ?room = "h_roomID (hs (m_heap M ! i))"
  have st: "stopped_hub M ?room i" using mgr_invD(4) [OF inv i(1)] i by (simp add: stopped_hub_def hub_good_def)
  show ?thesis
  proof (cases "map_of (m_hubs M) ?room = Some i")
    case True
    let ?M = "M\<lparr>m_hubs := del_key ?room (m_hubs M)\<rparr>"
    have inv1: "mgr_inv level base fstore leases (insert ?room {}) (?M, w)" by (rule inv_hub_deleted [OF inv st True])
    have "ml_hub (m_managed M ! p) \<in> {None, Some i}" if "map_of (m_leases M) ?room = Some p" for p
      using mgr_invD(7) [OF inv that] True by (auto simp: lease_ok_def split: option.splits)
    then show ?thesis using release_lease [OF inv1 wf, of "Some i" i M' w'] run True st
      by (simp add: run_hubDone_def Let_def stopped_hub_def)
  next
    case False
    with run inv wf show ?thesis by (auto simp: run_hubDone_def Let_def)
  qed
qed

lemma release_all:
  assumes inv: "mgr_inv level base fstore leases {} (M, w)" and wf: "wf w" and stop: "hubs_stopped M"
    and run: "releaseAllLeases M w = (M', w')"
  shows "mgr_inv level base fstore leases {} (M', w') \<and> wf w' \<and> m_hubs M' = m_hubs M \<and> m_heap M' = m_heap M"
proof -
  let ?f = "\<lambda>room (M', w'). releaseLease room (map_of (m_hubs M) room) M' w'"
  have "mgr_inv level base fstore leases {} (fold ?f rooms (N, v)) \<and> wf (snd (fold ?f rooms (N, v))) \<and>
      m_hubs (fst (fold ?f rooms (N, v))) = m_hubs M \<and> m_heap (fst (fold ?f rooms (N, v))) = m_heap M"
    if "mgr_inv level base fstore leases {} (N, v)" "wf v" "m_hubs N = m_hubs M" "m_heap N = m_heap M" for rooms N v
    using that
  proof (induction rooms arbitrary: N v)
    case (Cons room rooms)
    obtain N1 v1 where r: "releaseLease room (map_of (m_hubs M) room) N v = (N1, v1)" by fastforce
    note D = mgr_invD [OF Cons.prems(1)]
    have inv1: "mgr_inv level base fstore leases (insert room {}) (N, v)"
    proof -
      have "lease_ok {room} N q p" if "lease_ok {} N q p" for q p
        using that by (auto simp: lease_ok_def split: option.splits)
      then show ?thesis using D by (intro mgr_invI) auto
    qed
    let ?i = "case map_of (m_hubs M) room of Some i \<Rightarrow> i | None \<Rightarrow>
        the (ml_hub (m_managed N ! the (map_of (m_leases N) room)))"
    have hub: "stopped_hub N room i" if "map_of (m_hubs M) room = Some i" for i
    proof -
      have "(room, i) \<in> set (m_hubs N)" using that Cons.prems(3) map_of_SomeD by fastforce
      moreover from this have "doneCh (hs (m_heap N ! i))" using stop Cons.prems(3,4) by (auto simp: hubs_stopped_def list_all_iff)
      ultimately show ?thesis using D(4,5) by (auto simp: stopped_hub_def hub_good_def)
    qed
    have "mgr_inv level base fstore leases {} (N1, v1) \<and> wf v1 \<and> m_hubs N1 = m_hubs N \<and> m_heap N1 = m_heap N"
    proof (rule release_lease [OF inv1 Cons.prems(2) _ r, of ?i])
      fix p assume p: "map_of (m_leases N) room = Some p"
      with D(7) [OF p] hub Cons.prems(3)
      show "(case map_of (m_hubs M) room of None \<Rightarrow> ml_hub (m_managed N ! p) | Some i \<Rightarrow> Some i) = Some ?i \<and>
          ml_hub (m_managed N ! p) \<in> {None, Some ?i} \<and> stopped_hub N room ?i \<and> map_of (m_hubs N) room \<in> {None, Some ?i}"
        by (auto simp: lease_ok_def split: option.splits)
    qed
    with Cons.IH [of N1 v1] Cons.prems r show ?case by simp
  qed simp
  from this [OF inv wf refl refl, of "map fst (m_leases M)"] run show ?thesis by (simp add: releaseAllLeases_def)
qed

lemma step_inv:
  assumes step: "mgr_step lru E S T" and inv: "mgr_inv level base fstore leases {} S" and wf: "wf (snd S)"
    and E: "\<And>w w'. E w w' \<Longrightarrow> wf w \<Longrightarrow> wf w' \<and> grows level stored w w'"
  shows "mgr_inv level base fstore leases {} T \<and> wf (snd T)"
  using step
proof cases
  case (ms_create p M token now room w r M' w')
  with get_or_create [of M w p lru token now room r M' w'] inv wf show ?thesis by simp
next
  case (ms_cancel M w room i)
  then show ?thesis using inv wf mgr_invD(5) [of level base fstore leases "{}" M w room i] map_of_SomeD [of "m_hubs M" room i]
    by (auto simp: run_cancelPrepared_def intro: inv_force)
next
  case (ms_force now room reason M b M' w)
  then show ?thesis using inv_forceClose [of level base fstore leases "{}" M w now room reason b M'] inv wf by simp
next
  case (ms_hub i M T' w)
  then show ?thesis using inv_hub [of level base fstore leases "{}" M w i lru T'] inv wf by simp
next
  case (ms_done i M w M' w')
  then show ?thesis using hub_done [of M w i M' w'] inv wf by simp
next
  case (ms_poll wt M w ret M' w')
  have "waiter_ok M wt" using mgr_invD(8) [of level base fstore leases "{}" M w wt] inv ms_poll by simp
  from release_polled [OF _ _ this ms_poll(4)] inv wf ms_poll
  have N: "mgr_inv level base fstore leases {} (M', w')" "wf w'" by auto
  have "mgr_inv level base fstore leases {} (M'\<lparr>m_waiters := remove1 wt (m_waiters M')\<rparr>, w')"
    by (rule inv_waiters [OF N(1)]) (use mgr_invD(8) [OF N(1)] set_remove1_subset in fast)
  with N ms_poll show ?thesis by simp
next
  case (ms_renew evs now M w M' w')
  note inv1 = inv [unfolded ms_renew(1)] and wf1 = wf [unfolded ms_renew(1) snd_conv]
  obtain rs w1 where r: "le_RenewBatch leases (snapshotLeases M) w = (rs, w1)" by fastforce
  note R = renew [OF wf1 r]
  have "mgr_inv level base fstore leases {} (fold (renew_result evs now) rs M, w1)"
    by (rule inv_renew_results, rule inv_grows [OF inv1]) (use R in blast)
  with ms_renew r R inv1 wf1 mgr_invD(3) [OF inv1] show ?thesis by (auto simp: renewLeases_def Let_def split: if_splits)
next
  case (ms_shutdown M w)
  then show ?thesis using inv wf inv_shutdown by auto
next
  case (ms_deferred M w M' w')
  obtain M1 w1 where r: "releaseAllLeases M w = (M1, w1)" by fastforce
  with release_all [of M w M1 w1] ms_deferred inv wf
  have N: "mgr_inv level base fstore leases {} (M1, w1)" "wf w1" by auto
  have "mgr_inv level base fstore leases {} (M1\<lparr>m_stopped := True\<rparr>, w1)"
    by (rule mgr_invI) (use mgr_invD [OF N(1)] lease_ok_cong [of "M1\<lparr>m_stopped := True\<rparr>" M1]
      waiter_ok_cong [of "M1\<lparr>m_stopped := True\<rparr>" M1] call_ok_cong [of "M1\<lparr>m_stopped := True\<rparr>" M1] in simp_all)
  with N r ms_deferred show ?thesis by (simp add: run_deferred_def)
next
  case (ms_world w w' M)
  have "wf w' \<and> grows level stored w w'" using E ms_world wf by simp
  with inv_grows inv ms_world show ?thesis by fastforce
qed

lemma reach_inv:
  assumes "mgr_reach lru base fstore leases (\<lambda>w w'. wf w' \<and> grows level stored w w') wf S"
  shows "mgr_inv level base fstore leases {} S \<and> wf (snd S)"
  using assms
proof (induction rule: mgr_reach.induct)
  case (mr_init w cfg dts)
  then show ?case
    by (simp add: mgr_inv_def SetRoomLeaseStore_def SetSequenceFloorStore_def NewManager_def Let_def)
next
  case (mr_step S T)
  then show ?case using step_inv [OF mr_step.hyps(2)] by blast
qed

text \<open>When everything acknowledged is stored, the level is at least the last number of the hub.\<close>

lemma released_level:
  assumes inv: "mgr_inv level base fstore leases {} (M, w)" and wf: "wf w" and c: "c \<in> set (m_calls M)"
    and st: "\<And>m. (m, None) \<in> set (acks (m_heap M ! i)) \<Longrightarrow> stored w m" and i: "rc_hub c = Some i"
  shows "lastSequence (hs (m_heap M ! i)) \<le> level w (rc_room c)"
proof -
  let ?S = "m_heap M ! i"
  have C: "stopped_hub M (rc_room c) i" "lastSequence (hs ?S) \<le> level w (rc_room c) \<or> all_acked ?S"
    using mgr_invD(9) [OF inv c] i by (auto simp: call_ok_def)
  then have good: "hub_good level w ?S" and room: "h_roomID (hs ?S) = rc_room c"
    using mgr_invD(4) [OF inv] by (auto simp: stopped_hub_def)
  then obtain start where s: "hub_inv start ?S" "0 \<le> start" "start + int (length (issued ?S)) \<le> 2 ^ 53" "start \<le> level w (rc_room c)"
    by (auto simp: hub_good_def)
  note D = hub_invD [OF s(1)]
  show ?thesis
  proof (cases "all_acked ?S")
    case True
    show ?thesis
    proof (cases "issued ?S" rule: rev_cases)
      case Nil
      then have "lastSequence (hs ?S) = start" using D(3) s by simp
      with s show ?thesis by simp
    next
      case (snoc ms m)
      have "SequenceNumber m = last (map SequenceNumber (issued ?S))" by (simp add: snoc)
      also have "\<dots> = lastSequence (hs ?S)"
        unfolding D(4) D(3) by (simp add: snoc seqs_from_Suc add.assoc del: int64_of_id)
      finally have "SequenceNumber m = lastSequence (hs ?S)" .
      moreover have "stored w m" using True st snoc by (simp add: all_acked_def)
      moreover have "RoomID m = rc_room c" using good room snoc by (simp add: hub_good_def room_msgs_def)
      ultimately show ?thesis using stored_level [OF wf, of m] by simp
    qed
  next
    case False
    with C show ?thesis by simp
  qed
qed

end

end
