(* ===== verification/Chat.thy ===== *)
theory Chat
  imports Persist
begin

text \<open>
  The chat service: the MongoDB repository (\<^verbatim>\<open>internal/chat/repository.go\<close>), the gRPC service on top of
  it (\<^verbatim>\<open>internal/chat/service.go\<close>, \<^verbatim>\<open>internal/chat/models.go\<close>) and the adapter through which the
  websocket service calls it (\<^verbatim>\<open>internal/websocket/store.go\<close>). MongoDB is a parameter: a record of
  the collection's operations and a locale with the documented effect of unordered inserts under
  the unique indexes of \<^verbatim>\<open>db/migrations/mongo\<close> and of sorted, limited queries. The uuid library is a
  parameter too.
\<close>

section \<open>Documents and the collection\<close>

text \<open>Times are milliseconds since the epoch, the precision of a stored date.\<close>

record chat_message =
  cm_ID :: string
  cm_RoomID :: string
  cm_SenderID :: string
  cm_Content :: string
  cm_ClientMsgID :: string
  cm_Type :: string
  cm_SequenceNumber :: int
  cm_CreatedAt :: int

text \<open>The unique indexes, and when two documents collide on one.\<close>

datatype uindex = Index_id | Index_client | Index_sequence

fun collide :: "uindex \<Rightarrow> chat_message \<Rightarrow> chat_message \<Rightarrow> bool" where
  "collide Index_id d e = (cm_ID d = cm_ID e)"
| "collide Index_client d e = (cm_RoomID d = cm_RoomID e \<and> cm_ClientMsgID d = cm_ClientMsgID e)"
| "collide Index_sequence d e = (cm_RoomID d = cm_RoomID e \<and> cm_SequenceNumber d = cm_SequenceNumber e)"

definition unique_docs :: "chat_message list \<Rightarrow> bool" where
  "unique_docs ds \<longleftrightarrow> (\<forall>i < length ds. \<forall>j < length ds. \<forall>ix. i \<noteq> j \<longrightarrow> \<not> collide ix (ds ! i) (ds ! j))"

record writeError =
  we_Code :: int
  we_Message :: string

datatype insert_result = InsertOk | BulkWrite "writeError list" | InsertErr go_error

record doc_filter =
  f_roomId :: string
  f_createdAt_gte :: "int option"
  f_sequence_gt :: "int option"

definition matches :: "doc_filter \<Rightarrow> chat_message \<Rightarrow> bool" where
  "matches f d \<longleftrightarrow> cm_RoomID d = f_roomId f \<and>
     (case f_createdAt_gte f of None \<Rightarrow> True | Some t \<Rightarrow> t \<le> cm_CreatedAt d) \<and>
     (case f_sequence_gt f of None \<Rightarrow> True | Some n \<Rightarrow> n < cm_SequenceNumber d)"

text \<open>
  The operations of \<^verbatim>\<open>mongo.Collection\<close> that the repository uses; the sort of a query is +1 or -1 on
  \<^verbatim>\<open>sequenceNumber\<close>. \<open>col_dupMessage\<close> is the text of the duplicate key error for an index and a document.
\<close>

record 'm collection =
  col_InsertMany :: "chat_message list \<Rightarrow> 'm \<Rightarrow> insert_result \<times> 'm"
  col_Find :: "doc_filter \<Rightarrow> int \<Rightarrow> int \<Rightarrow> 'm \<Rightarrow> (go_error + chat_message list) \<times> 'm"
  col_FindOne :: "doc_filter \<Rightarrow> int \<Rightarrow> 'm \<Rightarrow> (go_error + chat_message option) \<times> 'm"
  col_dupMessage :: "uindex \<Rightarrow> chat_message \<Rightarrow> string"

text \<open>\<^verbatim>\<open>strings.Contains(s, sub)\<close>.\<close>

fun contains :: "string \<Rightarrow> string \<Rightarrow> bool" where
  "contains [] sub = (sub = [])"
| "contains (c # s) sub = (take (length sub) (c # s) = sub \<or> contains s sub)"

lemma contains_append: "contains (a @ sub @ b) sub"
proof (induction a)
  case Nil
  show ?case by (cases sub; cases b) simp_all
qed simp

definition query :: "doc_filter \<Rightarrow> int \<Rightarrow> chat_message list \<Rightarrow> chat_message list" where
  "query f dir ds = sort_key (\<lambda>d. dir * cm_SequenceNumber d) (filter (matches f) ds)"

text \<open>
  Documented behaviour. An unordered \<^verbatim>\<open>InsertMany\<close> tries every document; one that is not inserted has a
  write error, and a write error with code 11000 says that the document collides with a stored
  one on a unique index that its text names. A call that fails otherwise may have inserted some.
\<close>

locale mongo =
  fixes col :: "'m collection" and docs :: "'m \<Rightarrow> chat_message list"
  assumes insert_ok: "col_InsertMany col ds m = (InsertOk, m') \<Longrightarrow> docs m' = docs m @ ds"
    and insert_bulk: "col_InsertMany col ds m = (BulkWrite wes, m') \<Longrightarrow>
          \<exists>ins. docs m' = docs m @ ins \<and> set ins \<subseteq> set ds \<and>
            (\<forall>d \<in> set ds. d \<in> set ins \<or> (\<exists>we \<in> set wes. we_Code we = 11000 \<longrightarrow>
               (\<exists>ix. \<exists>e \<in> set (docs m'). collide ix d e \<and> we_Message we = col_dupMessage col ix d)))"
    and insert_err: "col_InsertMany col ds m = (InsertErr err, m') \<Longrightarrow>
          \<exists>ins. docs m' = docs m @ ins \<and> set ins \<subseteq> set ds"
    and insert_unique: "unique_docs (docs m) \<Longrightarrow> unique_docs (docs (snd (col_InsertMany col ds m)))"
    and find_ok: "0 < limit \<Longrightarrow> col_Find col f dir limit m = (Inr ds, m') \<Longrightarrow>
          ds = take (nat limit) (query f dir (docs m))"
    and find_state: "docs (snd (col_Find col f dir limit m)) = docs m"
    and findOne_ok: "col_FindOne col f dir m = (Inr r, m') \<Longrightarrow>
          r = (case query f dir (docs m) of [] \<Rightarrow> None | d # _ \<Rightarrow> Some d)"
    and findOne_state: "docs (snd (col_FindOne col f dir m)) = docs m"
    and client_named: "contains (col_dupMessage col Index_client d) ''unique_room_client_msg''"
    and sequence_named: "contains (col_dupMessage col Index_sequence d) ''unique_room_sequence''"
    and id_named: "\<not> contains (col_dupMessage col Index_id d) ''unique_room_client_msg''"
          "\<not> contains (col_dupMessage col Index_id d) ''clientMsgId''"

section \<open>The repository\<close>

definition isClientMessageDuplicate :: "writeError \<Rightarrow> bool" where
  "isClientMessageDuplicate we \<longleftrightarrow> contains (we_Message we) ''unique_room_client_msg'' \<or> contains (we_Message we) ''clientMsgId''"

definition isSequenceDuplicate :: "writeError \<Rightarrow> bool" where
  "isSequenceDuplicate we \<longleftrightarrow> contains (we_Message we) ''unique_room_sequence'' \<or> contains (we_Message we) ''sequenceNumber''"

text \<open>The loop over the write errors: \<open>None\<close> for the early return of \<^verbatim>\<open>err\<close>, else \<^verbatim>\<open>hasSequenceConflict\<close>.\<close>

fun classify_errors :: "writeError list \<Rightarrow> bool \<Rightarrow> bool option" where
  "classify_errors [] hasSequenceConflict = Some hasSequenceConflict"
| "classify_errors (we # wes) hasSequenceConflict =
    (if we_Code we \<noteq> 11000 then None
     else if isSequenceDuplicate we then classify_errors wes True
     else if isClientMessageDuplicate we then classify_errors wes hasSequenceConflict
     else None)"

definition SaveMany :: "'m collection \<Rightarrow> chat_message list \<Rightarrow> 'm \<Rightarrow> go_error option \<times> 'm" where
  "SaveMany col msgs m =
    (if msgs = [] then (None, m)
     else (case col_InsertMany col msgs m of
         (InsertOk, m') \<Rightarrow> (None, m')
       | (InsertErr err, m') \<Rightarrow> (Some err, m')
       | (BulkWrite wes, m') \<Rightarrow> (case classify_errors wes False of
             None \<Rightarrow> (Some (External ''bulk write exception''), m')
           | Some conflict \<Rightarrow> (if conflict then Some ErrSequenceConflict else None, m'))))"

text \<open>A zero \<^verbatim>\<open>joinedAt\<close> is \<open>None\<close>.\<close>

definition GetHistory ::
  "'m collection \<Rightarrow> string \<Rightarrow> int \<Rightarrow> int option \<Rightarrow> 'm \<Rightarrow> (go_error + chat_message list) \<times> 'm" where
  "GetHistory col roomID limit joinedAt m =
     col_Find col \<lparr>f_roomId = roomID, f_createdAt_gte = joinedAt, f_sequence_gt = None\<rparr> (-1) limit m"

definition repo_GetLastSequenceNumber :: "'m collection \<Rightarrow> string \<Rightarrow> 'm \<Rightarrow> (go_error + int) \<times> 'm" where
  "repo_GetLastSequenceNumber col roomID m =
    (case col_FindOne col \<lparr>f_roomId = roomID, f_createdAt_gte = None, f_sequence_gt = None\<rparr> (-1) m of
       (Inr None, m') \<Rightarrow> (Inr 0, m')
     | (Inl err, m') \<Rightarrow> (Inl err, m')
     | (Inr (Some d), m') \<Rightarrow> (Inr (cm_SequenceNumber d), m'))"

definition repo_SyncMessages ::
  "'m collection \<Rightarrow> string \<Rightarrow> int \<Rightarrow> int \<Rightarrow> int option \<Rightarrow> 'm \<Rightarrow> (go_error + chat_message list) \<times> 'm" where
  "repo_SyncMessages col roomID lastSeq limit joinedAt m =
     col_Find col \<lparr>f_roomId = roomID, f_createdAt_gte = joinedAt, f_sequence_gt = Some lastSeq\<rparr> 1 limit m"

section \<open>The service\<close>

record ChatConfig =
  cc_MaxLength :: int
  cc_HistoryDefault :: int
  cc_HistoryMax :: int
  cc_SyncDefault :: int
  cc_SyncMax :: int

record CreateMessageRequest =
  cr_RoomId :: string
  cr_SenderId :: string
  cr_Content :: string
  cr_ClientMsgId :: string
  cr_Type :: string
  cr_SequenceNumber :: int
  cr_MessageId :: string

text \<open>
  \<^verbatim>\<open>github.com/google/uuid\<close>: parsing to the canonical text, the version, and the time of a version 7
  uuid in milliseconds. The argument of the functions below is what one call sees of the
  environment: the result of \<^verbatim>\<open>uuid.NewV7()\<close> and the time.
\<close>

record uuid_api =
  u_Parse :: "string \<Rightarrow> string option"
  u_Version :: "string \<Rightarrow> int"
  u_UnixMilli :: "string \<Rightarrow> int"

definition messageFromRequest ::
  "ChatConfig \<Rightarrow> uuid_api \<Rightarrow> (go_error + string) \<Rightarrow> int \<Rightarrow> CreateMessageRequest \<Rightarrow> go_error + chat_message" where
  "messageFromRequest cfg uuid newV7 now req =
    (if cc_MaxLength cfg < int (rune_count (cr_Content req)) then
       Inl (StatusErr InvalidArgument (''content exceeds max length of '' @ format_int (cc_MaxLength cfg) @ '' characters''))
     else
      (let msgID = (if cr_MessageId req \<noteq> '''' then
             (case u_Parse uuid (cr_MessageId req) of None \<Rightarrow> Inl (ErrNew ''invalid UUID'') | Some u \<Rightarrow> Inr u)
           else newV7) in
       case msgID of
         Inl err \<Rightarrow> Inl (StatusErr Internal ''failed to handle message uuid'')
       | Inr u \<Rightarrow> Inr \<lparr>cm_ID = u, cm_RoomID = cr_RoomId req, cm_SenderID = cr_SenderId req,
           cm_Content = cr_Content req, cm_ClientMsgID = cr_ClientMsgId req, cm_Type = cr_Type req,
           cm_SequenceNumber = cr_SequenceNumber req,
           cm_CreatedAt = (if u_Version uuid u = 7 then u_UnixMilli uuid u else now)\<rparr>))"

fun messages_from_requests ::
  "ChatConfig \<Rightarrow> uuid_api \<Rightarrow> (go_error + string) list \<Rightarrow> int \<Rightarrow> CreateMessageRequest list \<Rightarrow> go_error + chat_message list" where
  "messages_from_requests cfg uuid fresh now [] = Inr []"
| "messages_from_requests cfg uuid fresh now (r # rs) =
    (if cr_RoomId r = '''' \<or> cr_SenderId r = '''' \<or> cr_Content r = '''' then
       Inl (StatusErr InvalidArgument ''room_id, sender_id, and content are required'')
     else (case messageFromRequest cfg uuid (case fresh of [] \<Rightarrow> Inl (ErrNew ''no uuid'') | f # _ \<Rightarrow> f) now r of
         Inl err \<Rightarrow> Inl err
       | Inr msg \<Rightarrow> (case messages_from_requests cfg uuid (tl fresh) now rs of
            Inl err \<Rightarrow> Inl err
          | Inr msgs \<Rightarrow> Inr (msg # msgs))))"

definition BatchCreateMessages ::
  "ChatConfig \<Rightarrow> uuid_api \<Rightarrow> 'm collection \<Rightarrow> (go_error + string) list \<Rightarrow> int \<Rightarrow> CreateMessageRequest list \<Rightarrow> 'm \<Rightarrow>
   go_error option \<times> 'm" where
  "BatchCreateMessages cfg uuid col fresh now reqs m =
    (if reqs = [] then (None, m)
     else (case messages_from_requests cfg uuid fresh now reqs of
         Inl err \<Rightarrow> (Some err, m)
       | Inr msgs \<Rightarrow> (case SaveMany col msgs m of
            (None, m') \<Rightarrow> (None, m')
          | (Some err, m') \<Rightarrow>
              if errors_is err ErrSequenceConflict then (Some (StatusErr Aborted ''sequence number conflict''), m')
              else (Some (StatusErr Internal ''failed to batch save messages''), m'))))"

definition clamp_limit :: "int \<Rightarrow> int \<Rightarrow> int \<Rightarrow> int" where
  "clamp_limit dflt mx limit = (if limit \<le> 0 then dflt else if mx < limit then mx else limit)"

definition ListMessages ::
  "ChatConfig \<Rightarrow> 'm collection \<Rightarrow> string \<Rightarrow> int \<Rightarrow> int option \<Rightarrow> 'm \<Rightarrow> (go_error + chat_message list) \<times> 'm" where
  "ListMessages cfg col roomId limit joinedAt m =
    (if roomId = '''' then (Inl (StatusErr InvalidArgument ''room_id is required''), m)
     else (case GetHistory col roomId (clamp_limit (cc_HistoryDefault cfg) (cc_HistoryMax cfg) limit) joinedAt m of
         (Inl err, m') \<Rightarrow> (Inl (StatusErr Internal ''failed to get history''), m')
       | (Inr msgs, m') \<Rightarrow> (Inr msgs, m')))"

definition chat_SyncMessages ::
  "ChatConfig \<Rightarrow> 'm collection \<Rightarrow> string \<Rightarrow> int \<Rightarrow> int \<Rightarrow> int option \<Rightarrow> 'm \<Rightarrow> (go_error + chat_message list) \<times> 'm" where
  "chat_SyncMessages cfg col roomId lastSeq limit joinedAt m =
    (if roomId = '''' then (Inl (StatusErr InvalidArgument ''room_id is required''), m)
     else (case repo_SyncMessages col roomId lastSeq (clamp_limit (cc_SyncDefault cfg) (cc_SyncMax cfg) limit) joinedAt m of
         (Inl err, m') \<Rightarrow> (Inl (StatusErr Internal ''failed to sync messages''), m')
       | (Inr msgs, m') \<Rightarrow> (Inr msgs, m')))"

definition chat_GetLastSequenceNumber :: "'m collection \<Rightarrow> string \<Rightarrow> 'm \<Rightarrow> (go_error + int) \<times> 'm" where
  "chat_GetLastSequenceNumber col roomId m =
    (if roomId = '''' then (Inl (StatusErr InvalidArgument ''room_id is required''), m)
     else (case repo_GetLastSequenceNumber col roomId m of
         (Inl err, m') \<Rightarrow> (Inl (StatusErr Internal ''failed to get last sequence number''), m')
       | (Inr seq, m') \<Rightarrow> (Inr seq, m')))"

section \<open>The adapter of the websocket service\<close>

text \<open>
  The chat service as the websocket service reaches it: the database, and for every call the
  outcome of the call, the fresh uuids and the time, drawn from the schedule of calls. A call that
  fails in the gRPC client or on the way has one of the status codes that gRPC itself generates;
  the request may or may not have been carried out.
\<close>

datatype rpc_failure =
    RpcCanceled | RpcUnknown | RpcDeadlineExceeded | RpcResourceExhausted | RpcUnimplemented | RpcInternal
  | RpcUnavailable | RpcUnauthenticated

fun rpc_status :: "rpc_failure \<Rightarrow> go_error" where
  "rpc_status RpcCanceled = StatusErr Canceled ''canceled''"
| "rpc_status RpcUnknown = StatusErr Unknown ''unknown''"
| "rpc_status RpcDeadlineExceeded = StatusErr DeadlineExceeded ''deadline exceeded''"
| "rpc_status RpcResourceExhausted = StatusErr ResourceExhausted ''resource exhausted''"
| "rpc_status RpcUnimplemented = StatusErr Unimplemented ''unimplemented''"
| "rpc_status RpcInternal = StatusErr Internal ''internal''"
| "rpc_status RpcUnavailable = StatusErr Unavailable ''unavailable''"
| "rpc_status RpcUnauthenticated = StatusErr Unauthenticated ''unauthenticated''"

datatype rpc_outcome = RpcReply | RpcNotSent rpc_failure | RpcNoReply rpc_failure

fun rpc_net :: "rpc_outcome \<Rightarrow> net" where
  "rpc_net RpcReply = Reply"
| "rpc_net (RpcNotSent f) = NoRequest (rpc_status f)"
| "rpc_net (RpcNoReply f) = NoReply (rpc_status f)"

record call_env =
  ce_rpc :: rpc_outcome
  ce_fresh :: "(go_error + string) list"
  ce_now :: int

record 'm chat_world =
  cw_db :: 'm
  cw_calls :: "nat \<Rightarrow> call_env"
  cw_next :: nat

definition to_request :: "message \<Rightarrow> CreateMessageRequest" where
  "to_request msg = \<lparr>cr_RoomId = RoomID msg, cr_SenderId = SenderID msg, cr_Content = Content msg,
     cr_ClientMsgId = ClientMsgID msg, cr_Type = MType msg, cr_SequenceNumber = SequenceNumber msg, cr_MessageId = ID msg\<rparr>"

text \<open>A remote call: the error of the service or of the network, and the next entry of the schedule.\<close>

definition rpc :: "(call_env \<Rightarrow> 'm \<Rightarrow> (go_error + 'a) \<times> 'm) \<Rightarrow> 'm chat_world \<Rightarrow> (go_error + 'a) \<times> 'm chat_world" where
  "rpc f w = (let ce = cw_calls w (cw_next w) in
     case net_call (rpc_net (ce_rpc ce)) (f ce) (cw_db w) of
       (Inl err, m) \<Rightarrow> (Inl err, w\<lparr>cw_db := m, cw_next := Suc (cw_next w)\<rparr>)
     | (Inr r, m) \<Rightarrow> (r, w\<lparr>cw_db := m, cw_next := Suc (cw_next w)\<rparr>))"

definition adapter_GetLastSequenceNumber :: "'m collection \<Rightarrow> string \<Rightarrow> 'm chat_world \<Rightarrow> (go_error + int) \<times> 'm chat_world" where
  "adapter_GetLastSequenceNumber col roomID w = rpc (\<lambda>ce. chat_GetLastSequenceNumber col roomID) w"

definition adapter_SaveMany ::
  "ChatConfig \<Rightarrow> uuid_api \<Rightarrow> 'm collection \<Rightarrow> message list \<Rightarrow> 'm chat_world \<Rightarrow> go_error option \<times> 'm chat_world" where
  "adapter_SaveMany cfg uuid col msgs w =
    (case rpc (\<lambda>ce m. case BatchCreateMessages cfg uuid col (ce_fresh ce) (ce_now ce) (map to_request msgs) m of
          (None, m') \<Rightarrow> (Inr (), m') | (Some err, m') \<Rightarrow> (Inl err, m')) w of
       (Inl err, w') \<Rightarrow> (Some err, w')
     | (Inr u, w') \<Rightarrow> (None, w'))"

definition newChatStoreAdapter :: "ChatConfig \<Rightarrow> uuid_api \<Rightarrow> 'm collection \<Rightarrow> 'm chat_world MessageStore" where
  "newChatStoreAdapter cfg uuid col =
    \<lparr>ms_GetLastSequenceNumber = adapter_GetLastSequenceNumber col, ms_SaveMany = adapter_SaveMany cfg uuid col\<rparr>"

section \<open>What the repository guarantees\<close>

text \<open>A stored document accounts for a message: the same room and the same client message id.\<close>

definition accounted :: "chat_message list \<Rightarrow> string \<Rightarrow> string \<Rightarrow> bool" where
  "accounted ds room client \<longleftrightarrow> (\<exists>d \<in> set ds. cm_RoomID d = room \<and> cm_ClientMsgID d = client)"

lemma classify_errors_success:
  "classify_errors wes c = Some False \<Longrightarrow>
   \<not> c \<and> (\<forall>we \<in> set wes. we_Code we = 11000 \<and> \<not> isSequenceDuplicate we \<and> isClientMessageDuplicate we)"
proof (induction wes arbitrary: c)
  case (Cons we wes)
  from Cons.prems have we: "we_Code we = 11000" by (simp split: if_splits)
  have "\<not> isSequenceDuplicate we"
  proof
    assume "isSequenceDuplicate we"
    with Cons.prems we have "classify_errors wes True = Some False" by simp
    from Cons.IH [OF this] show False by simp
  qed
  with Cons.prems we have "isClientMessageDuplicate we" "classify_errors wes c = Some False" by (simp_all split: if_splits)
  with Cons.IH [OF this(2)] \<open>\<not> isSequenceDuplicate we\<close> we show ?case by simp
qed simp

context mongo
begin

lemma insert_grows: "\<exists>ins. docs (snd (col_InsertMany col ds m)) = docs m @ ins"
proof -
  obtain r m' where i: "col_InsertMany col ds m = (r, m')" by fastforce
  then show ?thesis by (cases r) (use insert_ok insert_bulk insert_err in \<open>fastforce+\<close>)
qed

lemma SaveMany_grows: "\<exists>ins. docs (snd (SaveMany col msgs m)) = docs m @ ins"
  using insert_grows [of msgs m]
  by (auto simp: SaveMany_def split: prod.splits insert_result.splits option.splits)

lemma SaveMany_unique: "unique_docs (docs m) \<Longrightarrow> unique_docs (docs (snd (SaveMany col msgs m)))"
  using insert_unique [of m msgs]
  by (auto simp: SaveMany_def split: prod.splits insert_result.splits option.splits)

text \<open>A success accounts for every message of the batch.\<close>

lemma SaveMany_accounted:
  assumes run: "SaveMany col msgs m = (None, m')" and d: "d \<in> set msgs"
  shows "accounted (docs m') (cm_RoomID d) (cm_ClientMsgID d)"
proof -
  obtain r m1 where i: "col_InsertMany col msgs m = (r, m1)" by fastforce
  have ne: "msgs \<noteq> []" using d by auto
  show ?thesis
  proof (cases r)
    case InsertOk
    then have "m' = m1" using run ne i by (simp add: SaveMany_def)
    with insert_ok InsertOk i d show ?thesis by (auto simp: accounted_def)
  next
    case (InsertErr err)
    then show ?thesis using run ne i by (simp add: SaveMany_def)
  next
    case (BulkWrite wes)
    then have m': "m' = m1" and cl: "classify_errors wes False = Some False"
      using run ne i by (auto simp: SaveMany_def split: option.splits if_splits)
    from BulkWrite i insert_bulk obtain ins where ins: "docs m1 = docs m @ ins" "set ins \<subseteq> set msgs"
      and each: "\<forall>d \<in> set msgs. d \<in> set ins \<or> (\<exists>we \<in> set wes. we_Code we = 11000 \<longrightarrow>
               (\<exists>ix. \<exists>e \<in> set (docs m1). collide ix d e \<and> we_Message we = col_dupMessage col ix d))" by blast
    show ?thesis
    proof (cases "d \<in> set ins")
      case True
      then show ?thesis using ins m' by (auto simp: accounted_def)
    next
      case False
      then obtain we where we: "we \<in> set wes" and c: "we_Code we = 11000 \<longrightarrow>
          (\<exists>ix. \<exists>e \<in> set (docs m1). collide ix d e \<and> we_Message we = col_dupMessage col ix d)"
        using each d by blast
      note k = classify_errors_success [OF cl, THEN conjunct2, rule_format, OF we]
      from c k obtain ix e where e: "e \<in> set (docs m1)" "collide ix d e" "we_Message we = col_dupMessage col ix d" by blast
      have "ix = Index_client"
        using k e(3) sequence_named id_named
        by (cases ix) (auto simp: isSequenceDuplicate_def isClientMessageDuplicate_def)
      with e m' show ?thesis by (auto simp: accounted_def)
    qed
  qed
qed

lemma last_sequence_max:
  assumes "repo_GetLastSequenceNumber col room m = (Inr n, m')"
  shows "\<forall>d \<in> set (docs m). cm_RoomID d = room \<longrightarrow> cm_SequenceNumber d \<le> n"
    and "n = 0 \<or> (\<exists>d \<in> set (docs m). cm_RoomID d = room \<and> cm_SequenceNumber d = n)" and "docs m' = docs m"
proof -
  let ?f = "\<lparr>f_roomId = room, f_createdAt_gte = None, f_sequence_gt = None\<rparr>"
  have mt: "matches ?f = (\<lambda>d. cm_RoomID d = room)" by (auto simp: matches_def)
  obtain r m1 where f: "col_FindOne col ?f (-1) m = (r, m1)" by fastforce
  then show "docs m' = docs m"
    using assms findOne_state [of ?f "-1" m] by (auto simp: repo_GetLastSequenceNumber_def split: sum.splits option.splits)
  from assms f obtain o1 where o1: "r = Inr o1" "n = (case o1 of None \<Rightarrow> 0 | Some d \<Rightarrow> cm_SequenceNumber d)"
    by (auto simp: repo_GetLastSequenceNumber_def split: sum.splits option.splits)
  with findOne_ok f have q: "o1 = (case query ?f (-1) (docs m) of [] \<Rightarrow> None | d # _ \<Rightarrow> Some d)" by blast
  have set: "set (query ?f (-1) (docs m)) = {d \<in> set (docs m). cm_RoomID d = room}" by (simp add: query_def mt)
  have srt: "sorted (map (\<lambda>d. -1 * cm_SequenceNumber d) (query ?f (-1) (docs m)))" by (simp add: query_def sorted_sort_key)
  show "\<forall>d \<in> set (docs m). cm_RoomID d = room \<longrightarrow> cm_SequenceNumber d \<le> n"
  proof (cases "query ?f (-1) (docs m)")
    case Nil
    then show ?thesis using set by auto
  next
    case (Cons d ds)
    then have "n = cm_SequenceNumber d" "\<forall>e \<in> set (query ?f (-1) (docs m)). cm_SequenceNumber e \<le> cm_SequenceNumber d"
      using o1 q srt by auto
    then show ?thesis using set by auto
  qed
  show "n = 0 \<or> (\<exists>d \<in> set (docs m). cm_RoomID d = room \<and> cm_SequenceNumber d = n)"
    using o1 q set by (cases "query ?f (-1) (docs m)") auto
qed

end

section \<open>An in-memory collection\<close>

text \<open>
  A collection as the list of its documents, which reports the first violated index in the order
  in which the indexes exist. The text of a duplicate key error follows the server's format.
\<close>

definition quoted :: "string \<Rightarrow> string" where "quoted s = CHR 0x22 # s @ [CHR 0x22]"

fun mem_dupMessage :: "uindex \<Rightarrow> chat_message \<Rightarrow> string" where
  "mem_dupMessage Index_id d =
     ''E11000 duplicate key error collection: chat_service.messages index: _id_ dup key: { _id }''"
| "mem_dupMessage Index_client d =
     ''E11000 duplicate key error collection: chat_service.messages index: unique_room_client_msg dup key: { roomId: '' @
     quoted (cm_RoomID d) @ '', clientMsgId: '' @ quoted (cm_ClientMsgID d) @ '' }''"
| "mem_dupMessage Index_sequence d =
     ''E11000 duplicate key error collection: chat_service.messages index: unique_room_sequence dup key: { roomId: '' @
     quoted (cm_RoomID d) @ '', sequenceNumber: '' @ format_int (cm_SequenceNumber d) @ '' }''"

definition violated :: "chat_message \<Rightarrow> chat_message list \<Rightarrow> uindex option" where
  "violated d ds = List.find (\<lambda>ix. list_ex (collide ix d) ds) [Index_id, Index_client, Index_sequence]"

fun mem_insert :: "chat_message list \<Rightarrow> chat_message list \<Rightarrow> writeError list \<times> chat_message list" where
  "mem_insert [] ds = ([], ds)"
| "mem_insert (d # new) ds = (case violated d ds of
     None \<Rightarrow> mem_insert new (ds @ [d])
   | Some ix \<Rightarrow> (case mem_insert new ds of (wes, ds') \<Rightarrow>
        (\<lparr>we_Code = 11000, we_Message = mem_dupMessage ix d\<rparr> # wes, ds')))"

definition mem_col :: "chat_message list collection" where
  "mem_col = \<lparr>
     col_InsertMany = (\<lambda>new ds. case mem_insert new ds of (wes, ds') \<Rightarrow>
        (if wes = [] then InsertOk else BulkWrite wes, ds')),
     col_Find = (\<lambda>f dir limit ds. (Inr (take (nat limit) (query f dir ds)), ds)),
     col_FindOne = (\<lambda>f dir ds. (Inr (case query f dir ds of [] \<Rightarrow> None | d # _ \<Rightarrow> Some d), ds)),
     col_dupMessage = mem_dupMessage\<rparr>"

lemma violated_None: "violated d ds = None \<longleftrightarrow> (\<forall>ix. \<forall>e \<in> set ds. \<not> collide ix d e)"
proof -
  have "(\<forall>ix. P ix) \<longleftrightarrow> P Index_id \<and> P Index_client \<and> P Index_sequence" for P by (metis uindex.exhaust)
  then show ?thesis by (simp add: violated_def list_ex_iff del: collide.simps)
qed

lemma violated_Some: "violated d ds = Some ix \<Longrightarrow> \<exists>e \<in> set ds. collide ix d e"
  by (simp add: violated_def list_ex_iff del: collide.simps split: if_splits)

lemma mem_insert_all:
  assumes "mem_insert new ds = (wes, ds')"
  shows "\<exists>ins. ds' = ds @ ins \<and> set ins \<subseteq> set new \<and> (wes = [] \<longrightarrow> ins = new) \<and>
    (\<forall>d \<in> set new. d \<in> set ins \<or> (\<exists>we \<in> set wes. \<exists>ix. \<exists>e \<in> set ds'. collide ix d e \<and> we_Message we = mem_dupMessage ix d))"
  using assms
proof (induction new arbitrary: ds wes ds')
  case (Cons d new)
  show ?case
  proof (cases "violated d ds")
    case None
    with Cons.prems have "mem_insert new (ds @ [d]) = (wes, ds')" by simp
    from Cons.IH [OF this] obtain ins where "ds' = ds @ d # ins" "set ins \<subseteq> set new" "wes = [] \<longrightarrow> ins = new"
      "\<forall>x \<in> set new. x \<in> set ins \<or> (\<exists>we \<in> set wes. \<exists>ix. \<exists>e \<in> set ds'. collide ix x e \<and> we_Message we = mem_dupMessage ix x)"
      by auto
    then show ?thesis by (intro exI [of _ "d # ins"]) auto
  next
    case (Some ix)
    obtain w1 where r: "mem_insert new ds = (w1, ds')" "wes = \<lparr>we_Code = 11000, we_Message = mem_dupMessage ix d\<rparr> # w1"
      using Cons.prems Some by (auto split: prod.splits)
    from Cons.IH [OF r(1)] obtain ins where i: "ds' = ds @ ins" "set ins \<subseteq> set new"
      "\<forall>x \<in> set new. x \<in> set ins \<or> (\<exists>we \<in> set w1. \<exists>ix. \<exists>e \<in> set ds'. collide ix x e \<and> we_Message we = mem_dupMessage ix x)"
      by auto
    obtain e where "e \<in> set ds'" "collide ix d e" using violated_Some [OF Some] i(1) by auto
    then have "\<exists>we \<in> set wes. \<exists>ix. \<exists>e \<in> set ds'. collide ix d e \<and> we_Message we = mem_dupMessage ix d"
      using r(2) by auto
    with i r(2) show ?thesis by (intro exI [of _ ins]) auto
  qed
qed simp

lemma collide_sym: "collide ix d e = collide ix e d"
  by (cases ix) auto

lemma unique_docs_snoc:
  "unique_docs (ds @ [d]) \<longleftrightarrow> unique_docs ds \<and> (\<forall>ix. \<forall>e \<in> set ds. \<not> collide ix d e)"
proof
  assume u: "unique_docs (ds @ [d])"
  have "unique_docs ds" unfolding unique_docs_def
  proof (intro allI impI)
    fix i j ix assume "i < length ds" "j < length ds" "i \<noteq> j"
    then show "\<not> collide ix (ds ! i) (ds ! j)"
      using u [unfolded unique_docs_def, rule_format, of i j ix] by (simp add: nth_append)
  qed
  moreover have "\<not> collide ix d (ds ! i)" if "i < length ds" for ix i
    using u [unfolded unique_docs_def, rule_format, of "length ds" i ix] that by (simp add: nth_append)
  ultimately show "unique_docs ds \<and> (\<forall>ix. \<forall>e \<in> set ds. \<not> collide ix d e)" by (auto simp: in_set_conv_nth)
next
  assume u: "unique_docs ds \<and> (\<forall>ix. \<forall>e \<in> set ds. \<not> collide ix d e)"
  show "unique_docs (ds @ [d])" unfolding unique_docs_def
  proof (intro allI impI)
    fix i j ix assume ij: "i < length (ds @ [d])" "j < length (ds @ [d])" "i \<noteq> j"
    then consider "i < length ds" "j < length ds" | "i < length ds" "j = length ds" | "i = length ds" "j < length ds"
      by fastforce
    then show "\<not> collide ix ((ds @ [d]) ! i) ((ds @ [d]) ! j)"
    proof cases
      case 1
      then show ?thesis using u ij(3) unfolding unique_docs_def by (simp add: nth_append)
    next
      case 2
      then have "ds ! i \<in> set ds" by simp
      with u have "\<not> collide ix (ds ! i) d" using collide_sym by metis
      with 2 show ?thesis by (simp add: nth_append)
    next
      case 3
      then have "ds ! j \<in> set ds" by simp
      with u have "\<not> collide ix d (ds ! j)" by blast
      with 3 show ?thesis by (simp add: nth_append)
    qed
  qed
qed

lemma mem_insert_unique: "unique_docs ds \<Longrightarrow> unique_docs (snd (mem_insert new ds))"
proof (induction new arbitrary: ds)
  case (Cons d new)
  show ?case
  proof (cases "violated d ds")
    case None
    then have "unique_docs (ds @ [d])" using Cons.prems by (simp add: unique_docs_snoc violated_None)
    with None Cons.IH show ?thesis by simp
  next
    case (Some ix)
    with Cons show ?thesis by (simp add: case_prod_unfold)
  qed
qed simp

lemma contains_client: "contains (mem_dupMessage Index_client d) ''unique_room_client_msg''"
  using contains_append [of "''E11000 duplicate key error collection: chat_service.messages index: ''"
      "''unique_room_client_msg''" "'' dup key: { roomId: '' @ quoted (cm_RoomID d) @ '', clientMsgId: '' @
       quoted (cm_ClientMsgID d) @ '' }''"] by simp

lemma contains_sequence: "contains (mem_dupMessage Index_sequence d) ''unique_room_sequence''"
  using contains_append [of "''E11000 duplicate key error collection: chat_service.messages index: ''"
      "''unique_room_sequence''" "'' dup key: { roomId: '' @ quoted (cm_RoomID d) @ '', sequenceNumber: '' @
       format_int (cm_SequenceNumber d) @ '' }''"] by simp

interpretation mem_mongo: mongo mem_col "\<lambda>ds. ds"
proof
  fix ds m m' wes
  { assume "col_InsertMany mem_col ds m = (InsertOk, m')"
    then show "m' = m @ ds"
      using mem_insert_all [of ds m "[]" m'] by (auto simp: mem_col_def split: prod.splits if_splits) }
  { assume "col_InsertMany mem_col ds m = (BulkWrite wes, m')"
    then show "\<exists>ins. m' = m @ ins \<and> set ins \<subseteq> set ds \<and>
            (\<forall>d \<in> set ds. d \<in> set ins \<or> (\<exists>we \<in> set wes. we_Code we = 11000 \<longrightarrow>
               (\<exists>ix. \<exists>e \<in> set m'. collide ix d e \<and> we_Message we = col_dupMessage mem_col ix d)))"
      using mem_insert_all [of ds m wes m'] unfolding mem_col_def by (simp split: prod.splits if_splits) metis }
qed (auto simp: mem_col_def mem_insert_unique contains_client contains_sequence case_prod_unfold split: if_splits)

section \<open>The adapter is a message store\<close>

lemma messages_from_requests_ok:
  "messages_from_requests cfg uuid fresh now rs = Inr ms \<Longrightarrow> r \<in> set rs \<Longrightarrow>
   \<exists>d \<in> set ms. cm_RoomID d = cr_RoomId r \<and> cm_ClientMsgID d = cr_ClientMsgId r \<and> cm_SequenceNumber d = cr_SequenceNumber r \<and>
     cm_Content d = cr_Content r \<and> cm_SenderID d = cr_SenderId r"
proof (induction rs arbitrary: fresh ms)
  case (Cons x rs)
  from Cons.prems(1) obtain fr d ms' where x: "messageFromRequest cfg uuid fr now x = Inr d"
      "messages_from_requests cfg uuid (tl fresh) now rs = Inr ms'" "ms = d # ms'"
    by (auto split: if_splits sum.splits)
  have "cm_RoomID d = cr_RoomId x" "cm_ClientMsgID d = cr_ClientMsgId x" "cm_SequenceNumber d = cr_SequenceNumber x"
    "cm_Content d = cr_Content x" "cm_SenderID d = cr_SenderId x"
    using x(1) by (auto simp: messageFromRequest_def Let_def split: if_splits sum.splits)
  with Cons x show ?case by auto
qed simp

lemma rpc_state:
  "rpc f w = (r, w') \<Longrightarrow> cw_db w' = cw_db w \<or> cw_db w' = snd (f (cw_calls w (cw_next w)) (cw_db w))"
  using net_call_state [of "rpc_net (ce_rpc (cw_calls w (cw_next w)))" "f (cw_calls w (cw_next w))" "cw_db w"]
  by (auto simp: rpc_def Let_def split: prod.splits sum.splits)

lemma rpc_ok:
  "rpc f w = (Inr a, w') \<Longrightarrow> f (cw_calls w (cw_next w)) (cw_db w) = (Inr a, cw_db w')"
  by (cases "ce_rpc (cw_calls w (cw_next w))") (auto simp: rpc_def Let_def prod_eq_iff split: prod.splits sum.splits)

context mongo
begin

lemma BatchCreateMessages_accounted:
  assumes "BatchCreateMessages cfg uuid col fresh now reqs m = (None, m')" "r \<in> set reqs"
  shows "accounted (docs m') (cr_RoomId r) (cr_ClientMsgId r)"
proof -
  from assms obtain ms where ms: "messages_from_requests cfg uuid fresh now reqs = Inr ms" "SaveMany col ms m = (None, m')"
    by (auto simp: BatchCreateMessages_def split: if_splits sum.splits option.splits prod.splits)
  from messages_from_requests_ok [OF ms(1) assms(2)] SaveMany_accounted [OF ms(2)] show ?thesis by fastforce
qed

lemma BatchCreateMessages_grows: "\<exists>ins. docs (snd (BatchCreateMessages cfg uuid col fresh now reqs m)) = docs m @ ins"
proof (cases "messages_from_requests cfg uuid fresh now reqs")
  case (Inr ms)
  obtain r m1 where "SaveMany col ms m = (r, m1)" by fastforce
  with SaveMany_grows [of ms m] Inr show ?thesis by (auto simp: BatchCreateMessages_def split: option.splits)
qed (simp add: BatchCreateMessages_def)

lemma accounted_grows: "accounted ds room client \<Longrightarrow> accounted (ds @ ins) room client"
  by (auto simp: accounted_def)

lemma adapter_save:
  assumes "adapter_SaveMany cfg uuid col msgs w = (r, w')"
  shows "\<exists>ins. docs (cw_db w') = docs (cw_db w) @ ins"
    and "r = None \<Longrightarrow> m \<in> set msgs \<Longrightarrow> accounted (docs (cw_db w')) (RoomID m) (ClientMsgID m)"
proof -
  let ?f = "\<lambda>ce m. case BatchCreateMessages cfg uuid col (ce_fresh ce) (ce_now ce) (map to_request msgs) m of
          (None, m') \<Rightarrow> (Inr (), m') | (Some err, m') \<Rightarrow> (Inl err, m')"
  obtain a where rp: "rpc ?f w = (a, w')" and r: "r = (case a of Inl err \<Rightarrow> Some err | Inr u \<Rightarrow> None)"
    using assms by (auto simp: adapter_SaveMany_def split: prod.splits sum.splits)
  have snd_f: "snd (?f ce x) = snd (BatchCreateMessages cfg uuid col (ce_fresh ce) (ce_now ce) (map to_request msgs) x)" for ce x
    by (auto split: prod.splits option.splits)
  show "\<exists>ins. docs (cw_db w') = docs (cw_db w) @ ins"
    using rpc_state [OF rp] unfolding snd_f using BatchCreateMessages_grows by fastforce
  assume n: "r = None" and m: "m \<in> set msgs"
  with r obtain u where "a = Inr u" by (auto split: sum.splits)
  with rp have "rpc ?f w = (Inr u, w')" by simp
  from rpc_ok [OF this] have "?f (cw_calls w (cw_next w)) (cw_db w) = (Inr u, cw_db w')" .
  then have "BatchCreateMessages cfg uuid col (ce_fresh (cw_calls w (cw_next w))) (ce_now (cw_calls w (cw_next w)))
      (map to_request msgs) (cw_db w) = (None, cw_db w')"
    by (auto split: prod.splits option.splits)
  from BatchCreateMessages_accounted [OF this, of "to_request m"] m
  show "accounted (docs (cw_db w')) (RoomID m) (ClientMsgID m)" by (simp add: to_request_def)
qed

end

lemma messages_from_requests_err:
  "messages_from_requests cfg uuid fresh now rs = Inl err \<Longrightarrow> status_code err \<in> {InvalidArgument, Internal}"
  by (induction rs arbitrary: fresh)
    (auto simp: messageFromRequest_def Let_def split: if_splits sum.splits option.splits)

lemma BatchCreateMessages_err:
  "BatchCreateMessages cfg uuid col fresh now reqs m = (Some err, m') \<Longrightarrow> status_code err \<in> {InvalidArgument, Internal, Aborted}"
  using messages_from_requests_err
  by (fastforce simp: BatchCreateMessages_def split: if_splits sum.splits option.splits prod.splits)

lemma rpc_status_code: "status_code (rpc_status f) \<noteq> AlreadyExists"
  by (cases f) simp_all

text \<open>The errors of the adapter are statuses of the service or of the gRPC client, never \<^verbatim>\<open>AlreadyExists\<close>.\<close>

lemma adapter_err:
  assumes "adapter_SaveMany cfg uuid col msgs w = (Some err, w')"
  shows "status_code err \<noteq> AlreadyExists"
proof -
  let ?ce = "cw_calls w (cw_next w)"
  let ?b = "BatchCreateMessages cfg uuid col (ce_fresh ?ce) (ce_now ?ce) (map to_request msgs) (cw_db w)"
  consider f where "err = rpc_status f" | m where "?b = (Some err, m)"
    using assms by (cases "ce_rpc ?ce") (auto simp: adapter_SaveMany_def rpc_def Let_def split: prod.splits sum.splits option.splits)
  then show ?thesis
    by cases (use rpc_status_code BatchCreateMessages_err in \<open>force+\<close>)
qed

definition chat_stored :: "('m \<Rightarrow> chat_message list) \<Rightarrow> 'm chat_world \<Rightarrow> message \<Rightarrow> bool" where
  "chat_stored docs w m = accounted (docs (cw_db w)) (RoomID m) (ClientMsgID m)"

lemma adapter_message_store:
  assumes "mongo col docs"
  shows "message_store (newChatStoreAdapter cfg uuid col) (chat_stored docs)"
proof
  fix msgs w w' m err
  show "ms_SaveMany (newChatStoreAdapter cfg uuid col) msgs w = (None, w') \<Longrightarrow> m \<in> set msgs \<Longrightarrow> chat_stored docs w' m"
    using mongo.adapter_save(2) [OF assms] by (simp add: newChatStoreAdapter_def chat_stored_def)
  show "ms_SaveMany (newChatStoreAdapter cfg uuid col) msgs w = (Some err, w') \<Longrightarrow> status_code err = AlreadyExists \<Longrightarrow>
      m \<in> set msgs \<Longrightarrow> chat_stored docs w' m"
    using adapter_err by (simp add: newChatStoreAdapter_def) blast
  show "chat_stored docs w m \<Longrightarrow> chat_stored docs (snd (ms_SaveMany (newChatStoreAdapter cfg uuid col) msgs w)) m"
    using mongo.adapter_save(1) [OF assms surjective_pairing, of cfg uuid msgs w] mongo.accounted_grows [OF assms]
    by (auto simp: newChatStoreAdapter_def chat_stored_def)
qed

interpretation mem_chat: message_store "newChatStoreAdapter cfg uuid mem_col" "chat_stored (\<lambda>ds. ds)" for cfg uuid
  by (rule adapter_message_store [OF mem_mongo.mongo_axioms])

section \<open>Reading messages back\<close>

lemma clamp_limit_pos: "0 < dflt \<Longrightarrow> 0 < mx \<Longrightarrow> 0 < clamp_limit dflt mx limit"
  by (simp add: clamp_limit_def)

definition room_docs :: "string \<Rightarrow> chat_message list \<Rightarrow> chat_message set" where
  "room_docs room ds = {d \<in> set ds. cm_RoomID d = room}"

lemma unique_room_sequence:
  "unique_docs ds \<Longrightarrow> d \<in> set ds \<Longrightarrow> e \<in> set ds \<Longrightarrow> cm_RoomID d = cm_RoomID e \<Longrightarrow>
   cm_SequenceNumber d = cm_SequenceNumber e \<Longrightarrow> d = e"
proof -
  assume u: "unique_docs ds" and de: "d \<in> set ds" "e \<in> set ds" "cm_RoomID d = cm_RoomID e" "cm_SequenceNumber d = cm_SequenceNumber e"
  then obtain i j where ij: "i < length ds" "j < length ds" "d = ds ! i" "e = ds ! j" by (metis in_set_conv_nth)
  have "collide Index_sequence (ds ! i) (ds ! j)" using de ij by simp
  with u ij show "d = e" unfolding unique_docs_def by (cases "i = j") blast+
qed

lemma take_sort_least:
  fixes f :: "'a \<Rightarrow> int"
  assumes "x \<in> set (take n (sort_key f xs))" "y \<in> set xs" "f y < f x"
  shows "y \<in> set (take n (sort_key f xs))"
proof -
  let ?s = "sort_key f xs"
  obtain i where i: "i < n" "i < length ?s" "?s ! i = x"
    using assms(1) by (auto simp: in_set_conv_nth)
  obtain j where j: "j < length ?s" "?s ! j = y" using assms(2) by (metis in_set_conv_nth set_sort)
  have "j < i"
  proof (rule ccontr)
    assume "\<not> j < i"
    with j(1) have "f (?s ! i) \<le> f (?s ! j)" using sorted_nth_mono [OF sorted_sort_key [of f xs], of i j] i(2) by simp
    with i(3) j(2) assms(3) show False by simp
  qed
  with i j show ?thesis by (auto simp: in_set_conv_nth intro!: exI [of _ j])
qed

text \<open>C35: Synchronising after a gap skips nothing: for a room and the last number a client has seen, the
  page that \<^verbatim>\<open>SyncMessages\<close> returns is in ascending order, holds only later messages of that room, at
  most the limit, and every stored message of the room (visible to the member) with a number
  between the last one seen and the last one returned; a page that is not full holds all of them.\<close>

theorem sync_skips_nothing:
  assumes M: "mongo col docs" and cfg: "0 < cc_SyncDefault cfg" "0 < cc_SyncMax cfg"
    and run: "chat_SyncMessages cfg col room lastSeq limit joinedAt m = (Inr page, m')"
  defines "n \<equiv> clamp_limit (cc_SyncDefault cfg) (cc_SyncMax cfg) limit"
  shows "sorted (map cm_SequenceNumber page) \<and> int (length page) \<le> n \<and>
    (\<forall>d \<in> set page. d \<in> room_docs room (docs m) \<and> lastSeq < cm_SequenceNumber d) \<and>
    (\<forall>e \<in> room_docs room (docs m). lastSeq < cm_SequenceNumber e \<longrightarrow>
       (case joinedAt of None \<Rightarrow> True | Some t \<Rightarrow> t \<le> cm_CreatedAt e) \<longrightarrow>
       ((\<exists>d \<in> set page. cm_SequenceNumber e < cm_SequenceNumber d) \<or> int (length page) < n) \<longrightarrow> e \<in> set page)"
proof -
  let ?f = "\<lparr>f_roomId = room, f_createdAt_gte = joinedAt, f_sequence_gt = Some lastSeq\<rparr>"
  let ?q = "query ?f 1 (docs m)"
  have n: "0 < n" unfolding n_def by (rule clamp_limit_pos [OF cfg])
  from run obtain m1 where "col_Find col ?f 1 n m = (Inr page, m1)"
    by (auto simp: chat_SyncMessages_def repo_SyncMessages_def n_def split: if_splits prod.splits sum.splits)
  then have page: "page = take (nat n) ?q" using mongo.find_ok [OF M n] by blast
  have set_q: "set ?q = {d \<in> set (docs m). matches ?f d}" by (simp add: query_def)
  have "sorted (map cm_SequenceNumber ?q)" using sorted_sort_key [of "\<lambda>d. 1 * cm_SequenceNumber d"] by (simp add: query_def)
  then have "sorted (map cm_SequenceNumber page)" unfolding page take_map [symmetric] by (rule sorted_wrt_take)
  moreover have "\<forall>d \<in> set page. d \<in> room_docs room (docs m) \<and> lastSeq < cm_SequenceNumber d"
    using set_take_subset [of "nat n" ?q] set_q by (auto simp: page room_docs_def matches_def)
  moreover have "e \<in> set page" if "e \<in> room_docs room (docs m)" "lastSeq < cm_SequenceNumber e"
    "case joinedAt of None \<Rightarrow> True | Some t \<Rightarrow> t \<le> cm_CreatedAt e"
    "(\<exists>d \<in> set page. cm_SequenceNumber e < cm_SequenceNumber d) \<or> int (length page) < n" for e
  proof -
    have e: "e \<in> set ?q" using that set_q by (auto simp: room_docs_def matches_def)
    from that(4) show ?thesis
    proof
      assume "\<exists>d \<in> set page. cm_SequenceNumber e < cm_SequenceNumber d"
      then show ?thesis
        using take_sort_least [of _ "nat n" "\<lambda>d. 1 * cm_SequenceNumber d" "filter (matches ?f) (docs m)" e] e
        unfolding page query_def by auto
    next
      assume "int (length page) < n"
      then have "page = ?q" unfolding page by auto
      with e show ?thesis by simp
    qed
  qed
  ultimately show ?thesis using n by (auto simp: page)
qed

definition ex_doc :: "int \<Rightarrow> chat_message" where
  "ex_doc n = \<lparr>cm_ID = format_int n, cm_RoomID = ''r1'', cm_SenderID = ''u1'', cm_Content = ''hi'', cm_ClientMsgID = format_int n,
     cm_Type = ''chat'', cm_SequenceNumber = n, cm_CreatedAt = n\<rparr>"

definition ex_chat :: ChatConfig where
  "ex_chat = \<lparr>cc_MaxLength = 100, cc_HistoryDefault = 2, cc_HistoryMax = 3, cc_SyncDefault = 2, cc_SyncMax = 3\<rparr>"

theorem sync_skips_nothing_witness:
  "\<exists>page. chat_SyncMessages ex_chat mem_col ''r1'' 1 2 None [ex_doc 4, ex_doc 2, ex_doc 3, ex_doc 1] =
      (Inr page, [ex_doc 4, ex_doc 2, ex_doc 3, ex_doc 1]) \<and> ex_doc 2 \<in> set page \<and> ex_doc 3 \<in> set page"
proof -
  let ?ds = "[ex_doc 4, ex_doc 2, ex_doc 3, ex_doc 1]"
  have run: "chat_SyncMessages ex_chat mem_col ''r1'' 1 2 None ?ds = (Inr [ex_doc 2, ex_doc 3], ?ds)"
    by (simp add: chat_SyncMessages_def repo_SyncMessages_def mem_col_def query_def matches_def clamp_limit_def ex_chat_def
        ex_doc_def sort_key_def numeral_2_eq_2)
  from sync_skips_nothing [OF mem_mongo.mongo_axioms _ _ run] run show ?thesis by (auto simp: ex_chat_def)
qed

text \<open>History is the newest page: \<^verbatim>\<open>ListMessages\<close> returns at most the limit messages of the room
  that the member may see, newest first, and no visible message of the room that is left out is
  newer than one that is returned.\<close>

theorem history_newest_first:
  assumes M: "mongo col docs" and cfg: "0 < cc_HistoryDefault cfg" "0 < cc_HistoryMax cfg"
    and run: "ListMessages cfg col room limit joinedAt m = (Inr page, m')"
  shows "int (length page) \<le> max (cc_HistoryDefault cfg) (cc_HistoryMax cfg) \<and>
    sorted (map (\<lambda>d. - cm_SequenceNumber d) page) \<and>
    (\<forall>d \<in> set page. d \<in> room_docs room (docs m) \<and> (case joinedAt of None \<Rightarrow> True | Some t \<Rightarrow> t \<le> cm_CreatedAt d)) \<and>
    (\<forall>e \<in> room_docs room (docs m). (case joinedAt of None \<Rightarrow> True | Some t \<Rightarrow> t \<le> cm_CreatedAt e) \<longrightarrow> e \<notin> set page \<longrightarrow>
       (\<forall>d \<in> set page. cm_SequenceNumber e \<le> cm_SequenceNumber d))"
proof -
  let ?f = "\<lparr>f_roomId = room, f_createdAt_gte = joinedAt, f_sequence_gt = None\<rparr>"
  let ?q = "query ?f (-1) (docs m)" and ?n = "clamp_limit (cc_HistoryDefault cfg) (cc_HistoryMax cfg) limit"
  have n: "0 < ?n" by (rule clamp_limit_pos [OF cfg])
  from run obtain m1 where "col_Find col ?f (-1) ?n m = (Inr page, m1)"
    by (auto simp: ListMessages_def GetHistory_def split: if_splits prod.splits sum.splits)
  then have page: "page = take (nat ?n) ?q" using mongo.find_ok [OF M n] by blast
  have set_q: "set ?q = {d \<in> set (docs m). matches ?f d}" by (simp add: query_def)
  have "sorted (map (\<lambda>d. - cm_SequenceNumber d) ?q)"
    using sorted_sort_key [of "\<lambda>d. - cm_SequenceNumber d"] by (simp add: query_def)
  then have "sorted (map (\<lambda>d. - cm_SequenceNumber d) page)" unfolding page take_map [symmetric] by (rule sorted_wrt_take)
  moreover have "\<forall>d \<in> set page. d \<in> room_docs room (docs m) \<and> (case joinedAt of None \<Rightarrow> True | Some t \<Rightarrow> t \<le> cm_CreatedAt d)"
    using set_take_subset [of "nat ?n" ?q] set_q by (auto simp: page room_docs_def matches_def)
  moreover have "cm_SequenceNumber e \<le> cm_SequenceNumber d"
    if "e \<in> room_docs room (docs m)" "case joinedAt of None \<Rightarrow> True | Some t \<Rightarrow> t \<le> cm_CreatedAt e" "e \<notin> set page" "d \<in> set page" for d e
  proof (rule ccontr)
    assume "\<not> cm_SequenceNumber e \<le> cm_SequenceNumber d"
    moreover have "e \<in> set (filter (matches ?f) (docs m))" using that by (auto simp: room_docs_def matches_def)
    ultimately have "e \<in> set page"
      using take_sort_least [of d "nat ?n" "\<lambda>d. -1 * cm_SequenceNumber d" "filter (matches ?f) (docs m)" e] that(4)
      unfolding page query_def by simp
    with that(3) show False by simp
  qed
  moreover have "int (length page) \<le> max (cc_HistoryDefault cfg) (cc_HistoryMax cfg)"
    using n by (auto simp: page clamp_limit_def)
  ultimately show ?thesis by blast
qed

theorem history_newest_first_witness:
  "\<exists>page. ListMessages ex_chat mem_col ''r1'' 0 None [ex_doc 2, ex_doc 3, ex_doc 1] = (Inr page, [ex_doc 2, ex_doc 3, ex_doc 1]) \<and>
     length page = 2 \<and> cm_SequenceNumber (ex_doc 1) \<le> cm_SequenceNumber (hd page)"
proof -
  let ?ds = "[ex_doc 2, ex_doc 3, ex_doc 1]"
  have run: "ListMessages ex_chat mem_col ''r1'' 0 None ?ds = (Inr [ex_doc 3, ex_doc 2], ?ds)"
    by (simp add: ListMessages_def GetHistory_def mem_col_def query_def matches_def clamp_limit_def ex_chat_def
        ex_doc_def sort_key_def numeral_2_eq_2)
  have "ex_doc 1 \<in> room_docs ''r1'' ?ds" "ex_doc 1 \<noteq> ex_doc 3" "ex_doc 1 \<noteq> ex_doc 2" "cm_SequenceNumber (ex_doc 1) = 1"
    by (auto simp: room_docs_def ex_doc_def)
  with history_newest_first [OF mem_mongo.mongo_axioms _ _ run] run show ?thesis by (auto simp: ex_chat_def)
qed

text \<open>The last number of a room is the highest stored one: when \<^verbatim>\<open>GetLastSequenceNumber\<close> succeeds,
  no stored message of the room has a higher number, and the result is the number of a stored
  message of the room, or 0.\<close>

theorem last_sequence_is_max:
  assumes "mongo col docs" "chat_GetLastSequenceNumber col room m = (Inr n, m')"
  shows "(\<forall>d \<in> room_docs room (docs m). cm_SequenceNumber d \<le> n) \<and>
    (n = 0 \<or> (\<exists>d \<in> room_docs room (docs m). cm_SequenceNumber d = n))"
proof -
  from assms(2) have "repo_GetLastSequenceNumber col room m = (Inr n, m')"
    by (auto simp: chat_GetLastSequenceNumber_def split: if_splits prod.splits sum.splits)
  from mongo.last_sequence_max(1,2) [OF assms(1) this] show ?thesis by (auto simp: room_docs_def)
qed

theorem last_sequence_is_max_witness:
  "chat_GetLastSequenceNumber mem_col ''r1'' [ex_doc 2, ex_doc 3] = (Inr 3, [ex_doc 2, ex_doc 3]) \<and>
   cm_SequenceNumber (ex_doc 2) \<le> 3"
proof -
  have run: "chat_GetLastSequenceNumber mem_col ''r1'' [ex_doc 2, ex_doc 3] = (Inr 3, [ex_doc 2, ex_doc 3])"
    by (simp add: chat_GetLastSequenceNumber_def repo_GetLastSequenceNumber_def mem_col_def query_def matches_def
        ex_doc_def sort_key_def)
  have "ex_doc 2 \<in> room_docs ''r1'' [ex_doc 2, ex_doc 3]" by (simp add: room_docs_def ex_doc_def)
  with last_sequence_is_max [OF mem_mongo.mongo_axioms run] run show ?thesis by blast
qed

section \<open>Saving\<close>

text \<open>C34: A successful save accounts for every message: when the adapter of the websocket service
  reports that a batch was saved, the collection has, for each message of the batch, a document
  of the same room with the same client message id, whatever duplicates the batch contained; and
  nothing that was stored before is lost, whatever the outcome.\<close>

theorem save_accounts_for_batch:
  assumes "mongo col docs" "adapter_SaveMany cfg uuid col msgs w = (r, w')"
  shows "set (docs (cw_db w)) \<subseteq> set (docs (cw_db w')) \<and>
    (r = None \<longrightarrow> (\<forall>m \<in> set msgs. accounted (docs (cw_db w')) (RoomID m) (ClientMsgID m)))"
  using mongo.adapter_save [OF assms] by auto

definition ex_uuid :: uuid_api where
  "ex_uuid = \<lparr>u_Parse = Some, u_Version = (\<lambda>u. 7), u_UnixMilli = (\<lambda>u. 0)\<rparr>"

definition ex_world :: "chat_message list \<Rightarrow> chat_message list chat_world" where
  "ex_world ds = \<lparr>cw_db = ds, cw_calls = (\<lambda>k. \<lparr>ce_rpc = RpcReply, ce_fresh = [], ce_now = 0\<rparr>), cw_next = 0\<rparr>"

theorem save_accounts_for_batch_witness:
  "let m = (ex_msg ''c1'')\<lparr>ID := ''m1'', SequenceNumber := 1\<rparr>; r = adapter_SaveMany ex_chat ex_uuid mem_col [m] (ex_world [])
   in fst r = None \<and> accounted (cw_db (snd r)) ''r1'' ''c1''"
proof -
  let ?m = "(ex_msg ''c1'')\<lparr>ID := ''m1'', SequenceNumber := 1\<rparr>"
  let ?r = "adapter_SaveMany ex_chat ex_uuid mem_col [?m] (ex_world [])"
  have "rune_count ''hi'' = 2" by (simp add: rune_count_def runes_def byte_def runes_of_ascii)
  then have "fst ?r = None"
    by (simp add: adapter_SaveMany_def rpc_def ex_world_def BatchCreateMessages_def to_request_def messageFromRequest_def
        ex_msg_def ex_chat_def ex_uuid_def SaveMany_def mem_col_def violated_def)
  with save_accounts_for_batch [OF mem_mongo.mongo_axioms, of ex_chat ex_uuid "[?m]" "ex_world []" "fst ?r" "snd ?r"]
  show ?thesis by (simp add: Let_def ex_msg_def)
qed

text \<open>
  Retrying a batch that was saved although the reply was lost: every document collides with its own
  earlier copy on all three unique indexes, and only the text of the error that the server happens
  to report decides what the repository makes of it.
\<close>

text \<open>Whether a repeated save counts as success depends on which index the server names: for a
  document that is already stored, the repository reports success only if the server names the
  client message index; if it names the sequence index the batch is reported as a sequence
  conflict (not retried), and if it names the primary key as an internal error (retried until the
  attempts are used up), although the document is stored in all three cases.\<close>

theorem repeated_save_outcome:
  assumes M: "mongo col docs" and d: "d \<in> set (docs m)"
    and ins: "col_InsertMany col [d] m = (BulkWrite [\<lparr>we_Code = 11000, we_Message = col_dupMessage col ix d\<rparr>], m)"
    and clean: "\<not> contains (col_dupMessage col Index_client d) ''unique_room_sequence''"
      "\<not> contains (col_dupMessage col Index_client d) ''sequenceNumber''"
      "\<not> contains (col_dupMessage col Index_id d) ''unique_room_sequence''"
      "\<not> contains (col_dupMessage col Index_id d) ''sequenceNumber''"
  shows "fst (SaveMany col [d] m) = (case ix of
      Index_client \<Rightarrow> None
    | Index_sequence \<Rightarrow> Some ErrSequenceConflict
    | Index_id \<Rightarrow> Some (External ''bulk write exception''))"
  using ins clean mongo.sequence_named [OF M, of d] mongo.client_named [OF M, of d] mongo.id_named [OF M, of d]
  by (cases ix) (auto simp: SaveMany_def isSequenceDuplicate_def isClientMessageDuplicate_def)

theorem repeated_save_outcome_witness:
  "fst (SaveMany mem_col [ex_doc 1] [ex_doc 1]) = Some (External ''bulk write exception'')"
proof -
  let ?d = "ex_doc 1"
  have f: "format_int 1 = ''1''" by code_simp
  have ins: "col_InsertMany mem_col [?d] [?d] =
      (BulkWrite [\<lparr>we_Code = 11000, we_Message = col_dupMessage mem_col Index_id ?d\<rparr>], [?d])"
    by (simp add: mem_col_def violated_def)
  have "\<not> contains (col_dupMessage mem_col Index_client ?d) ''unique_room_sequence''"
      "\<not> contains (col_dupMessage mem_col Index_client ?d) ''sequenceNumber''"
      "\<not> contains (col_dupMessage mem_col Index_id ?d) ''unique_room_sequence''"
      "\<not> contains (col_dupMessage mem_col Index_id ?d) ''sequenceNumber''"
    by (simp_all add: mem_col_def ex_doc_def quoted_def f)
  from repeated_save_outcome [OF mem_mongo.mongo_axioms _ ins this] show ?thesis by simp
qed

text \<open>
  The classification reads the whole text of the error, and the text quotes the colliding key. A
  client message id is chosen by the client, so a client can make its own duplicate look like a
  sequence conflict.
\<close>

text \<open>A client can forge a sequence conflict: with the server's format of duplicate key errors, a
  second message with the client id \<open>sequenceNumber\<close> in a room, which is a harmless duplicate, is
  reported as a sequence conflict, although no two messages of the room have the same number.\<close>

theorem client_id_forges_conflict:
  assumes e: "e \<in> set ds" "cm_RoomID e = cm_RoomID d" "cm_ClientMsgID e = ''sequenceNumber''" "cm_ClientMsgID d = ''sequenceNumber''"
    and new: "\<forall>e \<in> set ds. cm_ID e \<noteq> cm_ID d \<and> (cm_RoomID e = cm_RoomID d \<longrightarrow> cm_SequenceNumber e \<noteq> cm_SequenceNumber d)"
  shows "SaveMany mem_col [d] ds = (Some ErrSequenceConflict, ds)"
proof -
  have "violated d ds = Some Index_client"
    using e new by (auto simp: violated_def list_ex_iff)
  moreover have "contains (mem_dupMessage Index_client d) ''sequenceNumber''"
    using contains_append [of "''E11000 duplicate key error collection: chat_service.messages index: unique_room_client_msg dup key: { roomId: '' @
     quoted (cm_RoomID d) @ '', clientMsgId: '' @ [CHR 0x22]" "''sequenceNumber''" "[CHR 0x22] @ '' }''"] e(4)
    by (simp add: quoted_def)
  ultimately show ?thesis
    by (simp add: SaveMany_def mem_col_def isSequenceDuplicate_def del: mem_dupMessage.simps)
qed

theorem client_id_forges_conflict_witness:
  "fst (SaveMany mem_col [(ex_doc 2)\<lparr>cm_ClientMsgID := ''sequenceNumber''\<rparr>] [(ex_doc 1)\<lparr>cm_ClientMsgID := ''sequenceNumber''\<rparr>]) =
     Some ErrSequenceConflict"
proof -
  have "format_int 1 \<noteq> format_int 2" using parse_format_int [of 1] parse_format_int [of 2] by auto
  then show ?thesis
    using client_id_forges_conflict [of "(ex_doc 1)\<lparr>cm_ClientMsgID := ''sequenceNumber''\<rparr>"
        "[(ex_doc 1)\<lparr>cm_ClientMsgID := ''sequenceNumber''\<rparr>]" "(ex_doc 2)\<lparr>cm_ClientMsgID := ''sequenceNumber''\<rparr>"]
    by (simp add: ex_doc_def del: contains.simps mem_dupMessage.simps)
qed

end
