(* ===== verification/Cluster.thy ===== *)
theory Cluster
  imports Handoff Chat
begin

text \<open>
  The stores that the websocket service wires into its manager (\<^verbatim>\<open>cmd/websocket-service/main.go\<close>): the
  chat service's message store, and the Redis stores of sequence floors and room leases. On a
  server and a collection that follow their documentation they meet the contract of the manager;
  the properties of the hand-over of a room are stated for them.
\<close>

section \<open>The wiring\<close>

text \<open>The Redis server and the chat service, with a schedule of outcomes of the calls to Redis.\<close>

record ('r, 'm) cluster =
  cl_redis :: 'r
  cl_chat :: "'m chat_world"
  cl_nets :: "nat \<Rightarrow> net"
  cl_next :: nat

definition redis_call :: "(net \<Rightarrow> 'r \<Rightarrow> 'a \<times> 'r) \<Rightarrow> ('r, 'm) cluster \<Rightarrow> 'a \<times> ('r, 'm) cluster" where
  "redis_call f w = (case f (cl_nets w (cl_next w)) (cl_redis w) of
      (a, s) \<Rightarrow> (a, w\<lparr>cl_redis := s, cl_next := Suc (cl_next w)\<rparr>))"

definition chat_call :: "('m chat_world \<Rightarrow> 'a \<times> 'm chat_world) \<Rightarrow> ('r, 'm) cluster \<Rightarrow> 'a \<times> ('r, 'm) cluster" where
  "chat_call f w = (case f (cl_chat w) of (a, c) \<Rightarrow> (a, w\<lparr>cl_chat := c\<rparr>))"

definition cluster_store :: "ChatConfig \<Rightarrow> uuid_api \<Rightarrow> 'm collection \<Rightarrow> ('r, 'm) cluster MessageStore" where
  "cluster_store cfg uuid col = (let a = newChatStoreAdapter cfg uuid col in
     \<lparr>ms_GetLastSequenceNumber = (\<lambda>room. chat_call (ms_GetLastSequenceNumber a room)),
      ms_SaveMany = (\<lambda>msgs. chat_call (ms_SaveMany a msgs))\<rparr>)"

definition cluster_floor :: "'r redis_api \<Rightarrow> ('r, 'm) cluster SequenceFloorStore" where
  "cluster_floor api = (let st = Some (NewSeqStore sequenceFloorPrefix) in
     \<lparr>fs_Get = (\<lambda>room. redis_call (\<lambda>n. seq_Get api st n room)),
      fs_SetMax = (\<lambda>room seq. redis_call (\<lambda>n. SetMax api st n room seq))\<rparr>)"

definition cluster_leases :: "'r redis_api \<Rightarrow> string \<Rightarrow> ('r, 'm) cluster LeaseStore" where
  "cluster_leases api addr = (let st = Some (NewStore roomLeaseKeyPrefix roomLeaseTTL addr) in
     \<lparr>le_Acquire = (\<lambda>token room. redis_call (\<lambda>n. Acquire api st n token room)),
      le_RenewBatch = (\<lambda>ls. redis_call (\<lambda>n. RenewBatch api st (\<lambda>_. n) ls)),
      le_Release = (\<lambda>l. redis_call (\<lambda>n. Release api st n l))\<rparr>)"

section \<open>The level of a room\<close>

definition db_last :: "chat_message list \<Rightarrow> string \<Rightarrow> int" where
  "db_last ds room = Max (insert 0 (cm_SequenceNumber ` room_docs room ds))"

definition cluster_level :: "('r \<Rightarrow> keyspace) \<Rightarrow> ('m \<Rightarrow> chat_message list) \<Rightarrow> ('r, 'm) cluster \<Rightarrow> string \<Rightarrow> int" where
  "cluster_level view docs w room =
     max (db_last (docs (cw_db (cl_chat w))) room) (seq_floor sequenceFloorPrefix (view (cl_redis w)) room)"

definition numbered :: "chat_message list \<Rightarrow> message \<Rightarrow> bool" where
  "numbered ds m \<longleftrightarrow> (\<exists>d \<in> room_docs (RoomID m) ds. cm_SequenceNumber d = SequenceNumber m)"

definition cluster_stored :: "('m \<Rightarrow> chat_message list) \<Rightarrow> ('r, 'm) cluster \<Rightarrow> message \<Rightarrow> bool" where
  "cluster_stored docs w m = numbered (docs (cw_db (cl_chat w))) m"

definition cluster_wf :: "('r \<Rightarrow> keyspace) \<Rightarrow> ('m \<Rightarrow> chat_message list) \<Rightarrow> ('r, 'm) cluster \<Rightarrow> bool" where
  "cluster_wf view docs w \<longleftrightarrow> seq_keyspace sequenceFloorPrefix (view (cl_redis w)) \<and>
     lease_keyspace roomLeaseKeyPrefix (view (cl_redis w)) \<and>
     (\<forall>d \<in> set (docs (cw_db (cl_chat w))). 0 \<le> cm_SequenceNumber d \<and> cm_SequenceNumber d \<le> 2 ^ 53)"

lemma finite_room_docs [simp]: "finite (room_docs room ds)"
  by (simp add: room_docs_def)

lemma db_last_ge: "d \<in> room_docs room ds \<Longrightarrow> cm_SequenceNumber d \<le> db_last ds room"
  by (simp add: db_last_def)

lemma db_last_bounds:
  assumes "\<forall>d \<in> set ds. 0 \<le> cm_SequenceNumber d \<and> cm_SequenceNumber d \<le> 2 ^ 53"
  shows "0 \<le> db_last ds room \<and> db_last ds room \<le> 2 ^ 53"
  using assms by (auto simp: db_last_def room_docs_def)

lemma db_last_eq:
  assumes "\<forall>d \<in> room_docs room ds. cm_SequenceNumber d \<le> n" "n = 0 \<or> (\<exists>d \<in> room_docs room ds. cm_SequenceNumber d = n)"
    "\<forall>d \<in> set ds. 0 \<le> cm_SequenceNumber d"
  shows "db_last ds room = n"
proof -
  have "0 \<le> n" using assms(2,3) by (auto simp: room_docs_def)
  with assms(1,2) show ?thesis unfolding db_last_def by (intro Max_eqI) auto
qed

lemma seq_floor_bounds: "seq_keyspace p ks \<Longrightarrow> 0 \<le> seq_floor p ks room \<and> seq_floor p ks room \<le> 2 ^ 53"
  by (erule seq_keyspaceE [of p ks room]) simp_all

section \<open>Keys\<close>

text \<open>Lease keys and floor keys are different keys.\<close>

lemma prefixes_differ [simp]: "sequenceFloorPrefix @ a \<noteq> roomLeaseKeyPrefix @ b" "sequenceFloorPrefix \<noteq> roomLeaseKeyPrefix"
  by (simp_all add: sequenceFloorPrefix_def roomLeaseKeyPrefix_def)

definition same_floors :: "keyspace \<Rightarrow> keyspace \<Rightarrow> bool" where
  "same_floors ks ks' \<longleftrightarrow> (\<forall>room. ks' (sequenceFloorPrefix @ room) = ks (sequenceFloorPrefix @ room))"

lemma same_floors_simps [simp]: "same_floors ks ks" "same_floors ks (ks(roomLeaseKeyPrefix @ room := e))"
  by (simp_all add: same_floors_def)

lemma same_floors_trans: "same_floors a b \<Longrightarrow> same_floors b c \<Longrightarrow> same_floors a c"
  by (simp add: same_floors_def)

lemma same_floorsD:
  "same_floors ks ks' \<Longrightarrow> seq_keyspace sequenceFloorPrefix ks' = seq_keyspace sequenceFloorPrefix ks \<and>
     seq_floor sequenceFloorPrefix ks' = seq_floor sequenceFloorPrefix ks"
  by (simp add: same_floors_def seq_keyspace_def seq_floor_def fun_eq_iff)

definition floors_kept :: "('r \<Rightarrow> keyspace) \<Rightarrow> 'r \<Rightarrow> 'r \<Rightarrow> bool" where
  "floors_kept view s s' \<longleftrightarrow> lease_keyspace roomLeaseKeyPrefix (view s') \<and> same_floors (view s) (view s')"

context redis_lease
begin

lemma lease_ops_keep_floors:
  assumes p: "ls_keyPrefix st = roomLeaseKeyPrefix" and wf: "lease_keyspace roomLeaseKeyPrefix (view s)"
  shows "floors_kept view s (snd (Acquire api (Some st) n token room s))"
    and "floors_kept view s (snd (Release api (Some st) n lo s))"
    and "floors_kept view s (snd (renew_cmd api st n l s))"
proof -
  note wf' = wf [folded p]
  have key: "lease_key st r = roomLeaseKeyPrefix @ r" for r using p by (simp add: lease_key_def)
  show "floors_kept view s (snd (Acquire api (Some st) n token room s))"
    using leases.wf_acquire [OF wf', of n token room] Acquire_ok [of n token room s] Acquire_fail [of n token room s] p key
    by (cases "Acquire api (Some st) n token room s"; cases "fst (Acquire api (Some st) n token room s)")
      (auto simp: floors_kept_def)
  show "floors_kept view s (snd (renew_cmd api st n l s))"
    using leases.wf_renew [OF wf', of n l] renew_cmd_eff(4) [OF wf', of n l] p key
    by (cases "renew_cmd api st n l s"; cases "fst (renew_cmd api st n l s)") (auto simp: floors_kept_def)
  show "floors_kept view s (snd (Release api (Some st) n lo s))"
  proof (cases lo)
    case None
    then show ?thesis using wf by (simp add: Release_def floors_kept_def)
  next
    case (Some l)
    then show ?thesis using leases.wf_release [OF wf', of n l] Release_eff(3) [OF wf', of n l] p key
      by (cases "Release api (Some st) n (Some l) s") (auto simp: floors_kept_def)
  qed
qed

lemma renewals_keep_floors:
  assumes p: "ls_keyPrefix st = roomLeaseKeyPrefix" and wf: "lease_keyspace roomLeaseKeyPrefix (view s)"
  shows "floors_kept view s (snd (RenewBatch api (Some st) ns ls s))"
proof -
  have "floors_kept view s (snd (renew_pipeline api st ns xs s))" if "lease_keyspace roomLeaseKeyPrefix (view s)" for xs s
    using that
  proof (induction xs arbitrary: s)
    case Nil
    then show ?case by (simp add: floors_kept_def)
  next
    case (Cons l xs)
    obtain r s1 where r: "renew_cmd api st (ns l) l s = (r, s1)" by fastforce
    with lease_ops_keep_floors(3) [OF p Cons.prems, of "ns l" l] have k: "floors_kept view s s1" by simp
    then have "floors_kept view s1 (snd (renew_pipeline api st ns xs s1))" using Cons.IH by (simp add: floors_kept_def)
    with k r show ?case by (auto simp: floors_kept_def case_prod_unfold intro: same_floors_trans)
  qed
  from this [OF wf] wf show ?thesis by (auto simp: RenewBatch_def floors_kept_def)
qed

end

section \<open>The stores meet the manager's contract\<close>

lemma redis_callE:
  assumes "redis_call f w = (a, w')"
  obtains s where "f (cl_nets w (cl_next w)) (cl_redis w) = (a, s)" "cl_redis w' = s" "cl_chat w' = cl_chat w"
  using assms by (auto simp: redis_call_def split: prod.splits)

lemma lease_call_grows:
  assumes wf: "cluster_wf view docs w" and k: "floors_kept view (cl_redis w) (cl_redis w')" and c: "cl_chat w' = cl_chat w"
  shows "cluster_wf view docs w' \<and> grows (cluster_level view docs) (cluster_stored docs) w w'"
proof -
  have "same_floors (view (cl_redis w)) (view (cl_redis w'))" using k by (simp add: floors_kept_def)
  note same_floorsD [OF this]
  with wf k c show ?thesis by (simp add: cluster_wf_def floors_kept_def grows_def cluster_level_def cluster_stored_def)
qed

lemma chat_last_state:
  assumes "mongo col docs"
  shows "docs (snd (chat_GetLastSequenceNumber col room m)) = docs m"
  using mongo.findOne_state [OF assms, of "\<lparr>f_roomId = room, f_createdAt_gte = None, f_sequence_gt = None\<rparr>" "-1" m]
  by (auto simp: chat_GetLastSequenceNumber_def repo_GetLastSequenceNumber_def split: prod.splits sum.splits option.splits)

lemma adapter_last:
  assumes M: "mongo col docs" and wf: "\<forall>d \<in> set (docs (cw_db w)). 0 \<le> cm_SequenceNumber d"
    and run: "adapter_GetLastSequenceNumber col room w = (r, w')"
  shows "docs (cw_db w') = docs (cw_db w)" "r = Inr v \<Longrightarrow> v = db_last (docs (cw_db w)) room"
proof -
  from rpc_state [OF run [unfolded adapter_GetLastSequenceNumber_def]] chat_last_state [OF M, of room]
  show "docs (cw_db w') = docs (cw_db w)" by auto
  assume "r = Inr v"
  with rpc_ok [of "\<lambda>ce. chat_GetLastSequenceNumber col room" w v w'] run
  have "chat_GetLastSequenceNumber col room (cw_db w) = (Inr v, cw_db w')"
    unfolding adapter_GetLastSequenceNumber_def by simp
  then have "repo_GetLastSequenceNumber col room (cw_db w) = (Inr v, cw_db w')"
    by (auto simp: chat_GetLastSequenceNumber_def split: if_splits prod.splits sum.splits)
  from mongo.last_sequence_max(1,2) [OF M this] wf show "v = db_last (docs (cw_db w)) room"
    by (intro db_last_eq [symmetric]) (auto simp: room_docs_def)
qed

lemma cluster_get:
  assumes R: "redis api view clock" and M: "mongo col docs" and wf: "cluster_wf view docs w"
    and run: "ms_GetLastSequenceNumber (sequenceFloorMessageStore (cluster_store cfg uuid col) (cluster_floor api)) room w = (r, w')"
  shows "cluster_wf view docs w' \<and> grows (cluster_level view docs) (cluster_stored docs) w w' \<and>
    (\<forall>v. r = Inr v \<longrightarrow> v = cluster_level view docs w' room)"
proof -
  obtain r1 c1 where a: "adapter_GetLastSequenceNumber col room (cl_chat w) = (r1, c1)" by fastforce
  have nn: "\<forall>d \<in> set (docs (cw_db (cl_chat w))). 0 \<le> cm_SequenceNumber d" using wf by (simp add: cluster_wf_def)
  note A = adapter_last [OF M nn a]
  let ?w1 = "w\<lparr>cl_chat := c1\<rparr>"
  obtain r2 s2 where g: "seq_Get api (Some (NewSeqStore sequenceFloorPrefix)) (cl_nets w (cl_next w)) room (cl_redis w) = (r2, s2)" by fastforce
  have s2: "s2 = cl_redis w" using seq_Get_state [of api "Some (NewSeqStore sequenceFloorPrefix)" "cl_nets w (cl_next w)" room "cl_redis w"] g by simp
  have fl: "r2 = Inr v \<Longrightarrow> v = seq_floor sequenceFloorPrefix (view (cl_redis w)) room" for v
    using seq_Get_value [OF R, of sequenceFloorPrefix "cl_redis w"] g wf by (simp add: cluster_wf_def)
  have w': "docs (cw_db (cl_chat w')) = docs (cw_db (cl_chat w))" "cl_redis w' = cl_redis w"
    using run a g s2 A(1)
    by (auto simp: sequenceFloorMessageStore_def sfms_GetLastSequenceNumber_def cluster_store_def cluster_floor_def Let_def
        newChatStoreAdapter_def chat_call_def redis_call_def split: sum.splits)
  have "v = cluster_level view docs w' room" if "r = Inr v" for v
    using run that a g A(2) fl w'
    by (auto simp: sequenceFloorMessageStore_def sfms_GetLastSequenceNumber_def cluster_store_def cluster_floor_def Let_def
        newChatStoreAdapter_def chat_call_def redis_call_def cluster_level_def split: sum.splits)
  with wf w' show ?thesis by (simp add: cluster_wf_def grows_def cluster_level_def cluster_stored_def)
qed

lemma cluster_set:
  assumes R: "redis api view clock" and wf: "cluster_wf view docs w" and seq: "seq \<le> 2 ^ 53"
    and run: "fs_SetMax (cluster_floor api) room seq w = (e, w')"
  shows "cluster_wf view docs w' \<and> grows (cluster_level view docs) (cluster_stored docs) w w' \<and>
    (e = None \<longrightarrow> seq \<le> cluster_level view docs w' room)"
proof -
  let ?p = sequenceFloorPrefix
  let ?ks = "view (cl_redis w)" and ?ks' = "view (cl_redis w')"
  have S: "SetMax api (Some (NewSeqStore ?p)) (cl_nets w (cl_next w)) room seq (cl_redis w) = (e, cl_redis w')" "cl_chat w' = cl_chat w"
    using run by (auto simp: cluster_floor_def Let_def elim!: redis_callE)
  have k: "seq_keyspace ?p ?ks" using wf by (simp add: cluster_wf_def)
  note F = redis_floor_contract [OF R, of ?p]
  have wf1: "seq_keyspace ?p ?ks'" using floor_contract.set_max_wf [OF F k seq] S(1) by (metis snd_conv)
  have fl: "seq_floor ?p ?ks r \<le> seq_floor ?p ?ks' r" for r
    using floor_contract.set_max_mono [OF F k seq, of r "cl_nets w (cl_next w)" room] S(1) by simp
  have top: "seq \<le> seq_floor ?p ?ks' room" if "e = None"
    using floor_contract.set_max_ok [OF F k _ seq, of "cl_nets w (cl_next w)" room "cl_redis w'"] S(1) that
      seq_floor_bounds [OF wf1, of room] by (cases "0 < seq") auto
  have lk: "lease_keyspace roomLeaseKeyPrefix ?ks'"
  proof -
    have "?ks' = ?ks \<or> ?ks' = ?ks(?p @ room \<mapsto> (RStr (format_int seq), None))"
      using SetMax_state [OF S(1)] by (auto simp: setMaxLua_def Let_def redis.set_plain [OF R])
    then show ?thesis using wf prefixes_differ(1) [of room] unfolding cluster_wf_def lease_keyspace_def
      by (metis fun_upd_other)
  qed
  have "cluster_level view docs w r \<le> cluster_level view docs w' r" for r
    unfolding cluster_level_def S(2) by (rule max.mono) (simp_all add: fl)
  with wf wf1 lk top S(2) show ?thesis
    by (auto simp: cluster_wf_def grows_def cluster_stored_def cluster_level_def)
qed

lemma cluster_world:
  assumes R: "redis api view clock" and M: "mongo col docs"
  shows "hub_world (cluster_store cfg uuid col) (cluster_floor api) (cluster_leases api addr)
    (cluster_level view docs) (cluster_stored docs) (cluster_wf view docs)"
proof -
  let ?st = "NewStore roomLeaseKeyPrefix roomLeaseTTL addr"
  have L: "redis_lease api view clock ?st"
    using R by (simp add: redis_lease_def redis_lease_axioms_def roomLeaseTTL_def)
  note F = redis_floor_contract [OF R, of sequenceFloorPrefix]
  note keep = redis_lease.lease_ops_keep_floors [OF L] redis_lease.renewals_keep_floors [OF L]
  show ?thesis
  proof
    fix w :: "('a, 'b) cluster" and w' room seq m token lo ls r e rs lr
    assume wf: "cluster_wf view docs w"
    show "0 \<le> cluster_level view docs w room \<and> cluster_level view docs w room \<le> 2 ^ 53"
      using wf db_last_bounds seq_floor_bounds by (simp add: cluster_wf_def cluster_level_def) (meson max.coboundedI1)
    show "SequenceNumber m \<le> cluster_level view docs w (RoomID m)" if "cluster_stored docs w m"
      using that db_last_ge by (fastforce simp: cluster_stored_def numbered_def cluster_level_def)
    have lk: "lease_keyspace roomLeaseKeyPrefix (view (cl_redis w))" using wf by (simp add: cluster_wf_def)
    show "cluster_wf view docs w' \<and> grows (cluster_level view docs) (cluster_stored docs) w w'"
      if "le_Release (cluster_leases api addr) lo w = (e, w')"
      using that keep(2) [OF _ lk, of "cl_nets w (cl_next w)" lo] lease_call_grows [OF wf]
      by (auto simp: cluster_leases_def Let_def elim!: redis_callE)
    show "cluster_wf view docs w' \<and> grows (cluster_level view docs) (cluster_stored docs) w w'"
      if "le_RenewBatch (cluster_leases api addr) ls w = (rs, w')"
      using that keep(4) [OF _ lk, of "\<lambda>_. cl_nets w (cl_next w)" ls] lease_call_grows [OF wf]
      by (auto simp: cluster_leases_def Let_def elim!: redis_callE)
    show "cluster_wf view docs w' \<and> grows (cluster_level view docs) (cluster_stored docs) w w' \<and> (\<forall>a. lr = Inr a \<longrightarrow> lease_RoomID a = room)"
      if "le_Acquire (cluster_leases api addr) token room w = (lr, w')"
      using that keep(1) [OF _ lk, of "cl_nets w (cl_next w)" token room] lease_call_grows [OF wf]
        redis_lease.Acquire_ok [OF L, of "cl_nets w (cl_next w)" token room "cl_redis w"]
      by (auto simp: cluster_leases_def Let_def elim!: redis_callE)
  qed (use cluster_get [OF R M] cluster_set [OF R] in blast)+
qed

interpretation mem_cluster: hub_world "cluster_store cfg uuid mem_col" "cluster_floor mem_api" "cluster_leases mem_api addr"
  "cluster_level mem_keys (\<lambda>ds. ds)" "cluster_stored (\<lambda>ds. ds)" "cluster_wf mem_keys (\<lambda>ds. ds)" for cfg uuid addr
  by (rule cluster_world [OF mem.redis_axioms mem_mongo.mongo_axioms])

section \<open>Handing a room over\<close>

text \<open>
  What an instance and the others may do: the manager of \<open>addr\<close> runs, and the stores change in any
  way that loses no stored message and lowers no level.
\<close>

definition cluster_reach ::
  "'c lru_api \<Rightarrow> 'r redis_api \<Rightarrow> ('r \<Rightarrow> keyspace) \<Rightarrow> 'm collection \<Rightarrow> ('m \<Rightarrow> chat_message list) \<Rightarrow> ChatConfig \<Rightarrow> uuid_api \<Rightarrow> string \<Rightarrow>
   ('c, ('r, 'm) cluster) mgr_state \<Rightarrow> bool" where
  "cluster_reach lru api view col docs cfg uuid addr =
     mgr_reach lru (cluster_store cfg uuid col) (cluster_floor api) (cluster_leases api addr)
       (\<lambda>w w'. cluster_wf view docs w' \<and> grows (cluster_level view docs) (cluster_stored docs) w w') (cluster_wf view docs)"

lemma cluster_reach_inv:
  assumes "redis api view clock" "mongo col docs" "cluster_reach lru api view col docs cfg uuid addr (M, w)"
  shows "mgr_inv (cluster_level view docs) (cluster_store cfg uuid col) (cluster_floor api) (cluster_leases api addr) {} (M, w)"
    "cluster_wf view docs w"
  using hub_world.reach_inv [OF cluster_world [OF assms(1,2)] assms(3) [unfolded cluster_reach_def]] by auto


text \<open>C1: The next owner continues above the previous one: if everything the pipeline acknowledged
  without an error is stored under its own number, then after a room was given up, a hub that any
  instance creates for the room starts at or above every sequence number the previous hub issued,
  so no number is issued twice; this holds after clean drains and after failed persistence alike.\<close>

theorem handoff_never_reuses_numbers:
  assumes R: "redis api view clock" and M: "mongo col docs" and r: "cluster_reach lru api view col docs cfg uuid addr (M, w)"
    and c: "c \<in> set (m_calls M)" "rc_hub c = Some i"
    and acked: "\<forall>m. (m, None) \<in> set (acks (m_heap M ! i)) \<longrightarrow> cluster_stored docs w m"
    and new: "m_store N = Some (cluster_store cfg uuid col)" "m_floorStore N = Some (cluster_floor api)"
      "createHub lru p (rc_room c) N w = (Inr j, N', w')"
  shows "\<forall>m \<in> set (issued (m_heap M ! i)). SequenceNumber m \<le> lastSequence (hs (m_heap N' ! j))"
proof -
  note I = cluster_reach_inv [OF R M r]
  note W = cluster_world [OF R M, of cfg uuid addr]
  have "stopped_hub M (rc_room c) i" using mgr_invD(9) [OF I(1) c(1)] c(2) by (auto simp: call_ok_def)
  then have good: "hub_good (cluster_level view docs) w (m_heap M ! i)" using mgr_invD(4) [OF I(1)] by (simp add: stopped_hub_def)
  have "lastSequence (hs (m_heap M ! i)) \<le> cluster_level view docs w (rc_room c)"
    by (rule hub_world.released_level [OF W I c(1) _ c(2)]) (use acked in blast)
  also have "\<dots> \<le> lastSequence (hs (m_heap N' ! j))"
  proof -
    from new(3,1,2) obtain v where v: "j = length (m_heap N)"
        "ms_GetLastSequenceNumber (sequenceFloorMessageStore (cluster_store cfg uuid col) (cluster_floor api)) (rc_room c) w = (Inr v, w')"
        "lastSequence (hs (m_heap N' ! j)) = v"
      by (cases rule: createHub_cases) auto
    with cluster_get [OF R M I(2) v(2)] show ?thesis by (auto simp: grows_def)
  qed
  finally show ?thesis using issued_le_last [OF good] by fastforce
qed

section \<open>A concrete hand-over\<close>

text \<open>
  An instance acquires a room whose last stored number is 41, its hub issues 42, the message is
  stored and acknowledged, the hub drains and stops, and the lease is given back.
\<close>

definition cx_mgr :: "(nat \<times> string list, (mem_redis, chat_message list) cluster) manager" where
  "cx_mgr = SetRoomLeaseStore (cluster_leases mem_api ''a1'') (SetSequenceFloorStore (cluster_floor mem_api)
     (NewManager \<lparr>mc_IdleTimeout = 1, mc_WriteWait = 1, mc_PongWait = 1, mc_PingPeriod = 1, mc_MaxLength = 100\<rparr>
       (Some (cluster_store ex_chat ex_uuid mem_col)) []))"

definition cx_doc :: "int \<Rightarrow> chat_message" where
  "cx_doc n = (ex_doc 1)\<lparr>cm_SequenceNumber := n\<rparr>"

definition cx_w0 :: "(mem_redis, chat_message list) cluster" where
  "cx_w0 = \<lparr>cl_redis = \<lparr>mem_clock = 0, mem_keys = Map.empty\<rparr>, cl_chat = ex_world [cx_doc 41], cl_nets = (\<lambda>_. Reply), cl_next = 0\<rparr>"

definition cx_created :: "(nat \<times> string list, (mem_redis, chat_message list) cluster) mgr_state" where
  "cx_created = snd (getOrCreate list_lru ex_pipe ''t1'' 0 ''r1'' cx_mgr cx_w0)"

definition cx_hub :: "nat \<Rightarrow> (nat \<times> string list) hub_sys" where
  "cx_hub k = (let S0 = started list_lru ex_pipe 0 ''r1'' cx_mgr 41;
     S1 = S0\<lparr>hs := snd (enqueue_attempt (ex_msg ''c1'') (hs S0))\<rparr>;
     r = handleBroadcast list_lru (Inr ''m1'') 0 (ex_msg ''c1'') ((hs S1)\<lparr>broadcastCh := []\<rparr>) (hp S1);
     S2 = S1\<lparr>hs := fst (snd r), hp := snd (snd r), issued := issued S1 @ newly_issued (fst r)\<rparr>;
     S3 = S2\<lparr>hs := ack None (hs S2), acks := acks S2 @ [(hd (issued S2), None)]\<rparr>;
     S4 = S3\<lparr>hs := beginDrain (hs S3), phase := Draining\<rparr>;
     S5 = S4\<lparr>hs := run_return (hs S4), phase := Stopped\<rparr>
   in [S0, S1, S2, S3, S4, S5] ! k)"

lemma cx_hub_eqs:
  "cx_hub 0 = started list_lru ex_pipe 0 ''r1'' cx_mgr 41"
  "cx_hub 1 = (cx_hub 0)\<lparr>hs := snd (enqueue_attempt (ex_msg ''c1'') (hs (cx_hub 0)))\<rparr>"
  "cx_hub 2 = (let r = handleBroadcast list_lru (Inr ''m1'') 0 (ex_msg ''c1'') ((hs (cx_hub 1))\<lparr>broadcastCh := []\<rparr>) (hp (cx_hub 1))
     in (cx_hub 1)\<lparr>hs := fst (snd r), hp := snd (snd r), issued := issued (cx_hub 1) @ newly_issued (fst r)\<rparr>)"
  "cx_hub 3 = (cx_hub 2)\<lparr>hs := ack None (hs (cx_hub 2)), acks := acks (cx_hub 2) @ [(hd (issued (cx_hub 2)), None)]\<rparr>"
  "cx_hub 4 = (cx_hub 3)\<lparr>hs := beginDrain (hs (cx_hub 3)), phase := Draining\<rparr>"
  "cx_hub 5 = (cx_hub 4)\<lparr>hs := run_return (hs (cx_hub 4)), phase := Stopped\<rparr>"
  by (simp_all add: cx_hub_def Let_def)

lemma cx_hub1: "cx_hub 1 = (cx_hub 0)\<lparr>hs := (hs (cx_hub 0))\<lparr>broadcastCh := [ex_msg ''c1'']\<rparr>\<rparr>"
  by (simp add: cx_hub_eqs(1,2) started_def newHub_def enqueue_attempt_def hubBroadcastBufferSize_def del: One_nat_def)

lemma cx_hub2:
  "issued (cx_hub 2) = [(ex_msg ''c1'')\<lparr>ID := ''m1'', SequenceNumber := 42\<rparr>]" "acks (cx_hub 2) = []"
  "phase (cx_hub 2) = Running" "persists (hs (cx_hub 2))" "lastSequence (hs (cx_hub 2)) = 42" "broadcastCh (hs (cx_hub 2)) = []"
  "h_roomID (hs (cx_hub 2)) = ''r1''" "pendingPersist (hs (cx_hub 2)) = 1" "persistFailed (hs (cx_hub 2)) = False"
  by (simp_all add: cx_hub_eqs(3) cx_hub1 cx_hub_eqs(1) started_def newHub_def handleBroadcast_def fanOut_def list_lru_def
      reservePersistSlot_def ex_pipe_def ex_msg_def toRawJSON_def newly_issued_def send_all_eq idempotencyCacheSize_def persists_def Let_def
      del: One_nat_def)

lemma cx_values:
  "room_queue (cx_hub 1)" "room_queue (cx_hub 2)" "room_queue (cx_hub 3)" "room_queue (cx_hub 4)" "room_queue (cx_hub 5)"
  "lastSequence (hs (cx_hub 1)) = 41" "lastSequence (hs (cx_hub 2)) = 42" "lastSequence (hs (cx_hub 3)) = 42"
  "lastSequence (hs (cx_hub 4)) = 42" "lastSequence (hs (cx_hub 5)) = 42"
  "h_roomID (hs (cx_hub 5)) = ''r1''" "doneCh (hs (cx_hub 5))" "pendingPersist (hs (cx_hub 5)) = 0" "persistFailed (hs (cx_hub 5)) = False"
  "broadcastCh (hs (cx_hub 5)) = []"
  by (simp_all add: room_queue_def cx_hub_eqs(4-6) cx_hub1 cx_hub2 ack_frame beginDrain_def run_return_def shutdown_eq
      del: One_nat_def)
    (simp_all add: cx_hub_eqs(1) ex_msg_def)

lemma cx_steps:
  "hub_step list_lru (cx_hub 0) (cx_hub 1)" "hub_step list_lru (cx_hub 1) (cx_hub 2)" "hub_step list_lru (cx_hub 2) (cx_hub 3)"
  "hub_step list_lru (cx_hub 3) (cx_hub 4)" "hub_step list_lru (cx_hub 4) (cx_hub 5)"
proof -
  show "hub_step list_lru (cx_hub 0) (cx_hub 1)" using cx_hub_eqs(2) by (metis st_enqueue prod.collapse)
  let ?r = "handleBroadcast list_lru (Inr ''m1'') 0 (ex_msg ''c1'') ((hs (cx_hub 1))\<lparr>broadcastCh := []\<rparr>) (hp (cx_hub 1))"
  have "phase (cx_hub 1) \<noteq> Stopped" "broadcastCh (hs (cx_hub 1)) = [ex_msg ''c1'']" by (simp_all add: cx_hub1 cx_hub_eqs(1) del: One_nat_def)
  then show "hub_step list_lru (cx_hub 1) (cx_hub 2)"
    using st_handle [of "cx_hub 1" "ex_msg ''c1''" "[]" list_lru "Inr ''m1''" 0 "fst ?r" "fst (snd ?r)" "snd (snd ?r)"]
    unfolding cx_hub_eqs(3) Let_def by simp
  show "hub_step list_lru (cx_hub 2) (cx_hub 3)"
    using st_ack [of "cx_hub 2" "hd (issued (cx_hub 2))" list_lru None] unfolding cx_hub_eqs(4) by (simp add: cx_hub2 outstanding_def)
  show "hub_step list_lru (cx_hub 3) (cx_hub 4)" unfolding cx_hub_eqs(5) by (rule st_drain) (simp add: cx_hub_eqs(4) cx_hub2)
  show "hub_step list_lru (cx_hub 4) (cx_hub 5)" unfolding cx_hub_eqs(6) by (rule st_return) (simp add: cx_hub_eqs(5))
qed

definition cx_lease :: Lease where
  "cx_lease = \<lparr>lease_RoomID = ''r1'', lease_OwnerAddr = ''a1'', lease_Token = ''t1''\<rparr>"

definition cx_ml :: managedLease where
  "cx_ml = \<lparr>ml_lease = Some cx_lease, ml_hub = None, ml_acquiredAt = 0, ml_lastRenewOK = 0,
     ml_handoffAt = None, ml_reason = '''', ml_releaseWaiting = False, ml_releasing = False\<rparr>"

definition cx_at :: "nat \<Rightarrow> (nat \<times> string list, (mem_redis, chat_message list) cluster) manager" where
  "cx_at k = cx_mgr\<lparr>m_heap := [cx_hub k], m_hubs := [(''r1'', 0)], m_managed := [cx_ml], m_leases := [(''r1'', 0)]\<rparr>"

definition cx_w1 :: "chat_message list \<Rightarrow> (mem_redis, chat_message list) cluster" where
  "cx_w1 ds = \<lparr>cl_redis = \<lparr>mem_clock = 0, mem_keys = [roomLeaseKeyPrefix @ ''r1'' \<mapsto> (lease_hash cx_lease, Some roomLeaseTTL)]\<rparr>,
     cl_chat = (ex_world ds)\<lparr>cw_next := 1\<rparr>, cl_nets = (\<lambda>_. Reply), cl_next = 2\<rparr>"

lemma cx_mgr_simps:
  "m_hubs cx_mgr = []" "m_heap cx_mgr = []" "m_leases cx_mgr = []" "m_managed cx_mgr = []" "m_waiters cx_mgr = []" "m_calls cx_mgr = []"
  "m_store cx_mgr = Some (cluster_store ex_chat ex_uuid mem_col)" "m_floorStore cx_mgr = Some (cluster_floor mem_api)"
  "m_leaseStore cx_mgr = Some (cluster_leases mem_api ''a1'')" "m_stopped cx_mgr = False"
  by (simp_all add: cx_mgr_def SetRoomLeaseStore_def SetSequenceFloorStore_def NewManager_def Let_def)

lemma cx_acquire:
  "le_Acquire (cluster_leases mem_api ''a1'') ''t1'' ''r1'' cx_w0 =
     (Inr cx_lease, cx_w0\<lparr>cl_redis := cl_redis (cx_w1 []), cl_next := 1\<rparr>)"
  by (simp add: cluster_leases_def Let_def redis_call_def Acquire_def acquireLua_def NewStore_def lease_key_def cx_w0_def cx_w1_def
      mem_defs cx_lease_def lease_hash_def fun_upd_twist)

lemma cx_get:
  "ms_GetLastSequenceNumber (sequenceFloorMessageStore (cluster_store ex_chat ex_uuid mem_col) (cluster_floor mem_api)) ''r1''
     (cx_w0\<lparr>cl_redis := cl_redis (cx_w1 []), cl_next := 1\<rparr>) = (Inr 41, cx_w1 [cx_doc 41])"
  by (simp add: sequenceFloorMessageStore_def sfms_GetLastSequenceNumber_def cluster_store_def cluster_floor_def Let_def
      newChatStoreAdapter_def chat_call_def redis_call_def adapter_GetLastSequenceNumber_def rpc_def cx_w0_def cx_w1_def ex_world_def
      chat_GetLastSequenceNumber_def repo_GetLastSequenceNumber_def mem_col_def query_def matches_def cx_doc_def ex_doc_def
      seq_Get_def NewSeqStore_def seq_key_def mem_defs)

lemma cx_create: "getOrCreate list_lru ex_pipe ''t1'' 0 ''r1'' cx_mgr cx_w0 = (Inr (0, True), cx_at 0, cx_w1 [cx_doc 41])"
proof -
  let ?w = "cx_w0\<lparr>cl_redis := cl_redis (cx_w1 []), cl_next := 1\<rparr>"
  have "createHub list_lru ex_pipe ''r1'' cx_mgr ?w = (Inr 0, cx_mgr\<lparr>m_heap := [cx_hub 0], m_hubs := [(''r1'', 0)]\<rparr>, cx_w1 [cx_doc 41])"
    using cx_get by (simp add: createHub_def cx_mgr_simps initializeSequence_def Let_def newHub_def cx_hub_def started_def put_key_def del_key_def)
  with cx_acquire show ?thesis
    by (simp add: getOrCreate_def cx_mgr_simps trackLease_def cx_at_def cx_ml_def cx_lease_def put_key_def del_key_def)
qed

abbreviation cx_reach :: "(nat \<times> string list, (mem_redis, chat_message list) cluster) mgr_state \<Rightarrow> bool" where
  "cx_reach \<equiv> cluster_reach list_lru mem_api mem_keys mem_col (\<lambda>ds. ds) ex_chat ex_uuid ''a1''"

lemma cx_wf:
  "cluster_wf mem_keys (\<lambda>ds. ds) cx_w0" "cluster_wf mem_keys (\<lambda>ds. ds) (cx_w1 [cx_doc 41, cx_doc 42])"
  by (auto simp: cluster_wf_def cx_w0_def cx_w1_def ex_world_def cx_doc_def seq_keyspace_def lease_keyspace_def
      intro!: exI [of _ cx_lease]) (simp add: cx_lease_def)

lemma cx_hub_reach:
  assumes "cx_reach (cx_at k, w)" "hub_step list_lru (cx_hub k) (cx_hub k')" "room_queue (cx_hub k')" "lastSequence (hs (cx_hub k')) \<le> 2 ^ 53"
  shows "cx_reach (cx_at k', w)"
proof -
  have "mgr_step list_lru E (cx_at k, w) ((cx_at k)\<lparr>m_heap := (m_heap (cx_at k))[0 := cx_hub k']\<rparr>, w)" for E
    by (rule ms_hub) (use assms in \<open>simp_all add: cx_at_def\<close>)
  moreover have "(cx_at k)\<lparr>m_heap := (m_heap (cx_at k))[0 := cx_hub k']\<rparr> = cx_at k'" by (simp add: cx_at_def)
  ultimately show ?thesis using mr_step [OF assms(1) [unfolded cluster_reach_def]] by (simp add: cluster_reach_def)
qed

definition cx_end :: "(nat \<times> string list, (mem_redis, chat_message list) cluster) mgr_state" where
  "cx_end = run_hubDone 0 (cx_at 5) (cx_w1 [cx_doc 41, cx_doc 42])"

lemma cx_stopped_reach: "cx_reach (cx_at 5, cx_w1 [cx_doc 41, cx_doc 42])"
proof -
  have "cx_reach (cx_mgr, cx_w0)" unfolding cluster_reach_def cx_mgr_def by (rule mr_init) (rule cx_wf)
  moreover have "mgr_step list_lru E (cx_mgr, cx_w0) (cx_at 0, cx_w1 [cx_doc 41])" for E
    by (rule ms_create [OF _ _ cx_create]) (simp_all add: slots_ok_def ex_pipe_def cx_mgr_simps)
  ultimately have "cx_reach (cx_at 0, cx_w1 [cx_doc 41])" using mr_step unfolding cluster_reach_def by blast
  then have "cx_reach (cx_at 2, cx_w1 [cx_doc 41])"
    using cx_hub_reach [OF cx_hub_reach [OF _ cx_steps(1)] cx_steps(2)] cx_values by simp
  moreover have "grows (cluster_level mem_keys (\<lambda>ds. ds)) (cluster_stored (\<lambda>ds. ds)) (cx_w1 [cx_doc 41]) (cx_w1 [cx_doc 41, cx_doc 42])"
    by (auto simp: grows_def cluster_level_def cluster_stored_def numbered_def db_last_def room_docs_def cx_w1_def ex_world_def
        intro!: max.mono Max_mono)
  then have "mgr_step list_lru (\<lambda>w w'. cluster_wf mem_keys (\<lambda>ds. ds) w' \<and>
      grows (cluster_level mem_keys (\<lambda>ds. ds)) (cluster_stored (\<lambda>ds. ds)) w w') (cx_at 2, cx_w1 [cx_doc 41]) (cx_at 2, cx_w1 [cx_doc 41, cx_doc 42])"
    by (intro ms_world) (simp add: cx_wf)
  ultimately have "cx_reach (cx_at 2, cx_w1 [cx_doc 41, cx_doc 42])" using mr_step unfolding cluster_reach_def by blast
  from cx_hub_reach [OF cx_hub_reach [OF cx_hub_reach [OF this cx_steps(3)] cx_steps(4)] cx_steps(5)] cx_values show ?thesis by simp
qed

lemma cx_end_reach: "cx_reach cx_end"
proof -
  have "mgr_step list_lru E (cx_at 5, cx_w1 [cx_doc 41, cx_doc 42]) cx_end" for E
    using ms_done [of 0 "cx_at 5" "cx_w1 [cx_doc 41, cx_doc 42]" "fst cx_end" "snd cx_end"] cx_values
    by (simp add: cx_at_def cx_end_def)
  with cx_stopped_reach show ?thesis using mr_step unfolding cluster_reach_def by blast
qed

definition cx_call :: release_call where
  "cx_call = \<lparr>rc_room = ''r1'', rc_hub = Some 0, rc_state = captureHubLeaseState (Some (hs (cx_hub 5))), rc_running = []\<rparr>"

lemma cx_end_values: "m_calls (fst cx_end) = [cx_call]" "m_heap (fst cx_end) = [cx_hub 5]"
    "snd cx_end = (cx_w1 [cx_doc 41, cx_doc 42])\<lparr>cl_redis := \<lparr>mem_clock = 0, mem_keys = Map.empty\<rparr>, cl_next := 3\<rparr>"
proof -
  have st: "captureHubLeaseState (Some (hs (cx_hub 5))) = \<lparr>st_lastSequence = 42, st_pendingPersist = 0, st_broadcastDepth = 0,
      st_activeSessions = activeSessions (hs (cx_hub 5)), st_persistFailed = False\<rparr>"
    by (simp add: captureHubLeaseState_def cx_values)
  have rel: "le_Release (cluster_leases mem_api ''a1'') (Some cx_lease) (cx_w1 ds) =
      (None, (cx_w1 ds)\<lparr>cl_redis := \<lparr>mem_clock = 0, mem_keys = Map.empty\<rparr>, cl_next := 3\<rparr>)" for ds
    by (simp add: cluster_leases_def Let_def redis_call_def Release_def releaseLua_def NewStore_def lease_key_def cx_w1_def mem_defs
        cx_lease_def lease_hash_def)
  have ph: "phase (cx_hub 5) = Stopped" by (simp add: cx_hub_def Let_def)
  show "m_calls (fst cx_end) = [cx_call]" "m_heap (fst cx_end) = [cx_hub 5]"
    "snd cx_end = (cx_w1 [cx_doc 41, cx_doc 42])\<lparr>cl_redis := \<lparr>mem_clock = 0, mem_keys = Map.empty\<rparr>, cl_next := 3\<rparr>"
    using rel by (simp_all add: cx_end_def run_hubDone_def Let_def cx_at_def cx_values releaseLease_def cx_mgr_simps cx_ml_def
        rememberLeaseHub_def on_managed_def st ready_def releaseManagedLease_def running_hubs_def ph cx_call_def del_key_def cx_lease_def)
qed


lemma cx_get_again:
  "\<exists>w'. ms_GetLastSequenceNumber (sequenceFloorMessageStore (cluster_store ex_chat ex_uuid mem_col) (cluster_floor mem_api)) ''r1'' (snd cx_end)
     = (Inr 42, w')"
  by (simp add: cx_end_values sequenceFloorMessageStore_def sfms_GetLastSequenceNumber_def cluster_store_def cluster_floor_def Let_def
      newChatStoreAdapter_def chat_call_def redis_call_def adapter_GetLastSequenceNumber_def rpc_def cx_w1_def ex_world_def
      chat_GetLastSequenceNumber_def repo_GetLastSequenceNumber_def mem_col_def query_def matches_def cx_doc_def ex_doc_def sort_key_def
      seq_Get_def NewSeqStore_def seq_key_def mem_defs)

theorem handoff_never_reuses_numbers_witness:
  "\<exists>N' w'. createHub list_lru ex_pipe ''r1'' cx_mgr (snd cx_end) = (Inr 0, N', w') \<and>
     SequenceNumber (hd (issued (m_heap (fst cx_end) ! 0))) = 42 \<and> 42 \<le> lastSequence (hs (m_heap N' ! 0))"
proof -
  obtain w' where g: "ms_GetLastSequenceNumber (sequenceFloorMessageStore (cluster_store ex_chat ex_uuid mem_col) (cluster_floor mem_api)) ''r1''
     (snd cx_end) = (Inr 42, w')" using cx_get_again by blast
  obtain r N' w'' where c: "createHub list_lru ex_pipe ''r1'' cx_mgr (snd cx_end) = (r, N', w'')" by (metis surj_pair)
  then have r: "r = Inr 0" using g by (cases rule: createHub_cases [OF c]) (auto simp: cx_mgr_simps)
  have i: "issued (cx_hub 5) = issued (cx_hub 2)" "acks (cx_hub 5) = [(hd (issued (cx_hub 2)), None)]"
    using cx_hub2 by (simp_all add: cx_hub_def Let_def)
  have "cx_doc 42 \<in> room_docs ''r1'' (cw_db (cl_chat (snd cx_end)))" "cm_SequenceNumber (cx_doc 42) = 42"
    by (simp_all add: cx_end_values(3) room_docs_def cx_w1_def ex_world_def cx_doc_def ex_doc_def)
  then have "cluster_stored (\<lambda>ds. ds) (snd cx_end) ((ex_msg ''c1'')\<lparr>ID := ''m1'', SequenceNumber := 42\<rparr>)"
    unfolding cluster_stored_def numbered_def by (simp add: ex_msg_def) metis
  then have "cluster_stored (\<lambda>ds. ds) (snd cx_end) m" if "(m, None) \<in> set (acks (m_heap (fst cx_end) ! 0))" for m
    using that unfolding cx_end_values(2) by (simp add: i(2) cx_hub2(1))
  moreover have "cx_reach (fst cx_end, snd cx_end)" using cx_end_reach by simp
  moreover have "cx_call \<in> set (m_calls (fst cx_end))" "rc_hub cx_call = Some 0" "rc_room cx_call = ''r1''"
    by (simp_all add: cx_end_values cx_call_def)
  ultimately have "SequenceNumber (hd (issued (m_heap (fst cx_end) ! 0))) \<le> lastSequence (hs (m_heap N' ! 0))"
    using handoff_never_reuses_numbers [OF mem.redis_axioms mem_mongo.mongo_axioms, of list_lru ex_chat ex_uuid "''a1''" "fst cx_end"
        "snd cx_end" cx_call 0 cx_mgr ex_pipe 0 N' w''] c r i(1) cx_hub2(1)
    by (simp add: cx_mgr_simps cx_end_values(2))
  then show ?thesis using c r i(1) cx_hub2(1) by (simp add: cx_end_values(2))
qed

section \<open>Single operations\<close>


text \<open>C39: An abandoned registration leaves a hub that never times out: when the context of
  \<^verbatim>\<open>PrepareRegister\<close> ends while \<^verbatim>\<open>Run\<close> creates the hub, the caller gets only the context's error and
  can cancel nothing, while the manager keeps a hub for the room that has no session and whose
  idle timer is not running (it starts only when a session leaves).\<close>

theorem abandoned_prepare_leaves_hub:
  assumes "getOrCreate lru p token now room M w = (Inr (i, True), M', w')"
  shows "PrepareRegister CtxAfter lru p token now room (M, w) = (Inl CtxErr, M', w') \<and>
    map_of (m_hubs M') room = Some i \<and> sessions (hs (m_heap M' ! i)) = [] \<and>
    \<not> idleTimer (hs (m_heap M' ! i)) \<and> \<not> draining (hs (m_heap M' ! i)) \<and> phase (m_heap M' ! i) = Running"
proof -
  have none: "map_of (m_hubs M) room = None"
    using assms by (cases "map_of (m_hubs M) room") (auto simp: getOrCreate_def split: if_splits)
  obtain lo w1 w2 M1 where c: "createHub lru p room M w1 = (Inr i, M1, w2)" "M' = trackLease now lo M1"
    using assms none by (auto simp: getOrCreate_def split: option.splits sum.splits prod.splits)
  have t: "m_hubs M' = m_hubs M1" "m_heap M' = m_heap M1" using c(2) by (auto simp: trackLease_def split: option.splits)
  have h1: "sessions h1 = [] \<and> \<not> idleTimer h1 \<and> \<not> draining h1"
    if "initializeSequence st w1 (newHub lru j room cfg a b d) = (e, h1, w2)" for st j cfg a b d e h1
    using that by (auto simp: initializeSequence_def newHub_def split: option.splits prod.splits sum.splits)
  have "map_of (m_hubs M1) room = Some i \<and> sessions (hs (m_heap M1 ! i)) = [] \<and> \<not> idleTimer (hs (m_heap M1 ! i)) \<and>
      \<not> draining (hs (m_heap M1 ! i)) \<and> phase (m_heap M1 ! i) = Running"
    using c(1) by (auto simp: createHub_def Let_def split: option.splits prod.splits dest: h1)
  with t assms show ?thesis by (simp add: PrepareRegister_def run_prepare_def flat_result_def)
qed



theorem abandoned_prepare_leaves_hub_witness:
  "PrepareRegister CtxAfter list_lru ex_pipe ''t1'' 0 ''r1'' (cx_mgr, cx_w0) = (Inl CtxErr, cx_at 0, cx_w1 [cx_doc 41]) \<and>
   sessions (hs (cx_hub 0)) = []"
  using abandoned_prepare_leaves_hub [OF cx_create] by (simp add: cx_at_def)

section \<open>A number that is acknowledged but not stored\<close>

text \<open>
  The premise of the hand-over, that an acknowledged message is stored under its own number, is not
  a consequence of what the chat service does: it answers a duplicate client message id with
  success. The hub drops duplicates only while the id is among its last 250, so a client that
  repeats an id later makes a number that exists in no store.
\<close>

text \<open>C38: A repeated client message id loses its number: a message whose client id is already stored in
  the room under another number is acknowledged as saved, nothing is stored, and the last number
  of the room stays below the number the message was issued with, so the next owner of the room
  issues that number again.\<close>

theorem repeated_client_id_loses_number:
  assumes e: "e \<in> set ds" "cm_RoomID e = cm_RoomID d" "cm_ClientMsgID e = cm_ClientMsgID d"
    and new: "cm_ID d \<notin> cm_ID ` set ds" "cm_RoomID d \<noteq> []" "db_last ds (cm_RoomID d) < cm_SequenceNumber d"
    and plain: "\<not> contains (mem_dupMessage Index_client d) ''unique_room_sequence''" "\<not> contains (mem_dupMessage Index_client d) ''sequenceNumber''"
  shows "SaveMany mem_col [d] ds = (None, ds) \<and>
    (\<exists>n m'. chat_GetLastSequenceNumber mem_col (cm_RoomID d) ds = (Inr n, m') \<and> n < cm_SequenceNumber d)"
proof -
  have "violated d ds = Some Index_client"
    using e new(1) by (auto simp: violated_def list_ex_iff)
  moreover have "isClientMessageDuplicate \<lparr>we_Code = 11000, we_Message = mem_dupMessage Index_client d\<rparr>"
    using contains_client [of d] by (simp add: isClientMessageDuplicate_def del: mem_dupMessage.simps)
  ultimately have "SaveMany mem_col [d] ds = (None, ds)"
    using plain by (simp add: SaveMany_def mem_col_def isSequenceDuplicate_def del: mem_dupMessage.simps)
  moreover obtain r m' where r: "repo_GetLastSequenceNumber mem_col (cm_RoomID d) ds = (r, m')" by fastforce
  then obtain n where n: "r = Inr n"
    by (auto simp: repo_GetLastSequenceNumber_def mem_col_def split: list.splits option.splits)
  from mem_mongo.last_sequence_max(2) [OF r [unfolded n]] have "n = 0 \<or> (\<exists>x \<in> room_docs (cm_RoomID d) ds. cm_SequenceNumber x = n)"
    by (auto simp: room_docs_def)
  then have "n \<le> db_last ds (cm_RoomID d)" using db_last_ge by (auto simp: db_last_def)
  ultimately show ?thesis using r n new(2,3) by (simp add: chat_GetLastSequenceNumber_def)
qed

theorem repeated_client_id_loses_number_witness:
  "SaveMany mem_col [(ex_doc 9)\<lparr>cm_ClientMsgID := ''c1''\<rparr>] [(ex_doc 7)\<lparr>cm_ClientMsgID := ''c1''\<rparr>] =
     (None, [(ex_doc 7)\<lparr>cm_ClientMsgID := ''c1''\<rparr>])"
proof -
  have f: "format_int 7 \<noteq> format_int 9" using parse_format_int [of 7] parse_format_int [of 9] by auto
  have "db_last [(ex_doc 7)\<lparr>cm_ClientMsgID := ''c1''\<rparr>] ''r1'' < 9" by (auto simp: db_last_def room_docs_def ex_doc_def)
  moreover have "\<not> contains (mem_dupMessage Index_client ((ex_doc 9)\<lparr>cm_ClientMsgID := ''c1''\<rparr>)) ''unique_room_sequence''"
    "\<not> contains (mem_dupMessage Index_client ((ex_doc 9)\<lparr>cm_ClientMsgID := ''c1''\<rparr>)) ''sequenceNumber''"
    by (simp_all add: ex_doc_def quoted_def)
  ultimately show ?thesis
    using repeated_client_id_loses_number [of "(ex_doc 7)\<lparr>cm_ClientMsgID := ''c1''\<rparr>" "[(ex_doc 7)\<lparr>cm_ClientMsgID := ''c1''\<rparr>]"
        "(ex_doc 9)\<lparr>cm_ClientMsgID := ''c1''\<rparr>"] f
    by (simp add: ex_doc_def del: contains.simps mem_dupMessage.simps)
qed

end
