(* ===== verification/Instance.thy ===== *)
theory Instance
  imports Cluster "HOL-Library.Sublist"
begin

text \<open>
  One WebSocket instance as a whole: the manager with its hubs, the persistence pipeline they share, and the end of
  \<^verbatim>\<open>Run\<close> (\<^verbatim>\<open>internal/websocket/hub/manager.go\<close>). In the theories of the manager the acknowledgements of messages come
  from nowhere, and in the theory of the pipeline the tasks do; here a message that a hub numbers is the task that
  the workers save, and the closure of that task is what decrements the hub's counter. The whole
  refines the manager's system, so its guarantees hold of the instance, and together the parts give more: no
  goroutine sends on a closed channel, and when \<^verbatim>\<open>Run\<close> has returned no message is left behind.
\<close>

section \<open>The instance\<close>

text \<open>
  How far \<^verbatim>\<open>Run\<close> has got: in its loop, waiting for the hubs, after \<^verbatim>\<open>close(m.persistCh)\<close>, after
  \<^verbatim>\<open>close(m.retryCh)\<close>, or returned.
\<close>

datatype run_phase = Looping | Waiting | PersistClosed | RetryClosed | RunReturned

text \<open>
  The stores are the world of the pipeline. \<open>ir_calls\<close> holds the acknowledgements that a worker has decided and not
  yet called; \<open>ir_tasks\<close> is the history of the tasks handed to the pipeline.
\<close>

record ('c, 'w) instance_run =
  ir_mgr :: "('c, 'w) manager"
  ir_pl :: "'w pipeline"
  ir_calls :: "(persistTask \<times> go_error option) list"
  ir_phase :: run_phase
  ir_tasks :: "persistTask list"

abbreviation ir_world :: "('c, 'w) instance_run \<Rightarrow> 'w" where
  "ir_world I \<equiv> pl_world (ir_pl I)"

definition with_mgr :: "('c, 'w) manager \<Rightarrow> 'w \<Rightarrow> ('c, 'w) instance_run \<Rightarrow> ('c, 'w) instance_run" where
  "with_mgr M w I = I\<lparr>ir_mgr := M, ir_pl := (ir_pl I)\<lparr>pl_world := w\<rparr>\<rparr>"

definition with_hub :: "nat \<Rightarrow> 'c hub_sys \<Rightarrow> ('c, 'w) instance_run \<Rightarrow> ('c, 'w) instance_run" where
  "with_hub i T I = I\<lparr>ir_mgr := (ir_mgr I)\<lparr>m_heap := (m_heap (ir_mgr I))[i := T]\<rparr>\<rparr>"

text \<open>Hub \<open>i\<close> with the pipeline's channels as they are now.\<close>

definition hub_now :: "('c, 'w) instance_run \<Rightarrow> nat \<Rightarrow> 'c hub_sys" where
  "hub_now I i = (m_heap (ir_mgr I) ! i)\<lparr>hp := pl_pipe (ir_pl I)\<rparr>"

definition run_start :: "ManagerConfig \<Rightarrow> 'w MessageStore \<Rightarrow> 'w SequenceFloorStore \<Rightarrow> 'w LeaseStore \<Rightarrow> int list \<Rightarrow> 'w \<Rightarrow> ('c, 'w) instance_run" where
  "run_start cfg base fstore leases dts w =
     \<lparr>ir_mgr = SetRoomLeaseStore leases (SetSequenceFloorStore fstore (NewManager cfg (Some base) dts)),
      ir_pl = NewPipeline w, ir_calls = [], ir_phase = Looping, ir_tasks = []\<rparr>"

text \<open>
  The goroutines of an instance: the cases of the \<^verbatim>\<open>select\<close> in \<^verbatim>\<open>Run\<close>, the renewer, the goroutines that wait to give a
  lease back, the hubs (a hub's step leaves the channels alone or hands one task over), the workers and the
  retry worker, the closures they call, and the end of \<^verbatim>\<open>Run\<close>. \<open>E\<close> is what others do to the stores. Nothing
  keeps a hub from handing a task over after the channel was closed: that this never happens is proved below.
\<close>

inductive ir_step :: "'c lru_api \<Rightarrow> ('w \<Rightarrow> 'w \<Rightarrow> bool) \<Rightarrow> ('c, 'w) instance_run \<Rightarrow> ('c, 'w) instance_run \<Rightarrow> bool" for lru E where
  ir_create: "ir_phase I = Looping \<Longrightarrow> \<not> m_stopped (ir_mgr I) \<Longrightarrow>
    getOrCreate lru (pl_pipe (ir_pl I)) token now room (ir_mgr I) (ir_world I) = (r, M, w) \<Longrightarrow> ir_step lru E I (with_mgr M w I)"
| ir_cancel: "ir_phase I = Looping \<Longrightarrow> ir_step lru E I (with_mgr (run_cancelPrepared room i (ir_mgr I)) (ir_world I) I)"
| ir_force: "ir_phase I = Looping \<Longrightarrow> run_forceClose now room reason (ir_mgr I) = (b, M) \<Longrightarrow> ir_step lru E I (with_mgr M (ir_world I) I)"
| ir_done: "ir_phase I = Looping \<Longrightarrow> i < length (m_heap (ir_mgr I)) \<Longrightarrow> doneCh (hs (m_heap (ir_mgr I) ! i)) \<Longrightarrow>
    run_hubDone i (ir_mgr I) (ir_world I) = (M, w) \<Longrightarrow> ir_step lru E I (with_mgr M w I)"
| ir_renew: "ir_phase I \<noteq> RunReturned \<Longrightarrow> renewLeases evs now (ir_mgr I) (ir_world I) = (M, w) \<Longrightarrow> ir_step lru E I (with_mgr M w I)"
| ir_poll: "wt \<in> set (m_waiters (ir_mgr I)) \<Longrightarrow> release_poll wt (ir_mgr I) (ir_world I) = (ret, M, w) \<Longrightarrow>
    ir_step lru E I (with_mgr (if ret then M\<lparr>m_waiters := remove1 wt (m_waiters M)\<rparr> else M) w I)"
| ir_hub: "i < length (m_heap (ir_mgr I)) \<Longrightarrow> hub_step lru (hub_now I i) T \<Longrightarrow> hp T = pl_pipe (ir_pl I) \<Longrightarrow>
    issued T = issued (hub_now I i) \<Longrightarrow> acks T = acks (hub_now I i) \<Longrightarrow> room_queue T \<Longrightarrow> ir_step lru E I (with_hub i T I)"
| ir_submit: "i < length (m_heap (ir_mgr I)) \<Longrightarrow> hub_step lru (hub_now I i) T \<Longrightarrow> issued T = issued (hub_now I i) @ [m] \<Longrightarrow>
    room_queue T \<Longrightarrow> lastSequence (hs T) \<le> 2 ^ 53 \<Longrightarrow>
    ir_step lru E I (with_hub i T (I\<lparr>ir_pl := (ir_pl I)\<lparr>pl_pipe := hp T\<rparr>, ir_tasks := ir_tasks I @ [\<lparr>task_msg = m, task_ack = Some i\<rparr>]\<rparr>))"
| ir_call: "ir_calls I = xs @ (t, err) # ys \<Longrightarrow> task_ack t = Some i \<Longrightarrow> S = m_heap (ir_mgr I) ! i \<Longrightarrow>
    ir_step lru E I (with_hub i (S\<lparr>hs := ack err (hs S), acks := acks S @ [(task_msg t, err)]\<rparr>) (I\<lparr>ir_calls := xs @ ys\<rparr>))"
| ir_work: "pl_step (m_store (ir_mgr I)) (ir_pl I) [] P \<Longrightarrow> pl_closed P = pl_closed (ir_pl I) \<Longrightarrow>
    pl_retryDone P = pl_retryDone (ir_pl I) \<or> ir_phase I = RetryClosed \<Longrightarrow>
    ir_step lru E I (I\<lparr>ir_pl := P, ir_calls := ir_calls I @ drop (length (pl_acks (ir_pl I))) (pl_acks P)\<rparr>)"
| ir_end: "ir_phase I = Looping \<Longrightarrow> ir_step lru E I ((with_mgr (shutdownHubs (ir_mgr I)) (ir_world I) I)\<lparr>ir_phase := Waiting\<rparr>)"
| ir_close: "ir_phase I = Waiting \<Longrightarrow> hubs_stopped (ir_mgr I) \<Longrightarrow>
    ir_step lru E I (I\<lparr>ir_pl := (ir_pl I)\<lparr>pl_closed := True\<rparr>, ir_phase := PersistClosed\<rparr>)"
| ir_retry_close: "ir_phase I = PersistClosed \<Longrightarrow> pl_batches (ir_pl I) = [] \<Longrightarrow> ir_step lru E I (I\<lparr>ir_phase := RetryClosed\<rparr>)"
| ir_return: "ir_phase I = RetryClosed \<Longrightarrow> pl_retryDone (ir_pl I) \<Longrightarrow> ir_calls I = [] \<Longrightarrow> run_deferred (ir_mgr I) (ir_world I) = (M, w) \<Longrightarrow>
    ir_step lru E I ((with_mgr M w I)\<lparr>ir_phase := RunReturned\<rparr>)"
| ir_others: "E (ir_world I) w \<Longrightarrow> ir_step lru E I (with_mgr (ir_mgr I) w I)"

inductive_cases ir_stepE: "ir_step lru E I J"

section \<open>What the steps leave alone\<close>

text \<open>What a hub has numbered and what it was told, with its identity.\<close>

definition hist :: "('c, 'w) manager \<Rightarrow> (nat \<times> message list \<times> (message \<times> go_error option) list) list" where
  "hist M = map (\<lambda>S. (h_id (hs S), issued S, acks S)) (m_heap M)"

lemma hist_heap: "m_heap M' = m_heap M \<Longrightarrow> hist M' = hist M"
  by (simp add: hist_def)

lemma length_hist [simp]: "length (hist M) = length (m_heap M)"
  by (simp add: hist_def)

lemma hist_nth: "i < length (m_heap M) \<Longrightarrow> hist M ! i = (h_id (hs (m_heap M ! i)), issued (m_heap M ! i), acks (m_heap M ! i))"
  by (simp add: hist_def)

lemma map_on_hub: "(\<And>S. f (S\<lparr>hs := g (hs S)\<rparr>) = f S) \<Longrightarrow> map f (m_heap (on_hub i g M)) = map f (m_heap M)"
  by (cases "i < length (m_heap M)"; rule nth_equalityI) (auto simp: on_hub_def nth_list_update list_update_beyond)

lemma hist_on_hub: "(\<And>h. h_id (f h) = h_id h) \<Longrightarrow> hist (on_hub i f M) = hist M"
  unfolding hist_def by (rule map_on_hub) simp

lemma forceClose_id [simp]: "h_id (forceClose reason h) = h_id h"
  by (simp add: forceClose_def beginDrain_def Let_def)

lemma heap_on_managed [simp]: "m_heap (on_managed p f M) = m_heap M"
  by (simp add: on_managed_def)

lemma heap_markHandoff [simp]: "m_heap (markHandoff now room reason M) = m_heap M"
  by (simp add: markHandoff_def Let_def split: option.splits)

lemma hist_cancel: "hist (run_cancelPrepared room i M) = hist M"
  by (simp add: run_cancelPrepared_def hist_on_hub)

lemma map_force:
  "(\<And>S r. f (S\<lparr>hs := forceClose r (hs S)\<rparr>) = f S) \<Longrightarrow> run_forceClose now room reason M = (b, M') \<Longrightarrow> map f (m_heap M') = map f (m_heap M)"
  by (auto simp: run_forceClose_def Let_def map_on_hub split: option.splits if_splits)

lemma hist_force: "run_forceClose now room reason M = (b, M') \<Longrightarrow> hist M' = hist M"
  unfolding hist_def by (rule map_force) simp

lemma hist_shutdown: "hist (shutdownHubs M) = hist M"
proof -
  have "hist (fold (\<lambda>(room, i). on_hub i (forceClose handoffCloseReason)) xs M) = hist M" for xs :: "(string \<times> nat) list"
    by (induction xs arbitrary: M) (auto simp: hist_on_hub)
  then show ?thesis by (simp add: shutdownHubs_def)
qed

lemma heap_releaseManaged: "releaseManagedLease room p ho st M w = (b, M', w') \<Longrightarrow> m_heap M' = m_heap M"
  by (auto simp: releaseManagedLease_def Let_def split: if_splits prod.splits option.splits)

lemma heap_releaseFailed: "releaseLeaseAfterPersistFailure room p ho st M w = (b, M', w') \<Longrightarrow> m_heap M' = m_heap M"
  by (auto simp: releaseLeaseAfterPersistFailure_def dest: heap_releaseManaged split: option.splits prod.splits)

lemma heap_start_waiter [simp]: "m_heap (start_waiter room p i M) = m_heap M"
  by (auto simp: start_waiter_def markLeaseReleaseWaiting_def split: prod.splits if_splits)

lemma heap_remember [simp]: "m_heap (rememberLeaseHub room p i M) = m_heap M"
  by (simp add: rememberLeaseHub_def)

lemma heap_releaseLease: "m_heap (fst (releaseLease room h0 M w)) = m_heap M"
proof -
  have managed: "m_heap (fst (snd (releaseManagedLease room p ho st N v))) = m_heap N" for p ho st v and N :: "('a, 'b) manager"
    using heap_releaseManaged by (metis prod.collapse)
  have failed: "m_heap (fst (snd (releaseLeaseAfterPersistFailure room p ho st N v))) = m_heap N" for p ho st v and N :: "('a, 'b) manager"
    using heap_releaseFailed by (metis prod.collapse)
  have waits: "m_heap (fst (case x of (True, N, v) \<Rightarrow> (N, v) | (False, N, v) \<Rightarrow> (start_waiter room p i N, v))) = m_heap (fst (snd x))" for x :: "bool \<times> ('a, 'b) manager \<times> 'b" and p i
    by (simp split: prod.splits bool.splits)
  show ?thesis by (simp add: releaseLease_def Let_def waits managed failed split: option.splits)
qed

lemma heap_poll: "release_poll wt M w = (b, M', w') \<Longrightarrow> m_heap M' = m_heap M"
  by (auto simp: release_poll_def Let_def dest: heap_releaseManaged heap_releaseFailed split: if_splits prod.splits)

lemma heap_hubDone: "run_hubDone i M w = (M', w') \<Longrightarrow> m_heap M' = m_heap M"
  using heap_releaseLease [of "h_roomID (hs (m_heap M ! i))" "Some i" "M\<lparr>m_hubs := del_key (h_roomID (hs (m_heap M ! i))) (m_hubs M)\<rparr>" w]
  by (auto simp: run_hubDone_def Let_def split: if_splits)

lemma heap_deferred: "run_deferred M w = (M', w') \<Longrightarrow> m_heap M' = m_heap M"
proof -
  have "m_heap (fst (fold (\<lambda>room (N, v). releaseLease room (f room) N v) rooms (N, v))) = m_heap N" for rooms f and N :: "('a, 'b) manager" and v
  proof (induction rooms arbitrary: N v)
    case (Cons room rooms)
    obtain N1 v1 where r: "releaseLease room (f room) N v = (N1, v1)" by fastforce
    then show ?case using Cons.IH [of N1 v1] heap_releaseLease [of room "f room" N v] by simp
  qed simp
  then show "run_deferred M w = (M', w') \<Longrightarrow> m_heap M' = m_heap M"
    by (auto simp: run_deferred_def releaseAllLeases_def split: prod.splits) (metis fst_conv)
qed

lemma map_renew:
  fixes M :: "('c, 'w) manager"
  assumes f: "\<And>S r. f (S\<lparr>hs := forceClose r (hs S)\<rparr>) = f S" and run: "renewLeases evs now M w = (M', w')"
  shows "map f (m_heap M') = map f (m_heap M)"
proof -
  have force: "map f (m_heap (snd (forceCloseRoom ev now room reason N))) = map f (m_heap N)" for ev room reason and N :: "('c, 'w) manager"
    by (auto simp: forceCloseRoom_def net_call_def dest: map_force [OF f] split: net.splits prod.splits)
  have renewed: "m_heap (updateLeaseRenewOK room now N) = m_heap N" for room and N :: "('c, 'w) manager"
    by (simp add: updateLeaseRenewOK_def split: option.splits)
  have one: "map f (m_heap (renew_result evs now r N)) = map f (m_heap N)" for r and N :: "('c, 'w) manager"
    by (simp add: renew_result_def Let_def force renewed split: prod.splits option.splits)
  have "map f (m_heap (fold (renew_result evs now) rs N)) = map f (m_heap N)" for rs and N :: "('c, 'w) manager"
    by (induction rs arbitrary: N) (simp_all add: one)
  with run show ?thesis by (auto simp: renewLeases_def Let_def split: option.splits if_splits prod.splits)
qed

lemma hist_renew: "renewLeases evs now M w = (M', w') \<Longrightarrow> hist M' = hist M"
  unfolding hist_def by (rule map_renew) simp_all

lemma phase_renew:
  assumes "renewLeases evs now M w = (M', w')"
  shows "length (m_heap M') = length (m_heap M) \<and> (\<forall>i < length (m_heap M). phase (m_heap M' ! i) = phase (m_heap M ! i))"
proof -
  have "map phase (m_heap M') = map phase (m_heap M)" by (rule map_renew [OF _ assms]) simp
  then show ?thesis by (metis length_map nth_map)
qed

lemma hist_create:
  assumes "getOrCreate lru p token now room M w = (r, M', w')"
  shows "hist M' = hist M \<or> hist M' = hist M @ [(length (m_heap M), [], [])]"
proof -
  have track: "hist (trackLease now l N) = hist N" for l and N :: "('a, 'b) manager"
    by (simp add: trackLease_def hist_def split: option.splits)
  have "hist N' = hist N \<or> hist N' = hist N @ [(length (m_heap N), [], [])]" if "createHub lru p room N v = (s, N', v')" for N N' :: "('a, 'b) manager" and v v' s
    using that by (auto simp: createHub_def initializeSequence_def hist_def newHub_def Let_def split: option.splits prod.splits sum.splits)
  note created = this
  show ?thesis
  proof (cases "map_of (m_hubs M) room")
    case None
    obtain l w1 where l: "(case m_leaseStore M of None \<Rightarrow> (Inr None, w)
        | Some ls \<Rightarrow> (case le_Acquire ls token room w of (Inl err, w1) \<Rightarrow> (Inl err, w1) | (Inr l, w1) \<Rightarrow> (Inr (Some l), w1))) = (l, w1)"
      (is "?acquire = _") by (cases ?acquire)
    obtain s M1 w2 where c: "createHub lru p room M w1 = (s, M1, w2)" by (metis prod_cases3)
    have "getOrCreate lru p token now room M w = (case l of Inl err \<Rightarrow> (Inl err, M, w1)
        | Inr lease \<Rightarrow> (case s of Inl err \<Rightarrow> (Inl err, M1, releaseAcquiredLease lease M1 w2) | Inr i \<Rightarrow> (Inr (i, True), trackLease now lease M1, w2)))"
      using None by (simp add: getOrCreate_def l c split: sum.splits)
    with assms created [OF c] show ?thesis by (auto simp: track split: sum.splits)
  qed (use assms in \<open>simp add: getOrCreate_def split: if_splits\<close>)
qed

section \<open>A hub hands a task over\<close>

text \<open>Handling a message either numbers it, and then a slot was reserved and the task is in the channel, or leaves the channels alone.\<close>

lemma handleBroadcast_pipe:
  assumes run: "handleBroadcast lru newV7 now m h p = (out, h', p')" and ok: "slots_ok p" "int64 (lastSequence h)" and pe: "persists h"
  shows "h_id h' = h_id h \<and>
    (case newly_issued out of [] \<Rightarrow> p' = p
     | m' # _ \<Rightarrow> \<exists>p1. reservePersistSlot p = (True, p1) \<and> p' = p1\<lparr>persistCh := persistCh p1 @ [\<lparr>task_msg = m', task_ack = Some (h_id h)\<rparr>]\<rparr>)"
proof -
  obtain ex cache where g: "(if ClientMsgID m \<noteq> [] then lru_Get lru (idempotencyCache h) (ClientMsgID m)
      else (False, idempotencyCache h)) = (ex, cache)" by fastforce
  let ?h = "h\<lparr>idempotencyCache := cache\<rparr>"
  show ?thesis
  proof (cases ex)
    case True
    with run g show ?thesis by (auto simp: handleBroadcast_def newly_issued_def)
  next
    case False
    obtain o1 m1 h1 p1 where f: "fanOut newV7 now m ?h p = (o1, m1, h1, p1)" by (metis surj_pair)
    have out: "out = Some (o1, m1)" "p' = p1" "h_id h' = h_id h1" using run g False f by (auto simp: handleBroadcast_def split: if_splits)
    have pre: "persists ?h \<longrightarrow> slots_ok p" "int64 (lastSequence ?h)" using ok by auto
    from f pre show ?thesis
    proof (cases rule: fanOut_cases)
      case (accepted d newID p2)
      have "reservePersistSlot p = (True, p2)" using accepted(5) pe by simp
      with accepted pe out reserve_room(1) [OF ok(1) this] show ?thesis by (simp add: newly_issued_def)
    qed (use out in \<open>simp_all add: newly_issued_def\<close>)
  qed
qed

lemma hub_step_id:
  assumes "hub_step lru S T" "hub_inv start S" "persists (hs S)"
  shows "h_id (hs T) = h_id (hs S)"
  using assms(1)
proof cases
  case (st_handle m ms newV7 now out h' p')
  have "int64 (lastSequence ((hs S)\<lparr>broadcastCh := ms\<rparr>))" using hub_invD(3) [OF assms(2)] by simp
  then show ?thesis using handleBroadcast_pipe [OF st_handle(4) hub_invD(2) [OF assms(2)]] assms(3) st_handle(1) by simp
qed (auto simp: enqueue_attempt_def forceClose_def beginDrain_def run_register_def registerSession_def run_unregister_def forget_session_def
    on_obj_def run_return_def shutdown_eq ack_def dec_pending_def notifyPersistDone_def Let_def split: if_splits option.splits sum.splits)

lemma hub_submits:
  assumes step: "hub_step lru S T" "hub_inv start S" "persists (hs S)" and new: "issued T = issued S @ [m]"
  obtains p1 where "reservePersistSlot (hp S) = (True, p1)" "phase S \<noteq> Stopped" "acks T = acks S"
    "hp T = p1\<lparr>persistCh := persistCh p1 @ [\<lparr>task_msg = m, task_ack = Some (h_id (hs S))\<rparr>]\<rparr>"
  using step(1)
proof cases
  case (st_handle b ms newV7 now out h' p')
  have "int64 (lastSequence ((hs S)\<lparr>broadcastCh := ms\<rparr>))" using hub_invD(3) [OF step(2)] by simp
  from handleBroadcast_pipe [OF st_handle(4) hub_invD(2) [OF step(2)] this] st_handle new step(3) that show ?thesis by auto
qed (use new in simp_all)

section \<open>A step of the pipeline\<close>

text \<open>What all saving functions do: the world moves along \<open>R\<close>, and acknowledgements are added at the end.\<close>

definition saves_along :: "('w \<Rightarrow> 'w \<Rightarrow> bool) \<Rightarrow> 'w pipeline \<Rightarrow> 'w pipeline \<Rightarrow> bool" where
  "saves_along R P Q \<longleftrightarrow> R (pl_world P) (pl_world Q) \<and> prefix (pl_acks P) (pl_acks Q)"

definition saving :: "('w \<Rightarrow> 'w \<Rightarrow> bool) \<Rightarrow> 'w MessageStore \<Rightarrow> persistTask list \<Rightarrow> bool" where
  "saving R ms ts \<longleftrightarrow> (\<forall>w. R w (snd (ms_SaveMany ms (messagesFromPersistTasks ts) w)))"


lemma saves_along_refl: "reflp R \<Longrightarrow> pl_world Q = pl_world P \<Longrightarrow> pl_acks Q = pl_acks P \<Longrightarrow> saves_along R P Q"
  by (simp add: saves_along_def reflpD)

lemma saves_along_trans: "transp R \<Longrightarrow> saves_along R P Q \<Longrightarrow> saves_along R Q U \<Longrightarrow> saves_along R P U"
  unfolding saves_along_def by (meson transpD prefix_order.trans)

lemma saves_along_fields:
  assumes "saves_along R P Q" "pl_world P' = pl_world P" "pl_acks P' = pl_acks P" "pl_world Q' = pl_world Q" "pl_acks Q' = pl_acks Q"
  shows "saves_along R P' Q'"
  using assms by (simp add: saves_along_def)

text \<open>One save, and what is acknowledged or queued after it.\<close>

lemma saves_along_save:
  assumes "saving R ms ts" "ms_SaveMany ms (messagesFromPersistTasks ts) (pl_world P) = (r, w)"
  shows "saves_along R P (P\<lparr>pl_world := w\<rparr>)" "saves_along R P (add_acks us e (P\<lparr>pl_world := w\<rparr>))"
    "saves_along R P (enqueuePersistRetry rand now us err (P\<lparr>pl_world := w\<rparr>))"
proof -
  have "R (pl_world P) w" using assms by (metis saving_def snd_conv)
  then show "saves_along R P (P\<lparr>pl_world := w\<rparr>)" "saves_along R P (add_acks us e (P\<lparr>pl_world := w\<rparr>))"
    "saves_along R P (enqueuePersistRetry rand now us err (P\<lparr>pl_world := w\<rparr>))"
    by (simp_all add: saves_along_def add_acks_def enqueuePersistRetry_def Let_def)
qed

lemma savePersistTasks_along:
  assumes "reflp R" "saving R ms ts"
  shows "saves_along R P (savePersistTasks (Some ms) rand now ts P)"
proof -
  obtain r w where s: "ms_SaveMany ms (messagesFromPersistTasks ts) (pl_world P) = (r, w)" by fastforce
  show ?thesis using saves_along_save [OF assms(2) s] saves_along_refl [OF assms(1), of P P]
    by (auto simp: savePersistTasks_def s Let_def split: option.splits)
qed

lemma worker_flush_along: "reflp R \<Longrightarrow> saving R ms (pl_batches P ! i) \<Longrightarrow> saves_along R P (worker_flush (Some ms) rand now i P)"
  using savePersistTasks_along [of R ms "pl_batches P ! i" P rand now]
  by (auto simp: worker_flush_def saves_along_refl intro: saves_along_fields)

lemma retry_one_along:
  assumes "reflp R" "saving R ms (rt_tasks r)" "retry_one ms rand now r P = (keep, Q)"
  shows "saves_along R P Q"
proof -
  obtain e w where s: "ms_SaveMany ms (messagesFromPersistTasks (rt_tasks r)) (pl_world P) = (e, w)" by fastforce
  show ?thesis using assms(3) saves_along_save [OF assms(2) s] saves_along_refl [OF assms(1), of P P]
    by (auto simp: retry_one_def s Let_def split: if_splits option.splits)
qed

lemma processRetryBatch_along:
  "reflp R \<Longrightarrow> transp R \<Longrightarrow> \<forall>r \<in> set rs. saving R ms (rt_tasks r) \<Longrightarrow> processRetryBatch ms rand now rs P = (keep, Q) \<Longrightarrow> saves_along R P Q"
proof (induction rs arbitrary: P keep Q)
  case (Cons r rs)
  obtain k1 P1 where r: "retry_one ms rand now r P = (k1, P1)" by (metis surj_pair)
  obtain k2 P2 where rest: "processRetryBatch ms rand now rs P1 = (k2, P2)" by (metis surj_pair)
  have "saves_along R P P1" using retry_one_along [OF Cons.prems(1) _ r] Cons.prems(3) by simp
  then show ?case using saves_along_trans [OF Cons.prems(2)] Cons.IH [OF Cons.prems(1,2) _ rest] Cons.prems(3,4) r rest by auto
qed (simp add: saves_along_refl)

lemma drain_saves_along:
  "reflp R \<Longrightarrow> transp R \<Longrightarrow> \<forall>r \<in> set rs. saving R ms (rt_tasks r) \<Longrightarrow> saves_along R P (drain_saves ms rs P)"
proof (induction rs arbitrary: P)
  case (Cons r rs)
  obtain e w where s: "ms_SaveMany ms (messagesFromPersistTasks (rt_tasks r)) (pl_world P) = (e, w)" by fastforce
  have sv: "saving R ms (rt_tasks r)" using Cons.prems(3) by simp
  have "saves_along R P (drain_saves ms rs (add_acks (rt_tasks r) x (P\<lparr>pl_world := w\<rparr>)))" for x
    using saves_along_trans [OF Cons.prems(2) saves_along_save(2) [OF sv s] Cons.IH] Cons.prems by simp
  then show ?case by (simp add: s Let_def split: option.splits)
qed (simp add: saves_along_refl)

lemma pl_step_along:
  assumes step: "pl_step (Some ms) P ts' Q" and R: "reflp R" "transp R"
    and S: "\<And>ts. set ts \<subseteq> set_mset (total P) \<Longrightarrow> saving R ms ts"
  shows "saves_along R P Q"
proof -
  have batch: "saving R ms (pl_batches P ! i)" if "i < length (pl_batches P)" for i
    using that nth_mem [OF that] by (intro S) (auto simp: total_def)
  have retry: "\<forall>r \<in> set (pl_retryBatch P @ pl_retryCh P). saving R ms (rt_tasks r)"
    by (auto intro!: S simp: total_def outside_def rt_mset_def)
  from step show ?thesis
  proof cases
    case (pl_recv i t us rand now)
    let ?P = "P\<lparr>pl_pipe := releasePersistSlot ((pl_pipe P)\<lparr>persistCh := us\<rparr>), pl_batches := (pl_batches P)[i := pl_batches P ! i @ [t]]\<rparr>"
    have "saving R ms (pl_batches ?P ! i)" using pl_recv nth_mem [OF pl_recv(3)] by (intro S) (auto simp: total_def outside_def)
    then have "saves_along R ?P (worker_flush (Some ms) rand now i ?P)" by (rule worker_flush_along [OF R(1)])
    then have "saves_along R P (worker_flush (Some ms) rand now i ?P)" by (rule saves_along_fields) simp_all
    then show ?thesis using pl_recv(2) saves_along_refl [OF R(1), of ?P P] by (simp add: worker_recv_def Let_def)
  next
    case (pl_tick i rand now)
    then show ?thesis using worker_flush_along [OF R(1) batch] by simp
  next
    case (pl_exit i Q0 rand now)
    then show ?thesis using saves_along_fields [OF worker_flush_along [OF R(1) batch [OF pl_exit(3)], of rand now], of P Q] by simp
  next
    case (pl_retry_tick ms' rand now b Q0)
    then have "saves_along R P Q0" using processRetryBatch_along [OF R _ pl_retry_tick(5)] retry by simp
    then show ?thesis using pl_retry_tick(2) by (auto intro: saves_along_fields)
  next
    case (pl_retry_exit ms')
    have "saves_along R (P\<lparr>pl_retryCh := []\<rparr>) (drain_saves ms (pl_retryBatch P @ pl_retryCh P) (P\<lparr>pl_retryCh := []\<rparr>))"
      using drain_saves_along [OF R retry] .
    then show ?thesis using pl_retry_exit(2,3) by (auto simp: drainRetryBatch_def intro: saves_along_fields)
  qed (simp_all add: saves_along_refl [OF R(1)])
qed

lemma pl_step_slots:
  assumes "pl_step store P ts' Q" "slots_ok (pl_pipe P)" "pl_inv ts P"
  shows "slots_ok (pl_pipe Q)"
  using assms(1)
proof cases
  case (pl_submit p1 t)
  then show ?thesis using reserve_room(3) [OF assms(2), of p1] by simp
next
  case (pl_recv i t us rand now)
  let ?P = "P\<lparr>pl_pipe := releasePersistSlot ((pl_pipe P)\<lparr>persistCh := us\<rparr>), pl_batches := (pl_batches P)[i := pl_batches P ! i @ [t]]\<rparr>"
  have "pl_pipe (worker_flush store rand now i ?P) = pl_pipe ?P"
    by (auto simp: worker_flush_def savePersistTasks_def add_acks_def enqueuePersistRetry_def Let_def split: option.splits prod.splits)
  then have "pl_pipe Q = releasePersistSlot ((pl_pipe P)\<lparr>persistCh := us\<rparr>)" using pl_recv(2) by (simp add: worker_recv_def Let_def)
  then show ?thesis using assms(2) pl_recv(4) by (auto simp: slots_ok_def releasePersistSlot_def split: option.splits)
next
  case (pl_tick i rand now)
  then show ?thesis using worker_flush_total(4) [OF pl_tick(3) pl_inv_ack [OF assms(3)], of store rand now] assms(2) by simp
next
  case (pl_exit i Q0 rand now)
  then show ?thesis using worker_flush_total(4) [OF pl_exit(3) pl_inv_ack [OF assms(3)], of store rand now] assms(2) by simp
next
  case (pl_retry_tick ms rand now b Q0)
  have "\<forall>r \<in> set (pl_retryBatch P). with_ack (rt_tasks r)"
    using pl_inv_ack [OF assms(3)] by (auto simp: with_ack_def total_def rt_mset_def)
  then show ?thesis using processRetryBatch_outside [OF _ pl_retry_tick(5)] pl_retry_tick(2) assms(2) by (simp add: pl_frame_def)
next
  case (pl_retry_exit ms)
  have "\<forall>r \<in> set (pl_retryBatch P @ pl_retryCh P). with_ack (rt_tasks r)"
    using pl_inv_ack [OF assms(3)] by (auto simp: with_ack_def total_def outside_def rt_mset_def)
  from drain_saves_outside [OF this, of ms "P\<lparr>pl_retryCh := []\<rparr>"] pl_retry_exit(2) assms(2) show ?thesis
    by (simp add: drainRetryBatch_def pl_frame_def)
qed (use assms(2) in simp_all)

text \<open>When the workers have returned nothing but the retry worker moves, and when it has returned too, nothing does.\<close>

lemma pl_step_no_workers:
  assumes "pl_step store P [] Q" "pl_batches P = []" "pl_inv ts P"
  shows "pl_batches Q = []" "pl_retryDone P \<Longrightarrow> pl_acks Q = pl_acks P \<and> pl_retryDone Q"
proof -
  have rb: "\<forall>r \<in> set (pl_retryBatch P @ pl_retryCh P). with_ack (rt_tasks r)"
    using pl_inv_ack [OF assms(3)] by (auto simp: with_ack_def total_def outside_def rt_mset_def)
  have "pl_batches Q = [] \<and> (pl_retryDone P \<longrightarrow> pl_acks Q = pl_acks P \<and> pl_retryDone Q)"
    using assms(1)
  proof cases
    case (pl_retry_tick ms rand now b Q0)
    then show ?thesis using processRetryBatch_outside [OF _ pl_retry_tick(4)] rb assms(2) by (simp add: pl_frame_def)
  next
    case (pl_retry_exit ms)
    then show ?thesis using drain_saves_outside [OF rb, of ms "P\<lparr>pl_retryCh := []\<rparr>"] assms(2) by (simp add: drainRetryBatch_def pl_frame_def)
  qed (use assms(2) in simp_all)
  then show "pl_batches Q = []" "pl_retryDone P \<Longrightarrow> pl_acks Q = pl_acks P \<and> pl_retryDone Q" by simp_all
qed

lemma pl_inv_world [simp]: "pl_inv ts (P\<lparr>pl_world := w\<rparr>) = pl_inv ts P"
  by (simp add: pl_inv_def total_def)

lemma acks_are_tasks: "pl_inv ts P \<Longrightarrow> mset (map fst (pl_acks P)) \<subseteq># mset ts"
  by (simp add: pl_inv_def total_def outside_def) (metis mset_subset_eq_add_left mset_subset_eq_add_right subset_mset.order_trans union_assoc)

section \<open>The books of the instance\<close>

text \<open>The messages and the acknowledgements that belong to hub \<open>i\<close>.\<close>

definition tasks_of :: "nat \<Rightarrow> persistTask list \<Rightarrow> message list" where
  "tasks_of i ts = map task_msg (filter (\<lambda>t. task_ack t = Some i) ts)"

definition calls_of :: "nat \<Rightarrow> (persistTask \<times> go_error option) list \<Rightarrow> (message \<times> go_error option) list" where
  "calls_of i xs = map (\<lambda>(t, e). (task_msg t, e)) (filter (\<lambda>(t, e). task_ack t = Some i) xs)"

lemma of_append [simp]: "tasks_of i (ts @ us) = tasks_of i ts @ tasks_of i us" "calls_of i (xs @ ys) = calls_of i xs @ calls_of i ys"
  by (simp_all add: tasks_of_def calls_of_def)

lemma of_simps [simp]:
  "tasks_of i [] = []" "tasks_of i (t # ts) = (if task_ack t = Some i then [task_msg t] else []) @ tasks_of i ts"
  "calls_of i [] = []" "calls_of i ((t, e) # xs) = (if task_ack t = Some i then [(task_msg t, e)] else []) @ calls_of i xs"
  by (simp_all add: tasks_of_def calls_of_def)

lemma calls_of_tasks: "map fst (calls_of i xs) = tasks_of i (map fst xs)"
  by (induction xs) (auto simp: calls_of_def tasks_of_def)

lemma tasks_of_mono: "mset ts \<subseteq># mset us \<Longrightarrow> mset (tasks_of i ts) \<subseteq># mset (tasks_of i us)"
  unfolding tasks_of_def mset_map mset_filter by (intro image_mset_subseteq_mono multiset_filter_mono)

lemma tasks_of_mset: "mset ts = mset us \<Longrightarrow> mset (tasks_of i ts) = mset (tasks_of i us)"
  by (simp add: subset_mset.order_antisym tasks_of_mono)

text \<open>
  Every hub has numbered exactly the messages whose tasks name it, in order, and has been told exactly what the pipeline
  decided about them, less the calls that are still to come.
\<close>

definition books :: "('c, 'w) instance_run \<Rightarrow> bool" where
  "books I \<longleftrightarrow>
     (\<forall>i < length (m_heap (ir_mgr I)). \<exists>told. hist (ir_mgr I) ! i = (i, tasks_of i (ir_tasks I), told) \<and>
        mset told + mset (calls_of i (ir_calls I)) = mset (calls_of i (pl_acks (ir_pl I)))) \<and>
     (\<forall>t \<in> set (ir_tasks I). \<exists>i < length (m_heap (ir_mgr I)). task_ack t = Some i) \<and>
     set (ir_calls I) \<subseteq> set (pl_acks (ir_pl I))"

definition phases_ok :: "('c, 'w) instance_run \<Rightarrow> bool" where
  "phases_ok I \<longleftrightarrow>
     (pl_closed (ir_pl I) \<longleftrightarrow> ir_phase I \<in> {PersistClosed, RetryClosed, RunReturned}) \<and>
     (pl_closed (ir_pl I) \<longrightarrow> (\<forall>i < length (m_heap (ir_mgr I)). phase (m_heap (ir_mgr I) ! i) = Stopped)) \<and>
     (ir_phase I \<in> {RetryClosed, RunReturned} \<longrightarrow> pl_batches (ir_pl I) = []) \<and>
     (ir_phase I = RunReturned \<longrightarrow> pl_retryDone (ir_pl I) \<and> ir_calls I = [])"

lemma booksD:
  assumes "books I" "i < length (m_heap (ir_mgr I))"
  shows "h_id (hs (m_heap (ir_mgr I) ! i)) = i" "issued (m_heap (ir_mgr I) ! i) = tasks_of i (ir_tasks I)"
    "mset (acks (m_heap (ir_mgr I) ! i)) + mset (calls_of i (ir_calls I)) = mset (calls_of i (pl_acks (ir_pl I)))"
  using assms by (auto simp: books_def hist_nth)

text \<open>Steps that touch no hub's history keep the books, and so does a new hub.\<close>

lemma books_same:
  assumes "books I" "hist M = hist (ir_mgr I)"
  shows "books (with_mgr M w I)"
  using assms length_hist [of M] by (simp add: books_def with_mgr_def)

lemma books_new:
  assumes "books I" "pl_inv (ir_tasks I) (ir_pl I)" "hist M = hist (ir_mgr I) @ [(length (m_heap (ir_mgr I)), [], [])]"
  shows "books (with_mgr M w I)"
proof -
  let ?n = "length (m_heap (ir_mgr I))"
  have n: "length (m_heap M) = Suc ?n" using arg_cong [OF assms(3), of length] by simp
  have old: "task_ack t \<noteq> Some ?n" if "t \<in> set (ir_tasks I)" for t using assms(1) that by (auto simp: books_def)
  have "t \<in> set (ir_tasks I)" if "(t, e) \<in> set (pl_acks (ir_pl I))" for t e
    using mset_subset_eqD [OF acks_are_tasks [OF assms(2)], of t] that by force
  then have none: "tasks_of ?n (ir_tasks I) = []" "calls_of ?n (pl_acks (ir_pl I)) = []" "calls_of ?n (ir_calls I) = []"
    using old assms(1) by (auto simp: tasks_of_def calls_of_def filter_empty_conv books_def)
  show ?thesis using assms(1,3) none by (auto simp: books_def with_mgr_def n less_Suc_eq nth_append)
qed

text \<open>The numbers of issued messages.\<close>

lemma issued_bounds:
  assumes "hub_good level w S" "m \<in> set (issued S)"
  shows "0 \<le> SequenceNumber m \<and> SequenceNumber m \<le> 2 ^ 53"
proof -
  obtain start where s: "hub_inv start S" "0 \<le> start" "start + int (length (issued S)) \<le> 2 ^ 53"
    using assms(1) by (auto simp: hub_good_def)
  have "SequenceNumber m \<in> set (seqs_from start (length (issued S)))" using hub_invD(4) [OF s(1)] assms(2) by (metis image_eqI set_map)
  then obtain k where "k < length (issued S)" "SequenceNumber m = int64_of (start + 1 + int k)" by (auto simp: seqs_from_def)
  then show ?thesis using s by simp
qed

section \<open>The stores as the whole instance uses them\<close>

text \<open>
  The contract of the manager's stores (\<open>hub_world\<close>) and that of the pipeline's store (\<open>message_store\<close>) on one world: no operation
  of the manager loses what the pipeline saved, and a save lowers no level.
\<close>

locale persist_world = message_store base saved
  for base :: "'w MessageStore" and saved :: "'w \<Rightarrow> message \<Rightarrow> bool" +
  fixes fstore :: "'w SequenceFloorStore" and leases :: "'w LeaseStore"
    and level :: "'w \<Rightarrow> string \<Rightarrow> int" and stored :: "'w \<Rightarrow> message \<Rightarrow> bool" and wf :: "'w \<Rightarrow> bool"
  assumes world: "hub_world base fstore leases level stored (\<lambda>w. wf w \<and> (\<forall>m \<in> A. saved w m))"
    and save_grows: "wf w \<Longrightarrow> \<forall>m \<in> set msgs. 0 \<le> SequenceNumber m \<and> SequenceNumber m \<le> 2 ^ 53 \<Longrightarrow>
          ms_SaveMany base msgs w = (r, w') \<Longrightarrow> wf w' \<and> grows level stored w w'"
begin

text \<open>What may happen to the stores: nothing is lost.\<close>

definition moves :: "'w \<Rightarrow> 'w \<Rightarrow> bool" where
  "moves w w' \<longleftrightarrow> wf w' \<and> grows level stored w w' \<and> (\<forall>m. saved w m \<longrightarrow> saved w' m)"

definition ir_inv :: "('c, 'w) instance_run \<Rightarrow> bool" where
  "ir_inv I \<longleftrightarrow> mgr_inv level base fstore leases {} (ir_mgr I, ir_world I) \<and> wf (ir_world I) \<and> acks_stored (ir_pl I) \<and>
     pl_inv (ir_tasks I) (ir_pl I) \<and> slots_ok (pl_pipe (ir_pl I)) \<and> books I \<and> phases_ok I"

lemma ir_invD:
  assumes "ir_inv I"
  shows "mgr_inv level base fstore leases {} (ir_mgr I, ir_world I)" "wf (ir_world I)" "acks_stored (ir_pl I)"
    "pl_inv (ir_tasks I) (ir_pl I)" "slots_ok (pl_pipe (ir_pl I))" "books I" "phases_ok I"
  using assms by (auto simp: ir_inv_def)

lemma steps_keep:
  assumes "(mgr_step lru moves)\<^sup>*\<^sup>* S T" "mgr_inv level base fstore leases {} S" "wf (snd S)"
  shows "mgr_inv level base fstore leases {} T \<and> wf (snd T) \<and> (\<forall>m. saved (snd S) m \<longrightarrow> saved (snd T) m)"
proof -
  let ?A = "{m. saved (snd S) m}"
  have E: "(wf w' \<and> (\<forall>m \<in> ?A. saved w' m)) \<and> grows level stored w w'" if "moves w w'" "wf w \<and> (\<forall>m \<in> ?A. saved w m)" for w w'
    using that by (auto simp: moves_def)
  have "mgr_inv level base fstore leases {} T \<and> wf (snd T) \<and> (\<forall>m \<in> ?A. saved (snd T) m)"
    using assms(1)
  proof (induction rule: rtranclp_induct)
    case (step U V)
    then show ?case using hub_world.step_inv [OF world step(2) _ _ E] by blast
  qed (use assms(2,3) in simp)
  then show ?thesis by blast
qed

text \<open>A hub as it is in a reachable state, with the channels of the moment.\<close>

lemma hub_now_facts:
  assumes inv: "ir_inv I" and i: "i < length (m_heap (ir_mgr I))"
  obtains start where "hub_inv start (hub_now I i)" "persists (hs (hub_now I i))" "room_queue (hub_now I i)" "lastSequence (hs (hub_now I i)) \<le> 2 ^ 53"
proof -
  note good = mgr_invD(4) [OF ir_invD(1) [OF inv] i]
  obtain start where "hub_inv start (m_heap (ir_mgr I) ! i)" using hub_good_inv [OF good] ..
  then have "hub_inv start (hub_now I i)" using ir_invD(5) [OF inv] by (simp add: hub_inv_def hub_now_def)
  with that good show ?thesis by (simp add: hub_good_def hub_now_def room_queue_def)
qed

lemma sim_hub:
  assumes inv: "ir_inv I" and i: "i < length (m_heap (ir_mgr I))" and step: "hub_step lru (hub_now I i) T"
    and T: "room_queue T" "lastSequence (hs T) \<le> 2 ^ 53"
  shows "(mgr_step lru moves)\<^sup>*\<^sup>* (ir_mgr I, w) ((ir_mgr I)\<lparr>m_heap := (m_heap (ir_mgr I))[i := T]\<rparr>, w)"
proof -
  let ?M = "ir_mgr I" and ?S = "hub_now I i"
  obtain start where S: "room_queue ?S" "lastSequence (hs ?S) \<le> 2 ^ 53" using hub_now_facts [OF inv i] by metis
  have "hub_step lru (m_heap ?M ! i) ?S" unfolding hub_now_def by (rule st_env) (rule ir_invD(5) [OF inv])
  then have 1: "mgr_step lru moves (?M, w) (?M\<lparr>m_heap := (m_heap ?M)[i := ?S]\<rparr>, w)" by (rule ms_hub [OF i _ S])
  let ?N = "?M\<lparr>m_heap := (m_heap ?M)[i := ?S]\<rparr>"
  have "mgr_step lru moves (?N, w) (?N\<lparr>m_heap := (m_heap ?N)[i := T]\<rparr>, w)"
    using i step T by (intro ms_hub) simp_all
  with 1 show ?thesis by simp
qed

text \<open>An acknowledgement that the pipeline decided is for a message its hub still waits for.\<close>

lemma call_outstanding:
  assumes inv: "ir_inv I" and c: "ir_calls I = xs @ (t, err) # ys" "task_ack t = Some i"
  shows "i < length (m_heap (ir_mgr I))" "task_msg t \<in># outstanding (m_heap (ir_mgr I) ! i)"
proof -
  note B = ir_invD(6) [OF inv] and sub = acks_are_tasks [OF ir_invD(4) [OF inv]]
  have "(t, err) \<in> set (pl_acks (ir_pl I))" using B c(1) by (auto simp: books_def)
  then have "t \<in> set (ir_tasks I)" using mset_subset_eqD [OF sub, of t] by force
  then show i: "i < length (m_heap (ir_mgr I))" using B c(2) by (auto simp: books_def)
  let ?S = "m_heap (ir_mgr I) ! i"
  have "mset (map fst (acks ?S)) + mset (map fst (calls_of i (ir_calls I))) = mset (map fst (calls_of i (pl_acks (ir_pl I))))"
    using arg_cong [OF booksD(3) [OF B i], of "image_mset fst"] by simp
  also have "\<dots> \<subseteq># mset (issued ?S)" unfolding calls_of_tasks booksD(2) [OF B i] by (rule tasks_of_mono [OF sub])
  finally have "mset (map fst (calls_of i (ir_calls I))) \<subseteq># outstanding ?S"
    unfolding outstanding_def subseteq_mset_def by (simp add: add_le_imp_le_diff add.commute)
  moreover have "task_msg t \<in># mset (map fst (calls_of i (ir_calls I)))" using c by simp
  ultimately show "task_msg t \<in># outstanding ?S" by (rule mset_subset_eqD)
qed

lemma task_bounds:
  assumes inv: "ir_inv I" and t: "t \<in> set (ir_tasks I)"
  shows "0 \<le> SequenceNumber (task_msg t) \<and> SequenceNumber (task_msg t) \<le> 2 ^ 53"
proof -
  note B = ir_invD(6) [OF inv]
  obtain i where i: "i < length (m_heap (ir_mgr I))" "task_ack t = Some i" using B t by (auto simp: books_def)
  have "task_msg t \<in> set (issued (m_heap (ir_mgr I) ! i))" using booksD(2) [OF B i(1)] t i(2) by (auto simp: tasks_of_def)
  then show ?thesis using issued_bounds [OF mgr_invD(4) [OF ir_invD(1) [OF inv] i(1)]] by blast
qed

lemma work_moves:
  assumes inv: "ir_inv I" and step: "pl_step (m_store (ir_mgr I)) (ir_pl I) [] P"
  shows "moves (ir_world I) (pl_world P)" "prefix (pl_acks (ir_pl I)) (pl_acks P)"
proof -
  let ?R = "\<lambda>w w'. wf w \<longrightarrow> moves w w'"
  have R: "reflp ?R" "transp ?R" by (auto simp: reflp_def transp_def moves_def intro: grows_trans)
  have st: "m_store (ir_mgr I) = Some base" using mgr_invD(1) [OF ir_invD(1) [OF inv]] .
  have tot: "set_mset (total (ir_pl I)) = set (ir_tasks I)" using ir_invD(4) [OF inv] by (simp add: pl_inv_def)
  have S: "saving ?R base ts" if ts: "set ts \<subseteq> set_mset (total (ir_pl I))" for ts
    unfolding saving_def
  proof (intro allI impI)
    fix w assume w: "wf w"
    have "\<forall>m \<in> set (messagesFromPersistTasks ts). 0 \<le> SequenceNumber m \<and> SequenceNumber m \<le> 2 ^ 53"
      using ts task_bounds [OF inv] by (auto simp: messagesFromPersistTasks_def tot)
    from save_grows [OF w this prod.collapse [symmetric]] save_keeps show "moves w (snd (ms_SaveMany base (messagesFromPersistTasks ts) w))"
      by (simp add: moves_def)
  qed
  from pl_step_along [OF step [unfolded st] R S] ir_invD(2) [OF inv]
  show "moves (ir_world I) (pl_world P)" "prefix (pl_acks (ir_pl I)) (pl_acks P)" by (auto simp: saves_along_def)
qed

lemma all_stopped:
  assumes inv: "ir_inv I" and "\<forall>i < length (m_heap (ir_mgr I)). phase (m_heap (ir_mgr I) ! i) = Stopped"
  shows "hubs_stopped (ir_mgr I)"
  using mgr_invD(4,5) [OF ir_invD(1) [OF inv]] assms(2) by (auto simp: hubs_stopped_def list_all_iff hub_good_def)

lemma stopped_all:
  assumes inv: "ir_inv I" and "hubs_stopped (ir_mgr I)" "i < length (m_heap (ir_mgr I))"
  shows "phase (m_heap (ir_mgr I) ! i) = Stopped"
proof (rule ccontr)
  assume run: "phase (m_heap (ir_mgr I) ! i) \<noteq> Stopped"
  note D = mgr_invD [OF ir_invD(1) [OF inv]]
  from D(6) [OF assms(3) run] have "(h_roomID (hs (m_heap (ir_mgr I) ! i)), i) \<in> set (m_hubs (ir_mgr I))" by (rule map_of_SomeD)
  then have "doneCh (hs (m_heap (ir_mgr I) ! i))" using assms(2) by (auto simp: hubs_stopped_def list_all_iff)
  with D(4) [OF assms(3)] run show False by (simp add: hub_good_def)
qed

text \<open>Each step of the instance is a sequence of steps of the manager's system.\<close>

lemma sim_step:
  assumes step: "ir_step lru moves I J" and inv: "ir_inv I"
  shows "(mgr_step lru moves)\<^sup>*\<^sup>* (ir_mgr I, ir_world I) (ir_mgr J, ir_world J)"
  using step
proof cases
  case (ir_create token now room r M w)
  show ?thesis using ms_create [OF ir_invD(5) [OF inv] ir_create(3,4)] ir_create(1) by (simp add: with_mgr_def r_into_rtranclp)
next
  case (ir_cancel room i)
  then show ?thesis using ms_cancel [of lru moves "ir_mgr I" "ir_world I" room i] by (simp add: with_mgr_def r_into_rtranclp)
next
  case (ir_force now room reason b M)
  then show ?thesis using ms_force [OF ir_force(3), of lru moves "ir_world I"] by (simp add: with_mgr_def r_into_rtranclp)
next
  case (ir_done i M w)
  then show ?thesis using ms_done [OF ir_done(3-5), of lru moves] by (simp add: with_mgr_def r_into_rtranclp)
next
  case (ir_renew evs now M w)
  then show ?thesis using ms_renew [OF ir_renew(3), of lru moves] by (simp add: with_mgr_def r_into_rtranclp)
next
  case (ir_poll wt ret M w)
  show ?thesis using ms_poll [OF ir_poll(2,3)] ir_poll(1) by (simp add: with_mgr_def r_into_rtranclp)
next
  case (ir_hub i T)
  obtain start where S: "hub_inv start (hub_now I i)" "lastSequence (hs (hub_now I i)) \<le> 2 ^ 53" using hub_now_facts [OF inv ir_hub(2)] by metis
  have "lastSequence (hs T) = lastSequence (hs (hub_now I i))"
    using hub_invD(3) [OF S(1)] hub_invD(3) [OF hub_step_inv [OF ir_hub(3) S(1)]] ir_hub(5) by simp
  then show ?thesis using sim_hub [OF inv ir_hub(2,3,7)] S(2) ir_hub(1) by (simp add: with_hub_def)
next
  case (ir_submit i T m)
  show ?thesis using sim_hub [OF inv ir_submit(2,3,5,6)] ir_submit(1) by (simp add: with_hub_def)
next
  case (ir_call xs t err ys i S)
  note c = call_outstanding [OF inv ir_call(2,3)]
  note good = mgr_invD(4) [OF ir_invD(1) [OF inv] c(1)]
  let ?T = "S\<lparr>hs := ack err (hs S), acks := acks S @ [(task_msg t, err)]\<rparr>"
  have "hub_step lru S ?T" using c(2) good ir_call(4) by (intro st_ack) (simp_all add: hub_good_def)
  moreover have "room_queue ?T" "lastSequence (hs ?T) \<le> 2 ^ 53" using good ir_call(4) by (auto simp: hub_good_def room_queue_def hub_simps)
  ultimately have "mgr_step lru moves (ir_mgr I, ir_world I) ((ir_mgr I)\<lparr>m_heap := (m_heap (ir_mgr I))[i := ?T]\<rparr>, ir_world I)"
    using ms_hub [OF c(1)] ir_call(4) by simp
  then show ?thesis using ir_call(1) by (simp add: with_hub_def r_into_rtranclp)
next
  case (ir_work P)
  then show ?thesis using ms_world [of moves, OF work_moves(1) [OF inv ir_work(2)], of lru "ir_mgr I"] by (simp add: r_into_rtranclp)
next
  case ir_end
  then show ?thesis using ms_shutdown [of lru moves "ir_mgr I" "ir_world I"] by (simp add: with_mgr_def r_into_rtranclp)
next
  case (ir_return M w)
  have "hubs_stopped (ir_mgr I)" using all_stopped [OF inv] ir_invD(7) [OF inv] ir_return(2) by (simp add: phases_ok_def)
  then show ?thesis using ms_deferred [OF _ ir_return(5), of lru moves] ir_return(1) by (simp add: with_mgr_def r_into_rtranclp)
next
  case (ir_others w)
  then show ?thesis using ms_world [of moves "ir_world I" w lru "ir_mgr I"] by (simp add: with_mgr_def r_into_rtranclp)
qed simp_all

text \<open>The books and phases after a step of one hub.\<close>

lemma hist_update:
  "i < length (m_heap M) \<Longrightarrow> hist (M\<lparr>m_heap := (m_heap M)[i := T]\<rparr>) = (hist M)[i := (h_id (hs T), issued T, acks T)]"
  by (simp add: hist_def map_update)

lemma hub_stays_stopped:
  assumes inv: "ir_inv I" and i: "i < length (m_heap (ir_mgr I))" and step: "hub_step lru (hub_now I i) T" and c: "pl_closed (ir_pl I)"
  shows "phase T = Stopped" "issued T = issued (hub_now I i)"
proof -
  have "phase (hub_now I i) = Stopped" using ir_invD(7) [OF inv] c i by (simp add: phases_ok_def hub_now_def)
  moreover obtain start where "hub_inv start (hub_now I i)" using hub_now_facts [OF inv i] by metis
  ultimately show "phase T = Stopped" "issued T = issued (hub_now I i)" using hub_step_stopped [OF step] by auto
qed

lemma books_hub:
  assumes inv: "ir_inv I" and i: "i < length (m_heap (ir_mgr I))" and step: "hub_step lru (hub_now I i) T"
    and same: "issued T = issued (hub_now I i)" "acks T = acks (hub_now I i)"
  shows "books (with_hub i T I)"
proof -
  obtain start where "hub_inv start (hub_now I i)" "persists (hs (hub_now I i))" using hub_now_facts [OF inv i] by metis
  from hub_step_id [OF step this] same have "(h_id (hs T), issued T, acks T) = hist (ir_mgr I) ! i" using i by (simp add: hist_nth hub_now_def)
  then have "hist ((ir_mgr I)\<lparr>m_heap := (m_heap (ir_mgr I))[i := T]\<rparr>) = hist (ir_mgr I)" using hist_update [OF i, of T] by simp
  then show ?thesis using ir_invD(6) [OF inv] by (simp add: books_def with_hub_def)
qed

lemma books_submit:
  assumes inv: "ir_inv I" and i: "i < length (m_heap (ir_mgr I))" and step: "hub_step lru (hub_now I i) T"
    and new: "issued T = issued (hub_now I i) @ [m]"
  shows "books (with_hub i T (I\<lparr>ir_pl := (ir_pl I)\<lparr>pl_pipe := hp T\<rparr>, ir_tasks := ir_tasks I @ [\<lparr>task_msg = m, task_ack = Some i\<rparr>]\<rparr>))"
proof -
  note B = ir_invD(6) [OF inv]
  obtain start where S: "hub_inv start (hub_now I i)" "persists (hs (hub_now I i))" using hub_now_facts [OF inv i] by metis
  have "acks T = acks (hub_now I i)" using hub_submits [OF step S new] by blast
  with hub_step_id [OF step S] hist_update [OF i, of T] booksD(1,2) [OF B i] new
  have "hist ((ir_mgr I)\<lparr>m_heap := (m_heap (ir_mgr I))[i := T]\<rparr>) = (hist (ir_mgr I))[i := (i, tasks_of i (ir_tasks I) @ [m], acks (m_heap (ir_mgr I) ! i))]"
    by (simp add: hub_now_def)
  then show ?thesis using B booksD(3) [OF B i] i by (auto simp: books_def with_hub_def nth_list_update)
qed

lemma books_call:
  assumes inv: "ir_inv I" and call: "ir_calls I = xs @ (t, err) # ys" "task_ack t = Some i"
  shows "let S = m_heap (ir_mgr I) ! i
     in books (with_hub i (S\<lparr>hs := ack err (hs S), acks := acks S @ [(task_msg t, err)]\<rparr>) (I\<lparr>ir_calls := xs @ ys\<rparr>))"
proof -
  note B = ir_invD(6) [OF inv] and c = call_outstanding [OF inv call]
  let ?S = "m_heap (ir_mgr I) ! i"
  let ?T = "?S\<lparr>hs := ack err (hs ?S), acks := acks ?S @ [(task_msg t, err)]\<rparr>"
  have "h_id (ack err (hs ?S)) = h_id (hs ?S)" by (simp add: ack_def dec_pending_def notifyPersistDone_def Let_def)
  with hist_update [OF c(1), of ?T] booksD(1,2) [OF B c(1)]
  have "hist ((ir_mgr I)\<lparr>m_heap := (m_heap (ir_mgr I))[i := ?T]\<rparr>) = (hist (ir_mgr I))[i := (i, tasks_of i (ir_tasks I), acks ?S @ [(task_msg t, err)])]" by simp
  then show ?thesis using B booksD(3) [OF B c(1)] call c(1) by (auto simp: books_def with_hub_def nth_list_update Let_def)
qed

lemma books_step:
  assumes step: "ir_step lru moves I J" and inv: "ir_inv I"
  shows "books J"
proof -
  note B = ir_invD(6) [OF inv]
  from step show ?thesis
  proof cases
    case (ir_create token now room r M w)
    then show ?thesis using hist_create [OF ir_create(4)] books_same [OF B] books_new [OF B ir_invD(4) [OF inv]] by auto
  next
    case (ir_done i M w)
    then show ?thesis using books_same [OF B hist_heap [OF heap_hubDone [OF ir_done(5)]]] by simp
  next
    case (ir_poll wt ret M w)
    then show ?thesis using heap_poll [OF ir_poll(3)] by (auto intro!: books_same [OF B] hist_heap)
  next
    case (ir_return M w)
    then show ?thesis using books_same [OF B hist_heap [OF heap_deferred [OF ir_return(5)]]] by (simp add: books_def)
  next
    case (ir_end)
    then show ?thesis using books_same [OF B hist_shutdown] by (simp add: books_def)
  next
    case (ir_hub i T)
    then show ?thesis using books_hub [OF inv ir_hub(2,3,5,6)] by simp
  next
    case (ir_submit i T m)
    then show ?thesis using books_submit [OF inv ir_submit(2,3,4)] by simp
  next
    case (ir_call xs t err ys i S)
    then show ?thesis using books_call [OF inv ir_call(2,3)] by (simp add: Let_def)
  next
    case (ir_work P)
    obtain new where new: "pl_acks P = pl_acks (ir_pl I) @ new" using work_moves(2) [OF inv ir_work(2)] by (auto elim: prefixE)
    show ?thesis using B unfolding ir_work(1) by (auto simp: books_def new)
  next
    case (ir_force now room reason b M)
    then show ?thesis using books_same [OF B hist_force [OF ir_force(3)]] by simp
  next
    case (ir_renew evs now M w)
    then show ?thesis using books_same [OF B hist_renew [OF ir_renew(3)]] by simp
  next
    case (ir_cancel room i)
    then show ?thesis using books_same [OF B hist_cancel] by simp
  next
    case (ir_others w)
    then show ?thesis using books_same [OF B] by simp
  qed (use B in \<open>simp_all add: books_def\<close>)
qed

lemma phases_step:
  assumes step: "ir_step lru moves I J" and inv: "ir_inv I"
  shows "phases_ok J"
proof -
  note F = ir_invD(7) [OF inv, unfolded phases_ok_def]
  from step show ?thesis
  proof cases
    case (ir_poll wt ret M w)
    then show ?thesis using F heap_poll [OF ir_poll(3)] by (auto simp: phases_ok_def with_mgr_def)
  next
    case (ir_renew evs now M w)
    then show ?thesis using F phase_renew [OF ir_renew(3)] by (auto simp: phases_ok_def with_mgr_def)
  next
    case (ir_hub i T)
    then show ?thesis using F hub_stays_stopped(1) [OF inv ir_hub(2,3)] by (auto simp: phases_ok_def with_hub_def nth_list_update)
  next
    case (ir_submit i T m)
    then show ?thesis using F hub_stays_stopped(2) [OF inv ir_submit(2,3)] by (auto simp: phases_ok_def with_hub_def)
  next
    case (ir_call xs t err ys i S)
    then show ?thesis using F call_outstanding(1) [OF inv ir_call(2,3)] by (auto simp: phases_ok_def with_hub_def nth_list_update)
  next
    case (ir_work P)
    note W = pl_step_no_workers [OF ir_work(2) _ ir_invD(4) [OF inv]]
    show ?thesis using F W ir_work(3,4) unfolding ir_work(1) by (auto simp: phases_ok_def)
  next
    case ir_close
    then show ?thesis using F stopped_all [OF inv ir_close(3)] by (auto simp: phases_ok_def)
  next
    case (ir_return M w)
    then show ?thesis using F heap_deferred [OF ir_return(5)] by (auto simp: phases_ok_def with_mgr_def)
  qed (use F in \<open>auto simp: phases_ok_def with_mgr_def\<close>)
qed

lemma pipeline_step:
  assumes step: "ir_step lru moves I J" and inv: "ir_inv I"
  shows "pl_inv (ir_tasks J) (ir_pl J) \<and> slots_ok (pl_pipe (ir_pl J))"
proof -
  note P = ir_invD(4,5) [OF inv]
  from step show ?thesis
  proof cases
    case (ir_submit i T m)
    obtain start where S: "hub_inv start (hub_now I i)" "persists (hs (hub_now I i))" using hub_now_facts [OF inv ir_submit(2)] by metis
    obtain p1 where p: "reservePersistSlot (hp (hub_now I i)) = (True, p1)" "phase (hub_now I i) \<noteq> Stopped"
      "hp T = p1\<lparr>persistCh := persistCh p1 @ [\<lparr>task_msg = m, task_ack = Some (h_id (hs (hub_now I i)))\<rparr>]\<rparr>"
      using hub_submits [OF ir_submit(3) S ir_submit(4)] by blast
    have "\<not> pl_closed (ir_pl I)" using p(2) ir_invD(7) [OF inv] ir_submit(2) by (auto simp: phases_ok_def hub_now_def)
    moreover have "h_id (hs (hub_now I i)) = i" using booksD(1) [OF ir_invD(6) [OF inv] ir_submit(2)] by (simp add: hub_now_def)
    ultimately have "pl_step None (ir_pl I) [\<lparr>task_msg = m, task_ack = Some i\<rparr>] ((ir_pl I)\<lparr>pl_pipe := hp T\<rparr>)"
      using p(1,3) reserve_room(2) [OF P(2), of p1] pl_submit [of "ir_pl I" p1 "\<lparr>task_msg = m, task_ack = Some i\<rparr>" None] by (simp add: hub_now_def)
    from pl_step_inv [OF this P(1)] pl_step_slots [OF this P(2,1)] ir_submit(1) show ?thesis by (simp add: with_hub_def)
  next
    case (ir_work Q)
    from pl_step_inv [OF ir_work(2) P(1)] pl_step_slots [OF ir_work(2) P(2,1)] ir_work(1) show ?thesis by simp
  next
    case ir_close
    then show ?thesis using P by (simp add: pl_inv_def total_def)
  qed (use P in \<open>simp_all add: with_mgr_def with_hub_def\<close>)
qed

lemma acked_step:
  assumes step: "ir_step lru moves I J" and inv: "ir_inv I" and kept: "\<forall>m. saved (ir_world I) m \<longrightarrow> saved (ir_world J) m"
  shows "acks_stored (ir_pl J)"
proof -
  note A = ir_invD(3) [OF inv]
  from step show ?thesis
  proof cases
    case (ir_work Q)
    have "m_store (ir_mgr I) = Some base" using mgr_invD(1) [OF ir_invD(1) [OF inv]] .
    then show ?thesis using acks_stored_step [OF _ A] ir_work by simp
  qed (use A kept in \<open>auto simp: acks_stored_def with_mgr_def with_hub_def\<close>)
qed

lemma ir_step_inv:
  assumes step: "ir_step lru moves I J" and inv: "ir_inv I"
  shows "ir_inv J"
  using steps_keep [OF sim_step [OF step inv]] ir_invD(1,2) [OF inv] books_step [OF step inv] phases_step [OF step inv]
    pipeline_step [OF step inv] acked_step [OF step inv] by (simp add: ir_inv_def)

lemma ir_start_inv: "wf w \<Longrightarrow> ir_inv (run_start cfg base fstore leases dts w)"
  by (simp add: ir_inv_def run_start_def mgr_inv_def SetRoomLeaseStore_def SetSequenceFloorStore_def NewManager_def Let_def acks_stored_def
      NewPipeline_def pl_inv_def total_def outside_def with_ack_def workerPoolSize_def slots_ok_def books_def phases_ok_def)

lemma ir_reach:
  assumes "wf w" "(ir_step lru moves)\<^sup>*\<^sup>* (run_start cfg base fstore leases dts w) I"
  shows "ir_inv I \<and> mgr_reach lru base fstore leases moves wf (ir_mgr I, ir_world I)"
  using assms(2)
proof (induction rule: rtranclp_induct)
  case base
  show ?case using ir_start_inv [OF assms(1)] mr_init [where wf = wf and w = w and lru = lru and E = moves, OF assms(1)]
    by (simp add: run_start_def NewPipeline_def)
next
  case (step I J)
  have "mgr_reach lru base fstore leases moves wf T" if "(mgr_step lru moves)\<^sup>*\<^sup>* (ir_mgr I, ir_world I) T" for T
    using that by (induction rule: rtranclp_induct) (use step.IH in \<open>auto intro: mr_step\<close>)
  then show ?case using sim_step [OF step.hyps(2)] ir_step_inv [OF step.hyps(2)] step.IH by blast
qed

end

section \<open>The stores of the WebSocket service\<close>

context mongo
begin

lemma SaveMany_docs: "set (docs (snd (SaveMany col msgs m))) \<subseteq> set (docs m) \<union> set msgs"
proof (cases "col_InsertMany col msgs m")
  case (Pair r m')
  have "set (docs m') \<subseteq> set (docs m) \<union> set msgs"
  proof (cases r)
    case InsertOk
    then show ?thesis using insert_ok [of msgs m m'] Pair by simp
  next
    case (BulkWrite wes)
    then obtain ins where "docs m' = docs m @ ins" "set ins \<subseteq> set msgs" using insert_bulk [of msgs m wes m'] Pair by auto
    then show ?thesis by auto
  next
    case (InsertErr err)
    then obtain ins where "docs m' = docs m @ ins" "set ins \<subseteq> set msgs" using insert_err [of msgs m err m'] Pair by auto
    then show ?thesis by auto
  qed
  then show ?thesis by (auto simp: SaveMany_def Pair split: insert_result.splits option.splits)
qed

lemma adapter_docs:
  assumes "adapter_SaveMany cfg uuid col msgs w = (r, w')"
  shows "cm_SequenceNumber ` set (docs (cw_db w')) \<subseteq> cm_SequenceNumber ` set (docs (cw_db w)) \<union> SequenceNumber ` set msgs"
proof -
  have reqs: "map cm_SequenceNumber ms = map cr_SequenceNumber rs" if "messages_from_requests cfg uuid fresh now rs = Inr ms" for fresh now rs ms
    using that by (induction rs arbitrary: fresh ms) (auto simp: messageFromRequest_def Let_def split: sum.splits if_splits)
  have "cm_SequenceNumber ` set (docs (snd (BatchCreateMessages cfg uuid col fresh now (map to_request msgs) m))) \<subseteq>
      cm_SequenceNumber ` set (docs m) \<union> SequenceNumber ` set msgs" for fresh now m
  proof (cases "messages_from_requests cfg uuid fresh now (map to_request msgs)")
    case (Inr ms)
    have "cm_SequenceNumber ` set ms \<subseteq> SequenceNumber ` set msgs" using arg_cong [OF reqs [OF Inr], of set] by (auto simp: to_request_def)
    then show ?thesis using SaveMany_docs [of ms m] by (cases "SaveMany col ms m") (auto simp: BatchCreateMessages_def Inr split: option.splits)
  qed (simp add: BatchCreateMessages_def)
  note batch = this
  obtain a where rp: "rpc (\<lambda>ce m. case BatchCreateMessages cfg uuid col (ce_fresh ce) (ce_now ce) (map to_request msgs) m of
          (None, m') \<Rightarrow> (Inr (), m') | (Some err, m') \<Rightarrow> (Inl err, m')) w = (a, w')"
    using assms by (auto simp: adapter_SaveMany_def split: prod.splits sum.splits)
  have "cw_db w' = cw_db w \<or> (\<exists>fresh now. cw_db w' = snd (BatchCreateMessages cfg uuid col fresh now (map to_request msgs) (cw_db w)))"
    using rpc_state [OF rp] by (auto split: prod.splits option.splits) (metis snd_conv)+
  then show ?thesis using batch by (elim disjE exE) simp_all
qed

end

definition cluster_saved :: "('m \<Rightarrow> chat_message list) \<Rightarrow> ('r, 'm) cluster \<Rightarrow> message \<Rightarrow> bool" where
  "cluster_saved docs w m = chat_stored docs (cl_chat w) m"

lemma cluster_message_store:
  assumes "mongo col docs"
  shows "message_store (cluster_store cfg uuid col) (cluster_saved docs)"
proof
  fix msgs w w' m err
  note A = adapter_message_store [OF assms, of cfg uuid]
  have run: "ms_SaveMany (cluster_store cfg uuid col) msgs w = (r, w') \<Longrightarrow> ms_SaveMany (newChatStoreAdapter cfg uuid col) msgs (cl_chat w) = (r, cl_chat w')" for r w w'
    by (auto simp: cluster_store_def chat_call_def Let_def split: prod.splits)
  show "ms_SaveMany (cluster_store cfg uuid col) msgs w = (None, w') \<Longrightarrow> m \<in> set msgs \<Longrightarrow> cluster_saved docs w' m"
    using message_store.save_ok [OF A run] by (simp add: cluster_saved_def)
  show "ms_SaveMany (cluster_store cfg uuid col) msgs w = (Some err, w') \<Longrightarrow> status_code err = AlreadyExists \<Longrightarrow> m \<in> set msgs \<Longrightarrow> cluster_saved docs w' m"
    using message_store.save_exists [OF A run] by (simp add: cluster_saved_def)
  show "cluster_saved docs w m \<Longrightarrow> cluster_saved docs (snd (ms_SaveMany (cluster_store cfg uuid col) msgs w)) m"
    using message_store.save_keeps [OF A, of "cl_chat w" m msgs] run [OF prod.collapse [symmetric], of w] by (simp add: cluster_saved_def)
qed

text \<open>The other operations leave the documents alone.\<close>

lemma cluster_docs_same:
  assumes "mongo col docs" "cluster_wf view docs w"
  shows "ms_GetLastSequenceNumber (sequenceFloorMessageStore (cluster_store cfg uuid col) (cluster_floor api)) room w = (r, w') \<Longrightarrow> cluster_saved docs w' = cluster_saved docs w"
    "fs_SetMax (cluster_floor api) room seq w = (e, w') \<Longrightarrow> cluster_saved docs w' = cluster_saved docs w"
    "le_Acquire (cluster_leases api addr) token room w = (lr, w') \<Longrightarrow> cluster_saved docs w' = cluster_saved docs w"
    "le_RenewBatch (cluster_leases api addr) ls w = (rs, w') \<Longrightarrow> cluster_saved docs w' = cluster_saved docs w"
    "le_Release (cluster_leases api addr) lo w = (e, w') \<Longrightarrow> cluster_saved docs w' = cluster_saved docs w"
proof -
  have same: "cluster_saved docs v = cluster_saved docs w" if "docs (cw_db (cl_chat v)) = docs (cw_db (cl_chat w))" for v
    using that by (simp add: cluster_saved_def chat_stored_def fun_eq_iff)
  show "fs_SetMax (cluster_floor api) room seq w = (e, w') \<Longrightarrow> cluster_saved docs w' = cluster_saved docs w"
    "le_Acquire (cluster_leases api addr) token room w = (lr, w') \<Longrightarrow> cluster_saved docs w' = cluster_saved docs w"
    "le_RenewBatch (cluster_leases api addr) ls w = (rs, w') \<Longrightarrow> cluster_saved docs w' = cluster_saved docs w"
    "le_Release (cluster_leases api addr) lo w = (e, w') \<Longrightarrow> cluster_saved docs w' = cluster_saved docs w"
    by (auto simp: cluster_floor_def cluster_leases_def Let_def elim!: redis_callE intro!: same)
  obtain r1 c1 where a: "adapter_GetLastSequenceNumber col room (cl_chat w) = (r1, c1)" by fastforce
  have "docs (cw_db c1) = docs (cw_db (cl_chat w))" using adapter_last(1) [OF assms(1) _ a] assms(2) by (simp add: cluster_wf_def)
  then show "ms_GetLastSequenceNumber (sequenceFloorMessageStore (cluster_store cfg uuid col) (cluster_floor api)) room w = (r, w') \<Longrightarrow> cluster_saved docs w' = cluster_saved docs w"
    using a by (auto simp: sequenceFloorMessageStore_def sfms_GetLastSequenceNumber_def cluster_store_def cluster_floor_def Let_def
        newChatStoreAdapter_def chat_call_def redis_call_def intro!: same split: sum.splits prod.splits)
qed

lemma cluster_persist_world:
  assumes R: "redis api view clock" and M: "mongo col docs"
  shows "persist_world (cluster_store cfg uuid col) (cluster_saved docs) (cluster_floor api) (cluster_leases api addr)
    (cluster_level view docs) (cluster_stored docs) (cluster_wf view docs)"
proof -
  note H = cluster_world [OF R M, of cfg uuid addr]
  have world: "hub_world (cluster_store cfg uuid col) (cluster_floor api) (cluster_leases api addr) (cluster_level view docs) (cluster_stored docs)
      (\<lambda>w. cluster_wf view docs w \<and> (\<forall>m \<in> A. cluster_saved docs w m))" for A
    by (unfold_locales; elim conjE)
      (use hub_world.get_seq [OF H] hub_world.set_max [OF H] hub_world.level_bounds [OF H] hub_world.stored_level [OF H] hub_world.acquire [OF H]
        hub_world.renew [OF H] hub_world.release [OF H] cluster_docs_same [OF M] in metis)+
  have "cluster_wf view docs w' \<and> grows (cluster_level view docs) (cluster_stored docs) w w'"
    if wf: "cluster_wf view docs w" and b: "\<forall>m \<in> set msgs. 0 \<le> SequenceNumber m \<and> SequenceNumber m \<le> 2 ^ 53"
      and run: "ms_SaveMany (cluster_store cfg uuid col) msgs w = (r, w')" for w w' msgs r
  proof -
    have a: "adapter_SaveMany cfg uuid col msgs (cl_chat w) = (r, cl_chat w')" "cl_redis w' = cl_redis w"
      using run by (auto simp: cluster_store_def chat_call_def newChatStoreAdapter_def Let_def split: prod.splits)
    let ?d = "docs (cw_db (cl_chat w))" and ?d' = "docs (cw_db (cl_chat w'))"
    obtain ins where ins: "?d' = ?d @ ins" using mongo.adapter_save(1) [OF M a(1)] ..
    have "0 \<le> cm_SequenceNumber d \<and> cm_SequenceNumber d \<le> 2 ^ 53" if "d \<in> set ?d'" for d
    proof -
      have "cm_SequenceNumber d \<in> cm_SequenceNumber ` set ?d \<union> SequenceNumber ` set msgs" using mongo.adapter_docs [OF M a(1)] that by blast
      then show ?thesis using wf b by (auto simp: cluster_wf_def)
    qed
    then have wf': "cluster_wf view docs w'" using wf a(2) by (simp add: cluster_wf_def)
    have "db_last ?d room \<le> db_last ?d' room" for room
      unfolding db_last_def ins by (rule Max_mono) (auto simp: room_docs_def)
    then have "cluster_level view docs w room \<le> cluster_level view docs w' room" for room
      unfolding cluster_level_def a(2) by (intro max.mono) simp_all
    then show ?thesis using wf' ins by (auto simp: grows_def cluster_stored_def numbered_def room_docs_def)
  qed
  then show ?thesis using world cluster_message_store [OF M] by (simp add: persist_world_def persist_world_axioms_def)
qed

interpretation mem_persist: persist_world "cluster_store cfg uuid mem_col" "cluster_saved (\<lambda>ds. ds)" "cluster_floor mem_api" "cluster_leases mem_api addr"
  "cluster_level mem_keys (\<lambda>ds. ds)" "cluster_stored (\<lambda>ds. ds)" "cluster_wf mem_keys (\<lambda>ds. ds)" for cfg uuid addr
  by (rule cluster_persist_world [OF mem.redis_axioms mem_mongo.mongo_axioms])

section \<open>What an instance guarantees\<close>

text \<open>
  The states an instance can reach on a Redis server and a collection, while others change the stores in any way that loses no
  stored message, whatever it is found by, and lowers no level.
\<close>

definition instance_reach ::
  "'c lru_api \<Rightarrow> 'r redis_api \<Rightarrow> ('r \<Rightarrow> keyspace) \<Rightarrow> 'm collection \<Rightarrow> ('m \<Rightarrow> chat_message list) \<Rightarrow> ChatConfig \<Rightarrow> uuid_api \<Rightarrow> string \<Rightarrow>
   ('c, ('r, 'm) cluster) instance_run \<Rightarrow> bool" where
  "instance_reach lru api view col docs cfg uuid addr I \<longleftrightarrow>
     (\<exists>mcfg dts w. cluster_wf view docs w \<and>
        (ir_step lru (\<lambda>v v'. cluster_wf view docs v' \<and> grows (cluster_level view docs) (cluster_stored docs) v v' \<and>
             (\<forall>m. cluster_saved docs v m \<longrightarrow> cluster_saved docs v' m)))\<^sup>*\<^sup>*
          (run_start mcfg (cluster_store cfg uuid col) (cluster_floor api) (cluster_leases api addr) dts w) I)"

lemma instance_reach_inv:
  assumes R: "redis api view clock" and M: "mongo col docs" and I: "instance_reach lru api view col docs cfg uuid addr I"
  shows "persist_world.ir_inv (cluster_store cfg uuid col) (cluster_saved docs) (cluster_floor api) (cluster_leases api addr)
      (cluster_level view docs) (cluster_wf view docs) I"
    and "mgr_reach lru (cluster_store cfg uuid col) (cluster_floor api) (cluster_leases api addr)
      (\<lambda>v v'. cluster_wf view docs v' \<and> grows (cluster_level view docs) (cluster_stored docs) v v' \<and>
         (\<forall>m. cluster_saved docs v m \<longrightarrow> cluster_saved docs v' m)) (cluster_wf view docs) (ir_mgr I, ir_world I)"
proof -
  note P = cluster_persist_world [OF R M, of cfg uuid addr]
  have E: "persist_world.moves (cluster_saved docs) (cluster_level view docs) (cluster_stored docs) (cluster_wf view docs) =
      (\<lambda>v v'. cluster_wf view docs v' \<and> grows (cluster_level view docs) (cluster_stored docs) v v' \<and> (\<forall>m. cluster_saved docs v m \<longrightarrow> cluster_saved docs v' m))"
    by (intro ext) (simp add: persist_world.moves_def [OF P])
  note G = persist_world.ir_reach [OF P, unfolded E]
  show "persist_world.ir_inv (cluster_store cfg uuid col) (cluster_saved docs) (cluster_floor api) (cluster_leases api addr)
      (cluster_level view docs) (cluster_wf view docs) I"
    "mgr_reach lru (cluster_store cfg uuid col) (cluster_floor api) (cluster_leases api addr)
      (\<lambda>v v'. cluster_wf view docs v' \<and> grows (cluster_level view docs) (cluster_stored docs) v v' \<and>
         (\<forall>m. cluster_saved docs v m \<longrightarrow> cluster_saved docs v' m)) (cluster_wf view docs) (ir_mgr I, ir_world I)"
    using I G unfolding instance_reach_def by blast+
qed

lemma mgr_reach_mono:
  assumes "mgr_reach lru base fstore leases E ok S" "\<And>w w'. E w w' \<Longrightarrow> F w w'"
  shows "mgr_reach lru base fstore leases F ok S"
  using assms(1)
proof (induction rule: mgr_reach.induct)
  case (mr_step S T)
  from mr_step.hyps(2) have "mgr_step lru F S T"
  proof cases
    case (ms_poll wt M w ret M' w')
    then show ?thesis using mgr_step.ms_poll [of wt M w ret M' w' lru F] by simp
  qed (auto intro: mgr_step.intros assms(2))
  with mr_step.IH show ?case by (rule mgr_reach.mr_step)
qed (rule mgr_reach.mr_init)

text \<open>C13: The whole instance behaves as the manager's system promises: in every reachable state of an instance, with its hubs, its workers, its
  retry queue and its shutdown interleaved in any way, manager and stores are in a state that the manager's
  system reaches, so what is proved of that system holds of the instance; and each hub's counter of unacknowledged
  messages is exactly the number of its messages that are in the pipeline plus the acknowledgements on their way to it.\<close>

theorem instance_refines_manager:
  assumes "redis api view clock" and "mongo col docs" and "instance_reach lru api view col docs cfg uuid addr I"
  shows "cluster_reach lru api view col docs cfg uuid addr (ir_mgr I, ir_world I) \<and>
    (\<forall>i < length (m_heap (ir_mgr I)). pendingPersist (hs (m_heap (ir_mgr I) ! i)) =
       int (size {#t \<in># in_flight (ir_pl I). task_ack t = Some i#}) + int (length (calls_of i (ir_calls I))))"
proof (intro conjI allI impI)
  note P = cluster_persist_world [OF assms(1,2), of cfg uuid addr] and R = instance_reach_inv [OF assms]
  note inv = persist_world.ir_invD [OF P R(1)]
  show "cluster_reach lru api view col docs cfg uuid addr (ir_mgr I, ir_world I)"
    unfolding cluster_reach_def by (rule mgr_reach_mono [OF R(2)]) blast
  fix i assume i: "i < length (m_heap (ir_mgr I))"
  let ?S = "m_heap (ir_mgr I) ! i"
  have good: "hub_good (cluster_level view docs) (ir_world I) ?S" using mgr_invD(4) [OF inv(1) i] .
  then obtain start where h: "hub_inv start ?S" "persists (hs ?S)" by (auto simp: hub_good_def)
  have "pendingPersist (hs ?S) = int (length (issued ?S)) - int (length (acks ?S))" using hub_invD(6) [OF h(1)] h(2) by simp
  moreover have "length (acks ?S) + length (calls_of i (ir_calls I)) = length (calls_of i (pl_acks (ir_pl I)))"
    using arg_cong [OF booksD(3) [OF inv(6) i], of size] by simp
  moreover have "length (issued ?S) = size {#t \<in># in_flight (ir_pl I). task_ack t = Some i#} + length (calls_of i (pl_acks (ir_pl I)))"
  proof -
    have "mset (ir_tasks I) = in_flight (ir_pl I) + mset (map fst (pl_acks (ir_pl I)))"
      using inv(4) by (simp add: pl_inv_def total_def outside_def in_flight_def ac_simps)
    then have "size {#t \<in># mset (ir_tasks I). task_ack t = Some i#} =
        size {#t \<in># in_flight (ir_pl I). task_ack t = Some i#} + size {#t \<in># mset (map fst (pl_acks (ir_pl I))). task_ack t = Some i#}" by simp
    moreover have "size {#t \<in># mset ts. task_ack t = Some i#} = length (tasks_of i ts)" for ts
      by (simp add: tasks_of_def flip: mset_filter)
    moreover have "length (tasks_of i (map fst (pl_acks (ir_pl I)))) = length (calls_of i (pl_acks (ir_pl I)))" by (metis calls_of_tasks length_map)
    ultimately show ?thesis using booksD(2) [OF inv(6) i] by (simp del: mset_map)
  qed
  ultimately show "pendingPersist (hs ?S) = int (size {#t \<in># in_flight (ir_pl I). task_ack t = Some i#}) + int (length (calls_of i (ir_calls I)))" by simp
qed

text \<open>C12: No goroutine sends on a closed channel: once \<^verbatim>\<open>Run\<close> has closed \<^verbatim>\<open>persistCh\<close> every hub has stopped, and whatever step comes next, no
  hub hands a task over; and once it has closed \<^verbatim>\<open>retryCh\<close> every worker, the only ones who send on it, has
  returned.\<close>

theorem no_send_on_closed:
  assumes "redis api view clock" and "mongo col docs" and "instance_reach lru api view col docs cfg uuid addr I"
  shows "(pl_closed (ir_pl I) \<longrightarrow> (\<forall>i < length (m_heap (ir_mgr I)). phase (m_heap (ir_mgr I) ! i) = Stopped) \<and>
      (\<forall>E J. ir_step lru E I J \<longrightarrow> ir_tasks J = ir_tasks I)) \<and>
    (ir_phase I \<in> {RetryClosed, RunReturned} \<longrightarrow> pl_closed (ir_pl I) \<and> pl_batches (ir_pl I) = [])"
proof -
  note P = cluster_persist_world [OF assms(1,2), of cfg uuid addr] and R = instance_reach_inv [OF assms]
  note F = persist_world.ir_invD(7) [OF P R(1), unfolded phases_ok_def]
  have "ir_tasks J = ir_tasks I" if closed: "pl_closed (ir_pl I)" and step: "ir_step lru E I J" for E J
    using step
  proof cases
    case (ir_submit i T m)
    from persist_world.hub_stays_stopped(2) [OF P R(1) ir_submit(2,3) closed] ir_submit(4) show ?thesis by simp
  qed (simp_all add: with_mgr_def with_hub_def)
  with F show ?thesis by auto
qed

lemma ended_instance:
  assumes "redis api view clock" and "mongo col docs" and "instance_reach lru api view col docs cfg uuid addr I"
    and "ir_phase I = RunReturned" and "i < length (m_heap (ir_mgr I))"
  shows "mset (map fst (acks (m_heap (ir_mgr I) ! i))) = mset (issued (m_heap (ir_mgr I) ! i)) \<and>
    pendingPersist (hs (m_heap (ir_mgr I) ! i)) = 0 \<and>
    (\<forall>m. (m, None) \<in> set (acks (m_heap (ir_mgr I) ! i)) \<longrightarrow> cluster_saved docs (ir_world I) m) \<and>
    (persistFailed (hs (m_heap (ir_mgr I) ! i)) \<or> (\<forall>m \<in> set (issued (m_heap (ir_mgr I) ! i)). cluster_saved docs (ir_world I) m))"
proof -
  note P = cluster_persist_world [OF assms(1,2), of cfg uuid addr] and R = instance_reach_inv [OF assms(1-3)]
  note inv = persist_world.ir_invD [OF P R(1)]
  let ?S = "m_heap (ir_mgr I) ! i"
  have fin: "pl_retryDone (ir_pl I)" "ir_calls I = []" using inv(7) assms(4) by (auto simp: phases_ok_def)
  have "mset (map fst (pl_acks (ir_pl I))) = mset (ir_tasks I)"
    using inv(4) fin(1) by (auto simp: pl_inv_def total_def outside_def)
  moreover have told: "mset (acks ?S) = mset (calls_of i (pl_acks (ir_pl I)))" using booksD(3) [OF inv(6) assms(5)] fin(2) by simp
  moreover from told have "mset (map fst (acks ?S)) = mset (map fst (calls_of i (pl_acks (ir_pl I))))" by simp
  ultimately have all: "mset (map fst (acks ?S)) = mset (issued ?S)"
    using tasks_of_mset [of "map fst (pl_acks (ir_pl I))" "ir_tasks I" i] unfolding booksD(2) [OF inv(6) assms(5)] calls_of_tasks by (simp del: mset_map)
  have saved: "cluster_saved docs (ir_world I) m" if "(m, None) \<in> set (acks ?S)" for m
  proof -
    have "(m, None) \<in> set (calls_of i (pl_acks (ir_pl I)))" using that told by (metis set_mset_mset)
    then obtain t where "(t, None) \<in> set (pl_acks (ir_pl I))" "task_msg t = m" by (auto simp: calls_of_def)
    then show ?thesis using inv(3) by (auto simp: message_store.acks_stored_def [OF cluster_message_store [OF assms(2)]])
  qed
  obtain start where h: "hub_inv start ?S" using hub_good_inv [OF mgr_invD(4) [OF inv(1) assms(5)]] ..
  have "length (acks ?S) = length (issued ?S)" using arg_cong [OF all, of size] by simp
  then have "pendingPersist (hs ?S) = 0" using hub_invD(6) [OF h] by simp
  moreover have "cluster_saved docs (ir_world I) m" if "\<not> persistFailed (hs ?S)" "m \<in> set (issued ?S)" for m
  proof -
    have "m \<in> fst ` set (acks ?S)" using that(2) all by (metis set_map set_mset_mset)
    then show ?thesis using saved hub_invD(7) [OF h] that(1) by force
  qed
  ultimately show ?thesis using all saved by blast
qed

text \<open>C11: Nothing is left behind: when \<^verbatim>\<open>Run\<close> of an instance has returned, every message that any of its hubs ever numbered has been
  acknowledged exactly once; the ones acknowledged without an error are in the chat service's store, and a hub
  without a recorded failure has all its messages there.\<close>

theorem ended_instance_saved_all:
  assumes "redis api view clock" and "mongo col docs" and "instance_reach lru api view col docs cfg uuid addr I"
    and "ir_phase I = RunReturned" and "i < length (m_heap (ir_mgr I))"
  shows "mset (map fst (acks (m_heap (ir_mgr I) ! i))) = mset (issued (m_heap (ir_mgr I) ! i)) \<and>
    pendingPersist (hs (m_heap (ir_mgr I) ! i)) = 0 \<and>
    (\<forall>m. (m, None) \<in> set (acks (m_heap (ir_mgr I) ! i)) \<longrightarrow> cluster_saved docs (ir_world I) m) \<and>
    (persistFailed (hs (m_heap (ir_mgr I) ! i)) \<or> (\<forall>m \<in> set (issued (m_heap (ir_mgr I) ! i)). cluster_saved docs (ir_world I) m))"
  by (rule ended_instance [OF assms])

section \<open>A run to the end\<close>

text \<open>Once the hubs have stopped and the pipeline is empty, \<^verbatim>\<open>Run\<close> can return.\<close>

definition idle_pl :: "'w pipeline \<Rightarrow> nat \<Rightarrow> bool" where
  "idle_pl P n \<longleftrightarrow> persistCh (pl_pipe P) = [] \<and> pl_batches P = replicate n [] \<and> pl_retryCh P = [] \<and> pl_retryBatch P = [] \<and> \<not> pl_retryDone P"

lemma workers_exit:
  assumes "idle_pl (ir_pl I) n" "pl_closed (ir_pl I)"
  shows "(ir_step lru E)\<^sup>*\<^sup>* I (I\<lparr>ir_pl := (ir_pl I)\<lparr>pl_batches := []\<rparr>\<rparr>)"
  using assms
proof (induction n arbitrary: I)
  case 0
  then have "I\<lparr>ir_pl := (ir_pl I)\<lparr>pl_batches := []\<rparr>\<rparr> = I" by (simp add: idle_pl_def)
  then show ?case by simp
next
  case (Suc n)
  let ?P = "(ir_pl I)\<lparr>pl_batches := replicate n []\<rparr>"
  have flush: "worker_flush (m_store (ir_mgr I)) id 0 0 (ir_pl I) = ir_pl I" using Suc.prems(1) by (simp add: worker_flush_def idle_pl_def)
  have "pl_step (m_store (ir_mgr I)) (ir_pl I) [] ?P"
    using pl_exit [where i = 0 and P = "ir_pl I" and Q = "ir_pl I" and store = "m_store (ir_mgr I)" and rand = id and now = 0] Suc.prems flush
    by (simp add: idle_pl_def drop_nth_def)
  then have 1: "ir_step lru E I (I\<lparr>ir_pl := ?P\<rparr>)" using ir_work [of I ?P lru E] by simp
  have "(ir_step lru E)\<^sup>*\<^sup>* (I\<lparr>ir_pl := ?P\<rparr>) (I\<lparr>ir_pl := (ir_pl I)\<lparr>pl_batches := []\<rparr>\<rparr>)"
    using Suc.IH [of "I\<lparr>ir_pl := ?P\<rparr>"] Suc.prems by (simp add: idle_pl_def)
  with 1 show ?case by (rule converse_rtranclp_into_rtranclp)
qed

lemma run_can_return:
  assumes "ir_phase I = Waiting" "hubs_stopped (ir_mgr I)" "idle_pl (ir_pl I) n" "ir_calls I = []" "m_store (ir_mgr I) = Some ms"
  shows "\<exists>J. (ir_step lru E)\<^sup>*\<^sup>* I J \<and> ir_phase J = RunReturned \<and> m_heap (ir_mgr J) = m_heap (ir_mgr I)"
proof -
  note more = converse_rtranclp_into_rtranclp [where r = "ir_step lru E"]
  let ?P = "(ir_pl I)\<lparr>pl_closed := True\<rparr>"
  let ?I1 = "I\<lparr>ir_pl := ?P, ir_phase := PersistClosed\<rparr>"
  have 1: "ir_step lru E I ?I1" by (rule ir_close [OF assms(1,2)])
  let ?I2 = "?I1\<lparr>ir_pl := ?P\<lparr>pl_batches := []\<rparr>\<rparr>"
  have 2: "(ir_step lru E)\<^sup>*\<^sup>* ?I1 ?I2" using workers_exit [of ?I1 n lru E] assms(3) by (simp add: idle_pl_def)
  let ?I3 = "?I2\<lparr>ir_phase := RetryClosed\<rparr>"
  have 3: "ir_step lru E ?I2 ?I3" by (rule ir_retry_close) simp_all
  let ?Q = "?P\<lparr>pl_batches := [], pl_retryCh := [], pl_retryBatch := [], pl_retryDone := True\<rparr>"
  have "pl_step (m_store (ir_mgr I)) (ir_pl ?I3) [] ?Q"
    using pl_retry_exit [of "Some ms" ms "ir_pl ?I3"] assms(3,5) by (simp add: idle_pl_def drainRetryBatch_def)
  then have 4: "ir_step lru E ?I3 (?I3\<lparr>ir_pl := ?Q, ir_calls := []\<rparr>)" using ir_work [of ?I3 ?Q lru E] assms(4) by simp
  obtain M w where d: "run_deferred (ir_mgr I) (ir_world I) = (M, w)" by fastforce
  let ?J = "(with_mgr M w (?I3\<lparr>ir_pl := ?Q, ir_calls := []\<rparr>))\<lparr>ir_phase := RunReturned\<rparr>"
  have 5: "ir_step lru E (?I3\<lparr>ir_pl := ?Q, ir_calls := []\<rparr>) ?J" by (rule ir_return) (use d in simp_all)
  have "(ir_step lru E)\<^sup>*\<^sup>* I ?J" by (rule more [OF 1 rtranclp_trans [OF 2 more [OF 3 more [OF 4 more [OF 5 rtranclp.rtrancl_refl]]]]])
  then show ?thesis using heap_deferred [OF d] by (intro exI [of _ ?J]) (simp add: with_mgr_def)
qed

text \<open>An instance on the example stores: one room is taken, one message is numbered, saved and acknowledged, and the instance ends.\<close>

definition ix_task :: persistTask where
  "ix_task = \<lparr>task_msg = (ex_msg ''c1'')\<lparr>ID := ''m1'', SequenceNumber := 42\<rparr>, task_ack = Some 0\<rparr>"

definition ix_pl :: "(mem_redis, chat_message list) cluster pipeline" where
  "ix_pl = NewPipeline (cx_w1 [cx_doc 41])"

definition ix :: "(nat \<times> string list) hub_sys \<Rightarrow> (mem_redis, chat_message list) cluster pipeline \<Rightarrow> run_phase \<Rightarrow> persistTask list \<Rightarrow>
    (nat \<times> string list, (mem_redis, chat_message list) cluster) instance_run" where
  "ix S P f ts = \<lparr>ir_mgr = (cx_at 0)\<lparr>m_heap := [S]\<rparr>, ir_pl = P, ir_calls = [], ir_phase = f, ir_tasks = ts\<rparr>"

lemma ix_simps [simp]:
  "m_heap (ir_mgr (ix S P f ts)) = [S]" "ir_pl (ix S P f ts) = P" "ir_calls (ix S P f ts) = []" "ir_phase (ix S P f ts) = f"
  "m_hubs (ir_mgr (ix S P f ts)) = [(''r1'', 0)]" "m_store (ir_mgr (ix S P f ts)) = Some (cluster_store ex_chat ex_uuid mem_col)"
  by (simp_all add: ix_def cx_at_def cx_mgr_simps)

lemma ix_pipes: "hp (cx_hub 0) = ex_pipe" "hp (cx_hub 1) = ex_pipe" "hp (cx_hub 2) = ex_pipe\<lparr>persistCh := [ix_task], persistSlots := Some 1\<rparr>"
  "pl_pipe (NewPipeline w) = ex_pipe"
  by (simp_all add: cx_hub_eqs(3) cx_hub1 cx_hub_eqs(1) started_def newHub_def handleBroadcast_def fanOut_def list_lru_def ix_task_def
      reservePersistSlot_def ex_pipe_def ex_msg_def toRawJSON_def send_all_eq idempotencyCacheSize_def persists_def Let_def
      NewPipeline_def persistBufferSize_def del: One_nat_def)

lemma ix_created:
  "ir_step list_lru E (run_start \<lparr>mc_IdleTimeout = 1, mc_WriteWait = 1, mc_PongWait = 1, mc_PingPeriod = 1, mc_MaxLength = 100\<rparr>
     (cluster_store ex_chat ex_uuid mem_col) (cluster_floor mem_api) (cluster_leases mem_api ''a1'') [] cx_w0) (ix (cx_hub 0) ix_pl Looping [])"
    (is "ir_step _ _ ?I _")
proof -
  have m: "ir_mgr ?I = cx_mgr" "ir_pl ?I = NewPipeline cx_w0" "ir_phase ?I = Looping" by (simp_all add: run_start_def cx_mgr_def)
  have "with_mgr (cx_at 0) (cx_w1 [cx_doc 41]) ?I = ix (cx_hub 0) ix_pl Looping []"
    by (simp add: with_mgr_def run_start_def ix_def ix_pl_def NewPipeline_def cx_at_def)
  moreover have "getOrCreate list_lru (pl_pipe (ir_pl ?I)) ''t1'' 0 ''r1'' (ir_mgr ?I) (ir_world ?I) = (Inr (0, True), cx_at 0, cx_w1 [cx_doc 41])"
    using cx_create by (simp add: m ix_pipes) (simp add: NewPipeline_def)
  ultimately show ?thesis using ir_create [of ?I list_lru "''t1''" 0 "''r1''" _ "cx_at 0" "cx_w1 [cx_doc 41]" E] by (simp add: m cx_mgr_simps)
qed

lemma ix_hub_step:
  assumes "hub_step list_lru (S\<lparr>hp := pl_pipe P\<rparr>) T" "hp T = pl_pipe P" "issued T = issued S" "acks T = acks S" "broadcastCh (hs T) \<in> {[], [ex_msg ''c1'']}"
    "h_roomID (hs T) = ''r1''"
  shows "ir_step list_lru E (ix S P f ts) (ix T P f ts)"
proof -
  have "room_queue T" using assms(5,6) by (auto simp: room_queue_def ex_msg_def)
  then show ?thesis using ir_hub [of 0 "ix S P f ts" list_lru T E] assms(1-4) by (simp add: hub_now_def) (simp add: with_hub_def ix_def)
qed

lemma ix_numbered: "(ir_step list_lru E)\<^sup>*\<^sup>* (ix (cx_hub 0) ix_pl Looping []) (ix (cx_hub 2) (ix_pl\<lparr>pl_pipe := hp (cx_hub 2)\<rparr>) Looping [ix_task])"
proof -
  have p: "pl_pipe ix_pl = ex_pipe" by (simp add: ix_pl_def ix_pipes)
  have same: "(cx_hub 0)\<lparr>hp := ex_pipe\<rparr> = cx_hub 0" "(cx_hub 1)\<lparr>hp := ex_pipe\<rparr> = cx_hub 1" using ix_pipes(1,2) by simp_all
  have "ir_step list_lru E (ix (cx_hub 0) ix_pl Looping []) (ix (cx_hub 1) ix_pl Looping [])"
    by (rule ix_hub_step) (use cx_steps(1) cx_hub1 in \<open>simp_all add: p same ix_pipes cx_hub_eqs(1) started_def newHub_def\<close>)
  moreover have "ir_step list_lru E (ix (cx_hub 1) ix_pl Looping []) (ix (cx_hub 2) (ix_pl\<lparr>pl_pipe := hp (cx_hub 2)\<rparr>) Looping [ix_task])"
    using ir_submit [of 0 "ix (cx_hub 1) ix_pl Looping []" list_lru "cx_hub 2" "task_msg ix_task" E] cx_steps(2) cx_values
    by (simp add: hub_now_def p same cx_hub2 cx_hub1 cx_hub_eqs(1) ix_task_def del: One_nat_def) (simp add: with_hub_def ix_def started_def del: One_nat_def)
  ultimately show ?thesis by (meson converse_rtranclp_into_rtranclp rtranclp.rtrancl_refl)
qed

lemma ix_save: "\<exists>w. ms_SaveMany (cluster_store ex_chat ex_uuid mem_col) [task_msg ix_task] (cx_w1 [cx_doc 41]) = (None, w)"
proof -
  have "rune_count ''hi'' = 2" by (simp add: rune_count_def runes_def byte_def runes_of_ascii)
  then have "fst (adapter_SaveMany ex_chat ex_uuid mem_col [task_msg ix_task] (cl_chat (cx_w1 [cx_doc 41]))) = None"
    by (simp add: adapter_SaveMany_def rpc_def ex_world_def cx_w1_def ix_task_def BatchCreateMessages_def to_request_def
        messageFromRequest_def ex_msg_def ex_chat_def ex_uuid_def SaveMany_def mem_col_def violated_def cx_doc_def ex_doc_def format_int_def format_nat.simps [of "Suc 0"])
  then show ?thesis by (auto simp: cluster_store_def chat_call_def newChatStoreAdapter_def Let_def split: prod.splits)
qed

lemma ix_workers: "replicate workerPoolSize [] = [[], [], [], []]"
  by (simp add: workerPoolSize_def numeral_eq_Suc)

lemma ix_saved:
  "\<exists>P. (ir_step list_lru E)\<^sup>*\<^sup>* (ix (cx_hub 2) (ix_pl\<lparr>pl_pipe := hp (cx_hub 2)\<rparr>) Looping [ix_task]) (ix (cx_hub 3) P Looping [ix_task]) \<and>
     idle_pl P workerPoolSize \<and> pl_pipe P = ex_pipe"
proof -
  let ?st = "Some (cluster_store ex_chat ex_uuid mem_col)"
  obtain w where w: "ms_SaveMany (cluster_store ex_chat ex_uuid mem_col) [task_msg ix_task] (cx_w1 [cx_doc 41]) = (None, w)" using ix_save by blast
  let ?P1 = "ix_pl\<lparr>pl_pipe := hp (cx_hub 2)\<rparr>" and ?P2 = "ix_pl\<lparr>pl_batches := [[ix_task], [], [], []]\<rparr>"
    and ?P3 = "ix_pl\<lparr>pl_acks := [(ix_task, None)], pl_world := w\<rparr>"
  have 0: "worker_recv ?st id 0 0 ix_task (?P1\<lparr>pl_pipe := (hp (cx_hub 2))\<lparr>persistCh := []\<rparr>\<rparr>) = ?P2"
    by (simp add: worker_recv_def releasePersistSlot_def ix_pipes ix_pl_def NewPipeline_def ix_workers persistBatchSize_def ex_pipe_def persistBufferSize_def)
  have "pl_step ?st ?P1 [] ?P2" using pl_recv [where i = 0 and P = ?P1 and t = ix_task and ts = "[]" and store = ?st and rand = id and now = 0] 0
    by (simp add: ix_pipes ix_pl_def NewPipeline_def ix_workers)
  then have 1: "ir_step list_lru E (ix (cx_hub 2) ?P1 Looping [ix_task]) (ix (cx_hub 2) ?P2 Looping [ix_task])"
    using ir_work [of "ix (cx_hub 2) ?P1 Looping [ix_task]" ?P2 list_lru E] by simp (simp add: ix_def ix_pl_def NewPipeline_def)
  have "task_ack ix_task = Some 0" by (simp add: ix_task_def)
  then have "worker_flush ?st id 0 0 ?P2 = ?P3"
    using w by (simp add: worker_flush_def savePersistTasks_def messagesFromPersistTasks_def ix_pl_def NewPipeline_def add_acks_def ackPersistTasks_def
        ix_workers)
  then have "pl_step ?st ?P2 [] ?P3" using pl_tick [where i = 0 and P = ?P2 and store = ?st and rand = id and now = 0] by simp
  then have 2: "ir_step list_lru E (ix (cx_hub 2) ?P2 Looping [ix_task]) ((ix (cx_hub 2) ?P3 Looping [ix_task])\<lparr>ir_calls := [(ix_task, None)]\<rparr>)"
    using ir_work [of "ix (cx_hub 2) ?P2 Looping [ix_task]" ?P3 list_lru E] by simp (simp add: ix_def ix_pl_def NewPipeline_def)
  have 3: "ir_step list_lru E ((ix (cx_hub 2) ?P3 Looping [ix_task])\<lparr>ir_calls := [(ix_task, None)]\<rparr>) (ix (cx_hub 3) ?P3 Looping [ix_task])"
    using ir_call [of "(ix (cx_hub 2) ?P3 Looping [ix_task])\<lparr>ir_calls := [(ix_task, None)]\<rparr>" "[]" ix_task None "[]" 0 "cx_hub 2" list_lru E]
    by (simp add: ix_task_def) (simp add: with_hub_def ix_def cx_hub_eqs(4) cx_hub2 ix_task_def)
  have "idle_pl ?P3 workerPoolSize \<and> pl_pipe ?P3 = ex_pipe" by (simp add: idle_pl_def ix_pl_def ix_pipes) (simp add: NewPipeline_def ex_pipe_def)
  with 1 2 3 show ?thesis by (meson converse_rtranclp_into_rtranclp rtranclp.rtrancl_refl)
qed

lemma ix_ended:
  assumes "idle_pl P n" "pl_pipe P = ex_pipe"
  shows "\<exists>I. (ir_step list_lru E)\<^sup>*\<^sup>* (ix (cx_hub 3) P Looping ts) I \<and> ir_phase I = RunReturned \<and>
    (\<exists>S. m_heap (ir_mgr I) = [S] \<and> issued S = [task_msg ix_task] \<and> \<not> persistFailed (hs S))"
proof -
  define S where "S = (cx_hub 3)\<lparr>hs := forceClose handoffCloseReason (hs (cx_hub 3))\<rparr>"
  define T where "T = S\<lparr>hp := ex_pipe, hs := beginDrain (hs S), phase := Draining\<rparr>"
  define U where "U = T\<lparr>hs := run_return (hs T), phase := Stopped\<rparr>"
  note defs = S_def T_def U_def forceClose_def beginDrain_def run_return_def shutdown_eq cx_hub_eqs(4) ack_frame cx_hub2
  have "(with_mgr (shutdownHubs (ir_mgr (ix (cx_hub 3) P Looping ts))) (pl_world P) (ix (cx_hub 3) P Looping ts))\<lparr>ir_phase := Waiting\<rparr> = ix S P Waiting ts"
    by (simp add: with_mgr_def shutdownHubs_def ix_def cx_at_def on_hub_def S_def)
  then have 1: "ir_step list_lru E (ix (cx_hub 3) P Looping ts) (ix S P Waiting ts)" using ir_end [of "ix (cx_hub 3) P Looping ts" list_lru E] by simp
  have 2: "ir_step list_lru E (ix S P Waiting ts) (ix T P Waiting ts)"
    by (rule ix_hub_step) (use st_drain [of "S\<lparr>hp := ex_pipe\<rparr>" list_lru] assms(2) in \<open>simp_all add: defs Let_def\<close>)
  have 3: "ir_step list_lru E (ix T P Waiting ts) (ix U P Waiting ts)"
    by (rule ix_hub_step) (use st_return [of "T\<lparr>hp := ex_pipe\<rparr>" list_lru] assms(2) in \<open>simp_all add: defs Let_def\<close>)
  obtain J where J: "(ir_step list_lru E)\<^sup>*\<^sup>* (ix U P Waiting ts) J" "ir_phase J = RunReturned" "m_heap (ir_mgr J) = [U]"
    using run_can_return [of "ix U P Waiting ts" n _ list_lru E] assms(1) by (auto simp: hubs_stopped_def U_def run_return_def)
  have "issued U = [task_msg ix_task]" "\<not> persistFailed (hs U)" by (simp_all add: defs ix_task_def Let_def)
  then show ?thesis using 1 2 3 J by (meson converse_rtranclp_into_rtranclp)
qed

abbreviation ix_runs :: "(nat \<times> string list, (mem_redis, chat_message list) cluster) instance_run \<Rightarrow> bool" where
  "ix_runs \<equiv> instance_reach list_lru mem_api mem_keys mem_col (\<lambda>ds. ds) ex_chat ex_uuid ''a1''"

lemma ix_run:
  "\<exists>I. (ir_step list_lru E)\<^sup>*\<^sup>* (run_start \<lparr>mc_IdleTimeout = 1, mc_WriteWait = 1, mc_PongWait = 1, mc_PingPeriod = 1, mc_MaxLength = 100\<rparr>
     (cluster_store ex_chat ex_uuid mem_col) (cluster_floor mem_api) (cluster_leases mem_api ''a1'') [] cx_w0) I \<and> ir_phase I = RunReturned \<and>
    (\<exists>S. m_heap (ir_mgr I) = [S] \<and> issued S = [task_msg ix_task] \<and> \<not> persistFailed (hs S))"
proof -
  obtain P where P: "(ir_step list_lru E)\<^sup>*\<^sup>* (ix (cx_hub 2) (ix_pl\<lparr>pl_pipe := hp (cx_hub 2)\<rparr>) Looping [ix_task]) (ix (cx_hub 3) P Looping [ix_task])"
    "idle_pl P workerPoolSize" "pl_pipe P = ex_pipe" using ix_saved by blast
  from ix_ended [OF P(2,3), of E "[ix_task]"] show ?thesis
    using converse_rtranclp_into_rtranclp [of "ir_step list_lru E", OF ix_created ix_numbered] P(1) by (meson rtranclp_trans)
qed

lemma ix_reach:
  "\<exists>I. ix_runs I \<and> ir_phase I = RunReturned \<and> (\<exists>S. m_heap (ir_mgr I) = [S] \<and> issued S = [task_msg ix_task] \<and> \<not> persistFailed (hs S))"
  unfolding instance_reach_def using ix_run cx_wf(1) by meson

theorem instance_refines_manager_witness:
  "\<exists>I. ix_runs I \<and> ir_phase I = RunReturned \<and> cx_reach (ir_mgr I, ir_world I) \<and> pendingPersist (hs (m_heap (ir_mgr I) ! 0)) =
     int (size {#t \<in># in_flight (ir_pl I). task_ack t = Some 0#}) + int (length (calls_of 0 (ir_calls I)))"
proof -
  obtain I where I: "ix_runs I" "ir_phase I = RunReturned"
    "length (m_heap (ir_mgr I)) = 1" using ix_reach by force
  from instance_refines_manager [OF mem.redis_axioms mem_mongo.mongo_axioms I(1)] I show ?thesis by - (rule exI [of _ I], simp)
qed

theorem no_send_on_closed_witness:
  "\<exists>I. ix_runs I \<and> ir_phase I = RunReturned \<and> pl_closed (ir_pl I) \<and> pl_batches (ir_pl I) = [] \<and> length (m_heap (ir_mgr I)) = 1 \<and>
     phase (m_heap (ir_mgr I) ! 0) = Stopped"
proof -
  obtain I where I: "ix_runs I" "ir_phase I = RunReturned"
    "length (m_heap (ir_mgr I)) = 1" using ix_reach by force
  from no_send_on_closed [OF mem.redis_axioms mem_mongo.mongo_axioms I(1)] I show ?thesis by - (rule exI [of _ I], simp)
qed

theorem ended_instance_saved_all_witness:
  "\<exists>I. ix_runs I \<and> ir_phase I = RunReturned \<and> acks (m_heap (ir_mgr I) ! 0) \<noteq> [] \<and> cluster_saved (\<lambda>ds. ds) (ir_world I) (task_msg ix_task)"
proof -
  obtain I S where I: "ix_runs I" "ir_phase I = RunReturned"
    "m_heap (ir_mgr I) = [S]" "issued S = [task_msg ix_task]" "\<not> persistFailed (hs S)" using ix_reach by blast
  from ended_instance_saved_all [OF mem.redis_axioms mem_mongo.mongo_axioms I(1,2), of 0] I show ?thesis by - (rule exI [of _ I], auto)
qed

end
