(* ===== verification/User_DB.thy ===== *)
theory User_DB
  imports Prelude "HOL-Library.State_Monad"
begin

text \<open>
  The relational store of the user service: the tables of
  \<^verbatim>\<open>migrations/user\<close> as lists of rows with the constraints of the schema (primary keys, the
  unique user name, foreign keys with \<^verbatim>\<open>ON DELETE\<close>), and the SQL statements of
  \<^verbatim>\<open>internal/user/db/room.sql.go\<close> and \<^verbatim>\<open>internal/user/db/user.sql.go\<close> as functions on them. The order of
  the lists stands for the order in which PostgreSQL happens to find the rows; nothing proved here
  depends on it. A statement may fail, or take effect without the caller learning of it.
\<close>

section \<open>Tables\<close>

text \<open>The sixteen bytes of a UUID; a nullable column is an option. Times are in nanoseconds.\<close>

type_synonym uuid = string

record Room =
  room_ID :: uuid
  room_Name :: string
  room_ManagerID :: "uuid option"
  room_Capacity :: int
  room_CreatedAt :: int

record RoomMember =
  rm_UserID :: uuid
  rm_RoomID :: uuid
  rm_JoinedAt :: int

record User =
  usr_ID :: uuid
  usr_Username :: string
  usr_PasswordHash :: string
  usr_CreatedAt :: int

record tables =
  t_users :: "User list"
  t_rooms :: "Room list"
  t_members :: "RoomMember list"

definition no_tables :: tables where
  "no_tables = \<lparr>t_users = [], t_rooms = [], t_members = []\<rparr>"

text \<open>A statement: its rows or the error, and the tables after it.\<close>

type_synonym 'a stmt = "tables \<Rightarrow> (go_error + 'a) \<times> tables"

definition fk_violation :: go_error where "fk_violation = External ''23503''"
definition negative_limit :: go_error where "negative_limit = External ''2201W''"

definition has_user :: "tables \<Rightarrow> uuid \<Rightarrow> bool" where
  "has_user t u \<longleftrightarrow> u \<in> usr_ID ` set (t_users t)"

definition has_room :: "tables \<Rightarrow> uuid \<Rightarrow> bool" where
  "has_room t r \<longleftrightarrow> r \<in> room_ID ` set (t_rooms t)"

definition is_member :: "tables \<Rightarrow> uuid \<Rightarrow> uuid \<Rightarrow> bool" where
  "is_member t r u \<longleftrightarrow> (r, u) \<in> (\<lambda>m. (rm_RoomID m, rm_UserID m)) ` set (t_members t)"

definition members_of :: "tables \<Rightarrow> uuid \<Rightarrow> RoomMember list" where
  "members_of t r = filter (\<lambda>m. rm_RoomID m = r) (t_members t)"

definition find_room :: "tables \<Rightarrow> uuid \<Rightarrow> Room option" where
  "find_room t r = find (\<lambda>x. room_ID x = r) (t_rooms t)"

section \<open>The statements on rooms\<close>

definition q_CreateRoom :: "Room \<Rightarrow> Room stmt" where
  "q_CreateRoom arg t =
    (if has_room t (room_ID arg) then (Inl UniqueViolation, t)
     else if (case room_ManagerID arg of None \<Rightarrow> False | Some m \<Rightarrow> \<not> has_user t m) then (Inl fk_violation, t)
     else (Inr arg, t\<lparr>t_rooms := t_rooms t @ [arg]\<rparr>))"

definition q_CreateRoomMember :: "RoomMember \<Rightarrow> unit stmt" where
  "q_CreateRoomMember arg t =
    (if is_member t (rm_RoomID arg) (rm_UserID arg) then (Inr (), t)
     else if \<not> has_user t (rm_UserID arg) \<or> \<not> has_room t (rm_RoomID arg) then (Inl fk_violation, t)
     else (Inr (), t\<lparr>t_members := t_members t @ [arg]\<rparr>))"

definition q_DeleteRoom :: "uuid \<Rightarrow> uuid option \<Rightarrow> uuid stmt" where
  "q_DeleteRoom r mgr t =
    (if mgr \<noteq> None \<and> (\<exists>x\<in>set (t_rooms t). room_ID x = r \<and> room_ManagerID x = mgr)
     then (Inr r, t\<lparr>t_rooms := filter (\<lambda>x. room_ID x \<noteq> r) (t_rooms t),
                   t_members := filter (\<lambda>m. rm_RoomID m \<noteq> r) (t_members t)\<rparr>)
     else (Inl ErrNoRows, t))"

definition q_DeleteRoomMember :: "uuid \<Rightarrow> uuid \<Rightarrow> unit stmt" where
  "q_DeleteRoomMember r u t =
     (Inr (), t\<lparr>t_members := filter (\<lambda>m. \<not> (rm_RoomID m = r \<and> rm_UserID m = u)) (t_members t)\<rparr>)"

definition q_ExistsRoomMember :: "uuid \<Rightarrow> uuid \<Rightarrow> bool stmt" where
  "q_ExistsRoomMember r u t = (Inr (is_member t r u \<and> has_room t r), t)"

definition q_GetMemberJoinedAt :: "uuid \<Rightarrow> uuid \<Rightarrow> int stmt" where
  "q_GetMemberJoinedAt r u t =
    (case filter (\<lambda>m. rm_RoomID m = r \<and> rm_UserID m = u \<and> has_room t r) (t_members t) of
       [] \<Rightarrow> (Inl ErrNoRows, t) | m # _ \<Rightarrow> (Inr (rm_JoinedAt m), t))"

definition q_GetOldestRoomMember :: "uuid \<Rightarrow> uuid stmt" where
  "q_GetOldestRoomMember r t = (case sort_key rm_JoinedAt (members_of t r) of
       [] \<Rightarrow> (Inl ErrNoRows, t) | m # _ \<Rightarrow> (Inr (rm_UserID m), t))"

definition q_GetRoomForUpdate :: "uuid \<Rightarrow> Room stmt" where
  "q_GetRoomForUpdate r t = (case find_room t r of None \<Rightarrow> (Inl ErrNoRows, t) | Some x \<Rightarrow> (Inr x, t))"

definition q_GetRoomMemberCount :: "uuid \<Rightarrow> int stmt" where
  "q_GetRoomMemberCount r t = (Inr (int (length (members_of t r))), t)"

definition q_ListJoinedRoomIDsForUpdate :: "uuid \<Rightarrow> uuid list stmt" where
  "q_ListJoinedRoomIDsForUpdate u t =
     (Inr (map rm_RoomID (filter (\<lambda>m. rm_UserID m = u \<and> has_room t (rm_RoomID m)) (t_members t))), t)"

record ListJoinedRoomsRow =
  ljr_ID :: uuid
  ljr_Name :: string
  ljr_ManagerID :: "uuid option"
  ljr_Capacity :: int
  ljr_JoinedAt :: int
  ljr_MemberCount :: int

definition q_ListJoinedRooms :: "uuid \<Rightarrow> ListJoinedRoomsRow list stmt" where
  "q_ListJoinedRooms u t =
     (Inr (sort_key (\<lambda>x. - ljr_JoinedAt x)
        (concat (map (\<lambda>r. map (\<lambda>m. \<lparr>ljr_ID = room_ID r, ljr_Name = room_Name r, ljr_ManagerID = room_ManagerID r,
             ljr_Capacity = room_Capacity r, ljr_JoinedAt = rm_JoinedAt m, ljr_MemberCount = int (length (members_of t (room_ID r)))\<rparr>)
           (filter (\<lambda>m. rm_UserID m = u) (members_of t (room_ID r)))) (t_rooms t)))), t)"

record ListRoomMembersRow =
  lrm_ID :: uuid
  lrm_Username :: string
  lrm_JoinedAt :: int

definition q_ListRoomMembers :: "uuid \<Rightarrow> ListRoomMembersRow list stmt" where
  "q_ListRoomMembers r t =
     (Inr (sort_key lrm_JoinedAt
        (concat (map (\<lambda>m. map (\<lambda>u. \<lparr>lrm_ID = usr_ID u, lrm_Username = usr_Username u, lrm_JoinedAt = rm_JoinedAt m\<rparr>)
           (filter (\<lambda>u. usr_ID u = rm_UserID m \<and> has_room t r) (t_users t))) (members_of t r)))), t)"

record SearchRoomsRow =
  srr_ID :: uuid
  srr_Name :: string
  srr_ManagerID :: "uuid option"
  srr_Capacity :: int
  srr_CreatedAt :: int
  srr_TotalCount :: int
  srr_MemberCount :: int

text \<open>\<open>ilike name pattern\<close> is PostgreSQL's case-insensitive \<^verbatim>\<open>ILIKE\<close>.\<close>

definition q_SearchRooms :: "(string \<Rightarrow> string \<Rightarrow> bool) \<Rightarrow> string \<Rightarrow> int \<Rightarrow> int \<Rightarrow> SearchRoomsRow list stmt" where
  "q_SearchRooms ilike column1 limit offset t =
    (if limit < 0 \<or> offset < 0 then (Inl negative_limit, t)
     else
      (let found = filter (\<lambda>r. ilike (room_Name r) (''%'' @ column1 @ ''%'')) (t_rooms t) in
       (Inr (take (nat limit) (drop (nat offset) (sort_key (\<lambda>x. - srr_CreatedAt x)
          (map (\<lambda>r. \<lparr>srr_ID = room_ID r, srr_Name = room_Name r, srr_ManagerID = room_ManagerID r, srr_Capacity = room_Capacity r,
             srr_CreatedAt = room_CreatedAt r, srr_TotalCount = int (length found),
             srr_MemberCount = int (length (members_of t (room_ID r)))\<rparr>) found)))), t)))"

definition q_UpdateRoom :: "uuid \<Rightarrow> string \<Rightarrow> int \<Rightarrow> uuid \<Rightarrow> uuid stmt" where
  "q_UpdateRoom r name capacity mgr t =
    (if \<exists>x\<in>set (t_rooms t). room_ID x = r \<and> room_ManagerID x = Some mgr
     then (Inr r, t\<lparr>t_rooms := map (\<lambda>x. if room_ID x = r \<and> room_ManagerID x = Some mgr
                                      then x\<lparr>room_Name := name, room_Capacity := capacity\<rparr> else x) (t_rooms t)\<rparr>)
     else (Inl ErrNoRows, t))"

definition q_UpdateRoomManager :: "uuid \<Rightarrow> uuid \<Rightarrow> unit stmt" where
  "q_UpdateRoomManager r mgr t =
    (if has_room t r \<and> \<not> has_user t mgr then (Inl fk_violation, t)
     else (Inr (), t\<lparr>t_rooms := map (\<lambda>x. if room_ID x = r then x\<lparr>room_ManagerID := Some mgr\<rparr> else x) (t_rooms t)\<rparr>))"

section \<open>The statements on users\<close>

definition q_CreateUser :: "User \<Rightarrow> User stmt" where
  "q_CreateUser arg t =
    (if has_user t (usr_ID arg) \<or> usr_Username arg \<in> usr_Username ` set (t_users t) then (Inl UniqueViolation, t)
     else (Inr arg, t\<lparr>t_users := t_users t @ [arg]\<rparr>))"

definition q_DeleteUser :: "uuid \<Rightarrow> uuid stmt" where
  "q_DeleteUser u t =
    (if has_user t u
     then (Inr u, t\<lparr>t_users := filter (\<lambda>x. usr_ID x \<noteq> u) (t_users t),
            t_rooms := map (\<lambda>x. if room_ManagerID x = Some u then x\<lparr>room_ManagerID := None\<rparr> else x) (t_rooms t),
            t_members := filter (\<lambda>m. rm_UserID m \<noteq> u) (t_members t)\<rparr>)
     else (Inl ErrNoRows, t))"

definition q_GetUserByID :: "uuid \<Rightarrow> User stmt" where
  "q_GetUserByID u t = (case find (\<lambda>x. usr_ID x = u) (t_users t) of None \<Rightarrow> (Inl ErrNoRows, t) | Some x \<Rightarrow> (Inr x, t))"

definition q_GetUserByUsername :: "string \<Rightarrow> User stmt" where
  "q_GetUserByUsername n t = (case find (\<lambda>x. usr_Username x = n) (t_users t) of None \<Rightarrow> (Inl ErrNoRows, t) | Some x \<Rightarrow> (Inr x, t))"

definition q_GetUsersByIDs :: "uuid list \<Rightarrow> User list stmt" where
  "q_GetUsersByIDs ids t = (Inr (filter (\<lambda>x. usr_ID x \<in> set ids) (t_users t)), t)"

section \<open>The constraints\<close>

text \<open>What the schema demands: keys, the unique user name, and foreign keys.\<close>

definition schema_ok :: "tables \<Rightarrow> bool" where
  "schema_ok t \<longleftrightarrow> distinct (map usr_ID (t_users t)) \<and> distinct (map usr_Username (t_users t)) \<and> distinct (map room_ID (t_rooms t)) \<and>
     distinct (map (\<lambda>m. (rm_RoomID m, rm_UserID m)) (t_members t)) \<and>
     (\<forall>m\<in>set (t_members t). has_user t (rm_UserID m) \<and> has_room t (rm_RoomID m)) \<and>
     (\<forall>x\<in>set (t_rooms t). \<forall>m. room_ManagerID x = Some m \<longrightarrow> has_user t m)"

text \<open>What the service promises of every room: a capacity in bounds that its members respect, and a manager among them.\<close>

definition room_ok :: "int \<Rightarrow> tables \<Rightarrow> Room \<Rightarrow> bool" where
  "room_ok mx t x \<longleftrightarrow> 0 < room_Capacity x \<and> room_Capacity x \<le> mx \<and> int (length (members_of t (room_ID x))) \<le> room_Capacity x \<and>
     (\<exists>m. room_ManagerID x = Some m \<and> is_member t (room_ID x) m)"

definition rooms_ok :: "int \<Rightarrow> tables \<Rightarrow> bool" where
  "rooms_ok mx t \<longleftrightarrow> schema_ok t \<and> (\<forall>x\<in>set (t_rooms t). room_ok mx t x)"

lemmas row_defs = has_user_def has_room_def is_member_def members_of_def

lemma find_room_eq:
  "distinct (map room_ID (t_rooms t)) \<Longrightarrow> find_room t r = Some x \<longleftrightarrow> x \<in> set (t_rooms t) \<and> room_ID x = r"
  by (auto simp: find_room_def find_Some_iff distinct_conv_nth in_set_conv_nth)

lemma find_room_mem: "find_room t r = Some x \<Longrightarrow> x \<in> set (t_rooms t) \<and> room_ID x = r"
  by (auto simp: find_room_def find_Some_iff)

lemma find_room_None: "find_room t r = None \<longleftrightarrow> \<not> has_room t r"
  by (auto simp: find_room_def find_None_iff has_room_def)

lemma no_tables_ok [simp]: "rooms_ok mx no_tables"
  by (simp add: rooms_ok_def schema_ok_def no_tables_def)

text \<open>Every statement keeps the constraints of the schema, whether it succeeds or not.\<close>

lemma schema_CreateRoom [db_simps]: "schema_ok t \<Longrightarrow> schema_ok (snd (q_CreateRoom x t))"
  by (auto simp: schema_ok_def q_CreateRoom_def row_defs split: option.splits)

lemma schema_CreateRoomMember [db_simps]: "schema_ok t \<Longrightarrow> schema_ok (snd (q_CreateRoomMember m t))"
  by (auto simp: schema_ok_def q_CreateRoomMember_def row_defs)

lemma schema_DeleteRoom [db_simps]: "schema_ok t \<Longrightarrow> schema_ok (snd (q_DeleteRoom r m t))"
  by (auto simp: schema_ok_def q_DeleteRoom_def row_defs distinct_map_filter)

lemma schema_DeleteRoomMember [db_simps]: "schema_ok t \<Longrightarrow> schema_ok (snd (q_DeleteRoomMember r u t))"
  by (auto simp: schema_ok_def q_DeleteRoomMember_def row_defs distinct_map_filter)

lemma map_room_ID_upd:
  "map room_ID (map (\<lambda>x. if P x then x\<lparr>room_Name := n, room_Capacity := c\<rparr> else x) xs) = map room_ID xs"
  "map room_ID (map (\<lambda>x. if P x then x\<lparr>room_ManagerID := m\<rparr> else x) xs) = map room_ID xs"
  by (induction xs) auto

lemma has_room_map: "map room_ID (t_rooms t') = map room_ID (t_rooms t) \<Longrightarrow> has_room t' r = has_room t r"
  by (metis has_room_def list.set_map)

lemma schema_rooms_map:
  assumes "schema_ok t" "map room_ID rs = map room_ID (t_rooms t)" "\<And>x m. x \<in> set rs \<Longrightarrow> room_ManagerID x = Some m \<Longrightarrow> has_user t m"
  shows "schema_ok (t\<lparr>t_rooms := rs\<rparr>)"
  using assms(1,3) has_room_map [of "t\<lparr>t_rooms := rs\<rparr>" t] assms(2) by (auto simp: schema_ok_def has_user_def)

lemma schema_UpdateRoom [db_simps]: "schema_ok t \<Longrightarrow> schema_ok (snd (q_UpdateRoom r n c m t))"
  by (auto simp: q_UpdateRoom_def map_room_ID_upd intro!: schema_rooms_map) (auto simp: schema_ok_def)

lemma schema_UpdateRoomManager [db_simps]: "schema_ok t \<Longrightarrow> schema_ok (snd (q_UpdateRoomManager r m t))"
  by (auto simp: q_UpdateRoomManager_def map_room_ID_upd intro!: schema_rooms_map split: if_splits)
    (auto simp: schema_ok_def has_room_def)

lemma schema_CreateUser [db_simps]: "schema_ok t \<Longrightarrow> schema_ok (snd (q_CreateUser x t))"
  by (auto simp: schema_ok_def q_CreateUser_def row_defs)

lemma schema_drop_user:
  assumes "schema_ok t" "\<And>x. x \<in> set (t_rooms t) \<Longrightarrow> room_ManagerID x \<noteq> Some u"
  shows "schema_ok (t\<lparr>t_users := filter (\<lambda>x. usr_ID x \<noteq> u) (t_users t), t_members := filter (\<lambda>m. rm_UserID m \<noteq> u) (t_members t)\<rparr>)"
  using assms unfolding schema_ok_def by (auto simp: row_defs distinct_map_filter image_iff) metis+

lemma schema_DeleteUser [db_simps]:
  assumes "schema_ok t"
  shows "schema_ok (snd (q_DeleteUser u t))"
proof -
  let ?rs = "map (\<lambda>x. if room_ManagerID x = Some u then x\<lparr>room_ManagerID := None\<rparr> else x) (t_rooms t)"
  have "schema_ok (t\<lparr>t_rooms := ?rs\<rparr>)"
    using assms by (intro schema_rooms_map) (auto simp: map_room_ID_upd schema_ok_def split: if_splits)
  then have "schema_ok ((t\<lparr>t_rooms := ?rs\<rparr>)\<lparr>t_users := filter (\<lambda>x. usr_ID x \<noteq> u) (t_users t), t_members := filter (\<lambda>m. rm_UserID m \<noteq> u) (t_members t)\<rparr>)"
    using schema_drop_user [of "t\<lparr>t_rooms := ?rs\<rparr>" u] by fastforce
  with assms show ?thesis by (cases t) (simp add: q_DeleteUser_def)
qed

section \<open>Connections and transactions\<close>

text \<open>
  The outcome of a statement sent to the server: done, failed without effect, or done with the
  reply lost. The world of the service: the tables, the outcomes of the statements to come (done,
  once the list is used up) and the state of the token store.
\<close>

datatype sql_outcome = SqlOk | SqlFail string | SqlLost string

record 'w world =
  w_db :: tables
  w_sql :: "sql_outcome list"
  w_tok :: 'w

type_synonym ('w, 'a) act = "('w world, go_error + 'a) state"

definition next_outcome :: "('w world, sql_outcome) state" where
  "next_outcome = State (\<lambda>w. case w_sql w of [] \<Rightarrow> (SqlOk, w) | n # ns \<Rightarrow> (n, w\<lparr>w_sql := ns\<rparr>))"

definition on_db :: "'a stmt \<Rightarrow> ('w, 'a) act" where
  "on_db q = State (\<lambda>w. case q (w_db w) of (r, t) \<Rightarrow> (r, w\<lparr>w_db := t\<rparr>))"

definition query :: "'a stmt \<Rightarrow> ('w, 'a) act" where
  "query q = do {
     n \<leftarrow> next_outcome;
     case n of
       SqlOk \<Rightarrow> on_db q
     | SqlFail m \<Rightarrow> State_Monad.return (Inl (External m))
     | SqlLost m \<Rightarrow> do { _ \<leftarrow> on_db q; State_Monad.return (Inl (External m)) }
   }"

text \<open>\<^verbatim>\<open>x, err := m; if err != nil { return h(err) }; k(x)\<close>\<close>

definition check :: "('w, 'a) act \<Rightarrow> (go_error \<Rightarrow> ('w, 'b) act) \<Rightarrow> ('a \<Rightarrow> ('w, 'b) act) \<Rightarrow> ('w, 'b) act" where
  "check m h k = do { r \<leftarrow> m; case r of Inl err \<Rightarrow> h err | Inr x \<Rightarrow> k x }"

definition fail :: "go_error \<Rightarrow> ('w, 'a) act" where "fail e = State_Monad.return (Inl e)"
definition ret :: "'a \<Rightarrow> ('w, 'a) act" where "ret x = State_Monad.return (Inr x)"

text \<open>
  \<^verbatim>\<open>runInTx\<close> of the service's \<^verbatim>\<open>main\<close>: begin, run, and roll back unless the function and the commit
  succeed; a commit whose reply is lost has taken effect.
\<close>

definition rollback_to :: "tables \<Rightarrow> go_error \<Rightarrow> ('w, 'a) act" where
  "rollback_to t e = State (\<lambda>w. (Inl e, w\<lparr>w_db := t\<rparr>))"

definition runInTx :: "('w, 'a) act \<Rightarrow> ('w, 'a) act" where
  "runInTx fn = do {
     w \<leftarrow> State_Monad.get;
     b \<leftarrow> next_outcome;
     case b of
       SqlOk \<Rightarrow> check fn (rollback_to (w_db w)) (\<lambda>x. do {
         c \<leftarrow> next_outcome;
         case c of
           SqlOk \<Rightarrow> ret x
         | SqlFail m \<Rightarrow> rollback_to (w_db w) (External m)
         | SqlLost m \<Rightarrow> fail (External m) })
     | SqlFail m \<Rightarrow> fail (External m)
     | SqlLost m \<Rightarrow> fail (External m)
   }"

section \<open>Reasoning about runs that succeed\<close>

text \<open>\<open>runs m w x w'\<close>: started in \<open>w\<close>, \<open>m\<close> returns \<open>x\<close> without an error and leaves \<open>w'\<close>.\<close>

definition runs :: "('w, 'a) act \<Rightarrow> 'w world \<Rightarrow> 'a \<Rightarrow> 'w world \<Rightarrow> bool" where
  "runs m w x w' \<longleftrightarrow> run_state m w = (Inr x, w')"

named_theorems runs_elims \<open>what a successful run consists of\<close>

lemma next_outcome_db: "run_state next_outcome w = (n, w') \<Longrightarrow> w_db w' = w_db w \<and> w_tok w' = w_tok w"
  by (auto simp: next_outcome_def split: list.splits)

lemma runs_fail [simp]: "\<not> runs (fail e) w x w'"
  by (simp add: runs_def fail_def)

lemma runs_retE [runs_elims]: "runs (ret y) w x w' \<Longrightarrow> (x = y \<Longrightarrow> w' = w \<Longrightarrow> P) \<Longrightarrow> P"
  by (auto simp: runs_def ret_def)

lemma runs_on_db: "runs (on_db q) w x w' \<longleftrightarrow> q (w_db w) = (Inr x, w_db w') \<and> w' = w\<lparr>w_db := w_db w'\<rparr>"
  by (auto simp: runs_def on_db_def split: prod.splits)

lemma runs_queryE [runs_elims]:
  assumes "runs (query q) w x w'"
  obtains "q (w_db w) = (Inr x, w_db w')" "w_tok w' = w_tok w"
proof -
  obtain n w1 where n: "run_state next_outcome w = (n, w1)" by fastforce
  note d = next_outcome_db [OF n]
  from assms n have "n = SqlOk" "runs (on_db q) w1 x w'"
    by (cases n; simp add: runs_def query_def split: prod.splits)+
  with d that show thesis unfolding runs_on_db by (metis world.select_convs(3) world.surjective world.update_convs(1))
qed

lemma runs_checkE [runs_elims]:
  assumes "runs (check m h k) w y w'"
  obtains x w1 where "runs m w x w1" "runs (k x) w1 y w'"
    | e w1 where "run_state m w = (Inl e, w1)" "runs (h e) w1 y w'"
  using assms by (auto simp: runs_def check_def split: prod.splits sum.splits)

text \<open>The handler of an error usually returns one.\<close>

lemma runs_check_failE [runs_elims]:
  assumes "runs (check m (\<lambda>e. fail (h e)) k) w y w'"
  obtains x w1 where "runs m w x w1" "runs (k x) w1 y w'"
  using assms by (auto elim: runs_checkE)

lemma rollback_run [simp]: "run_state (rollback_to t e) w = (Inl e, w\<lparr>w_db := t\<rparr>)"
  by (simp add: rollback_to_def)

text \<open>
  A transaction leaves the tables as they were, with an error, or its function ran to the end
  and the tables are the ones it left; the latter is the only way not to return an error.
\<close>

lemma runInTx_cases:
  assumes "run_state (runInTx fn) w = (r, w')"
  obtains (rolled) e where "r = Inl e" "w_db w' = w_db w"
    | (committed) x w0 w1 where "w_db w0 = w_db w" "w_tok w0 = w_tok w" "runs fn w0 x w1" "w_db w' = w_db w1" "w_tok w' = w_tok w1"
        "r = Inr x \<or> (\<exists>m. r = Inl (External m))"
proof -
  obtain b w0 where b: "run_state next_outcome w = (b, w0)" by fastforce
  note d0 = next_outcome_db [OF b]
  obtain q w1 where q: "run_state fn w0 = (q, w1)" by fastforce
  obtain c w2 where c: "run_state next_outcome w1 = (c, w2)" by fastforce
  note d2 = next_outcome_db [OF c]
  show thesis
  proof (cases "b = SqlOk \<and> (\<exists>x. q = Inr x)")
    case True
    then obtain x where x: "q = Inr x" "b = SqlOk" by auto
    have r: "(r, w') = (case c of SqlOk \<Rightarrow> (Inr x, w2) | SqlFail m \<Rightarrow> (Inl (External m), w2\<lparr>w_db := w_db w\<rparr>) | SqlLost m \<Rightarrow> (Inl (External m), w2))"
      using assms b q c x by (simp add: runInTx_def check_def ret_def fail_def split: sql_outcome.splits)
    show thesis
      using r d0 d2 q x rolled committed [of w0 x w1] by (cases c) (auto simp: runs_def)
  next
    case False
    then show thesis using assms b q d0 rolled
      by (cases b; cases q) (auto simp: runInTx_def check_def fail_def)
  qed
qed

lemma runs_inTxE [runs_elims]:
  assumes "runs (runInTx fn) w x w'"
  obtains w0 w1 where "w_db w0 = w_db w" "w_tok w0 = w_tok w" "runs fn w0 x w1" "w_db w' = w_db w1" "w_tok w' = w_tok w1"
  using assms by (auto simp: runs_def [of "runInTx fn"] elim: runInTx_cases)

end
