(* ===== verification/Tokens.thy ===== *)
theory Tokens
  imports Redis
begin

text \<open>
  The refresh tokens of the user service (\<^verbatim>\<open>internal/user/refresh_token_store.go\<close>): the five Lua
  scripts as sequences of Redis commands, the methods of \<^verbatim>\<open>RedisRefreshTokenStore\<close> with their error
  branches, an abstract specification of a token store (which tokens are active and which were
  used, and for whom), and the proof that the store refines it.
\<close>

section \<open>Data\<close>

datatype RefreshTokenRotationStatus = RefreshTokenInvalid | RefreshTokenRotated | RefreshTokenReused

record RefreshTokenRotation =
  rot_Status :: RefreshTokenRotationStatus
  rot_UserID :: string

datatype RefreshTokenValidationStatus =
  RefreshTokenValidationInvalid | RefreshTokenValidationActive | RefreshTokenValidationReused

record RefreshTokenValidation =
  val_Status :: RefreshTokenValidationStatus
  val_UserID :: string

text \<open>The interface, over a state of the services behind it; times are in nanoseconds.\<close>

record 'w RefreshTokenStore =
  rts_Issue :: "string \<Rightarrow> string \<Rightarrow> int \<Rightarrow> 'w \<Rightarrow> go_error option \<times> 'w"
  rts_Validate :: "string \<Rightarrow> 'w \<Rightarrow> (go_error + RefreshTokenValidation) \<times> 'w"
  rts_Rotate :: "string \<Rightarrow> string \<Rightarrow> int \<Rightarrow> 'w \<Rightarrow> (go_error + RefreshTokenRotation) \<times> 'w"
  rts_Revoke :: "string \<Rightarrow> 'w \<Rightarrow> go_error option \<times> 'w"
  rts_RevokeUser :: "string \<Rightarrow> 'w \<Rightarrow> go_error option \<times> 'w"

definition errRefreshTokenStoreNotConfigured :: go_error where
  "errRefreshTokenStoreNotConfigured = ErrNew ''refresh token store not configured''"

definition missingRefreshTokenStore :: "'w RefreshTokenStore" where
  "missingRefreshTokenStore = (let e = errRefreshTokenStoreNotConfigured in
     \<lparr>rts_Issue = (\<lambda>u t d w. (Some e, w)), rts_Validate = (\<lambda>t w. (Inl e, w)), rts_Rotate = (\<lambda>a b d w. (Inl e, w)),
      rts_Revoke = (\<lambda>t w. (Some e, w)), rts_RevokeUser = (\<lambda>u w. (Some e, w))\<rparr>)"

definition refreshTokenActivePrefix :: string where "refreshTokenActivePrefix = ''auth:rt:active:''"
definition refreshTokenUsedPrefix :: string where "refreshTokenUsedPrefix = ''auth:rt:used:''"
definition refreshTokenUserPrefix :: string where "refreshTokenUserPrefix = ''auth:rt:user:''"

definition activeKey :: "string \<Rightarrow> string" where "activeKey digest = refreshTokenActivePrefix @ digest"
definition usedKey :: "string \<Rightarrow> string" where "usedKey digest = refreshTokenUsedPrefix @ digest"
definition userIndexKey :: "string \<Rightarrow> string" where "userIndexKey userID = refreshTokenUserPrefix @ userID"

text \<open>\<^verbatim>\<open>auth.HashToken\<close>: the hexadecimal text of the digest; \<open>sum256\<close> is \<^verbatim>\<open>sha256.Sum256\<close>.\<close>

definition hex_digit :: "nat \<Rightarrow> char" where
  "hex_digit n = (if n < 10 then char_of (48 + n) else char_of (87 + n))"

definition EncodeToString :: "string \<Rightarrow> string" where
  "EncodeToString bs = concat (map (\<lambda>b. [hex_digit (byte b div 16), hex_digit (byte b mod 16)]) bs)"

definition HashToken :: "(string \<Rightarrow> string) \<Rightarrow> string \<Rightarrow> string" where
  "HashToken sum256 token = EncodeToString (sum256 token)"

section \<open>The Lua scripts\<close>

definition issueRefreshTokenScript ::
  "'r redis_api \<Rightarrow> string \<Rightarrow> string \<Rightarrow> string \<Rightarrow> string \<Rightarrow> int \<Rightarrow> int \<Rightarrow> 'r \<Rightarrow> int \<times> 'r" where
  "issueRefreshTokenScript api active_key user_index_key digest user_id ttl_ms expires_at_ms s =
    (case r_setnx api s active_key user_id ttl_ms of (created, s1) \<Rightarrow>
      if \<not> created then (0, s1)
      else
       (let s2 = r_zremrangebyscore api s1 user_index_key (expires_at_ms - ttl_ms);
            s3 = r_zadd api s2 user_index_key expires_at_ms digest;
            s4 = r_pexpire api s3 user_index_key ttl_ms
        in (1, s4)))"

text \<open>The loop over the digests of a user and the removal of the index, common to three scripts.\<close>

definition revoke_family :: "'r redis_api \<Rightarrow> string \<Rightarrow> string \<Rightarrow> 'r \<Rightarrow> 'r" where
  "revoke_family api active_prefix user_index_key s =
    (let s1 = fold (\<lambda>digest s. snd (r_del api s (active_prefix @ digest))) (r_zrange api s user_index_key) s
     in snd (r_del api s1 user_index_key))"

definition validateRefreshTokenScript ::
  "'r redis_api \<Rightarrow> string \<Rightarrow> string \<Rightarrow> string \<Rightarrow> string \<Rightarrow> 'r \<Rightarrow> (int \<times> string) \<times> 'r" where
  "validateRefreshTokenScript api active_key used_key user_index_prefix active_prefix s =
    (case r_get api s active_key of
       Some user_id \<Rightarrow> ((1, user_id), s)
     | None \<Rightarrow> (case r_get api s used_key of
          Some user_id \<Rightarrow> ((2, user_id), revoke_family api active_prefix (user_index_prefix @ user_id) s)
        | None \<Rightarrow> ((0, ''''), s)))"

definition rotateRefreshTokenScript ::
  "'r redis_api \<Rightarrow> string \<Rightarrow> string \<Rightarrow> string \<Rightarrow> string \<Rightarrow> string \<Rightarrow> int \<Rightarrow> int \<Rightarrow> string \<Rightarrow> string \<Rightarrow> 'r \<Rightarrow> (int \<times> string) \<times> 'r" where
  "rotateRefreshTokenScript api old_active_key old_used_key new_active_key old_digest new_digest ttl_ms now_ms
     user_index_prefix active_prefix s =
    (case r_get api s old_active_key of
       Some user_id \<Rightarrow>
        (let pttl = r_pttl api s old_active_key;
             remaining_ttl_ms = (if pttl < 1 then ttl_ms else pttl);
             s1 = snd (r_del api s old_active_key);
             s2 = r_set api s1 old_used_key user_id (Some remaining_ttl_ms);
             s3 = r_set api s2 new_active_key user_id (Some ttl_ms);
             user_index_key = user_index_prefix @ user_id;
             s4 = r_zremrangebyscore api s3 user_index_key now_ms;
             s5 = r_zrem api s4 user_index_key old_digest;
             s6 = r_zadd api s5 user_index_key (now_ms + ttl_ms) new_digest;
             s7 = r_pexpire api s6 user_index_key ttl_ms
         in ((1, user_id), s7))
     | None \<Rightarrow> (case r_get api s old_used_key of
          Some user_id \<Rightarrow> ((2, user_id), revoke_family api active_prefix (user_index_prefix @ user_id) s)
        | None \<Rightarrow> ((0, ''''), s)))"

definition revokeRefreshTokenScript :: "'r redis_api \<Rightarrow> string \<Rightarrow> string \<Rightarrow> string \<Rightarrow> 'r \<Rightarrow> int \<times> 'r" where
  "revokeRefreshTokenScript api active_key digest user_index_prefix s =
    (case r_get api s active_key of
       Some user_id \<Rightarrow> (1, r_zrem api (snd (r_del api s active_key)) (user_index_prefix @ user_id) digest)
     | None \<Rightarrow> (1, s))"

definition revokeRefreshTokensByUserScript :: "'r redis_api \<Rightarrow> string \<Rightarrow> string \<Rightarrow> 'r \<Rightarrow> int \<times> 'r" where
  "revokeRefreshTokensByUserScript api user_index_key active_prefix s =
     (int (length (r_zrange api s user_index_key)), revoke_family api active_prefix user_index_key s)"

section \<open>The store\<close>

definition Milliseconds :: "int \<Rightarrow> int" where "Milliseconds d = d div 1000000"
definition UnixMilli :: "int \<Rightarrow> int" where "UnixMilli t = t div 1000000"

text \<open>A nil client is \<open>False\<close>.\<close>

definition validateClient :: "bool \<Rightarrow> go_error option" where
  "validateClient client = (if client then None else Some (ErrNew ''redis refresh token store is not configured''))"

definition validateRefreshTokenStoreInput :: "string \<Rightarrow> string \<Rightarrow> int \<Rightarrow> go_error option" where
  "validateRefreshTokenStoreInput userID token ttl =
    (if userID = '''' then Some (ErrNew ''user id is required'')
     else if token = '''' then Some (ErrNew ''refresh token is required'')
     else if ttl \<le> 0 then Some (ErrNew ''refresh token ttl must be positive'')
     else None)"

text \<open>The values that the Redis client makes of a script's reply.\<close>

datatype reply = RInt int | RText string | RList "reply list" | RNil

fun parseLuaInt :: "reply \<Rightarrow> go_error + int" where
  "parseLuaInt (RInt v) = Inr v"
| "parseLuaInt (RText v) = (case ParseInt v 64 of
     None \<Rightarrow> Inl (Wrap ''unexpected lua integer value'' (ErrNew ''invalid syntax'')) | Some n \<Rightarrow> Inr n)"
| "parseLuaInt _ = Inl (ErrNew ''unexpected lua integer type'')"

definition parse_status_user :: "string \<Rightarrow> (int \<Rightarrow> string \<Rightarrow> 'a option) \<Rightarrow> reply \<Rightarrow> go_error + 'a" where
  "parse_status_user what mk result = (case result of
      RList [c, u] \<Rightarrow> (case parseLuaInt c of
         Inl err \<Rightarrow> Inl err
       | Inr statusCode \<Rightarrow> (case u of
           RText userID \<Rightarrow> (case mk statusCode userID of
              Some x \<Rightarrow> Inr x | None \<Rightarrow> Inl (ErrNew (''unexpected refresh token '' @ what @ '' status'')))
         | _ \<Rightarrow> Inl (ErrNew (''unexpected refresh token '' @ what @ '' user id type''))))
    | _ \<Rightarrow> Inl (ErrNew (''unexpected refresh token '' @ what @ '' result'')))"

definition parseRefreshTokenValidation :: "reply \<Rightarrow> go_error + RefreshTokenValidation" where
  "parseRefreshTokenValidation = parse_status_user ''validation'' (\<lambda>c u.
     if c = 0 then Some \<lparr>val_Status = RefreshTokenValidationInvalid, val_UserID = ''''\<rparr>
     else if c = 1 then Some \<lparr>val_Status = RefreshTokenValidationActive, val_UserID = u\<rparr>
     else if c = 2 then Some \<lparr>val_Status = RefreshTokenValidationReused, val_UserID = u\<rparr>
     else None)"

definition parseRefreshTokenRotation :: "reply \<Rightarrow> go_error + RefreshTokenRotation" where
  "parseRefreshTokenRotation = parse_status_user ''rotation'' (\<lambda>c u.
     if c = 0 then Some \<lparr>rot_Status = RefreshTokenInvalid, rot_UserID = ''''\<rparr>
     else if c = 1 then Some \<lparr>rot_Status = RefreshTokenRotated, rot_UserID = u\<rparr>
     else if c = 2 then Some \<lparr>rot_Status = RefreshTokenReused, rot_UserID = u\<rparr>
     else None)"

text \<open>The reply of a script that returns a pair.\<close>

definition pair_reply :: "int \<times> string \<Rightarrow> reply" where
  "pair_reply r = RList [RInt (fst r), RText (snd r)]"

definition rt_Issue ::
  "(string \<Rightarrow> string) \<Rightarrow> 'r redis_api \<Rightarrow> bool \<Rightarrow> net \<Rightarrow> int \<Rightarrow> string \<Rightarrow> string \<Rightarrow> int \<Rightarrow> 'r \<Rightarrow> go_error option \<times> 'r" where
  "rt_Issue sum256 api client n now userID token ttl s = (case validateClient client of
      Some err \<Rightarrow> (Some err, s)
    | None \<Rightarrow> (case validateRefreshTokenStoreInput userID token ttl of
        Some err \<Rightarrow> (Some err, s)
      | None \<Rightarrow> (let digest = HashToken sum256 token in
          case net_call n (issueRefreshTokenScript api (activeKey digest) (userIndexKey userID) digest userID
                 (Milliseconds ttl) (UnixMilli (now + ttl))) s of
            (Inl err, s') \<Rightarrow> (Some (Wrap ''issue refresh token'' err), s')
          | (Inr created, s') \<Rightarrow>
              if created \<noteq> 1 then (Some (ErrNew ''issue refresh token: digest already active''), s') else (None, s'))))"

definition rt_Validate ::
  "(string \<Rightarrow> string) \<Rightarrow> 'r redis_api \<Rightarrow> bool \<Rightarrow> net \<Rightarrow> string \<Rightarrow> 'r \<Rightarrow> (go_error + RefreshTokenValidation) \<times> 'r" where
  "rt_Validate sum256 api client n token s = (case validateClient client of
      Some err \<Rightarrow> (Inl err, s)
    | None \<Rightarrow>
       if token = '''' then (Inl (ErrNew ''refresh token is required''), s)
       else (let digest = HashToken sum256 token in
         case net_call n (validateRefreshTokenScript api (activeKey digest) (usedKey digest)
                refreshTokenUserPrefix refreshTokenActivePrefix) s of
           (Inl err, s') \<Rightarrow> (Inl (Wrap ''validate refresh token'' err), s')
         | (Inr result, s') \<Rightarrow> (parseRefreshTokenValidation (pair_reply result), s')))"

definition rt_Rotate ::
  "(string \<Rightarrow> string) \<Rightarrow> 'r redis_api \<Rightarrow> bool \<Rightarrow> net \<Rightarrow> int \<Rightarrow> string \<Rightarrow> string \<Rightarrow> int \<Rightarrow> 'r \<Rightarrow> (go_error + RefreshTokenRotation) \<times> 'r" where
  "rt_Rotate sum256 api client n now oldToken newToken ttl s = (case validateClient client of
      Some err \<Rightarrow> (Inl err, s)
    | None \<Rightarrow>
       if oldToken = '''' then (Inl (ErrNew ''refresh token is required''), s)
       else if newToken = '''' then (Inl (ErrNew ''refresh token is required''), s)
       else if ttl \<le> 0 then (Inl (ErrNew ''refresh token ttl must be positive''), s)
       else (let oldDigest = HashToken sum256 oldToken; newDigest = HashToken sum256 newToken in
         case net_call n (rotateRefreshTokenScript api (activeKey oldDigest) (usedKey oldDigest) (activeKey newDigest)
                oldDigest newDigest (Milliseconds ttl) (UnixMilli now) refreshTokenUserPrefix refreshTokenActivePrefix) s of
           (Inl err, s') \<Rightarrow> (Inl (Wrap ''rotate refresh token'' err), s')
         | (Inr result, s') \<Rightarrow> (parseRefreshTokenRotation (pair_reply result), s')))"

definition rt_Revoke ::
  "(string \<Rightarrow> string) \<Rightarrow> 'r redis_api \<Rightarrow> bool \<Rightarrow> net \<Rightarrow> string \<Rightarrow> 'r \<Rightarrow> go_error option \<times> 'r" where
  "rt_Revoke sum256 api client n token s = (case validateClient client of
      Some err \<Rightarrow> (Some err, s)
    | None \<Rightarrow>
       if token = '''' then (Some (ErrNew ''refresh token is required''), s)
       else (let digest = HashToken sum256 token in
         case net_call n (revokeRefreshTokenScript api (activeKey digest) digest refreshTokenUserPrefix) s of
           (Inl err, s') \<Rightarrow> (Some (Wrap ''revoke refresh token'' err), s')
         | (Inr _, s') \<Rightarrow> (None, s')))"

definition rt_RevokeUser ::
  "'r redis_api \<Rightarrow> bool \<Rightarrow> net \<Rightarrow> string \<Rightarrow> 'r \<Rightarrow> go_error option \<times> 'r" where
  "rt_RevokeUser api client n userID s = (case validateClient client of
      Some err \<Rightarrow> (Some err, s)
    | None \<Rightarrow>
       if userID = '''' then (Some (ErrNew ''user id is required''), s)
       else (case net_call n (revokeRefreshTokensByUserScript api (userIndexKey userID) refreshTokenActivePrefix) s of
           (Inl err, s') \<Rightarrow> (Some (Wrap ''revoke user refresh tokens'' err), s')
         | (Inr _, s') \<Rightarrow> (None, s')))"

section \<open>What the scripts do to the keys\<close>

lemma key_simps [simp]:
  "activeKey d \<noteq> usedKey d'" "usedKey d' \<noteq> activeKey d" "activeKey d \<noteq> userIndexKey u" "userIndexKey u \<noteq> activeKey d"
  "usedKey d \<noteq> userIndexKey u" "userIndexKey u \<noteq> usedKey d"
  "activeKey d = activeKey e \<longleftrightarrow> d = e" "usedKey d = usedKey e \<longleftrightarrow> d = e" "userIndexKey u = userIndexKey v \<longleftrightarrow> u = v"
  by (simp_all add: activeKey_def usedKey_def userIndexKey_def refreshTokenActivePrefix_def refreshTokenUsedPrefix_def refreshTokenUserPrefix_def)

text \<open>Keys that hold a sorted set or nothing, and the set.\<close>

definition zkey :: "keyspace \<Rightarrow> string \<Rightarrow> bool" where
  "zkey ks k \<longleftrightarrow> ks k = None \<or> (\<exists>z e. ks k = Some (RZSet z, e))"

definition zset_of :: "keyspace \<Rightarrow> string \<Rightarrow> (string, int) fmap" where
  "zset_of ks k = (case ks k of Some (RZSet z, e) \<Rightarrow> z | _ \<Rightarrow> fmempty)"

lemma zset_of_entry [simp]: "zset_of (ks(k := zset_entry z e)) k = z" "zkey (ks(k := zset_entry z e)) k"
  by (simp_all add: zset_of_def zset_entry_def zkey_def)

definition family :: "keyspace \<Rightarrow> string \<Rightarrow> string set" where
  "family ks u = fset (fmdom (zset_of ks (userIndexKey u)))"

definition without_family :: "string \<Rightarrow> keyspace \<Rightarrow> keyspace" where
  "without_family u ks = (\<lambda>k. if k = userIndexKey u \<or> k \<in> activeKey ` family ks u then None else ks k)"

text \<open>Pruning a user's index, removing the digests \<open>R\<close>, and adding one that expires at \<open>t\<close>.\<close>

definition index_put :: "string \<Rightarrow> int \<Rightarrow> string set \<Rightarrow> string \<Rightarrow> int \<Rightarrow> int \<Rightarrow> keyspace \<Rightarrow> keyspace" where
  "index_put u mx R d sc t ks = ks(userIndexKey u \<mapsto>
     (RZSet (fmupd d sc (fmfilter (\<lambda>x. x \<notin> R) (zset_above mx (zset_of ks (userIndexKey u))))), Some t))"

context redis
begin

lemma zremrange_eff:
  assumes "zkey (view s) k"
  shows "zkey (view (r_zremrangebyscore api s k mx)) k" "zset_of (view (r_zremrangebyscore api s k mx)) k = zset_above mx (zset_of (view s) k)"
    "k' \<noteq> k \<Longrightarrow> view (r_zremrangebyscore api s k mx) k' = view s k'"
proof -
  have e: "zset_above mx fmempty = fmempty" by (rule fmap_ext) simp
  consider "view s k = None" | z e where "view s k = Some (RZSet z, e)" using assms by (auto simp: zkey_def)
  then show "zkey (view (r_zremrangebyscore api s k mx)) k" "zset_of (view (r_zremrangebyscore api s k mx)) k = zset_above mx (zset_of (view s) k)"
    "k' \<noteq> k \<Longrightarrow> view (r_zremrangebyscore api s k mx) k' = view s k'"
    by (cases; simp add: zremrange_none zremrange_old e; simp add: zkey_def zset_of_def e)+
qed

lemma zrem_eff:
  assumes "zkey (view s) k"
  shows "zkey (view (r_zrem api s k m)) k" "zset_of (view (r_zrem api s k m)) k = fmdrop m (zset_of (view s) k)"
    "k' \<noteq> k \<Longrightarrow> view (r_zrem api s k m) k' = view s k'"
proof -
  have e: "fmdrop m fmempty = fmempty" by simp
  consider "view s k = None" | z e where "view s k = Some (RZSet z, e)" using assms by (auto simp: zkey_def)
  then show "zkey (view (r_zrem api s k m)) k" "zset_of (view (r_zrem api s k m)) k = fmdrop m (zset_of (view s) k)"
    "k' \<noteq> k \<Longrightarrow> view (r_zrem api s k m) k' = view s k'"
    by (cases; simp add: zrem_none zrem_old e; simp add: zkey_def zset_of_def e)+
qed

lemma zadd_pexpire_eff:
  assumes "zkey (view s) k" "0 < ms"
  shows "view (r_pexpire api (r_zadd api s k sc m) k ms) = (view s)(k \<mapsto> (RZSet (fmupd m sc (zset_of (view s) k)), Some (clock s + ms)))"
proof -
  consider "view s k = None" | z e where "view s k = Some (RZSet z, e)" using assms(1) by (auto simp: zkey_def)
  then show ?thesis
    by cases (simp_all add: zadd_new zadd_old pexpire_live [OF _ assms(2)] zset_of_def)
qed

text \<open>Issuing and rotating end by updating the index.\<close>

lemma index_put_eff:
  assumes z: "zkey (view s) (userIndexKey u)" and ms: "0 < ms"
  defines "k \<equiv> userIndexKey u"
  shows "view (r_pexpire api (r_zadd api (r_zremrangebyscore api s k mx) k sc d) k ms) = index_put u mx {} d sc (clock s + ms) (view s)"
    "view (r_pexpire api (r_zadd api (r_zrem api (r_zremrangebyscore api s k mx) k old) k sc d) k ms) =
      index_put u mx {old} d sc (clock s + ms) (view s)"
proof -
  note A = zremrange_eff [OF z [folded k_def], where mx = mx]
  note B = zrem_eff [OF A(1), where m = old]
  have f: "fmfilter (\<lambda>x. True) zz = zz" "fmfilter (\<lambda>x. x \<noteq> old) zz = fmdrop old zz" for zz :: "(string, int) fmap"
    by (rule fmap_ext; simp)+
  have C: "(view (r_zremrangebyscore api s k mx))(k \<mapsto> v) = (view s)(k \<mapsto> v)" for v using A(3) by (auto simp: fun_eq_iff)
  have D: "(view (r_zrem api (r_zremrangebyscore api s k mx) k old))(k \<mapsto> v) = (view s)(k \<mapsto> v)" for v using A(3) B(3) by (auto simp: fun_eq_iff)
  show "view (r_pexpire api (r_zadd api (r_zremrangebyscore api s k mx) k sc d) k ms) = index_put u mx {} d sc (clock s + ms) (view s)"
    by (simp add: zadd_pexpire_eff [OF A(1) ms] C A(2) index_put_def k_def [symmetric] f)
  show "view (r_pexpire api (r_zadd api (r_zrem api (r_zremrangebyscore api s k mx) k old) k sc d) k ms) =
      index_put u mx {old} d sc (clock s + ms) (view s)"
    by (simp add: zadd_pexpire_eff [OF B(1) ms] D A(2) B(2) index_put_def k_def [symmetric] f)
qed

lemma del_digests:
  "view (fold (\<lambda>d s. snd (r_del api s (refreshTokenActivePrefix @ d))) ds s) = (\<lambda>k. if k \<in> activeKey ` set ds then None else view s k)"
  "clock (fold (\<lambda>d s. snd (r_del api s (refreshTokenActivePrefix @ d))) ds s) = clock s"
  by (induction ds arbitrary: s) (auto simp: del_view activeKey_def fun_eq_iff)

lemma revoke_family_eff:
  assumes "zkey (view s) (userIndexKey u)"
  shows "view (revoke_family api refreshTokenActivePrefix (refreshTokenUserPrefix @ u) s) = without_family u (view s)"
    "clock (revoke_family api refreshTokenActivePrefix (refreshTokenUserPrefix @ u) s) = clock s"
proof -
  have "set (r_zrange api s (userIndexKey u)) = family (view s) u"
    using assms by (auto simp: zkey_def family_def zset_of_def zrange_none zrange_old)
  then show "view (revoke_family api refreshTokenActivePrefix (refreshTokenUserPrefix @ u) s) = without_family u (view s)"
    "clock (revoke_family api refreshTokenActivePrefix (refreshTokenUserPrefix @ u) s) = clock s"
    by (auto simp: revoke_family_def Let_def del_view del_digests userIndexKey_def [symmetric] without_family_def fun_eq_iff)
qed

end

section \<open>The invariant\<close>

text \<open>
  \<open>T\<close> is the lifetime of a token in milliseconds, \<open>c\<close> the time. Every active token that outlives the
  moment is in the index of its user, with a score that outlives it too, and an index never names
  another user's token.
\<close>

definition tok_inv :: "int \<Rightarrow> int \<Rightarrow> keyspace \<Rightarrow> bool" where
  "tok_inv T c ks \<longleftrightarrow>
    (\<forall>d. ks (activeKey d) = None \<or> (\<exists>u t. ks (activeKey d) = Some (RStr u, Some t) \<and> t \<le> c + T)) \<and>
    (\<forall>d. ks (usedKey d) = None \<or> (\<exists>u t. ks (usedKey d) = Some (RStr u, Some t))) \<and>
    (\<forall>u. ks (userIndexKey u) = None \<or> (\<exists>z e. ks (userIndexKey u) = Some (RZSet z, Some e))) \<and>
    (\<forall>d u t. ks (activeKey d) = Some (RStr u, Some t) \<longrightarrow> c < t \<longrightarrow>
       (\<exists>z e sc. ks (userIndexKey u) = Some (RZSet z, Some e) \<and> t \<le> e \<and> fmlookup z d = Some sc \<and> t \<le> sc)) \<and>
    (\<forall>u z e d sc v x. ks (userIndexKey u) = Some (RZSet z, e) \<longrightarrow> fmlookup z d = Some sc \<longrightarrow>
       ks (activeKey d) = Some (RStr v, x) \<longrightarrow> v = u)"

lemma tok_invD:
  assumes "tok_inv T c ks"
  shows "ks (activeKey d) = None \<or> (\<exists>u t. ks (activeKey d) = Some (RStr u, Some t) \<and> t \<le> c + T)"
    "ks (usedKey d) = None \<or> (\<exists>u t. ks (usedKey d) = Some (RStr u, Some t))"
    "ks (userIndexKey u) = None \<or> (\<exists>z e. ks (userIndexKey u) = Some (RZSet z, Some e))"
    "ks (activeKey d) = Some (RStr u, Some t) \<Longrightarrow> c < t \<Longrightarrow>
       \<exists>z e sc. ks (userIndexKey u) = Some (RZSet z, Some e) \<and> t \<le> e \<and> fmlookup z d = Some sc \<and> t \<le> sc"
    "ks (userIndexKey u) = Some (RZSet z, e) \<Longrightarrow> fmlookup z d = Some sc \<Longrightarrow> ks (activeKey d) = Some (RStr v, x) \<Longrightarrow> v = u"
  using assms unfolding tok_inv_def by blast+

lemma tok_inv_zkey: "tok_inv T c ks \<Longrightarrow> zkey ks (userIndexKey u)"
  using tok_invD(3) [of T c ks u] by (auto simp: zkey_def)

text \<open>The tokens that are active, and those that were used and are remembered.\<close>

definition live :: "int \<Rightarrow> rentry option \<Rightarrow> string option" where
  "live c e = (case e of Some (RStr u, Some t) \<Rightarrow> if c < t then Some u else None | _ \<Rightarrow> None)"

definition tok_active :: "int \<Rightarrow> keyspace \<Rightarrow> string \<Rightarrow> string option" where
  "tok_active c ks d = live c (ks (activeKey d))"

definition tok_used :: "int \<Rightarrow> keyspace \<Rightarrow> string \<Rightarrow> string option" where
  "tok_used c ks d = live c (ks (usedKey d))"

text \<open>A digest none of whose keys has reached its last moment, and one that no key mentions.\<close>

definition settled :: "int \<Rightarrow> keyspace \<Rightarrow> string \<Rightarrow> bool" where
  "settled c ks d \<longleftrightarrow> (\<forall>v t. ks (activeKey d) = Some (v, Some t) \<or> ks (usedKey d) = Some (v, Some t) \<longrightarrow> c < t)"

definition unseen :: "keyspace \<Rightarrow> string \<Rightarrow> bool" where
  "unseen ks d \<longleftrightarrow> ks (activeKey d) = None \<and> ks (usedKey d) = None \<and> (\<forall>u. d \<notin> family ks u)"

lemma live_simps [simp]:
  "live c None = None" "live c (Some (RStr u, Some t)) = (if c < t then Some u else None)"
  by (simp_all add: live_def)

section \<open>The invariant is kept\<close>

lemma zset_of_Some [simp]: "ks k = Some (RZSet z, e) \<Longrightarrow> zset_of ks k = z"
  by (simp add: zset_of_def)

lemma family_Some: "ks (userIndexKey u) = Some (RZSet z, e) \<Longrightarrow> d \<in> family ks u \<longleftrightarrow> (\<exists>sc. fmlookup z d = Some sc)"
  by (auto simp: family_def fmlookup_dom_iff)

lemma zset_of_other [simp]: "k \<noteq> k' \<Longrightarrow> zset_of (ks(k' := v)) k = zset_of ks k"
  by (simp add: zset_of_def)

lemma tok_inv_use: "tok_inv T c ks \<Longrightarrow> tok_inv T c (ks(usedKey d \<mapsto> (RStr u, Some t)))"
  unfolding tok_inv_def by auto

text \<open>A new token, with the index of its user.\<close>

lemma tok_inv_put:
  fixes u :: string
  assumes inv: "tok_inv T c ks" and new: "ks (activeKey d) = None" "\<And>v. d \<notin> family ks v" and R: "\<And>x. x \<in> R \<Longrightarrow> ks (activeKey x) = None"
    and T: "0 < T"
  defines "ks' \<equiv> index_put u c R d (c + T) (c + T) (ks(activeKey d \<mapsto> (RStr u, Some (c + T))))"
  shows "tok_inv T c ks'" "d \<notin> R \<Longrightarrow> tok_active c ks' = (tok_active c ks)(d \<mapsto> u)" "tok_used c ks' = tok_used c ks"
proof -
  let ?z = "fmupd d (c + T) (fmfilter (\<lambda>x. x \<notin> R) (zset_above c (zset_of ks (userIndexKey u))))"
  have zo: "zset_of (ks(activeKey d \<mapsto> e)) (userIndexKey u) = zset_of ks (userIndexKey u)" for e
    by (simp add: zset_of_def)
  have k: "ks' (activeKey x) = (if x = d then Some (RStr u, Some (c + T)) else ks (activeKey x))"
    "ks' (usedKey x) = ks (usedKey x)"
    "ks' (userIndexKey v) = (if v = u then Some (RZSet ?z, Some (c + T)) else ks (userIndexKey v))" for x v
    unfolding ks'_def index_put_def zo by simp_all
  note D = tok_invD [OF inv]
  show "tok_used c ks' = tok_used c ks" by (simp add: tok_used_def k fun_eq_iff)
  show "tok_active c ks' = (tok_active c ks)(d \<mapsto> u)" if "d \<notin> R" using T by (simp add: tok_active_def k fun_eq_iff)
  show "tok_inv T c ks'"
    unfolding tok_inv_def
  proof (intro conjI allI impI, goal_cases)
    case (1 x)
    then show ?case using D(1) [of x] by (auto simp: k)
  next
    case (2 x)
    then show ?case using D(2) [of x] by (auto simp: k)
  next
    case (3 v)
    then show ?case using D(3) [of v] by (auto simp: k)
  next
    case (4 x v t)
    show ?case
    proof (cases "x = d")
      case True
      with 4 show ?thesis by (simp add: k)
    next
      case False
      with 4 obtain z e sc where old: "ks (userIndexKey v) = Some (RZSet z, Some e)" "t \<le> e" "fmlookup z x = Some sc" "t \<le> sc"
        using D(4) [of x v t] by (auto simp: k)
      moreover have "x \<notin> R" using R [of x] 4(1) False by (auto simp: k)
      moreover have "t \<le> c + T" using D(1) [of x] 4(1) False by (auto simp: k)
      ultimately show ?thesis using False 4(2) by (auto simp: k)
    qed
  next
    case (5 v z e x sc w y)
    show ?case
    proof (cases "v = u")
      case True
      show ?thesis
      proof (cases "x = d")
        case False
        with 5 True have "fmlookup (zset_of ks (userIndexKey u)) x \<noteq> None" "ks (activeKey x) = Some (RStr w, y)"
          by (auto simp: k split: if_splits option.splits)
        then show ?thesis using D(3) [of u] D(5) [of u] True by (auto simp: zset_of_def split: option.splits)
      qed (use 5 True in \<open>simp add: k\<close>)
    next
      case False
      then have "x \<noteq> d" using 5 new(2) [of v] family_Some [of ks v z e x] by (auto simp: k)
      with 5 False show ?thesis using D(5) [of v z e x sc w y] by (simp add: k)
    qed
  qed
qed

lemma tok_inv_without:
  fixes u :: string
  assumes inv: "tok_inv T c ks"
  defines "ks' \<equiv> without_family u ks"
  shows "tok_inv T c ks'" "tok_active c ks' = (\<lambda>d. if tok_active c ks d = Some u then None else tok_active c ks d)"
    "tok_used c ks' = tok_used c ks"
proof -
  note D = tok_invD [OF inv]
  have k: "ks' (activeKey x) = (if x \<in> family ks u then None else ks (activeKey x))"
    "ks' (usedKey x) = ks (usedKey x)" "ks' (userIndexKey v) = (if v = u then None else ks (userIndexKey v))" for x v
    by (auto simp: ks'_def without_family_def)
  have own: "v = u" if "x \<in> family ks u" "ks (activeKey x) = Some (RStr v, y)" for x v y
    using that D(3) [of u] D(5) [of u _ _ x _ v y] by (auto simp: family_def zset_of_def fmlookup_dom_iff)
  have inn: "x \<in> family ks u" if "ks (activeKey x) = Some (RStr u, Some t)" "c < t" for x t
    using D(4) [OF that] by (auto simp: family_Some)
  show "tok_used c ks' = tok_used c ks" by (simp add: tok_used_def k fun_eq_iff)
  show "tok_active c ks' = (\<lambda>d. if tok_active c ks d = Some u then None else tok_active c ks d)"
  proof
    fix x
    show "tok_active c ks' x = (if tok_active c ks x = Some u then None else tok_active c ks x)"
      using D(1) [of x] own [of x] inn [of x] by (auto simp: tok_active_def k split: if_splits)
  qed
  show "tok_inv T c ks'"
    unfolding tok_inv_def
  proof (intro conjI allI impI, goal_cases)
    case (1 x)
    then show ?case using D(1) [of x] by (simp add: k)
  next
    case (2 x)
    then show ?case using D(2) [of x] by (simp add: k)
  next
    case (3 v)
    then show ?case using D(3) [of v] by (simp add: k)
  next
    case (4 x v t)
    then have "v \<noteq> u" using inn [of x t] by (auto simp: k split: if_splits)
    with 4 show ?case using D(4) [of x v t] by (auto simp: k split: if_splits)
  next
    case (5 v z e x sc w y)
    then show ?case using D(5) [of v z e x sc w y] by (auto simp: k split: if_splits)
  qed
qed

text \<open>Removing one token and its index entry.\<close>

lemma tok_inv_revoke:
  assumes inv: "tok_inv T c ks" and ks': "ks' (activeKey d) = None" "\<And>x. x \<noteq> d \<Longrightarrow> ks' (activeKey x) = ks (activeKey x)"
    "\<And>x. ks' (usedKey x) = ks (usedKey x)" "\<And>v. v \<noteq> u \<Longrightarrow> ks' (userIndexKey v) = ks (userIndexKey v)"
    and ix: "ks' (userIndexKey u) = ks (userIndexKey u) \<or>
      (\<exists>z e. ks (userIndexKey u) = Some (RZSet z, e) \<and> ks' (userIndexKey u) = zset_entry (fmdrop d z) e)"
  shows "tok_inv T c ks'" "tok_active c ks' = (tok_active c ks)(d := None)" "tok_used c ks' = tok_used c ks"
proof -
  note D = tok_invD [OF inv]
  show "tok_used c ks' = tok_used c ks" by (simp add: tok_used_def ks'(3) fun_eq_iff)
  show "tok_active c ks' = (tok_active c ks)(d := None)" using ks'(1,2) by (auto simp: tok_active_def fun_eq_iff)
  have sub: "\<exists>z'. ks (userIndexKey v) = Some (RZSet z', e) \<and> fmlookup z' x = Some sc"
    if "ks' (userIndexKey v) = Some (RZSet z, e)" "fmlookup z x = Some sc" for v z e x sc
  proof (cases "v = u \<and> ks' (userIndexKey u) \<noteq> ks (userIndexKey u)")
    case True
    with ix that show ?thesis by (auto simp: zset_entry_def split: if_splits)
  next
    case False
    with ks'(4) [of v] have "ks (userIndexKey v) = ks' (userIndexKey v)" by (cases "v = u") auto
    with that show ?thesis by simp
  qed
  have sup: "\<exists>z'. ks' (userIndexKey v) = Some (RZSet z', e) \<and> fmlookup z' x = Some sc"
    if "ks (userIndexKey v) = Some (RZSet z, e)" "fmlookup z x = Some sc" "x \<noteq> d" for v z e x sc
  proof (cases "v = u")
    case True
    from ix show ?thesis
    proof
      assume "\<exists>z e. ks (userIndexKey u) = Some (RZSet z, e) \<and> ks' (userIndexKey u) = zset_entry (fmdrop d z) e"
      with that True have n: "ks' (userIndexKey u) = zset_entry (fmdrop d z) e" by auto
      have "fmlookup (fmdrop d z) x = Some sc" using that by simp
      then have "fmdrop d z \<noteq> fmempty" by (metis fmempty_lookup option.distinct(1))
      with n True that show ?thesis by (simp add: zset_entry_def)
    qed (use that True in auto)
  qed (use that ks'(4) in simp)
  show "tok_inv T c ks'"
    unfolding tok_inv_def
  proof (intro conjI allI impI, goal_cases)
    case (1 x)
    then show ?case using D(1) [of x] ks'(1,2) by (cases "x = d") auto
  next
    case (2 x)
    then show ?case using D(2) [of x] ks'(3) by simp
  next
    case (3 v)
    then show ?case using D(3) [of v] ks'(4) [of v] ix by (cases "v = u") (auto simp: zset_entry_def split: if_splits)
  next
    case (4 x v t)
    then have "x \<noteq> d" using ks'(1) by auto
    with 4 ks'(2) obtain z e sc where "ks (userIndexKey v) = Some (RZSet z, Some e)" "t \<le> e" "fmlookup z x = Some sc" "t \<le> sc"
      using D(4) [of x v t] by auto
    with sup [of v z "Some e" x sc] \<open>x \<noteq> d\<close> show ?case by auto
  next
    case (5 v z e x sc w y)
    then have "x \<noteq> d" using ks'(1) by auto
    with 5 sub [of v z e x sc] ks'(2) [of x] D(5) [of v _ e x sc w y] show ?case by auto
  qed
qed

lemma tok_inv_delete: "tok_inv T c ks \<Longrightarrow> tok_inv T c (ks(activeKey d := None))"
  by (rule tok_inv_revoke(1) [where d = d and u = undefined]) (simp_all, simp)

section \<open>The specification of a token store\<close>

text \<open>Which digests are active and which were used, each with its user.\<close>

record tok_state =
  ts_active :: "string \<rightharpoonup> string"
  ts_used :: "string \<rightharpoonup> string"

datatype tok_op =
    OpIssue string string
  | OpValidate string
  | OpRotate string string
  | OpRevoke string
  | OpRevokeUser string

datatype tok_result = TokErr | TokOk | TokValid RefreshTokenValidation | TokRotated RefreshTokenRotation

definition drop_user :: "string \<Rightarrow> tok_state \<Rightarrow> tok_state" where
  "drop_user u a = a\<lparr>ts_active := (\<lambda>d. if ts_active a d = Some u then None else ts_active a d)\<rparr>"

text \<open>\<open>H\<close> is the digest of a token.\<close>

fun spec_step :: "(string \<Rightarrow> string) \<Rightarrow> tok_op \<Rightarrow> tok_state \<Rightarrow> tok_result \<times> tok_state" where
  "spec_step H (OpIssue u t) a = (case ts_active a (H t) of
      Some v \<Rightarrow> (TokErr, a) | None \<Rightarrow> (TokOk, a\<lparr>ts_active := (ts_active a)(H t \<mapsto> u)\<rparr>))"
| "spec_step H (OpValidate t) a = (case ts_active a (H t) of
      Some u \<Rightarrow> (TokValid \<lparr>val_Status = RefreshTokenValidationActive, val_UserID = u\<rparr>, a)
    | None \<Rightarrow> (case ts_used a (H t) of
        Some u \<Rightarrow> (TokValid \<lparr>val_Status = RefreshTokenValidationReused, val_UserID = u\<rparr>, drop_user u a)
      | None \<Rightarrow> (TokValid \<lparr>val_Status = RefreshTokenValidationInvalid, val_UserID = ''''\<rparr>, a)))"
| "spec_step H (OpRotate old new) a = (case ts_active a (H old) of
      Some u \<Rightarrow> (TokRotated \<lparr>rot_Status = RefreshTokenRotated, rot_UserID = u\<rparr>,
        \<lparr>ts_active = (ts_active a)(H old := None, H new \<mapsto> u), ts_used = (ts_used a)(H old \<mapsto> u)\<rparr>)
    | None \<Rightarrow> (case ts_used a (H old) of
        Some u \<Rightarrow> (TokRotated \<lparr>rot_Status = RefreshTokenReused, rot_UserID = u\<rparr>, drop_user u a)
      | None \<Rightarrow> (TokRotated \<lparr>rot_Status = RefreshTokenInvalid, rot_UserID = ''''\<rparr>, a)))"
| "spec_step H (OpRevoke t) a = (TokOk, a\<lparr>ts_active := (ts_active a)(H t := None)\<rparr>)"
| "spec_step H (OpRevokeUser u) a = (TokOk, drop_user u a)"

text \<open>The operations of the store, with the outcome of the network call and the time of the caller.\<close>

definition tok_err :: "go_error option \<Rightarrow> tok_result" where
  "tok_err e = (case e of None \<Rightarrow> TokOk | Some err \<Rightarrow> TokErr)"

fun tok_exec :: "(string \<Rightarrow> string) \<Rightarrow> 'r redis_api \<Rightarrow> int \<Rightarrow> net \<Rightarrow> int \<Rightarrow> tok_op \<Rightarrow> 'r \<Rightarrow> tok_result \<times> 'r" where
  "tok_exec sum256 api ttl n now (OpIssue u t) s = (case rt_Issue sum256 api True n now u t ttl s of (e, s') \<Rightarrow> (tok_err e, s'))"
| "tok_exec sum256 api ttl n now (OpValidate t) s = (case rt_Validate sum256 api True n t s of
      (Inl e, s') \<Rightarrow> (TokErr, s') | (Inr v, s') \<Rightarrow> (TokValid v, s'))"
| "tok_exec sum256 api ttl n now (OpRotate old new) s = (case rt_Rotate sum256 api True n now old new ttl s of
      (Inl e, s') \<Rightarrow> (TokErr, s') | (Inr v, s') \<Rightarrow> (TokRotated v, s'))"
| "tok_exec sum256 api ttl n now (OpRevoke t) s = (case rt_Revoke sum256 api True n t s of (e, s') \<Rightarrow> (tok_err e, s'))"
| "tok_exec sum256 api ttl n now (OpRevokeUser u) s = (case rt_RevokeUser api True n u s of (e, s') \<Rightarrow> (tok_err e, s'))"

text \<open>Arguments that are not empty, a new token that was never seen, and no token at its last moment.\<close>

fun op_ok :: "(string \<Rightarrow> string) \<Rightarrow> int \<Rightarrow> keyspace \<Rightarrow> tok_op \<Rightarrow> bool" where
  "op_ok H c ks (OpIssue u t) = (u \<noteq> [] \<and> t \<noteq> [] \<and> unseen ks (H t))"
| "op_ok H c ks (OpValidate t) = (t \<noteq> [] \<and> settled c ks (H t))"
| "op_ok H c ks (OpRotate old new) = (old \<noteq> [] \<and> new \<noteq> [] \<and> settled c ks (H old) \<and> unseen ks (H new) \<and> H old \<noteq> H new)"
| "op_ok H c ks (OpRevoke t) = (t \<noteq> [])"
| "op_ok H c ks (OpRevokeUser u) = (u \<noteq> [])"

text \<open>One script run: its reply and what it makes of the keys.\<close>

fun tok_script :: "(string \<Rightarrow> string) \<Rightarrow> 'r redis_api \<Rightarrow> int \<Rightarrow> int \<Rightarrow> tok_op \<Rightarrow> 'r \<Rightarrow> reply \<times> 'r" where
  "tok_script H api T c (OpIssue u t) s =
     (case issueRefreshTokenScript api (activeKey (H t)) (userIndexKey u) (H t) u T (c + T) s of (r, s') \<Rightarrow> (RInt r, s'))"
| "tok_script H api T c (OpValidate t) s =
     (case validateRefreshTokenScript api (activeKey (H t)) (usedKey (H t)) refreshTokenUserPrefix refreshTokenActivePrefix s of
        (r, s') \<Rightarrow> (pair_reply r, s'))"
| "tok_script H api T c (OpRotate old new) s =
     (case rotateRefreshTokenScript api (activeKey (H old)) (usedKey (H old)) (activeKey (H new)) (H old) (H new) T c
        refreshTokenUserPrefix refreshTokenActivePrefix s of (r, s') \<Rightarrow> (pair_reply r, s'))"
| "tok_script H api T c (OpRevoke t) s =
     (case revokeRefreshTokenScript api (activeKey (H t)) (H t) refreshTokenUserPrefix s of (r, s') \<Rightarrow> (RInt r, s'))"
| "tok_script H api T c (OpRevokeUser u) s =
     (case revokeRefreshTokensByUserScript api (userIndexKey u) refreshTokenActivePrefix s of (r, s') \<Rightarrow> (RInt r, s'))"

fun tok_reply :: "tok_op \<Rightarrow> reply \<Rightarrow> tok_result" where
  "tok_reply (OpIssue u t) r = (if r = RInt 1 then TokOk else TokErr)"
| "tok_reply (OpValidate t) r = (case parseRefreshTokenValidation r of Inl e \<Rightarrow> TokErr | Inr v \<Rightarrow> TokValid v)"
| "tok_reply (OpRotate a b) r = (case parseRefreshTokenRotation r of Inl e \<Rightarrow> TokErr | Inr v \<Rightarrow> TokRotated v)"
| "tok_reply (OpRevoke t) r = TokOk"
| "tok_reply (OpRevokeUser u) r = TokOk"

lemma tok_exec_script:
  assumes ok: "op_ok (HashToken sum256) c ks op" and T: "0 < T" "ttl = T * 1000000" and now: "UnixMilli now = c"
  shows "tok_exec sum256 api ttl n now op s =
    (case net_call n (tok_script (HashToken sum256) api T c op) s of
       (Inl e, s') \<Rightarrow> (TokErr, s') | (Inr r, s') \<Rightarrow> (tok_reply op r, s'))"
proof -
  have t: "\<not> ttl \<le> 0" "Milliseconds ttl = T" "UnixMilli (now + ttl) = c + T"
    using T now by (simp_all add: Milliseconds_def UnixMilli_def)
  show ?thesis
  proof (cases op)
    case (OpIssue u tk)
    with ok t now show ?thesis
      by (cases n) (auto simp: rt_Issue_def validateClient_def validateRefreshTokenStoreInput_def Let_def tok_err_def split: prod.splits)
  next
    case (OpValidate tk)
    with ok t show ?thesis
      by (cases n) (auto simp: rt_Validate_def validateClient_def Let_def split: prod.splits sum.splits)
  next
    case (OpRotate old new)
    with ok t now show ?thesis
      by (cases n) (auto simp: rt_Rotate_def validateClient_def Let_def split: prod.splits sum.splits)
  next
    case (OpRevoke tk)
    with ok t show ?thesis
      by (cases n) (auto simp: rt_Revoke_def validateClient_def Let_def tok_err_def split: prod.splits)
  next
    case (OpRevokeUser u)
    with ok t show ?thesis
      by (cases n) (auto simp: rt_RevokeUser_def validateClient_def tok_err_def split: prod.splits)
  qed
qed

definition tok_abs :: "int \<Rightarrow> keyspace \<Rightarrow> tok_state" where
  "tok_abs c ks = \<lparr>ts_active = tok_active c ks, ts_used = tok_used c ks\<rparr>"

lemma parse_pair [simp]:
  "parseRefreshTokenValidation (pair_reply (0, u)) = Inr \<lparr>val_Status = RefreshTokenValidationInvalid, val_UserID = []\<rparr>"
  "parseRefreshTokenValidation (pair_reply (1, u)) = Inr \<lparr>val_Status = RefreshTokenValidationActive, val_UserID = u\<rparr>"
  "parseRefreshTokenValidation (pair_reply (2, u)) = Inr \<lparr>val_Status = RefreshTokenValidationReused, val_UserID = u\<rparr>"
  "parseRefreshTokenRotation (pair_reply (0, u)) = Inr \<lparr>rot_Status = RefreshTokenInvalid, rot_UserID = []\<rparr>"
  "parseRefreshTokenRotation (pair_reply (1, u)) = Inr \<lparr>rot_Status = RefreshTokenRotated, rot_UserID = u\<rparr>"
  "parseRefreshTokenRotation (pair_reply (2, u)) = Inr \<lparr>rot_Status = RefreshTokenReused, rot_UserID = u\<rparr>"
  by (simp_all add: parseRefreshTokenValidation_def parseRefreshTokenRotation_def parse_status_user_def pair_reply_def)

section \<open>The scripts implement the specification\<close>

definition refines_to :: "('r \<Rightarrow> keyspace) \<Rightarrow> ('r \<Rightarrow> int) \<Rightarrow> int \<Rightarrow> (string \<Rightarrow> string) \<Rightarrow> tok_op \<Rightarrow> 'r \<Rightarrow> reply \<times> 'r \<Rightarrow> bool" where
  "refines_to view clock T H op s run \<longleftrightarrow> clock (snd run) = clock s \<and> tok_inv T (clock s) (view (snd run)) \<and>
     (tok_reply op (fst run), tok_abs (clock s) (view (snd run))) = spec_step H op (tok_abs (clock s) (view s))"

lemma drop_user_eq: "drop_user u \<lparr>ts_active = A, ts_used = U\<rparr> = \<lparr>ts_active = (\<lambda>d. if A d = Some u then None else A d), ts_used = U\<rparr>"
  by (simp add: drop_user_def cong: if_cong)

lemma settled_used: "settled c ks d \<Longrightarrow> ks (usedKey d) = Some (RStr u, Some t) \<Longrightarrow> tok_used c ks d = Some u"
  by (auto simp: settled_def tok_used_def)

lemma settled_active: "settled c ks d \<Longrightarrow> ks (activeKey d) = Some (RStr u, Some t) \<Longrightarrow> tok_active c ks d = Some u \<and> c < t"
  by (auto simp: settled_def tok_active_def)

lemma absent [simp]: "ks (activeKey d) = None \<Longrightarrow> tok_active c ks d = None" "ks (usedKey d) = None \<Longrightarrow> tok_used c ks d = None"
  by (simp_all add: tok_active_def tok_used_def)

context redis
begin

lemma issue_refines:
  assumes inv: "tok_inv T (clock s) (view s)" and T: "0 < T" and ok: "op_ok H (clock s) (view s) (OpIssue u t)"
  shows "refines_to view clock T H (OpIssue u t) s (tok_script H api T (clock s) (OpIssue u t) s)"
proof -
  let ?d = "H t" and ?c = "clock s" and ?ks = "view s"
  have new: "?ks (activeKey ?d) = None" "\<And>v. ?d \<notin> family ?ks v" using ok by (auto simp: unseen_def)
  obtain s1 where s1: "r_setnx api s (activeKey ?d) u T = (True, s1)" "view s1 = ?ks(activeKey ?d \<mapsto> (RStr u, Some (?c + T)))"
    using setnx_new [OF new(1) T, of u] by (cases "r_setnx api s (activeKey ?d) u T") auto
  have c1: "clock s1 = ?c" using clock_setnx [of s "activeKey ?d" u T] s1(1) by simp
  have "zkey (view s1) (userIndexKey u)" using tok_inv_zkey [OF inv, of u] s1(2) by (simp add: zkey_def)
  note P = index_put_eff(1) [OF this T, of "?c" "?c + T" ?d]
  note I = tok_inv_put [OF inv new, of "{}", OF _ T, of u]
  have "tok_script H api T ?c (OpIssue u t) s = (RInt 1, r_pexpire api (r_zadd api (r_zremrangebyscore api s1 (userIndexKey u) ?c) (userIndexKey u) (?c + T) ?d) (userIndexKey u) T)"
    by (simp add: issueRefreshTokenScript_def s1(1) Let_def)
  then show ?thesis using P I new(1) c1 by (simp add: refines_to_def s1(2) tok_abs_def)
qed

lemma validate_refines:
  assumes inv: "tok_inv T (clock s) (view s)" and ok: "op_ok H (clock s) (view s) (OpValidate t)"
  shows "refines_to view clock T H (OpValidate t) s (tok_script H api T (clock s) (OpValidate t) s)"
proof -
  let ?d = "H t" and ?ks = "view s"
  have st: "settled (clock s) ?ks ?d" using ok by simp
  consider (active) u e where "?ks (activeKey ?d) = Some (RStr u, Some e)"
    | (used) u e where "?ks (activeKey ?d) = None" "?ks (usedKey ?d) = Some (RStr u, Some e)"
    | (none) "?ks (activeKey ?d) = None" "?ks (usedKey ?d) = None"
    using tok_invD(1,2) [OF inv, of ?d] by auto
  then show ?thesis
  proof cases
    case active
    then show ?thesis using inv settled_active [OF st]
      by (simp add: refines_to_def validateRefreshTokenScript_def get_str tok_abs_def)
  next
    case used
    note R = revoke_family_eff [OF tok_inv_zkey [OF inv], of u] and W = tok_inv_without [OF inv, of u]
    from used R W settled_used [OF st] show ?thesis
      by (simp add: refines_to_def validateRefreshTokenScript_def get_none get_str tok_abs_def drop_user_eq)
  next
    case none
    then show ?thesis using inv by (simp add: refines_to_def validateRefreshTokenScript_def get_none tok_abs_def)
  qed
qed

lemma revoke_refines:
  assumes inv: "tok_inv T (clock s) (view s)"
  shows "refines_to view clock T H (OpRevoke t) s (tok_script H api T (clock s) (OpRevoke t) s)"
proof -
  let ?d = "H t" and ?ks = "view s"
  consider (active) u e where "?ks (activeKey ?d) = Some (RStr u, Some e)" | (none) "?ks (activeKey ?d) = None"
    using tok_invD(1) [OF inv, of ?d] by auto
  then show ?thesis
  proof cases
    case active
    let ?s1 = "snd (r_del api s (activeKey ?d))"
    let ?s2 = "r_zrem api ?s1 (userIndexKey u) ?d"
    have v1: "view ?s1 = ?ks(activeKey ?d := None)" by (rule del_view)
    have z: "zkey (view ?s1) (userIndexKey u)" using tok_inv_zkey [OF inv, of u] v1 by (simp add: zkey_def)
    note Z = zrem_eff(3) [OF z, where m = ?d]
    have ix: "view ?s2 (userIndexKey u) = ?ks (userIndexKey u) \<or>
       (\<exists>zz e. ?ks (userIndexKey u) = Some (RZSet zz, e) \<and> view ?s2 (userIndexKey u) = zset_entry (fmdrop ?d zz) e)"
      using z zrem_none [of ?s1 "userIndexKey u" ?d] zrem_old [of ?s1 "userIndexKey u" _ _ ?d] v1 by (auto simp: zkey_def)
    note V = tok_inv_revoke [OF inv, of "view ?s2" ?d u, OF _ _ _ _ ix]
    have "tok_inv T (clock s) (view ?s2)" "tok_active (clock s) (view ?s2) = (tok_active (clock s) ?ks)(?d := None)"
      "tok_used (clock s) (view ?s2) = tok_used (clock s) ?ks"
      by (rule V; simp add: Z v1)+
    moreover have "tok_script H api T (clock s) (OpRevoke t) s = (RInt 1, ?s2)"
      by (simp add: revokeRefreshTokenScript_def get_str [OF active] userIndexKey_def)
    ultimately show ?thesis by (simp add: refines_to_def tok_abs_def)
  next
    case none
    then have "(tok_active (clock s) ?ks)(?d := None) = tok_active (clock s) ?ks" by (simp add: fun_upd_idem)
    with none inv show ?thesis by (simp add: refines_to_def revokeRefreshTokenScript_def get_none tok_abs_def)
  qed
qed

lemma revoke_user_refines:
  assumes inv: "tok_inv T (clock s) (view s)"
  shows "refines_to view clock T H (OpRevokeUser u) s (tok_script H api T (clock s) (OpRevokeUser u) s)"
  using revoke_family_eff [OF tok_inv_zkey [OF inv], of u] tok_inv_without [OF inv, of u]
  by (simp add: refines_to_def revokeRefreshTokensByUserScript_def tok_abs_def drop_user_eq userIndexKey_def)

lemma rotate_refines:
  assumes inv: "tok_inv T (clock s) (view s)" and T: "0 < T" and ok: "op_ok H (clock s) (view s) (OpRotate old new)"
  shows "refines_to view clock T H (OpRotate old new) s (tok_script H api T (clock s) (OpRotate old new) s)"
proof -
  let ?d = "H old" and ?n = "H new" and ?c = "clock s" and ?ks = "view s"
  have st: "settled ?c ?ks ?d" and un: "unseen ?ks ?n" and ne: "?d \<noteq> ?n" using ok by auto
  consider (active) u e where "?ks (activeKey ?d) = Some (RStr u, Some e)"
    | (used) u e where "?ks (activeKey ?d) = None" "?ks (usedKey ?d) = Some (RStr u, Some e)"
    | (none) "?ks (activeKey ?d) = None" "?ks (usedKey ?d) = None"
    using tok_invD(1,2) [OF inv, of ?d] by auto
  then show ?thesis
  proof cases
    case active
    have e: "?c < e" "tok_active ?c ?ks ?d = Some u" using settled_active [OF st active] by auto
    let ?s1 = "snd (r_del api s (activeKey ?d))"
    let ?s2 = "r_set api ?s1 (usedKey ?d) u (Some (e - ?c))"
    let ?s3 = "r_set api ?s2 (activeKey ?n) u (Some T)"
    let ?k = "userIndexKey u"
    let ?s7 = "r_pexpire api (r_zadd api (r_zrem api (r_zremrangebyscore api ?s3 ?k ?c) ?k ?d) ?k (?c + T) ?n) ?k T"
    let ?ks2 = "(?ks(activeKey ?d := None))(usedKey ?d \<mapsto> (RStr u, Some e))"
    have run: "tok_script H api T ?c (OpRotate old new) s = (pair_reply (1, u), ?s7)"
      using e(1) by (simp add: rotateRefreshTokenScript_def get_str [OF active] pttl_expiring [OF active] Let_def userIndexKey_def)
    have v3: "view ?s3 = ?ks2(activeKey ?n \<mapsto> (RStr u, Some (?c + T)))"
      using e(1) T by (simp add: set_px del_view)
    have "zkey (view ?s3) ?k" using tok_inv_zkey [OF inv, of u] by (simp add: v3 zkey_def)
    note P = index_put_eff(2) [OF this T, of ?c ?d "?c + T" ?n]
    have inv2: "tok_inv T ?c ?ks2" by (rule tok_inv_use [OF tok_inv_delete [OF inv]])
    have fam: "family ?ks2 v = family ?ks v" for v by (simp add: family_def)
    have "tok_inv T ?c (index_put u ?c {?d} ?n (?c + T) (?c + T) (?ks2(activeKey ?n \<mapsto> (RStr u, Some (?c + T)))))"
      "tok_active ?c (index_put u ?c {?d} ?n (?c + T) (?c + T) (?ks2(activeKey ?n \<mapsto> (RStr u, Some (?c + T))))) = (tok_active ?c ?ks2)(?n \<mapsto> u)"
      "tok_used ?c (index_put u ?c {?d} ?n (?c + T) (?c + T) (?ks2(activeKey ?n \<mapsto> (RStr u, Some (?c + T))))) = tok_used ?c ?ks2"
      by (rule tok_inv_put [OF inv2 _ _ _ T]; use un ne fam in \<open>auto simp: unseen_def\<close>)+
    moreover have "tok_active ?c ?ks2 = (tok_active ?c ?ks)(?d := None)" "tok_used ?c ?ks2 = (tok_used ?c ?ks)(?d \<mapsto> u)"
      using e(1) by (auto simp: tok_active_def tok_used_def fun_eq_iff)
    ultimately show ?thesis unfolding run using P e(2) by (simp add: refines_to_def v3 tok_abs_def)
  next
    case used
    note R = revoke_family_eff [OF tok_inv_zkey [OF inv], of u] and W = tok_inv_without [OF inv, of u]
    from used R W settled_used [OF st] show ?thesis
      by (simp add: refines_to_def rotateRefreshTokenScript_def get_none get_str tok_abs_def drop_user_eq)
  next
    case none
    then show ?thesis using inv by (simp add: refines_to_def rotateRefreshTokenScript_def get_none tok_abs_def)
  qed
qed

lemma script_refines:
  assumes "tok_inv T (clock s) (view s)" "0 < T" "op_ok H (clock s) (view s) op"
  shows "refines_to view clock T H op s (tok_script H api T (clock s) op s)"
proof (cases op)
  case OpIssue
  then show ?thesis using issue_refines [OF assms(1,2)] assms(3) by simp
next
  case OpValidate
  then show ?thesis using validate_refines [OF assms(1)] assms(3) by simp
next
  case OpRotate
  then show ?thesis using rotate_refines [OF assms(1,2)] assms(3) by simp
qed (simp_all del: tok_script.simps add: revoke_refines [OF assms(1)] revoke_user_refines [OF assms(1)])

lemma tok_inv_tick:
  assumes inv: "tok_inv T (clock s) (view s)" and d: "0 \<le> d"
  shows "tok_inv T (clock (r_tick api s d)) (view (r_tick api s d))"
proof -
  note D = tok_invD [OF inv] and sub = tick_sub [OF d, of s]
  show ?thesis
    unfolding tok_inv_def clock_tick
  proof (intro conjI allI impI, goal_cases)
    case (1 x)
    then show ?case using D(1) [of x] sub [of "activeKey x"] d by auto
  next
    case (2 x)
    then show ?case using D(2) [of x] sub [of "usedKey x"] by auto
  next
    case (3 v)
    then show ?case using D(3) [of v] sub [of "userIndexKey v"] by auto
  next
    case (4 x v t)
    then have "view s (activeKey x) = Some (RStr v, Some t)" "clock s < t" using sub [of "activeKey x"] d by auto
    from D(4) [OF this] obtain z e sc where z: "view s (userIndexKey v) = Some (RZSet z, Some e)" "t \<le> e" "fmlookup z x = Some sc" "t \<le> sc" by auto
    with tick_keeps [OF d z(1)] 4(2) show ?case by auto
  next
    case (5 v z e x sc w y)
    then show ?case using D(5) [of v z e x sc w y] sub [of "userIndexKey v"] sub [of "activeKey x"] by auto
  qed
qed

end

section \<open>The store refines the specification\<close>

lemma exec_refines:
  assumes R: "redis api view clock" and inv: "tok_inv T (clock s) (view s)" and T: "0 < T" "ttl = T * 1000000"
    and now: "UnixMilli now = clock s" and ok: "op_ok (HashToken sum256) (clock s) (view s) op"
    and run: "tok_exec sum256 api ttl n now op s = (r, s')"
  shows "clock s' = clock s" "tok_inv T (clock s') (view s')"
    "n = Reply \<Longrightarrow> r = fst (spec_step (HashToken sum256) op (tok_abs (clock s) (view s)))" "n \<noteq> Reply \<Longrightarrow> r = TokErr"
    "tok_abs (clock s') (view s') = (case n of NoRequest e \<Rightarrow> tok_abs (clock s) (view s)
       | _ \<Rightarrow> snd (spec_step (HashToken sum256) op (tok_abs (clock s) (view s))))"
proof -
  let ?run = "tok_script (HashToken sum256) api T (clock s) op s"
  have ref: "refines_to view clock T (HashToken sum256) op s ?run" by (rule redis.script_refines [OF R inv T(1) ok])
  have e: "(r, s') = (case net_call n (tok_script (HashToken sum256) api T (clock s) op) s of
       (Inl e, s') \<Rightarrow> (TokErr, s') | (Inr r, s') \<Rightarrow> (tok_reply op r, s'))"
    using tok_exec_script [OF ok T now, of api n s] run by simp
  have "clock s' = clock s \<and> tok_inv T (clock s') (view s') \<and>
    (n = Reply \<longrightarrow> r = fst (spec_step (HashToken sum256) op (tok_abs (clock s) (view s)))) \<and> (n \<noteq> Reply \<longrightarrow> r = TokErr) \<and>
    tok_abs (clock s') (view s') = (case n of NoRequest e \<Rightarrow> tok_abs (clock s) (view s)
       | _ \<Rightarrow> snd (spec_step (HashToken sum256) op (tok_abs (clock s) (view s))))"
    using e ref inv by (cases n) (auto simp: refines_to_def prod_eq_iff simp del: spec_step.simps tok_script.simps)
  then show "clock s' = clock s" "tok_inv T (clock s') (view s')"
    "n = Reply \<Longrightarrow> r = fst (spec_step (HashToken sum256) op (tok_abs (clock s) (view s)))" "n \<noteq> Reply \<Longrightarrow> r = TokErr"
    "tok_abs (clock s') (view s') = (case n of NoRequest e \<Rightarrow> tok_abs (clock s) (view s)
       | _ \<Rightarrow> snd (spec_step (HashToken sum256) op (tok_abs (clock s) (view s))))" by blast+
qed

text \<open>
  What the user service relies on: each operation answers and acts as the specification says.
  \<open>ok op s\<close> collects the conditions under which it may be called.
\<close>

locale token_contract =
  fixes exec :: "tok_op \<Rightarrow> 's \<Rightarrow> tok_result \<times> 's" and abs :: "'s \<Rightarrow> tok_state" and H :: "string \<Rightarrow> string"
    and wf :: "'s \<Rightarrow> bool" and ok :: "tok_op \<Rightarrow> 's \<Rightarrow> bool"
  assumes exec_spec: "wf s \<Longrightarrow> ok op s \<Longrightarrow> exec op s = (r, s') \<Longrightarrow> wf s' \<and> (r, abs s') = spec_step H op (abs s)"
begin

text \<open>A token that was rotated and is presented again costs its user every token.\<close>

lemma replay_revokes:
  assumes "wf s" "ok (OpRotate old new) s" "exec (OpRotate old new) s = (TokRotated v, s1)" "rot_Status v = RefreshTokenRotated" "H old \<noteq> H new"
    and "ok (OpValidate old) s1" "exec (OpValidate old) s1 = (r, s2)"
  shows "r = TokValid \<lparr>val_Status = RefreshTokenValidationReused, val_UserID = rot_UserID v\<rparr> \<and> (\<forall>d. ts_active (abs s2) d \<noteq> Some (rot_UserID v))"
proof -
  from exec_spec [OF assms(1-3)] have 1: "wf s1" "(TokRotated v, abs s1) = spec_step H (OpRotate old new) (abs s)" by auto
  then obtain u where u: "ts_active (abs s) (H old) = Some u" using assms(4) by (auto split: option.splits)
  with 1(2) have "rot_UserID v = u" "ts_active (abs s1) (H old) = None" "ts_used (abs s1) (H old) = Some u" using assms(5) by auto
  with exec_spec [OF 1(1) assms(6,7)] show ?thesis by (auto simp: drop_user_def split: if_splits)
qed

end

lemma redis_token_contract:
  assumes R: "redis api view clock" and T: "0 < T"
  shows "token_contract (\<lambda>op s. tok_exec sum256 api (T * 1000000) Reply (clock s * 1000000) op s)
    (\<lambda>s. tok_abs (clock s) (view s)) (HashToken sum256) (\<lambda>s. tok_inv T (clock s) (view s))
    (\<lambda>op s. op_ok (HashToken sum256) (clock s) (view s) op)"
proof
  fix s op r s'
  assume a: "tok_inv T (clock s) (view s)" "op_ok (HashToken sum256) (clock s) (view s) op"
    "tok_exec sum256 api (T * 1000000) Reply (clock s * 1000000) op s = (r, s')"
  have "UnixMilli (clock s * 1000000) = clock s" by (simp add: UnixMilli_def)
  from exec_refines [OF R a(1) T refl this a(2,3)]
  show "tok_inv T (clock s') (view s') \<and> (r, tok_abs (clock s') (view s')) = spec_step (HashToken sum256) op (tok_abs (clock s) (view s))"
    by (simp add: prod_eq_iff del: spec_step.simps)
qed

interpretation mem_tokens: token_contract "\<lambda>op s. tok_exec sum256 mem_api (1000 * 1000000) Reply (mem_clock s * 1000000) op s"
  "\<lambda>s. tok_abs (mem_clock s) (mem_keys s)" "HashToken sum256" "\<lambda>s. tok_inv 1000 (mem_clock s) (mem_keys s)"
  "\<lambda>op s. op_ok (HashToken sum256) (mem_clock s) (mem_keys s) op" for sum256
  by (rule redis_token_contract [OF mem.redis_axioms]) simp






section \<open>A used token stays used\<close>















end
