(* ===== verification/Http.thy ===== *)
theory Http
  imports Prelude
begin

text \<open>
  HTTP as the gateways and the WebSocket service use it: requests and responses as data, reading
  and writing bodies (\<^verbatim>\<open>internal/shared/httpio\<close>), access tokens (\<^verbatim>\<open>internal/shared/auth\<close>) and the
  middlewares (\<^verbatim>\<open>internal/shared/middleware\<close>). The JSON decoder, the JWT library and the rate
  limiter's backend are parameters.
\<close>

section \<open>Access tokens\<close>

record UserClaims =
  clm_Subject :: string
  clm_ExpiresAt :: int
  clm_IssuedAt :: int
  clm_Username :: string

text \<open>\<^verbatim>\<open>jwt.NewNumericDate\<close> keeps whole seconds.\<close>

definition NewNumericDate :: "int \<Rightarrow> int" where
  "NewNumericDate t = t div 1000000000 * 1000000000"

text \<open>\<open>signed\<close> is \<^verbatim>\<open>SignedString\<close> of an HS256 token with these claims.\<close>

definition GenerateJWT :: "(UserClaims \<Rightarrow> string \<Rightarrow> go_error + string) \<Rightarrow> int \<Rightarrow> string \<Rightarrow> string \<Rightarrow> string \<Rightarrow> int \<Rightarrow> go_error + string" where
  "GenerateJWT signed now userID username secretKey duration =
     signed \<lparr>clm_Subject = userID, clm_ExpiresAt = NewNumericDate (now + duration), clm_IssuedAt = NewNumericDate now,
       clm_Username = username\<rparr> secretKey"

text \<open>
  \<open>parse token secret algs\<close> is \<^verbatim>\<open>jwt.ParseWithClaims\<close> with the valid methods \<open>algs\<close>: the claims, when
  they have the expected type, and whether the token is valid.
\<close>

definition VerifyJWT :: "(string \<Rightarrow> string \<Rightarrow> string list \<Rightarrow> go_error + (UserClaims option \<times> bool)) \<Rightarrow> string \<Rightarrow> string \<Rightarrow> go_error + UserClaims" where
  "VerifyJWT parse tokenString secretKey = (case parse tokenString secretKey [''HS256''] of
      Inl err \<Rightarrow> Inl err
    | Inr (claims, valid) \<Rightarrow> (case claims of
        None \<Rightarrow> Inl (ErrNew ''invalid token claims'')
      | Some c \<Rightarrow> if \<not> valid then Inl (ErrNew ''invalid token claims'') else Inr c))"

section \<open>Requests and responses\<close>

text \<open>
  The outcome of decoding a request body: the value or error of the first \<^verbatim>\<open>Decode\<close>, and the error of
  the second one, which should find the end of the body (\<open>None\<close>: it decoded another value).
\<close>

datatype json_error =
    SyntaxError int | UnexpectedEOF | UnmarshalTypeError string int | EOF | MaxBytesError | OtherJSON go_error

type_synonym 'a json_stream = "(json_error + 'a) \<times> json_error option"

text \<open>
  A request: the method, the headers by name, the value of \<^verbatim>\<open>{id}\<close> in the path, the values of
  each query parameter, the \<^verbatim>\<open>refresh_token\<close> cookie, the peer's address and the body.
\<close>

record 'a request =
  rq_Method :: string
  rq_Header :: "string \<Rightarrow> string"
  rq_PathID :: string
  rq_Query :: "string \<Rightarrow> string list"
  rq_Cookie :: "string option"
  rq_RemoteAddr :: string
  rq_Body :: "'a json_stream"

definition query_Get :: "'a request \<Rightarrow> string \<Rightarrow> string" where
  "query_Get rq k = (case rq_Query rq k of [] \<Rightarrow> '''' | v # _ \<Rightarrow> v)"

record ProblemDetail =
  pd_Type :: string
  pd_Title :: string
  pd_Status :: int
  pd_Detail :: string

datatype 'b body = NoBody | JSON 'b | Problem ProblemDetail

record 'b response =
  rs_Status :: int
  rs_Header :: "(string \<times> string) list"
  rs_Body :: "'b body"

definition WriteJSON :: "int \<Rightarrow> 'b \<Rightarrow> 'b response" where
  "WriteJSON status data = \<lparr>rs_Status = status, rs_Header = [(''Content-Type'', ''application/json'')], rs_Body = JSON data\<rparr>"

text \<open>\<^verbatim>\<open>http.StatusText\<close> of the codes in use.\<close>

definition StatusText :: "int \<Rightarrow> string" where
  "StatusText c = (case map_of [(200, ''OK''), (201, ''Created''), (204, ''No Content''), (400, ''Bad Request''), (401, ''Unauthorized''),
     (403, ''Forbidden''), (404, ''Not Found''), (409, ''Conflict''), (421, ''Misdirected Request''), (429, ''Too Many Requests''),
     (500, ''Internal Server Error''), (502, ''Bad Gateway''), (503, ''Service Unavailable''), (504, ''Gateway Timeout'')] c of
       None \<Rightarrow> '''' | Some t \<Rightarrow> t)"

definition WriteProblem :: "int \<Rightarrow> string \<Rightarrow> 'b response" where
  "WriteProblem status detail = \<lparr>rs_Status = status, rs_Header = [(''Content-Type'', ''application/problem+json'')],
     rs_Body = Problem \<lparr>pd_Type = ''about:blank'', pd_Title = StatusText status, pd_Status = status, pd_Detail = detail\<rparr>\<rparr>"

definition WriteHeader :: "int \<Rightarrow> 'b response" where
  "WriteHeader status = \<lparr>rs_Status = status, rs_Header = [], rs_Body = NoBody\<rparr>"

definition add_header :: "string \<Rightarrow> string \<Rightarrow> 'b response \<Rightarrow> 'b response" where
  "add_header k v r = r\<lparr>rs_Header := (k, v) # rs_Header r\<rparr>"

fun read_error :: "json_error \<Rightarrow> go_error" where
  "read_error (SyntaxError off) = ErrNew (''request body contains badly-formed JSON (at position '' @ format_int off @ '')'')"
| "read_error UnexpectedEOF = ErrNew ''request body contains badly-formed JSON''"
| "read_error (UnmarshalTypeError field off) =
     ErrNew (''request body contains an invalid value for the '' @ [CHR 0x22] @ field @ [CHR 0x22] @ '' field (at position '' @ format_int off @ '')'')"
| "read_error EOF = ErrNew ''request body must not be empty''"
| "read_error MaxBytesError = ErrNew ''request body must not be larger than 1MB''"
| "read_error (OtherJSON err) = err"

definition ReadJSON :: "'a json_stream \<Rightarrow> go_error + 'a" where
  "ReadJSON body = (case fst body of
      Inl err \<Rightarrow> Inl (read_error err)
    | Inr v \<Rightarrow> if snd body \<noteq> Some EOF then Inl (ErrNew ''request body must only contain a single JSON object'') else Inr v)"

section \<open>Handlers and middlewares\<close>

text \<open>The values that the middlewares put into a request's context.\<close>

record http_ctx =
  cx_UserID :: "string option"
  cx_Username :: "string option"

definition no_ctx :: http_ctx where "no_ctx = \<lparr>cx_UserID = None, cx_Username = None\<rparr>"

text \<open>A handler runs on the state \<open>'w\<close> of everything behind it.\<close>

type_synonym ('a, 'b, 'w) handler = "http_ctx \<Rightarrow> 'a request \<Rightarrow> 'w \<Rightarrow> 'b response \<times> 'w"
type_synonym ('a, 'b, 'w) middleware = "('a, 'b, 'w) handler \<Rightarrow> ('a, 'b, 'w) handler"

definition ChainMiddleware :: "('a, 'b, 'w) handler \<Rightarrow> ('a, 'b, 'w) middleware list \<Rightarrow> ('a, 'b, 'w) handler" where
  "ChainMiddleware h mws = foldr (\<lambda>mw final. mw final) mws h"

text \<open>\<^verbatim>\<open>strings.Split(s, sep)\<close> for a separator of one byte.\<close>

fun Split :: "char \<Rightarrow> string \<Rightarrow> string list" where
  "Split c [] = [[]]"
| "Split c (x # xs) = (if x = c then [] # Split c xs else (case Split c xs of [] \<Rightarrow> [[x]] | p # ps \<Rightarrow> (x # p) # ps))"

definition ascii_lower :: "string \<Rightarrow> string" where
  "ascii_lower s = map (\<lambda>c. if 65 \<le> byte c \<and> byte c \<le> 90 then char_of (byte c + 32) else c) s"

definition extractToken :: "'a request \<Rightarrow> string" where
  "extractToken r = (let authHeader = rq_Header r ''Authorization'' in
     if authHeader \<noteq> '''' then
       (case Split CHR '' '' authHeader of
          [scheme, token] \<Rightarrow> if ascii_lower scheme = ''bearer'' then token else ''''
        | _ \<Rightarrow> '''')
     else '''')"

definition BearerAuthMiddleware :: "(string \<Rightarrow> string \<Rightarrow> string list \<Rightarrow> go_error + (UserClaims option \<times> bool)) \<Rightarrow> string \<Rightarrow> ('a, 'b, 'w) middleware" where
  "BearerAuthMiddleware parse jwtSecret next cx r w = (let tokenString = extractToken r in
     if tokenString = '''' then (WriteProblem 401 ''missing token'', w)
     else (case VerifyJWT parse tokenString jwtSecret of
         Inl _ \<Rightarrow> (WriteProblem 401 ''invalid token'', w)
       | Inr claims \<Rightarrow> next (cx\<lparr>cx_UserID := Some (clm_Subject claims), cx_Username := Some (clm_Username claims)\<rparr>) r w))"

definition InternalAuthMiddleware :: "string \<Rightarrow> ('a, 'b, 'w) middleware" where
  "InternalAuthMiddleware secret next cx r w =
    (if rq_Header r ''X-Internal-Secret'' \<noteq> secret then (WriteProblem 401 ''unauthorized'', w) else next cx r w)"

definition GetUserID :: "http_ctx \<Rightarrow> string option" where "GetUserID cx = cx_UserID cx"
definition GetUsername :: "http_ctx \<Rightarrow> string option" where "GetUsername cx = cx_Username cx"

text \<open>\<open>allow key w\<close> is the limiter: whether the request may pass, or the error of its backend.\<close>

definition RateLimitMiddleware ::
  "(string \<Rightarrow> 'w \<Rightarrow> (go_error + bool) \<times> 'w) \<Rightarrow> (http_ctx \<Rightarrow> 'a request \<Rightarrow> string) \<Rightarrow> ('a, 'b, 'w) middleware" where
  "RateLimitMiddleware allow keyFunc next cx r w = (let key = keyFunc cx r in
     if key = '''' then next cx r w
     else (case allow key w of
         (Inl err, w') \<Rightarrow> next cx r w'
       | (Inr allowed, w') \<Rightarrow>
           if \<not> allowed then (add_header ''Retry-After'' ''1'' (WriteProblem 429 ''rate limit exceeded''), w')
           else next cx r w'))"

text \<open>\<^verbatim>\<open>RedisLimiter.Allow\<close>: \<open>limit\<close> is the \<^verbatim>\<open>redis_rate\<close> library's answer, how many were allowed.\<close>

definition limiter_Allow :: "(string \<Rightarrow> int \<Rightarrow> int \<Rightarrow> 'w \<Rightarrow> (go_error + int) \<times> 'w) \<Rightarrow> int \<Rightarrow> int \<Rightarrow> string \<Rightarrow> 'w \<Rightarrow> (go_error + bool) \<times> 'w" where
  "limiter_Allow limit rate burst key w = (case limit key rate burst w of
      (Inl err, w') \<Rightarrow> (Inl (Wrap ''unable to check rate limit'' err), w')
    | (Inr allowed, w') \<Rightarrow> (Inr (allowed \<ge> 1), w'))"

definition is_space :: "char \<Rightarrow> bool" where "is_space c \<longleftrightarrow> byte c \<in> {9, 10, 11, 12, 13, 32}"

text \<open>\<^verbatim>\<open>strings.TrimSpace\<close> on ASCII text.\<close>

definition TrimSpace :: "string \<Rightarrow> string" where
  "TrimSpace s = rev (dropWhile is_space (rev (dropWhile is_space s)))"

text \<open>\<open>split_host_port\<close> is \<^verbatim>\<open>net.SplitHostPort\<close>, the host or none for an error.\<close>

definition IPKeyFunc :: "(string \<Rightarrow> string option) \<Rightarrow> http_ctx \<Rightarrow> 'a request \<Rightarrow> string" where
  "IPKeyFunc split_host_port cx r = (let xff = TrimSpace (rq_Header r ''X-Forwarded-For'') in
     if xff \<noteq> '''' then (case Split CHR '','' xff of [] \<Rightarrow> '''' | p # _ \<Rightarrow> TrimSpace p)
     else (case split_host_port (rq_RemoteAddr r) of None \<Rightarrow> rq_RemoteAddr r | Some host \<Rightarrow> host))"

definition ContextKeyFunc :: "(http_ctx \<Rightarrow> string option) \<Rightarrow> http_ctx \<Rightarrow> 'a request \<Rightarrow> string" where
  "ContextKeyFunc key cx r = (case key cx of None \<Rightarrow> '''' | Some s \<Rightarrow> s)"

section \<open>Calls to the gRPC services\<close>

text \<open>
  A unary call: the service runs unless the request was lost, and an error reaches the caller as a status
  with the error's code and text (\<open>text\<close> is \<^verbatim>\<open>err.Error()\<close> of an error that is no status).
\<close>

definition grpc_call :: "(go_error \<Rightarrow> string) \<Rightarrow> net \<Rightarrow> ('s \<Rightarrow> (go_error + 'a) \<times> 's) \<Rightarrow> 's \<Rightarrow> (go_error + 'a) \<times> 's" where
  "grpc_call text n f s = (case net_call n f s of
      (Inl err, s') \<Rightarrow> (Inl err, s')
    | (Inr (Inl err), s') \<Rightarrow> (Inl (StatusErr (status_code err) (case err of StatusErr c m \<Rightarrow> m | _ \<Rightarrow> text err)), s')
    | (Inr (Inr a), s') \<Rightarrow> (Inr a, s'))"

lemma grpc_ok: "grpc_call text n f s = (Inr a, s') \<longleftrightarrow> n = Reply \<and> f s = (Inr a, s')"
  by (cases n; cases "f s") (auto simp: grpc_call_def split: sum.splits)

text \<open>The answer of a gRPC health check, or the error's text.\<close>

datatype health = NoHealthClient | HealthError string | HealthStatus string

section \<open>System events\<close>

text \<open>\<^verbatim>\<open>internal/shared/event\<close>: the body of a request to announce that a user joined or left.\<close>

record BroadcastSystemMessageRequest =
  bs_Username :: string
  bs_Event :: string

definition SystemEventJoin :: string where "SystemEventJoin = ''join''"
definition SystemEventLeave :: string where "SystemEventLeave = ''leave''"

text \<open>\<^verbatim>\<open>strings.Join\<close>.\<close>

fun Join :: "string \<Rightarrow> string list \<Rightarrow> string" where
  "Join sep [] = ''''"
| "Join sep [x] = x"
| "Join sep (x # xs) = x @ sep @ Join sep xs"

section \<open>Properties of the middlewares\<close>

lemma Split_ne [simp]: "Split c s \<noteq> []"
  by (induction s) (auto split: list.splits)

lemma Split_cons: "x \<noteq> c \<Longrightarrow> Split c (x # s) = (x # hd (Split c s)) # tl (Split c s)"
  by (cases "Split c s") auto

lemma Split_one: "Split c s = [p] \<longleftrightarrow> s = p \<and> c \<notin> set p"
proof (induction s arbitrary: p)
  case (Cons x s)
  show ?case
  proof (cases "x = c")
    case False
    have "Split c (x # s) = [p] \<longleftrightarrow> (\<exists>q. p = x # q \<and> Split c s = [q])"
      unfolding Split_cons [OF False] by (cases "Split c s") auto
    then show ?thesis unfolding Cons.IH using False by (cases p) auto
  qed auto
qed auto

lemma Split_two: "Split c s = [a, b] \<longleftrightarrow> s = a @ c # b \<and> c \<notin> set a \<and> c \<notin> set b"
proof (induction s arbitrary: a)
  case (Cons x s)
  show ?case
  proof (cases "x = c")
    case True
    then show ?thesis by (cases a) (auto simp: Split_one)
  next
    case False
    have "Split c (x # s) = [a, b] \<longleftrightarrow> (\<exists>q. a = x # q \<and> Split c s = [q, b])"
      unfolding Split_cons [OF False] by (cases "Split c s") auto
    then show ?thesis unfolding Cons.IH using False by (cases a) auto
  qed
qed simp

text \<open>A bearer token is exactly the second of two words, the first of which is \<^verbatim>\<open>bearer\<close> in any case.\<close>

lemma extractToken_iff:
  assumes "tok \<noteq> ''''"
  shows "extractToken r = tok \<longleftrightarrow>
    (\<exists>scheme. rq_Header r ''Authorization'' = scheme @ CHR '' '' # tok \<and> CHR '' '' \<notin> set scheme \<and> CHR '' '' \<notin> set tok \<and> ascii_lower scheme = ''bearer'')"
proof -
  have "extractToken r = tok \<longleftrightarrow> (\<exists>scheme. Split CHR '' '' (rq_Header r ''Authorization'') = [scheme, tok] \<and> ascii_lower scheme = ''bearer'')"
    using assms by (auto simp: extractToken_def Let_def split: list.splits if_splits)
  then show ?thesis by (auto simp: Split_two)
qed

lemma ChainMiddleware_simps [simp]:
  "ChainMiddleware h [] = h" "ChainMiddleware h (m # ms) = m (ChainMiddleware h ms)"
  by (simp_all add: ChainMiddleware_def)

lemma problem_simps [simp]:
  "rs_Status (WriteProblem s d) = s" "rs_Status (WriteJSON s x) = s" "rs_Status (WriteHeader s) = s" "rs_Status (add_header k v r) = rs_Status r"
  by (simp_all add: WriteProblem_def WriteJSON_def WriteHeader_def add_header_def)

end
