(* ===== verification/User_Service.thy ===== *)
theory User_Service
  imports User_DB Tokens Http
begin

text \<open>
  The user service (\<^verbatim>\<open>internal/user/service.go\<close>, \<^verbatim>\<open>validation.go\<close>, \<^verbatim>\<open>mapper.go\<close>): accounts, login, refresh
  tokens and rooms. Every gRPC handler is a state monad over the tables, the outcomes of the SQL
  statements and the token store, with all its error returns. The password hasher, the UUID
  library, the JWT library and the generated identifiers are parameters.
\<close>

section \<open>Configuration and the service\<close>

record UserConfig =
  MinUsernameLength :: int
  MaxUsernameLength :: int
  MinPasswordLength :: int
  MaxPasswordLength :: int
  AccessTokenExpirationMinutes :: int
  RefreshTokenExpirationDays :: int
  MaxCapacity :: int
  MaxNameLength :: int
  Search_DefaultLimit :: int
  Search_MaxLimit :: int

text \<open>
  \<open>svc_HashPassword\<close> and \<open>svc_ComparePassword\<close> are what the hasher pool answers to the calls of one
  request.
\<close>

record 'w Service =
  svc_config :: UserConfig
  svc_secretKey :: string
  svc_HashPassword :: "string \<Rightarrow> go_error + string"
  svc_ComparePassword :: "string \<Rightarrow> string \<Rightarrow> go_error option"
  svc_tokens :: "'w RefreshTokenStore"

definition NewService :: "UserConfig \<Rightarrow> string \<Rightarrow> (string \<Rightarrow> go_error + string) \<Rightarrow> (string \<Rightarrow> string \<Rightarrow> go_error option) \<Rightarrow> 'w Service" where
  "NewService cfg secretKey hash compare =
     \<lparr>svc_config = cfg, svc_secretKey = secretKey, svc_HashPassword = hash, svc_ComparePassword = compare, svc_tokens = missingRefreshTokenStore\<rparr>"

definition WithRefreshTokenStore :: "'w Service \<Rightarrow> 'w RefreshTokenStore option \<Rightarrow> 'w Service" where
  "WithRefreshTokenStore s tokens = (case tokens of
      None \<Rightarrow> s\<lparr>svc_tokens := missingRefreshTokenStore\<rparr>
    | Some t \<Rightarrow> s\<lparr>svc_tokens := t\<rparr>)"

text \<open>
  The libraries: \<^verbatim>\<open>uuid.Parse\<close>, \<^verbatim>\<open>pgtype.UUID.String\<close>, the signing of JWT claims, and \<^verbatim>\<open>ILIKE\<close>.
\<close>

record lib =
  lib_Parse :: "string \<Rightarrow> uuid option"
  lib_String :: "uuid \<Rightarrow> string"
  lib_SignedString :: "UserClaims \<Rightarrow> string \<Rightarrow> go_error + string"
  lib_ilike :: "string \<Rightarrow> string \<Rightarrow> bool"

definition uuid_String :: "lib \<Rightarrow> uuid option \<Rightarrow> string" where
  "uuid_String L u = (case u of None \<Rightarrow> '''' | Some b \<Rightarrow> lib_String L b)"

section \<open>The token store on Redis\<close>

text \<open>
  \<^verbatim>\<open>RedisRefreshTokenStore\<close> as a \<^verbatim>\<open>RefreshTokenStore\<close>. \<open>tw_calls n\<close> describes the \<open>n\<close>th call: what
  happened to the server since the last one (time and other clients), the outcome of the call on
  the network, and the time of the service.
\<close>

record 'r tok_world =
  tw_redis :: 'r
  tw_calls :: "nat \<Rightarrow> ('r \<Rightarrow> 'r) \<times> net \<times> int"
  tw_n :: nat

definition on_redis :: "(net \<Rightarrow> int \<Rightarrow> 'r \<Rightarrow> 'a \<times> 'r) \<Rightarrow> 'r tok_world \<Rightarrow> 'a \<times> 'r tok_world" where
  "on_redis f w = (case tw_calls w (tw_n w) of (others, n, now) \<Rightarrow>
     (case f n now (others (tw_redis w)) of (a, s) \<Rightarrow> (a, w\<lparr>tw_redis := s, tw_n := Suc (tw_n w)\<rparr>)))"

definition NewRedisRefreshTokenStore :: "(string \<Rightarrow> string) \<Rightarrow> 'r redis_api \<Rightarrow> bool \<Rightarrow> 'r tok_world RefreshTokenStore" where
  "NewRedisRefreshTokenStore sum256 api client =
     \<lparr>rts_Issue = (\<lambda>u t ttl. on_redis (\<lambda>n now. rt_Issue sum256 api client n now u t ttl)),
      rts_Validate = (\<lambda>t. on_redis (\<lambda>n now. rt_Validate sum256 api client n t)),
      rts_Rotate = (\<lambda>a b ttl. on_redis (\<lambda>n now. rt_Rotate sum256 api client n now a b ttl)),
      rts_Revoke = (\<lambda>t. on_redis (\<lambda>n now. rt_Revoke sum256 api client n t)),
      rts_RevokeUser = (\<lambda>u. on_redis (\<lambda>n now. rt_RevokeUser api client n u))\<rparr>"

section \<open>Validation\<close>

definition is_upper :: "nat \<Rightarrow> bool" where "is_upper r \<longleftrightarrow> 65 \<le> r \<and> r \<le> 90"
definition is_lower :: "nat \<Rightarrow> bool" where "is_lower r \<longleftrightarrow> 97 \<le> r \<and> r \<le> 122"
definition is_number :: "nat \<Rightarrow> bool" where "is_number r \<longleftrightarrow> 48 \<le> r \<and> r \<le> 57"
definition is_hangul :: "nat \<Rightarrow> bool" where "is_hangul r \<longleftrightarrow> 44032 \<le> r \<and> r \<le> 55203"

text \<open>The characters of the special class, in the order in which the expression lists them.\<close>

definition special_chars :: "nat list" where
  "special_chars = [33,34,35,36,37,38,39,40,41,42,43,44,45,46,47,58,59,60,61,62,63,64,91,92,93,94,95,96,123,124,125,126]"

definition is_special :: "nat \<Rightarrow> bool" where "is_special r \<longleftrightarrow> r \<in> set special_chars"

text \<open>The regular expressions: one or more runes of a class from the start to the end, or a rune of a class somewhere.\<close>

definition usernameRegex :: "string \<Rightarrow> bool" where
  "usernameRegex s \<longleftrightarrow> runes s \<noteq> [] \<and> list_all (\<lambda>r. is_lower r \<or> is_upper r \<or> is_number r \<or> is_hangul r) (runes s)"

definition allowedPasswordChars :: "string \<Rightarrow> bool" where
  "allowedPasswordChars s \<longleftrightarrow> runes s \<noteq> [] \<and> list_all (\<lambda>r. is_lower r \<or> is_upper r \<or> is_number r \<or> is_special r) (runes s)"

definition passwordPatterns :: "(string \<Rightarrow> bool) list" where
  "passwordPatterns = map (\<lambda>cl s. list_ex cl (runes s)) [is_upper, is_lower, is_number, is_special]"

definition validateUsername :: "string \<Rightarrow> UserConfig \<Rightarrow> string option" where
  "validateUsername username cfg = (let len = int (rune_count username) in
     if len < MinUsernameLength cfg \<or> len > MaxUsernameLength cfg
     then Some (''nickname must be '' @ format_int (MinUsernameLength cfg) @ ''~'' @ format_int (MaxUsernameLength cfg) @ '' characters'')
     else if \<not> usernameRegex username then Some ''nickname can only contain alphanumeric characters and Hangul''
     else None)"

definition validateRoomName :: "string \<Rightarrow> int \<Rightarrow> string option" where
  "validateRoomName name maxLength = (let len = int (rune_count name) in
     if len = 0 then Some ''room name is required''
     else if len > maxLength then Some (''room name must be at most '' @ format_int maxLength @ '' characters'')
     else None)"

definition validateCapacity :: "int \<Rightarrow> int \<Rightarrow> string option" where
  "validateCapacity capacity maxCapacity =
    (if capacity \<le> 0 then Some ''capacity must be positive''
     else if capacity > maxCapacity then Some (''capacity exceeds maximum allowed ('' @ format_int maxCapacity @ '')'')
     else None)"

fun count_types :: "(string \<Rightarrow> bool) list \<Rightarrow> string \<Rightarrow> nat \<Rightarrow> nat" where
  "count_types [] password matchedTypes = matchedTypes"
| "count_types (p # ps) password matchedTypes = count_types ps password (if p password then Suc matchedTypes else matchedTypes)"

definition validatePassword :: "string \<Rightarrow> UserConfig \<Rightarrow> string option" where
  "validatePassword password cfg = (let l = int (length password) in
     if l < MinPasswordLength cfg \<or> l > MaxPasswordLength cfg
     then Some (''password must be '' @ format_int (MinPasswordLength cfg) @ ''~'' @ format_int (MaxPasswordLength cfg) @ '' characters'')
     else if \<not> allowedPasswordChars password
     then Some ''password contains invalid characters (only alphanumeric and standard special characters are allowed)''
     else if count_types passwordPatterns password 0 < 3
     then Some ''password must include at least 3 types of: uppercase, lowercase, numbers, and special characters''
     else None)"

definition toPGUUID :: "lib \<Rightarrow> string \<Rightarrow> go_error + uuid" where
  "toPGUUID L i = (case lib_Parse L i of None \<Rightarrow> Inl (External ''invalid UUID'') | Some u \<Rightarrow> Inr u)"

section \<open>Rows to messages\<close>

record pb_Room =
  pbr_Id :: string
  pbr_Name :: string
  pbr_ManagerId :: string
  pbr_Capacity :: int
  pbr_MemberCount :: int

record pb_UserRoom =
  pbu_Room :: pb_Room
  pbu_JoinedAt :: int

record pb_RoomMember =
  pbm_UserId :: string
  pbm_Username :: string
  pbm_JoinedAt :: int

record pb_User =
  pb_Id :: string
  pb_Username :: string
  pb_CreatedAt :: int

definition userRoomsFromRows :: "lib \<Rightarrow> ListJoinedRoomsRow list \<Rightarrow> pb_UserRoom list" where
  "userRoomsFromRows L rows = map (\<lambda>r. \<lparr>pbu_Room = \<lparr>pbr_Id = lib_String L (ljr_ID r), pbr_Name = ljr_Name r,
     pbr_ManagerId = uuid_String L (ljr_ManagerID r), pbr_Capacity = ljr_Capacity r, pbr_MemberCount = int32_of (ljr_MemberCount r)\<rparr>,
     pbu_JoinedAt = ljr_JoinedAt r\<rparr>) rows"

definition roomMembersFromRows :: "lib \<Rightarrow> ListRoomMembersRow list \<Rightarrow> pb_RoomMember list" where
  "roomMembersFromRows L rows = map (\<lambda>r. \<lparr>pbm_UserId = lib_String L (lrm_ID r), pbm_Username = lrm_Username r, pbm_JoinedAt = lrm_JoinedAt r\<rparr>) rows"

definition roomsFromSearchRows :: "lib \<Rightarrow> SearchRoomsRow list \<Rightarrow> pb_Room list" where
  "roomsFromSearchRows L rows = map (\<lambda>r. \<lparr>pbr_Id = lib_String L (srr_ID r), pbr_Name = srr_Name r,
     pbr_ManagerId = uuid_String L (srr_ManagerID r), pbr_Capacity = srr_Capacity r, pbr_MemberCount = int32_of (srr_MemberCount r)\<rparr>) rows"

section \<open>Accounts and tokens\<close>

text \<open>A call to the token store.\<close>

definition tok_call :: "('w \<Rightarrow> 'a \<times> 'w) \<Rightarrow> ('w world, 'a) state" where
  "tok_call f = State (\<lambda>w. case f (w_tok w) of (r, t) \<Rightarrow> (r, w\<lparr>w_tok := t\<rparr>))"

definition guard_ok :: "string option \<Rightarrow> ('w, 'a) act \<Rightarrow> ('w, 'a) act" where
  "guard_ok v k = (case v of Some m \<Rightarrow> fail (StatusErr InvalidArgument m) | None \<Rightarrow> k)"

text \<open>A UUID of the request; \<open>msg\<close> is the text of the refusal.\<close>

definition parse_id :: "lib \<Rightarrow> string \<Rightarrow> string \<Rightarrow> (uuid \<Rightarrow> ('w, 'a) act) \<Rightarrow> ('w, 'a) act" where
  "parse_id L msg i k = (case toPGUUID L i of Inl _ \<Rightarrow> fail (StatusErr InvalidArgument msg) | Inr u \<Rightarrow> k u)"

text \<open>The generated identifier (\<^verbatim>\<open>uuid.NewV7\<close>) and the time it carries are the parameter \<open>newID\<close>.\<close>

definition CreateUser :: "'w Service \<Rightarrow> lib \<Rightarrow> go_error + (uuid \<times> int) \<Rightarrow> string \<Rightarrow> string \<Rightarrow> ('w, string) act" where
  "CreateUser s L newID username password =
    guard_ok (validateUsername username (svc_config s)) (
    guard_ok (validatePassword password (svc_config s)) (
    case svc_HashPassword s password of
      Inl err \<Rightarrow>
        if errors_is err ErrQueueFull then fail (StatusErr ResourceExhausted ''system overloaded'')
        else if errors_is err ErrClosed then fail (StatusErr Unavailable ''service shutting down'')
        else fail (StatusErr Internal ''failed to hash password'')
    | Inr hashedPassword \<Rightarrow> (case newID of
        Inl _ \<Rightarrow> fail (StatusErr Internal ''failed to generate user ID'')
      | Inr (userID, createdAt) \<Rightarrow>
          check (query (q_CreateUser \<lparr>usr_ID = userID, usr_Username = username, usr_PasswordHash = hashedPassword, usr_CreatedAt = createdAt\<rparr>))
            (\<lambda>err. if errors_is err UniqueViolation then fail (StatusErr AlreadyExists ''username already exists'')
                   else fail (StatusErr Internal ''failed to create user''))
            (\<lambda>user. ret (lib_String L (usr_ID user))))))"

definition issueAccessToken :: "'w Service \<Rightarrow> lib \<Rightarrow> int \<Rightarrow> uuid \<Rightarrow> string \<Rightarrow> go_error + string" where
  "issueAccessToken s L now userID username =
     GenerateJWT (lib_SignedString L) now (lib_String L userID) username (svc_secretKey s) (int64_of (AccessTokenExpirationMinutes (svc_config s) * 60000000000))"

definition refreshTokenTTL :: "'w Service \<Rightarrow> int" where
  "refreshTokenTTL s = int64_of (RefreshTokenExpirationDays (svc_config s) * 24 * 3600000000000)"

text \<open>\<open>newToken\<close> is what \<^verbatim>\<open>uuid.NewString\<close> returns.\<close>

definition issueTokenPair :: "'w Service \<Rightarrow> lib \<Rightarrow> int \<Rightarrow> string \<Rightarrow> uuid \<Rightarrow> string \<Rightarrow> ('w, string \<times> string) act" where
  "issueTokenPair s L now newToken userID username = (case issueAccessToken s L now userID username of
      Inl _ \<Rightarrow> fail (StatusErr Internal ''failed to generate access token'')
    | Inr accessToken \<Rightarrow> do {
        r \<leftarrow> tok_call (rts_Issue (svc_tokens s) (lib_String L userID) newToken (refreshTokenTTL s));
        case r of
          Some _ \<Rightarrow> fail (StatusErr Internal ''failed to save refresh token'')
        | None \<Rightarrow> ret (accessToken, newToken) })"

record VerifyUserResponse =
  vur_UserId :: string
  vur_AccessToken :: string
  vur_RefreshToken :: string

definition VerifyUser :: "'w Service \<Rightarrow> lib \<Rightarrow> int \<Rightarrow> string \<Rightarrow> string \<Rightarrow> string \<Rightarrow> ('w, VerifyUserResponse) act" where
  "VerifyUser s L now newToken username password =
    check (query (q_GetUserByUsername username))
      (\<lambda>err. if errors_is err ErrNoRows then fail (StatusErr Unauthenticated ''invalid username or password'')
             else fail (StatusErr Internal ''failed to get user''))
      (\<lambda>user. case svc_ComparePassword s (usr_PasswordHash user) password of
         Some err \<Rightarrow>
           if errors_is err ErrQueueFull then fail (StatusErr ResourceExhausted ''system overloaded'')
           else if errors_is err ErrClosed then fail (StatusErr Unavailable ''service shutting down'')
           else if errors_is err ErrMismatchedHashAndPassword then fail (StatusErr Unauthenticated ''invalid username or password'')
           else fail (StatusErr Internal ''failed to verify user'')
       | None \<Rightarrow>
           check (issueTokenPair s L now newToken (usr_ID user) (usr_Username user)) fail
             (\<lambda>(accessToken, refreshToken).
                ret \<lparr>vur_UserId = lib_String L (usr_ID user), vur_AccessToken = accessToken, vur_RefreshToken = refreshToken\<rparr>))"

definition rotate_token :: "'w Service \<Rightarrow> RefreshTokenValidation \<Rightarrow> string \<Rightarrow> string \<Rightarrow> string \<Rightarrow> ('w, string \<times> string) act" where
  "rotate_token s validation oldToken newToken accessToken =
    check (tok_call (rts_Rotate (svc_tokens s) oldToken newToken (refreshTokenTTL s)))
      (\<lambda>err. fail (StatusErr Internal ''failed to refresh token''))
      (\<lambda>rotation. case rot_Status rotation of
         RefreshTokenInvalid \<Rightarrow> fail (StatusErr Unauthenticated ''invalid refresh token'')
       | RefreshTokenReused \<Rightarrow> fail (StatusErr Unauthenticated ''refresh token reuse detected'')
       | RefreshTokenRotated \<Rightarrow>
           if rot_UserID rotation \<noteq> val_UserID validation then fail (StatusErr Internal ''failed to refresh token'')
           else ret (accessToken, newToken))"

definition RefreshToken :: "'w Service \<Rightarrow> lib \<Rightarrow> int \<Rightarrow> string \<Rightarrow> string \<Rightarrow> ('w, string \<times> string) act" where
  "RefreshToken s L now newToken oldToken =
    check (tok_call (rts_Validate (svc_tokens s) oldToken))
      (\<lambda>err. fail (StatusErr Internal ''failed to refresh token''))
      (\<lambda>validation. case val_Status validation of
         RefreshTokenValidationInvalid \<Rightarrow> fail (StatusErr Unauthenticated ''invalid refresh token'')
       | RefreshTokenValidationReused \<Rightarrow> fail (StatusErr Unauthenticated ''refresh token reuse detected'')
       | RefreshTokenValidationActive \<Rightarrow> (case toPGUUID L (val_UserID validation) of
           Inl _ \<Rightarrow> fail (StatusErr Internal ''failed to refresh token'')
         | Inr userUUID \<Rightarrow>
             check (query (q_GetUserByID userUUID))
               (\<lambda>err. if errors_is err ErrNoRows
                  then do { _ \<leftarrow> tok_call (rts_RevokeUser (svc_tokens s) (val_UserID validation));
                            fail (StatusErr Unauthenticated ''user no longer exists'') }
                  else fail (StatusErr Internal ''failed to get user''))
               (\<lambda>user. case issueAccessToken s L now (usr_ID user) (usr_Username user) of
                  Inl _ \<Rightarrow> fail (StatusErr Internal ''failed to generate access token'')
                | Inr accessToken \<Rightarrow> rotate_token s validation oldToken newToken accessToken)))"

definition RevokeToken :: "'w Service \<Rightarrow> string \<Rightarrow> ('w, unit) act" where
  "RevokeToken s token = do {
     r \<leftarrow> tok_call (rts_Revoke (svc_tokens s) token);
     case r of Some _ \<Rightarrow> fail (StatusErr Internal ''failed to revoke token'') | None \<Rightarrow> ret () }"

fun parse_ids :: "lib \<Rightarrow> string list \<Rightarrow> go_error + uuid list" where
  "parse_ids L [] = Inr []"
| "parse_ids L (i # is) = (case toPGUUID L i of
     Inl _ \<Rightarrow> Inl (StatusErr InvalidArgument (''invalid user_id: '' @ i))
   | Inr uid \<Rightarrow> (case parse_ids L is of Inl e \<Rightarrow> Inl e | Inr uuids \<Rightarrow> Inr (uid # uuids)))"

definition BatchGetUsers :: "lib \<Rightarrow> string list \<Rightarrow> ('w, pb_User list) act" where
  "BatchGetUsers L userIds =
    (if userIds = [] then ret []
     else (case parse_ids L userIds of
        Inl e \<Rightarrow> fail e
      | Inr uuids \<Rightarrow>
          check (query (q_GetUsersByIDs uuids)) (\<lambda>err. fail (StatusErr Internal ''failed to batch get users''))
            (\<lambda>rows. ret (map (\<lambda>row. \<lparr>pb_Id = lib_String L (usr_ID row), pb_Username = usr_Username row, pb_CreatedAt = usr_CreatedAt row\<rparr>) rows))))"

section \<open>Rooms\<close>

definition create_room_tx :: "lib \<Rightarrow> uuid \<Rightarrow> int \<Rightarrow> string \<Rightarrow> uuid \<Rightarrow> int \<Rightarrow> ('w, string) act" where
  "create_room_tx L roomID createdAt name managerUUID capacity =
    check (query (q_CreateRoom \<lparr>room_ID = roomID, room_Name = name, room_ManagerID = Some managerUUID, room_Capacity = capacity, room_CreatedAt = createdAt\<rparr>))
      (\<lambda>err. fail (StatusErr Internal ''failed to create room''))
      (\<lambda>room. check (query (q_CreateRoomMember \<lparr>rm_UserID = managerUUID, rm_RoomID = room_ID room, rm_JoinedAt = createdAt\<rparr>))
         (\<lambda>err. fail (StatusErr Internal ''failed to join room as manager''))
         (\<lambda>_. ret (lib_String L (room_ID room))))"

definition CreateRoom :: "'w Service \<Rightarrow> lib \<Rightarrow> go_error + (uuid \<times> int) \<Rightarrow> string \<Rightarrow> string \<Rightarrow> int \<Rightarrow> ('w, string) act" where
  "CreateRoom s L newID name managerId capacity =
    guard_ok (validateRoomName name (MaxNameLength (svc_config s))) (
    parse_id L ''invalid manager_id'' managerId (\<lambda>managerUUID.
    case newID of
      Inl _ \<Rightarrow> fail (StatusErr Internal ''failed to generate room ID'')
    | Inr (roomID, createdAt) \<Rightarrow>
        guard_ok (validateCapacity capacity (MaxCapacity (svc_config s)))
          (runInTx (create_room_tx L roomID createdAt name managerUUID capacity))))"

definition GetMemberJoinedAt :: "lib \<Rightarrow> string \<Rightarrow> string \<Rightarrow> ('w, int) act" where
  "GetMemberJoinedAt L roomId userId =
    parse_id L ''invalid room_id'' roomId (\<lambda>roomUUID.
    parse_id L ''invalid user_id'' userId (\<lambda>userUUID.
    check (query (q_GetMemberJoinedAt roomUUID userUUID))
      (\<lambda>err. if errors_is err ErrNoRows then fail (StatusErr NotFound ''not a member of the room'')
             else fail (StatusErr Internal ''failed to get member joined_at''))
      ret))"

definition VerifyRoomMember :: "lib \<Rightarrow> string \<Rightarrow> string \<Rightarrow> ('w, unit) act" where
  "VerifyRoomMember L roomId userId =
    parse_id L ''invalid room_id'' roomId (\<lambda>roomUUID.
    parse_id L ''invalid user_id'' userId (\<lambda>userUUID.
    check (query (q_ExistsRoomMember roomUUID userUUID))
      (\<lambda>err. fail (StatusErr Internal ''failed to verify room member''))
      (\<lambda>exists. if \<not> exists then fail (StatusErr NotFound ''not a member of the room'') else ret ())))"

definition ListJoinedRooms :: "lib \<Rightarrow> string \<Rightarrow> ('w, pb_UserRoom list) act" where
  "ListJoinedRooms L userId =
    parse_id L ''invalid user_id'' userId (\<lambda>userUUID.
    check (query (q_ListJoinedRooms userUUID)) (\<lambda>err. fail (StatusErr Internal ''failed to list joined rooms''))
      (\<lambda>rows. ret (userRoomsFromRows L rows)))"

definition ListRoomMembers :: "lib \<Rightarrow> string \<Rightarrow> ('w, pb_RoomMember list) act" where
  "ListRoomMembers L roomId =
    parse_id L ''invalid room_id'' roomId (\<lambda>roomUUID.
    check (query (q_ListRoomMembers roomUUID)) (\<lambda>err. fail (StatusErr Internal ''failed to list room members''))
      (\<lambda>rows. ret (roomMembersFromRows L rows)))"

text \<open>The function that \<^verbatim>\<open>JoinRoom\<close> runs in a transaction; \<open>now\<close> is the time of the call.\<close>

definition join_tx :: "int \<Rightarrow> uuid \<Rightarrow> uuid \<Rightarrow> ('w, unit) act" where
  "join_tx now roomUUID userUUID =
    check (query (q_GetRoomForUpdate roomUUID))
      (\<lambda>err. if errors_is err ErrNoRows then fail (StatusErr NotFound ''room not found'') else fail err)
      (\<lambda>room. check (query (q_ExistsRoomMember roomUUID userUUID)) fail
        (\<lambda>exists. if exists then ret ()
          else check (query (q_GetRoomMemberCount roomUUID)) fail
            (\<lambda>count. if int32_of count \<ge> room_Capacity room then fail (StatusErr FailedPrecondition ''room is full'')
              else query (q_CreateRoomMember \<lparr>rm_UserID = userUUID, rm_RoomID = roomUUID, rm_JoinedAt = now\<rparr>))))"

definition JoinRoom :: "lib \<Rightarrow> int \<Rightarrow> string \<Rightarrow> string \<Rightarrow> ('w, unit) act" where
  "JoinRoom L now userId roomId =
    parse_id L ''invalid user_id'' userId (\<lambda>userUUID.
    parse_id L ''invalid room_id'' roomId (\<lambda>roomUUID.
    check (runInTx (join_tx now roomUUID userUUID))
      (\<lambda>err. case status_from_error err of Some _ \<Rightarrow> fail err | None \<Rightarrow> fail (StatusErr Internal ''failed to join room''))
      ret))"

definition SearchRooms :: "'w Service \<Rightarrow> lib \<Rightarrow> string \<Rightarrow> int \<Rightarrow> int \<Rightarrow> ('w, pb_Room list \<times> int) act" where
  "SearchRooms s L q limit offset =
    (if limit > Search_MaxLimit (svc_config s) then fail (StatusErr InvalidArgument ''limit exceeds maximum allowed'')
     else (let limit = (if limit \<le> 0 then Search_DefaultLimit (svc_config s) else limit) in
       check (query (q_SearchRooms (lib_ilike L) q limit offset)) (\<lambda>err. fail (StatusErr Internal ''failed to search rooms''))
         (\<lambda>rows. let totalCount = (case rows of [] \<Rightarrow> 0 | r # _ \<Rightarrow> int32_of (srr_TotalCount r)) in
            ret (roomsFromSearchRows L rows, totalCount))))"

text \<open>The row of the room, which the transaction locks, or the refusal that the handlers share.\<close>

definition locked_room :: "uuid \<Rightarrow> (Room \<Rightarrow> ('w, 'a) act) \<Rightarrow> ('w, 'a) act" where
  "locked_room roomUUID k = check (query (q_GetRoomForUpdate roomUUID))
     (\<lambda>err. if errors_is err ErrNoRows then fail (StatusErr NotFound ''room not found'')
            else fail (StatusErr Internal ''failed to get room'')) k"

definition update_room_tx :: "uuid \<Rightarrow> uuid \<Rightarrow> string \<Rightarrow> int \<Rightarrow> ('w, unit) act" where
  "update_room_tx roomUUID requesterUUID name capacity =
    locked_room roomUUID (\<lambda>room.
      if room_ManagerID room \<noteq> Some requesterUUID then fail (StatusErr PermissionDenied ''only manager can update room'')
      else check (query (q_GetRoomMemberCount roomUUID)) (\<lambda>err. fail (StatusErr Internal ''failed to get member count''))
        (\<lambda>count. if int32_of count > capacity
           then fail (StatusErr FailedPrecondition ''capacity cannot be less than current member count'')
           else check (query (q_UpdateRoom roomUUID name capacity requesterUUID)) (\<lambda>err. fail (StatusErr Internal ''failed to update room''))
             (\<lambda>_. ret ())))"

definition UpdateRoom :: "'w Service \<Rightarrow> lib \<Rightarrow> string \<Rightarrow> string \<Rightarrow> string \<Rightarrow> int \<Rightarrow> ('w, unit) act" where
  "UpdateRoom s L i requesterId name capacity =
    parse_id L ''invalid room_id'' i (\<lambda>roomUUID.
    parse_id L ''invalid requester_id'' requesterId (\<lambda>requesterUUID.
    guard_ok (validateRoomName name (MaxNameLength (svc_config s))) (
    guard_ok (validateCapacity capacity (MaxCapacity (svc_config s))) (
    runInTx (update_room_tx roomUUID requesterUUID name capacity)))))"

text \<open>The manager left: the oldest member takes over, or the empty room goes.\<close>

definition hand_over_room :: "uuid \<Rightarrow> Room \<Rightarrow> ('w, unit) act" where
  "hand_over_room roomUUID room = check (query (q_GetOldestRoomMember roomUUID))
     (\<lambda>err. if errors_is err ErrNoRows
        then check (query (q_DeleteRoom roomUUID (room_ManagerID room))) (\<lambda>err. fail (StatusErr Internal ''failed to delete empty room''))
          (\<lambda>_. ret ())
        else fail (StatusErr Internal ''failed to delegate room manager''))
     (\<lambda>oldestMember. check (query (q_UpdateRoomManager roomUUID oldestMember))
        (\<lambda>err. fail (StatusErr Internal ''failed to delegate room manager'')) (\<lambda>_. ret ()))"

definition leaveRoomTx :: "uuid \<Rightarrow> uuid \<Rightarrow> ('w, unit) act" where
  "leaveRoomTx roomUUID userUUID =
    locked_room roomUUID (\<lambda>room.
    check (query (q_DeleteRoomMember roomUUID userUUID)) (\<lambda>err. fail (StatusErr Internal ''failed to leave room''))
      (\<lambda>_. if room_ManagerID room \<noteq> Some userUUID then ret () else hand_over_room roomUUID room))"

definition LeaveRoom :: "lib \<Rightarrow> string \<Rightarrow> string \<Rightarrow> ('w, unit) act" where
  "LeaveRoom L roomId userId =
    parse_id L ''invalid room_id'' roomId (\<lambda>roomUUID.
    parse_id L ''invalid user_id'' userId (\<lambda>userUUID.
    runInTx (leaveRoomTx roomUUID userUUID)))"

fun leave_rooms :: "lib \<Rightarrow> uuid list \<Rightarrow> uuid \<Rightarrow> string list \<Rightarrow> ('w, string list) act" where
  "leave_rooms L [] userUUID leftRoomIDs = ret leftRoomIDs"
| "leave_rooms L (roomID # rest) userUUID leftRoomIDs =
     check (leaveRoomTx roomID userUUID) fail (\<lambda>_. leave_rooms L rest userUUID (leftRoomIDs @ [lib_String L roomID]))"

definition delete_user_tx :: "lib \<Rightarrow> uuid \<Rightarrow> ('w, string list) act" where
  "delete_user_tx L userUUID =
    check (query (q_ListJoinedRoomIDsForUpdate userUUID)) (\<lambda>err. fail (StatusErr Internal ''failed to list joined rooms''))
      (\<lambda>roomIDs. check (leave_rooms L roomIDs userUUID []) fail
        (\<lambda>leftRoomIDs. check (query (q_DeleteUser userUUID))
           (\<lambda>err. if errors_is err ErrNoRows then fail (StatusErr NotFound ''user not found'') else fail (StatusErr Internal ''failed to delete user''))
           (\<lambda>_. ret leftRoomIDs)))"

definition DeleteUser :: "'w Service \<Rightarrow> lib \<Rightarrow> string \<Rightarrow> string \<Rightarrow> ('w, string list) act" where
  "DeleteUser s L userId password =
    parse_id L ''invalid user_id'' userId (\<lambda>userUUID.
    check (query (q_GetUserByID userUUID))
      (\<lambda>err. if errors_is err ErrNoRows then fail (StatusErr NotFound ''user not found'') else fail (StatusErr Internal ''failed to get user''))
      (\<lambda>user. case svc_ComparePassword s (usr_PasswordHash user) password of
         Some err \<Rightarrow>
           if errors_is err ErrQueueFull then fail (StatusErr ResourceExhausted ''system overloaded'')
           else if errors_is err ErrClosed then fail (StatusErr Unavailable ''service shutting down'')
           else if errors_is err ErrMismatchedHashAndPassword then fail (StatusErr Unauthenticated ''invalid password'')
           else fail (StatusErr Internal ''failed to verify password'')
       | None \<Rightarrow> do {
           r \<leftarrow> tok_call (rts_RevokeUser (svc_tokens s) (lib_String L userUUID));
           case r of
             Some _ \<Rightarrow> fail (StatusErr Internal ''failed to revoke tokens'')
           | None \<Rightarrow> runInTx (delete_user_tx L userUUID) }))"

definition delete_room_tx :: "uuid \<Rightarrow> uuid \<Rightarrow> ('w, unit) act" where
  "delete_room_tx roomUUID requesterUUID =
    locked_room roomUUID (\<lambda>room.
      if room_ManagerID room \<noteq> Some requesterUUID then fail (StatusErr PermissionDenied ''only manager can delete room'')
      else check (query (q_DeleteRoom roomUUID (Some requesterUUID))) (\<lambda>err. fail (StatusErr Internal ''failed to delete room'')) (\<lambda>_. ret ()))"

definition DeleteRoom :: "lib \<Rightarrow> string \<Rightarrow> string \<Rightarrow> ('w, unit) act" where
  "DeleteRoom L roomId requesterId =
    parse_id L ''invalid room_id'' roomId (\<lambda>roomUUID.
    parse_id L ''invalid requester_id'' requesterId (\<lambda>requesterUUID.
    runInTx (delete_room_tx roomUUID requesterUUID)))"

end
