(* ===== verification/User_Guarantees.thy ===== *)
theory User_Guarantees
  imports User_Service
begin

text \<open>
  What the user service guarantees: the effect of each transaction on the tables, the invariant of
  the rooms under every sequence of requests with any outcome of the SQL statements, what leaving,
  deleting and joining do, and how the handlers behave on errors.
\<close>

section \<open>The effect of the transactions\<close>

text \<open>The tables after a user left a room.\<close>

definition without_member :: "tables \<Rightarrow> uuid \<Rightarrow> uuid \<Rightarrow> tables" where
  "without_member t r u = t\<lparr>t_members := filter (\<lambda>m. \<not> (rm_RoomID m = r \<and> rm_UserID m = u)) (t_members t)\<rparr>"

definition without_room :: "tables \<Rightarrow> uuid \<Rightarrow> tables" where
  "without_room t r = t\<lparr>t_rooms := filter (\<lambda>x. room_ID x \<noteq> r) (t_rooms t), t_members := filter (\<lambda>m. rm_RoomID m \<noteq> r) (t_members t)\<rparr>"

definition with_manager :: "tables \<Rightarrow> uuid \<Rightarrow> uuid \<Rightarrow> tables" where
  "with_manager t r m = t\<lparr>t_rooms := map (\<lambda>x. if room_ID x = r then x\<lparr>room_ManagerID := Some m\<rparr> else x) (t_rooms t)\<rparr>"

definition with_member :: "tables \<Rightarrow> uuid \<Rightarrow> uuid \<Rightarrow> int \<Rightarrow> tables" where
  "with_member t r u now = t\<lparr>t_members := t_members t @ [\<lparr>rm_UserID = u, rm_RoomID = r, rm_JoinedAt = now\<rparr>]\<rparr>"

definition left_db :: "tables \<Rightarrow> Room \<Rightarrow> uuid \<Rightarrow> tables" where
  "left_db t x u = (let r = room_ID x; t1 = without_member t r u in
     if room_ManagerID x \<noteq> Some u then t1
     else (case sort_key rm_JoinedAt (members_of t1 r) of
         [] \<Rightarrow> without_room t1 r
       | m # _ \<Rightarrow> with_manager t1 r (rm_UserID m)))"

lemmas eff_defs = without_member_def without_room_def with_manager_def with_member_def

lemma locked_roomE [runs_elims]:
  assumes "runs (locked_room r k) w y w'"
  obtains x w1 where "find_room (w_db w) r = Some x" "w_db w1 = w_db w" "w_tok w1 = w_tok w" "runs (k x) w1 y w'"
  using assms unfolding locked_room_def
  by (auto elim!: runs_checkE runs_queryE simp: q_GetRoomForUpdate_def split: option.splits if_splits)

text \<open>A query fails with \<^verbatim>\<open>ErrNoRows\<close> only if the statement found no row.\<close>

lemma query_no_rows:
  assumes "run_state (query q) w = (Inl e, w1)" "errors_is e ErrNoRows"
  obtains t where "q (w_db w) = (Inl e, t)" "w_db w1 = t" "w_tok w1 = w_tok w"
proof -
  obtain n w0 where n: "run_state next_outcome w = (n, w0)" by fastforce
  from assms n have "n = SqlOk" by (cases n) (auto simp: query_def split: prod.splits)
  with assms n next_outcome_db [OF n] that show thesis by (auto simp: query_def on_db_def split: prod.splits)
qed

lemma hand_over_room_eff:
  assumes "runs (hand_over_room r x) w y w'"
  shows "w_db w' = (case sort_key rm_JoinedAt (members_of (w_db w) r) of [] \<Rightarrow> without_room (w_db w) r | m # _ \<Rightarrow> with_manager (w_db w) r (rm_UserID m))"
    "w_tok w' = w_tok w"
  using assms unfolding hand_over_room_def
  by (auto split: if_splits list.splits elim!: runs_retE runs_checkE runs_queryE query_no_rows
      simp: q_GetOldestRoomMember_def q_DeleteRoom_def q_UpdateRoomManager_def without_room_def with_manager_def)

lemma runs_tokE [runs_elims]:
  fixes k :: "'b \<Rightarrow> ('w, 'a) act"
  assumes "runs (tok_call f \<bind> k) w x w'"
  obtains y w1 where "f (w_tok w) = (y, w_tok w1)" "w_db w1 = w_db w" "runs (k y) w1 x w'"
  using assms that [of "fst (f (w_tok w))" "w\<lparr>w_tok := snd (f (w_tok w))\<rparr>"]
  by (simp add: runs_def tok_call_def split: prod.splits)

lemma runs_tok_callE [runs_elims]:
  assumes "runs (tok_call f) w x w'"
  obtains "f (w_tok w) = (Inr x, w_tok w')" "w_db w' = w_db w"
  using assms by (auto simp: runs_def tok_call_def split: prod.splits)

lemma leaveRoomTx_eff:
  assumes "runs (leaveRoomTx r u) w y w'"
  obtains x where "find_room (w_db w) r = Some x" "w_db w' = left_db (w_db w) x u" "w_tok w' = w_tok w"
proof (rule locked_roomE [OF assms [unfolded leaveRoomTx_def]], elim runs_check_failE)
  fix x w1 y1 w2
  assume x: "find_room (w_db w) r = Some x" "w_db w1 = w_db w" "w_tok w1 = w_tok w" and d: "runs (query (q_DeleteRoomMember r u)) w1 y1 w2"
    and rest: "runs (if room_ManagerID x \<noteq> Some u then ret () else hand_over_room r x) w2 y w'"
  from d x have w2: "w_db w2 = without_member (w_db w) r u" "w_tok w2 = w_tok w"
    by (auto elim!: runs_queryE simp: q_DeleteRoomMember_def without_member_def)
  from rest have "w_db w' = left_db (w_db w) x u \<and> w_tok w' = w_tok w"
    using find_room_mem [OF x(1)] by (auto simp: left_db_def Let_def w2 hand_over_room_eff elim!: runs_retE split: if_splits list.splits)
  with x(1) that show thesis by blast
qed

lemma create_room_tx_eff:
  assumes "runs (create_room_tx L r at name m cap) w y w'"
  shows "\<not> has_room (w_db w) r" "has_user (w_db w) m" "w_tok w' = w_tok w" "y = lib_String L r"
    "w_db w' = snd (q_CreateRoomMember \<lparr>rm_UserID = m, rm_RoomID = r, rm_JoinedAt = at\<rparr>
       ((w_db w)\<lparr>t_rooms := t_rooms (w_db w) @ [\<lparr>room_ID = r, room_Name = name, room_ManagerID = Some m, room_Capacity = cap, room_CreatedAt = at\<rparr>]\<rparr>))"
  using assms unfolding create_room_tx_def
  by (auto elim!: runs_check_failE runs_queryE runs_retE simp: q_CreateRoom_def split: if_splits)

lemma join_tx_eff:
  assumes "runs (join_tx now r u) w y w'"
  obtains (member) x where "find_room (w_db w) r = Some x" "is_member (w_db w) r u" "w_db w' = w_db w" "w_tok w' = w_tok w"
    | (joined) x where "find_room (w_db w) r = Some x" "\<not> is_member (w_db w) r u" "has_user (w_db w) u"
        "int32_of (int (length (members_of (w_db w) r))) < room_Capacity x" "w_db w' = with_member (w_db w) r u now" "w_tok w' = w_tok w"
proof -
  from assms have "\<exists>x. find_room (w_db w) r = Some x \<and> w_tok w' = w_tok w \<and>
    (is_member (w_db w) r u \<and> w_db w' = w_db w \<or> \<not> is_member (w_db w) r u \<and> has_user (w_db w) u \<and>
      int32_of (int (length (members_of (w_db w) r))) < room_Capacity x \<and> w_db w' = with_member (w_db w) r u now)"
    unfolding join_tx_def
    by (auto elim!: runs_checkE runs_queryE runs_retE split: if_splits option.splits
        simp: q_GetRoomForUpdate_def q_ExistsRoomMember_def q_GetRoomMemberCount_def q_CreateRoomMember_def with_member_def find_room_None [symmetric])
  with member joined show thesis by blast
qed

lemma update_room_tx_eff:
  assumes "runs (update_room_tx r m name cap) w y w'"
  obtains x where "find_room (w_db w) r = Some x" "room_ManagerID x = Some m" "int32_of (int (length (members_of (w_db w) r))) \<le> cap"
    "w_db w' = snd (q_UpdateRoom r name cap m (w_db w))" "w_tok w' = w_tok w"
proof -
  from assms have "\<exists>x. find_room (w_db w) r = Some x \<and> room_ManagerID x = Some m \<and> int32_of (int (length (members_of (w_db w) r))) \<le> cap \<and>
    w_db w' = snd (q_UpdateRoom r name cap m (w_db w)) \<and> w_tok w' = w_tok w"
    unfolding update_room_tx_def
    by (auto elim!: locked_roomE runs_check_failE runs_queryE runs_retE split: if_splits simp: q_GetRoomMemberCount_def)
  with that show thesis by blast
qed

lemma delete_room_tx_eff:
  assumes "runs (delete_room_tx r m) w y w'"
  obtains x where "find_room (w_db w) r = Some x" "room_ManagerID x = Some m" "w_db w' = without_room (w_db w) r" "w_tok w' = w_tok w"
proof -
  from assms have "\<exists>x. find_room (w_db w) r = Some x \<and> room_ManagerID x = Some m \<and> w_db w' = without_room (w_db w) r \<and> w_tok w' = w_tok w"
    unfolding delete_room_tx_def
    by (auto elim!: locked_roomE runs_check_failE runs_queryE runs_retE split: if_splits simp: q_DeleteRoom_def without_room_def)
  with that show thesis by blast
qed

section \<open>The invariant of the rooms\<close>

lemma rooms_okI: "schema_ok t \<Longrightarrow> (\<And>x. x \<in> set (t_rooms t) \<Longrightarrow> room_ok mx t x) \<Longrightarrow> rooms_ok mx t"
  by (simp add: rooms_ok_def)

lemma rooms_okD: "rooms_ok mx t \<Longrightarrow> schema_ok t" "rooms_ok mx t \<Longrightarrow> x \<in> set (t_rooms t) \<Longrightarrow> room_ok mx t x"
  by (simp_all add: rooms_ok_def)

text \<open>The row of a room is unique.\<close>

lemma same_room: "schema_ok t \<Longrightarrow> x \<in> set (t_rooms t) \<Longrightarrow> y \<in> set (t_rooms t) \<Longrightarrow> room_ID x = room_ID y \<Longrightarrow> x = y"
  by (auto simp: schema_ok_def distinct_map inj_on_def)

text \<open>The conversion of the member count to 32 bits is exact in such a database.\<close>

lemma count_int32:
  assumes "rooms_ok mx t" "find_room t r = Some x" "mx < 2 ^ 31"
  shows "int32_of (int (length (members_of t r))) = int (length (members_of t r))"
  using assms find_room_mem [OF assms(2)] by (intro int32_of_id) (auto simp: rooms_ok_def room_ok_def)

lemma rooms_with_member:
  assumes ok: "rooms_ok mx t" and x: "find_room t r = Some x" "\<not> is_member t r u" "has_user t u" "int (length (members_of t r)) < room_Capacity x"
  shows "rooms_ok mx (with_member t r u now)"
proof (rule rooms_okI)
  have hr: "has_room t r" using x(1) find_room_None [of t r] by auto
  with x schema_CreateRoomMember [OF rooms_okD(1) [OF ok], of "\<lparr>rm_UserID = u, rm_RoomID = r, rm_JoinedAt = now\<rparr>"]
  show "schema_ok (with_member t r u now)" by (simp add: q_CreateRoomMember_def with_member_def)
  fix y assume "y \<in> set (t_rooms (with_member t r u now))"
  then have y: "y \<in> set (t_rooms t)" by (simp add: with_member_def)
  have "room_ID y = r \<Longrightarrow> y = x" using same_room [OF rooms_okD(1) [OF ok] y] find_room_mem [OF x(1)] by simp
  with rooms_okD(2) [OF ok y] x show "room_ok mx (with_member t r u now) y"
    by (auto simp: room_ok_def with_member_def members_of_def is_member_def)
qed

lemma rooms_new_room:
  assumes ok: "rooms_ok mx t" and new: "\<not> has_room t r" "has_user t m" and cap: "0 < cap" "cap \<le> mx"
  shows "rooms_ok mx (snd (q_CreateRoomMember \<lparr>rm_UserID = m, rm_RoomID = r, rm_JoinedAt = at\<rparr>
       (t\<lparr>t_rooms := t_rooms t @ [\<lparr>room_ID = r, room_Name = name, room_ManagerID = Some m, room_Capacity = cap, room_CreatedAt = at\<rparr>]\<rparr>)))"
    (is "rooms_ok mx (snd (q_CreateRoomMember ?m (t\<lparr>t_rooms := t_rooms t @ [?x]\<rparr>)))")
proof -
  let ?t1 = "t\<lparr>t_rooms := t_rooms t @ [?x]\<rparr>"
  have nm: "members_of t r = []" "\<not> is_member t r m"
    using rooms_okD(1) [OF ok] new by (auto simp: schema_ok_def members_of_def is_member_def filter_empty_conv)
  have "schema_ok ?t1" using schema_CreateRoom [OF rooms_okD(1) [OF ok], of ?x] new by (simp add: q_CreateRoom_def)
  then have s: "schema_ok (snd (q_CreateRoomMember ?m ?t1))" by (rule schema_CreateRoomMember)
  have e: "snd (q_CreateRoomMember ?m ?t1) = ?t1\<lparr>t_members := t_members t @ [?m]\<rparr>"
    using new nm by (simp add: q_CreateRoomMember_def is_member_def has_user_def has_room_def)
  show ?thesis
  proof (rule rooms_okI [OF s])
    fix y assume "y \<in> set (t_rooms (snd (q_CreateRoomMember ?m ?t1)))"
    then consider "y \<in> set (t_rooms t)" "room_ID y \<noteq> r" | "y = ?x" unfolding e using new by (auto simp: has_room_def)
    then show "room_ok mx (snd (q_CreateRoomMember ?m ?t1)) y"
      using ok cap nm by cases (auto simp: e rooms_ok_def room_ok_def members_of_def is_member_def)
  qed
qed

lemma rooms_update:
  assumes ok: "rooms_ok mx t" and cap: "0 < cap" "cap \<le> mx" "int (length (members_of t r)) \<le> cap"
  shows "rooms_ok mx (snd (q_UpdateRoom r name cap m t))"
proof (rule rooms_okI)
  show "schema_ok (snd (q_UpdateRoom r name cap m t))" by (rule schema_UpdateRoom [OF rooms_okD(1) [OF ok]])
  fix y assume "y \<in> set (t_rooms (snd (q_UpdateRoom r name cap m t)))"
  with ok cap show "room_ok mx (snd (q_UpdateRoom r name cap m t)) y"
    by (fastforce simp: q_UpdateRoom_def rooms_ok_def room_ok_def members_of_def is_member_def split: if_splits)
qed

lemma rooms_without_room:
  assumes ok: "schema_ok t" "\<And>x. x \<in> set (t_rooms t) \<Longrightarrow> room_ID x \<noteq> r \<Longrightarrow> room_ok mx t x"
  shows "rooms_ok mx (without_room t r)"
proof (rule rooms_okI)
  show "schema_ok (without_room t r)"
    using ok(1) by (auto simp: schema_ok_def without_room_def row_defs distinct_map_filter)
  fix y assume "y \<in> set (t_rooms (without_room t r))"
  then have y: "y \<in> set (t_rooms t)" "room_ID y \<noteq> r" by (auto simp: without_room_def)
  have "filter (\<lambda>m. rm_RoomID m \<noteq> r \<and> rm_RoomID m = room_ID y) (t_members t) = members_of t (room_ID y)"
    using y by (auto simp: members_of_def intro!: filter_cong)
  with ok(2) [OF y] y show "room_ok mx (without_room t r) y"
    by (auto simp: room_ok_def without_room_def is_member_def members_of_def)
qed

lemma members_of_without: "members_of (without_member t r u) r' = filter (\<lambda>m. \<not> (r' = r \<and> rm_UserID m = u)) (members_of t r')"
  by (auto simp: members_of_def without_member_def intro!: filter_cong)

lemma rooms_with_manager:
  assumes s: "schema_ok t" and m: "is_member t r m"
    and ok: "\<And>x. x \<in> set (t_rooms t) \<Longrightarrow> room_ok mx t (if room_ID x = r then x\<lparr>room_ManagerID := Some m\<rparr> else x)"
  shows "rooms_ok mx (with_manager t r m)"
proof (rule rooms_okI)
  have "has_user t m" using s m by (auto simp: is_member_def schema_ok_def)
  with schema_UpdateRoomManager [OF s, of r m] show "schema_ok (with_manager t r m)"
    by (simp add: q_UpdateRoomManager_def with_manager_def)
  fix y assume "y \<in> set (t_rooms (with_manager t r m))"
  then obtain x where "x \<in> set (t_rooms t)" "y = (if room_ID x = r then x\<lparr>room_ManagerID := Some m\<rparr> else x)"
    by (auto simp: with_manager_def)
  with ok have "room_ok mx t y" by blast
  then show "room_ok mx (with_manager t r m) y" by (simp add: room_ok_def with_manager_def members_of_def is_member_def)
qed

lemma oldest_mem: "sort_key rm_JoinedAt (members_of t r) = m # ms \<Longrightarrow> m \<in> set (t_members t) \<and> rm_RoomID m = r"
  using set_sort [of rm_JoinedAt "members_of t r"] by (auto simp: members_of_def)

lemma rooms_left:
  assumes ok: "rooms_ok mx t" and x: "find_room t r = Some x"
  shows "rooms_ok mx (left_db t x u)"
proof -
  let ?t = "without_member t r u"
  have s: "schema_ok ?t" using schema_DeleteRoomMember [OF rooms_okD(1) [OF ok]] by (simp add: q_DeleteRoomMember_def without_member_def)
  note xr = find_room_mem [OF x]
  have len: "length (members_of ?t r') \<le> length (members_of t r')" for r' by (simp add: members_of_without)
  have keep: "room_ok mx ?t y" if "y \<in> set (t_rooms t)" "\<not> (room_ID y = r \<and> room_ManagerID y = Some u)" for y
    using rooms_okD(2) [OF ok that(1)] that(2) len [of "room_ID y"]
    by (auto simp: room_ok_def without_member_def is_member_def)
  have rooms: "t_rooms ?t = t_rooms t" by (simp add: without_member_def)
  consider (stays) "room_ManagerID x \<noteq> Some u" | (empty) "room_ManagerID x = Some u" "sort_key rm_JoinedAt (members_of ?t r) = []"
    | (next_one) m ms where "room_ManagerID x = Some u" "sort_key rm_JoinedAt (members_of ?t r) = m # ms"
    by (cases "sort_key rm_JoinedAt (members_of ?t r)") auto
  then show ?thesis
  proof cases
    case stays
    have "room_ok mx ?t y" if "y \<in> set (t_rooms t)" for y
      using keep [OF that] same_room [OF rooms_okD(1) [OF ok] that] xr stays by auto
    with s rooms stays xr show ?thesis by (simp add: left_db_def Let_def rooms_ok_def)
  next
    case empty
    have "rooms_ok mx (without_room ?t r)" by (rule rooms_without_room [OF s]) (use keep rooms in auto)
    with empty xr show ?thesis by (simp add: left_db_def)
  next
    case (next_one m ms)
    have mm: "is_member ?t r (rm_UserID m)" using oldest_mem [OF next_one(2)] by (auto simp: is_member_def)
    have "rooms_ok mx (with_manager ?t r (rm_UserID m))"
      by (rule rooms_with_manager [OF s mm])
        (use rooms rooms_okD(2) [OF ok] keep mm len [of r] in \<open>fastforce simp: room_ok_def\<close>)
    with next_one xr show ?thesis by (simp add: left_db_def)
  qed
qed

lemma left_db_users [simp]: "t_users (left_db t x u) = t_users t"
  by (simp add: left_db_def Let_def eff_defs split: list.splits)

text \<open>Leaving a room takes exactly one membership away.\<close>

lemma member_effects:
  "is_member (without_member t r u) r' v \<longleftrightarrow> is_member t r' v \<and> \<not> (r' = r \<and> v = u)"
  "is_member (without_room t r) r' v \<longleftrightarrow> is_member t r' v \<and> r' \<noteq> r"
  "is_member (with_manager t r m) r' v \<longleftrightarrow> is_member t r' v"
  by (auto simp: is_member_def eff_defs)

lemma no_members: "sort_key rm_JoinedAt (members_of t r) = [] \<Longrightarrow> \<not> is_member t r v"
  using set_sort [of rm_JoinedAt "members_of t r"] by (auto simp: members_of_def is_member_def)

lemma left_db_members:
  "is_member (left_db t x u) r v \<longleftrightarrow> is_member t r v \<and> \<not> (r = room_ID x \<and> v = u)"
  using no_members [of "without_member t (room_ID x) u" "room_ID x" v]
  by (cases "sort_key rm_JoinedAt (members_of (without_member t (room_ID x) u) (room_ID x))")
    (auto simp: left_db_def Let_def member_effects)

lemma leave_rooms_eff:
  assumes "runs (leave_rooms L rs u acc) w ys w'" "rooms_ok mx (w_db w)"
  shows "rooms_ok mx (w_db w') \<and> ys = acc @ map (lib_String L) rs \<and> t_users (w_db w') = t_users (w_db w) \<and> w_tok w' = w_tok w \<and>
    (\<forall>r v. is_member (w_db w') r v \<longleftrightarrow> is_member (w_db w) r v \<and> \<not> (r \<in> set rs \<and> v = u))"
  using assms
proof (induction rs arbitrary: w acc)
  case Nil
  then show ?case by (auto elim: runs_retE)
next
  case (Cons r rs)
  from Cons.prems(1) obtain y w1 where 1: "runs (leaveRoomTx r u) w y w1" "runs (leave_rooms L rs u (acc @ [lib_String L r])) w1 ys w'"
    by (auto elim: runs_check_failE)
  from 1(1) obtain x where x: "find_room (w_db w) r = Some x" "w_db w1 = left_db (w_db w) x u" "w_tok w1 = w_tok w" by (rule leaveRoomTx_eff)
  have "rooms_ok mx (w_db w1)" using rooms_left [OF Cons.prems(2) x(1)] x(2) by simp
  from Cons.IH [OF 1(2) this] x find_room_mem [OF x(1)] show ?case by (auto simp: left_db_members)
qed

lemma rooms_drop_user:
  assumes ok: "rooms_ok mx t" and none: "\<And>r. \<not> is_member t r u"
  shows "rooms_ok mx (snd (q_DeleteUser u t))" "t_rooms (snd (q_DeleteUser u t)) = t_rooms t" "t_members (snd (q_DeleteUser u t)) = t_members t"
proof -
  have m: "room_ManagerID x \<noteq> Some u" if "x \<in> set (t_rooms t)" for x
    using rooms_okD(2) [OF ok that] none by (auto simp: room_ok_def)
  have r: "map (\<lambda>x. if room_ManagerID x = Some u then x\<lparr>room_ManagerID := None\<rparr> else x) (t_rooms t) = t_rooms t"
    using m by (simp add: map_idI)
  have f: "filter (\<lambda>m. rm_UserID m \<noteq> u) (t_members t) = t_members t"
    using none by (intro filter_eq_all) (force simp: is_member_def)
  show e: "t_rooms (snd (q_DeleteUser u t)) = t_rooms t" "t_members (snd (q_DeleteUser u t)) = t_members t" by (simp_all add: q_DeleteUser_def r f)
  show "rooms_ok mx (snd (q_DeleteUser u t))"
    by (rule rooms_okI [OF schema_DeleteUser [OF rooms_okD(1) [OF ok]]])
      (use rooms_okD(2) [OF ok] e in \<open>simp add: room_ok_def members_of_def is_member_def\<close>)
qed

lemma delete_user_tx_eff:
  assumes run: "runs (delete_user_tx L u) w ys w'" and ok: "rooms_ok mx (w_db w)"
  shows "rooms_ok mx (w_db w')" "\<not> has_user (w_db w') u" "has_user (w_db w) u" "w_tok w' = w_tok w"
    "is_member (w_db w') r v \<longleftrightarrow> is_member (w_db w) r v \<and> v \<noteq> u"
    "set ys = lib_String L ` {r. is_member (w_db w) r u}" "has_user (w_db w') v \<longleftrightarrow> has_user (w_db w) v \<and> v \<noteq> u"
proof -
  let ?rs = "map rm_RoomID (filter (\<lambda>m. rm_UserID m = u \<and> has_room (w_db w) (rm_RoomID m)) (t_members (w_db w)))"
  from run obtain rs w1 w2 ys2 w3 u3 where q: "q_ListJoinedRoomIDsForUpdate u (w_db w) = (Inr rs, w_db w1)" "w_tok w1 = w_tok w"
    and lv: "runs (leave_rooms L rs u []) w1 ys2 w2" and del: "q_DeleteUser u (w_db w2) = (Inr u3, w_db w3)" "w_tok w3 = w_tok w2" "ys = ys2" "w' = w3"
    unfolding delete_user_tx_def
    by (elim runs_check_failE runs_checkE runs_queryE) (auto split: if_splits elim!: runs_retE)
  from q have w1: "rs = ?rs" "w_db w1 = w_db w" by (auto simp: q_ListJoinedRoomIDsForUpdate_def)
  have rs: "r \<in> set rs \<longleftrightarrow> is_member (w_db w) r u" for r
    using rooms_okD(1) [OF ok] by (auto simp: w1 is_member_def schema_ok_def)
  from leave_rooms_eff [OF lv] ok w1 rs have L: "rooms_ok mx (w_db w2)" "ys2 = map (lib_String L) rs" "t_users (w_db w2) = t_users (w_db w)" "w_tok w2 = w_tok w1"
    "is_member (w_db w2) r v \<longleftrightarrow> is_member (w_db w) r v \<and> v \<noteq> u" for r v by auto
  have w3: "w_db w3 = snd (q_DeleteUser u (w_db w2))" using del(1) by simp
  note D = rooms_drop_user [OF L(1), of u, folded w3]
  have un: "\<And>r. \<not> is_member (w_db w2) r u" using L(5) by simp
  from D(1) [OF un] del show "rooms_ok mx (w_db w')" by simp
  from D(3) [OF un] L(5) del show "is_member (w_db w') r v \<longleftrightarrow> is_member (w_db w) r v \<and> v \<noteq> u" by (simp add: is_member_def)
  have users: "has_user (w_db w) u \<and> (has_user (w_db w') v \<longleftrightarrow> has_user (w_db w) v \<and> v \<noteq> u)" for v
    using w3 del L(3) by (auto simp: q_DeleteUser_def has_user_def split: if_splits)
  show "\<not> has_user (w_db w') u" "has_user (w_db w) u" "has_user (w_db w') v \<longleftrightarrow> has_user (w_db w) v \<and> v \<noteq> u"
    using users by auto
  show "w_tok w' = w_tok w" using del q L(4) by simp
  show "set ys = lib_String L ` {r. is_member (w_db w) r u}" using del L(2) rs by auto
qed

section \<open>The handlers\<close>

text \<open>Handlers that only read: no run changes the tables.\<close>

definition keeps_db :: "('w, 'a) act \<Rightarrow> bool" where
  "keeps_db m \<longleftrightarrow> (\<forall>w. w_db (snd (run_state m w)) = w_db w)"

named_theorems keeps_intros \<open>actions that leave the tables alone\<close>

lemma keeps_dbD: "keeps_db m \<Longrightarrow> run_state m w = (r, w') \<Longrightarrow> w_db w' = w_db w"
  by (metis keeps_db_def snd_conv)

lemma keeps_ret [keeps_intros]: "keeps_db (ret x)" and keeps_fail [keeps_intros]: "keeps_db (fail e)"
  by (simp_all add: keeps_db_def ret_def fail_def)

lemma keeps_query [keeps_intros]: "(\<And>t. snd (q t) = t) \<Longrightarrow> keeps_db (query q)"
  by (auto simp: keeps_db_def query_def on_db_def next_outcome_def split: sql_outcome.splits list.splits prod.splits) (metis snd_conv)+

lemma keeps_check [keeps_intros]: "keeps_db m \<Longrightarrow> (\<And>e. keeps_db (h e)) \<Longrightarrow> (\<And>x. keeps_db (k x)) \<Longrightarrow> keeps_db (check m h k)"
  by (auto simp: keeps_db_def check_def split: prod.splits sum.splits) (metis snd_conv)+

lemma keeps_tok [keeps_intros]: "(\<And>x. keeps_db (k x)) \<Longrightarrow> keeps_db (tok_call f \<bind> k)" for k :: "'b \<Rightarrow> ('w, 'a) act"
  by (auto simp: keeps_db_def tok_call_def split: prod.splits)

lemma keeps_tok_check [keeps_intros]: "keeps_db (tok_call f)" for f :: "'w \<Rightarrow> (go_error + 'a) \<times> 'w"
  by (simp add: keeps_db_def tok_call_def split: prod.splits)

lemma keeps_parse_id [keeps_intros]: "(\<And>u. keeps_db (k u)) \<Longrightarrow> keeps_db (parse_id L msg i k)"
  by (simp add: parse_id_def keeps_fail split: sum.splits)

lemma read_stmts [simp]:
  "snd (q_GetMemberJoinedAt r u t) = t" "snd (q_ExistsRoomMember r u t) = t" "snd (q_ListJoinedRooms u t) = t" "snd (q_ListRoomMembers r t) = t"
  "snd (q_SearchRooms f c l n t) = t" "snd (q_GetUserByID u t) = t" "snd (q_GetUserByUsername un t) = t" "snd (q_GetUsersByIDs ids t) = t"
  by (simp_all add: q_GetMemberJoinedAt_def q_ExistsRoomMember_def q_ListJoinedRooms_def q_ListRoomMembers_def q_SearchRooms_def
      q_GetUserByID_def q_GetUserByUsername_def q_GetUsersByIDs_def Let_def split: list.splits option.splits)

lemma issueTokenPair_keeps [keeps_intros]: "keeps_db (issueTokenPair s L now tok u un)"
  by (auto simp: issueTokenPair_def intro!: keeps_intros split: sum.splits option.splits)

lemma rotate_token_keeps [keeps_intros]: "keeps_db (rotate_token s v old new acc)"
  by (auto simp: rotate_token_def intro!: keeps_intros split: RefreshTokenRotationStatus.splits)

lemma reads_keep:
  "keeps_db (VerifyUser s L now tok un pw)" "keeps_db (RefreshToken s L now tok old)" "keeps_db (RevokeToken s old)" "keeps_db (BatchGetUsers L ids)"
  "keeps_db (GetMemberJoinedAt L rid uid)" "keeps_db (VerifyRoomMember L rid uid)" "keeps_db (ListJoinedRooms L uid)"
  "keeps_db (ListRoomMembers L rid)" "keeps_db (SearchRooms s L q limit offset)"
  by (auto simp: VerifyUser_def RefreshToken_def RevokeToken_def BatchGetUsers_def GetMemberJoinedAt_def VerifyRoomMember_def
      ListJoinedRooms_def ListRoomMembers_def SearchRooms_def Let_def intro!: keeps_intros
      split: option.splits sum.splits RefreshTokenValidationStatus.splits prod.splits list.splits)

text \<open>Handlers that write: a predicate of the tables that every run keeps.\<close>

definition preserves :: "(tables \<Rightarrow> bool) \<Rightarrow> ('w, 'a) act \<Rightarrow> bool" where
  "preserves P m \<longleftrightarrow> (\<forall>w. P (w_db w) \<longrightarrow> P (w_db (snd (run_state m w))))"

named_theorems preserves_intros \<open>how a predicate of the tables is kept\<close>

lemma preservesD: "preserves P m \<Longrightarrow> run_state m w = (r, w') \<Longrightarrow> P (w_db w) \<Longrightarrow> P (w_db w')"
  by (metis preserves_def snd_conv)

lemma preserves_keeps: "keeps_db m \<Longrightarrow> preserves P m"
  by (simp add: keeps_db_def preserves_def)

lemma preserves_fail [preserves_intros]: "preserves P (fail e)" and preserves_ret [preserves_intros]: "preserves P (ret x)"
  by (simp_all add: preserves_keeps keeps_fail keeps_ret)

lemma preserves_check [preserves_intros]:
  "preserves P m \<Longrightarrow> (\<And>e. preserves P (h e)) \<Longrightarrow> (\<And>x. preserves P (k x)) \<Longrightarrow> preserves P (check m h k)"
  by (auto simp: preserves_def check_def split: prod.splits sum.splits)

lemma preserves_query [preserves_intros]: "(\<And>t. P t \<Longrightarrow> P (snd (q t))) \<Longrightarrow> preserves P (query q)"
  by (auto simp: preserves_def query_def on_db_def next_outcome_def split: sql_outcome.splits list.splits prod.splits) (metis snd_conv)+

lemma preserves_tok [preserves_intros]: "(\<And>x. preserves P (k x)) \<Longrightarrow> preserves P (tok_call f \<bind> k)" for k :: "'b \<Rightarrow> ('w, 'a) act"
  by (auto simp: preserves_def tok_call_def split: prod.splits)

lemma preserves_inTx:
  fixes fn :: "('b, 'a) act"
  assumes "\<And>w x w'. runs fn w x w' \<Longrightarrow> P (w_db w) \<Longrightarrow> P (w_db w')"
  shows "preserves P (runInTx fn)"
  unfolding preserves_def
proof (intro allI impI)
  fix w :: "'b world" assume "P (w_db w)"
  then show "P (w_db (snd (run_state (runInTx fn) w)))"
    by (cases rule: runInTx_cases [of fn w, OF surjective_pairing]) (use assms in auto)
qed

lemma preserves_parse_id [preserves_intros]: "(\<And>u. preserves P (k u)) \<Longrightarrow> preserves P (parse_id L msg i k)"
  by (simp add: parse_id_def preserves_fail split: sum.splits)

lemma preserves_guard: "(v = None \<Longrightarrow> preserves P k) \<Longrightarrow> preserves P (guard_ok v k)"
  by (simp add: guard_ok_def preserves_fail split: option.splits)

lemma validCapacity: "validateCapacity c mx = None \<longleftrightarrow> 0 < c \<and> c \<le> mx"
  by (auto simp: validateCapacity_def)

lemma CreateUser_ok: "preserves (rooms_ok mx) (CreateUser s L newID un pw)"
proof -
  have "rooms_ok mx (snd (q_CreateUser x t))" if "rooms_ok mx t" for x t
    by (rule rooms_okI [OF schema_CreateUser [OF rooms_okD(1) [OF that]]])
      (use rooms_okD(2) [OF that] in \<open>auto simp: q_CreateUser_def room_ok_def members_of_def is_member_def split: if_splits\<close>)
  then show ?thesis
    by (auto simp: CreateUser_def intro!: preserves_guard preserves_intros split: sum.splits)
qed

lemma CreateRoom_ok: "preserves (rooms_ok (MaxCapacity (svc_config s))) (CreateRoom s L newID name mid cap)"
  by (auto simp: CreateRoom_def validCapacity create_room_tx_eff intro!: preserves_guard preserves_intros preserves_inTx rooms_new_room
      split: sum.splits)

lemma JoinRoom_ok: "mx < 2 ^ 31 \<Longrightarrow> preserves (rooms_ok mx) (JoinRoom L now uid rid)"
  by (auto simp: JoinRoom_def intro!: preserves_guard preserves_intros preserves_inTx split: option.splits)
    (auto elim!: join_tx_eff simp: count_int32 intro!: rooms_with_member)

lemma UpdateRoom_ok:
  assumes "MaxCapacity (svc_config s) < 2 ^ 31"
  shows "preserves (rooms_ok (MaxCapacity (svc_config s))) (UpdateRoom s L rid qid name cap)"
  using assms by (auto simp: UpdateRoom_def validCapacity intro!: preserves_guard preserves_intros preserves_inTx)
    (auto elim!: update_room_tx_eff simp: count_int32 intro!: rooms_update)

lemma LeaveRoom_ok: "preserves (rooms_ok mx) (LeaveRoom L rid uid)"
  by (auto simp: LeaveRoom_def intro!: preserves_intros preserves_inTx) (auto elim!: leaveRoomTx_eff intro!: rooms_left)

lemma DeleteRoom_ok: "preserves (rooms_ok mx) (DeleteRoom L rid qid)"
  by (auto simp: DeleteRoom_def intro!: preserves_intros preserves_inTx)
    (auto elim!: delete_room_tx_eff intro!: rooms_without_room dest: rooms_okD)

lemma DeleteUser_ok: "preserves (rooms_ok mx) (DeleteUser s L uid pw)"
  by (auto simp: DeleteUser_def intro!: preserves_intros preserves_inTx split: option.splits) (rule delete_user_tx_eff)

text \<open>
  The life of the service: requests of any kind, each with the outcomes its statements happen to
  have, and in between whatever the token store, the outcomes and the order of rows become.
\<close>

inductive user_step :: "UserConfig \<Rightarrow> 'w world \<Rightarrow> 'w world \<Rightarrow> bool" for cfg where
  us_CreateUser: "svc_config s = cfg \<Longrightarrow> run_state (CreateUser s L newID un pw) w = (r, w') \<Longrightarrow> user_step cfg w w'"
| us_VerifyUser: "svc_config s = cfg \<Longrightarrow> run_state (VerifyUser s L now tok un pw) w = (r, w') \<Longrightarrow> user_step cfg w w'"
| us_RefreshToken: "svc_config s = cfg \<Longrightarrow> run_state (RefreshToken s L now tok old) w = (r, w') \<Longrightarrow> user_step cfg w w'"
| us_RevokeToken: "svc_config s = cfg \<Longrightarrow> run_state (RevokeToken s tok) w = (r, w') \<Longrightarrow> user_step cfg w w'"
| us_BatchGetUsers: "run_state (BatchGetUsers L ids) w = (r, w') \<Longrightarrow> user_step cfg w w'"
| us_CreateRoom: "svc_config s = cfg \<Longrightarrow> run_state (CreateRoom s L newID name mid cap) w = (r, w') \<Longrightarrow> user_step cfg w w'"
| us_GetMemberJoinedAt: "run_state (GetMemberJoinedAt L rid uid) w = (r, w') \<Longrightarrow> user_step cfg w w'"
| us_VerifyRoomMember: "run_state (VerifyRoomMember L rid uid) w = (r, w') \<Longrightarrow> user_step cfg w w'"
| us_ListJoinedRooms: "run_state (ListJoinedRooms L uid) w = (r, w') \<Longrightarrow> user_step cfg w w'"
| us_ListRoomMembers: "run_state (ListRoomMembers L rid) w = (r, w') \<Longrightarrow> user_step cfg w w'"
| us_JoinRoom: "run_state (JoinRoom L now uid rid) w = (r, w') \<Longrightarrow> user_step cfg w w'"
| us_SearchRooms: "svc_config s = cfg \<Longrightarrow> run_state (SearchRooms s L q limit offset) w = (r, w') \<Longrightarrow> user_step cfg w w'"
| us_UpdateRoom: "svc_config s = cfg \<Longrightarrow> run_state (UpdateRoom s L rid qid name cap) w = (r, w') \<Longrightarrow> user_step cfg w w'"
| us_LeaveRoom: "run_state (LeaveRoom L rid uid) w = (r, w') \<Longrightarrow> user_step cfg w w'"
| us_DeleteUser: "svc_config s = cfg \<Longrightarrow> run_state (DeleteUser s L uid pw) w = (r, w') \<Longrightarrow> user_step cfg w w'"
| us_DeleteRoom: "run_state (DeleteRoom L rid qid) w = (r, w') \<Longrightarrow> user_step cfg w w'"
| us_world: "mset (t_users (w_db w')) = mset (t_users (w_db w)) \<Longrightarrow> mset (t_rooms (w_db w')) = mset (t_rooms (w_db w)) \<Longrightarrow>
    mset (t_members (w_db w')) = mset (t_members (w_db w)) \<Longrightarrow> user_step cfg w w'"

definition user_reach :: "UserConfig \<Rightarrow> 'w world \<Rightarrow> bool" where
  "user_reach cfg w \<longleftrightarrow> (\<exists>w0. w_db w0 = no_tables \<and> (user_step cfg)\<^sup>*\<^sup>* w0 w)"

lemma rooms_ok_perm:
  assumes "rooms_ok mx t" "mset (t_users t') = mset (t_users t)" "mset (t_rooms t') = mset (t_rooms t)" "mset (t_members t') = mset (t_members t)"
  shows "rooms_ok mx t'"
proof -
  have s: "set (t_users t') = set (t_users t)" "set (t_rooms t') = set (t_rooms t)" "set (t_members t') = set (t_members t)"
    using assms(2-4) by (metis set_mset_mset)+
  have d: "distinct (map f xs) = distinct (map f ys)" if "mset xs = mset ys" for f :: "'a \<Rightarrow> 'b" and xs ys
    by (metis that mset_map mset_eq_imp_distinct_iff)
  have l: "length (members_of t' r) = length (members_of t r)" for r
    using assms(4) by (metis members_of_def mset_filter size_mset)
  show ?thesis
    using assms(1) by (simp add: rooms_ok_def schema_ok_def room_ok_def has_user_def has_room_def is_member_def s l d [OF assms(2)] d [OF assms(3)] d [OF assms(4)])
qed

lemma user_step_ok:
  assumes "user_step cfg w w'" "MaxCapacity cfg < 2 ^ 31" "rooms_ok (MaxCapacity cfg) (w_db w)"
  shows "rooms_ok (MaxCapacity cfg) (w_db w')"
  using assms(1,3)
  by cases (use assms(2) in \<open>auto dest!: preservesD [OF CreateUser_ok] preservesD [OF CreateRoom_ok] preservesD [OF JoinRoom_ok [OF assms(2)]]
      preservesD [OF UpdateRoom_ok, rotated] preservesD [OF LeaveRoom_ok] preservesD [OF DeleteRoom_ok] preservesD [OF DeleteUser_ok] reads_keep [THEN keeps_dbD] intro: rooms_ok_perm\<close>)

lemma user_reach_ok:
  assumes "user_reach cfg w" "MaxCapacity cfg < 2 ^ 31"
  shows "rooms_ok (MaxCapacity cfg) (w_db w)"
proof -
  from assms(1) obtain w0 where "w_db w0 = no_tables" "(user_step cfg)\<^sup>*\<^sup>* w0 w" by (auto simp: user_reach_def)
  from this(2,1) show ?thesis
    by (induction rule: rtranclp_induct) (use assms(2) user_step_ok in \<open>auto\<close>)
qed

section \<open>An example\<close>

definition ex_cfg :: UserConfig where
  "ex_cfg = \<lparr>MinUsernameLength = 2, MaxUsernameLength = 10, MinPasswordLength = 8, MaxPasswordLength = 16, AccessTokenExpirationMinutes = 15,
     RefreshTokenExpirationDays = 7, MaxCapacity = 1000, MaxNameLength = 30, Search_DefaultLimit = 20, Search_MaxLimit = 100\<rparr>"

definition ex_lib :: lib where
  "ex_lib = \<lparr>lib_Parse = (\<lambda>s. if s = [] then None else Some s), lib_String = (\<lambda>u. u),
     lib_SignedString = (\<lambda>c k. Inr (clm_Subject c)), lib_ilike = (\<lambda>n p. True)\<rparr>"

definition ex_svc :: "mem_redis tok_world Service" where
  "ex_svc = WithRefreshTokenStore (NewService ex_cfg ''key'' Inr (\<lambda>h p. if h = p then None else Some ErrMismatchedHashAndPassword))
     (Some (NewRedisRefreshTokenStore (\<lambda>t. t) mem_api True))"

definition ex_tok :: "mem_redis tok_world" where
  "ex_tok = \<lparr>tw_redis = \<lparr>mem_clock = 5, mem_keys = Map.empty\<rparr>, tw_calls = (\<lambda>n. (\<lambda>s. s, Reply, 5000000)), tw_n = 0\<rparr>"

definition ex_user :: "string \<Rightarrow> string \<Rightarrow> User" where
  "ex_user i n = \<lparr>usr_ID = i, usr_Username = n, usr_PasswordHash = ''Passw0rd!'', usr_CreatedAt = 1\<rparr>"

definition ex_room :: "string \<Rightarrow> Room" where
  "ex_room m = \<lparr>room_ID = ''r1'', room_Name = ''go'', room_ManagerID = Some m, room_Capacity = 2, room_CreatedAt = 2\<rparr>"

definition ex_member :: "string \<Rightarrow> int \<Rightarrow> RoomMember" where
  "ex_member u at = \<lparr>rm_UserID = u, rm_RoomID = ''r1'', rm_JoinedAt = at\<rparr>"

definition ex_world :: "User list \<Rightarrow> Room list \<Rightarrow> RoomMember list \<Rightarrow> mem_redis tok_world world" where
  "ex_world us rs ms = \<lparr>w_db = \<lparr>t_users = us, t_rooms = rs, t_members = ms\<rparr>, w_sql = [], w_tok = ex_tok\<rparr>"

lemmas ex_defs = ex_cfg_def ex_lib_def ex_svc_def ex_tok_def ex_user_def ex_room_def ex_member_def ex_world_def NewService_def
  WithRefreshTokenStore_def

lemmas act_defs = runInTx_def check_def query_def next_outcome_def on_db_def ret_def fail_def parse_id_def toPGUUID_def guard_ok_def
  locked_room_def tok_call_def rollback_to_def

lemma ex_valid:
  "validateUsername ''alice'' ex_cfg = None" "validateUsername ''bob'' ex_cfg = None" "validatePassword ''Passw0rd!'' ex_cfg = None"
  "validateRoomName ''go'' 30 = None"
  by code_simp+

definition ex_w1 :: "mem_redis tok_world world" where
  "ex_w1 = ex_world [ex_user ''u1'' ''alice'', ex_user ''u2'' ''bob''] [] []"
definition ex_w2 :: "mem_redis tok_world world" where
  "ex_w2 = ex_world [ex_user ''u1'' ''alice'', ex_user ''u2'' ''bob''] [ex_room ''u1''] [ex_member ''u1'' 2]"
definition ex_w3 :: "mem_redis tok_world world" where
  "ex_w3 = ex_world [ex_user ''u1'' ''alice'', ex_user ''u2'' ''bob''] [ex_room ''u1''] [ex_member ''u1'' 2, ex_member ''u2'' 3]"

lemma ex_run_user:
  "run_state (CreateUser ex_svc ex_lib (Inr (''u1'', 1)) ''alice'' ''Passw0rd!'') (ex_world [] [] []) = (Inr ''u1'', ex_world [ex_user ''u1'' ''alice''] [] [])"
  "run_state (CreateUser ex_svc ex_lib (Inr (''u2'', 1)) ''bob'' ''Passw0rd!'') (ex_world [ex_user ''u1'' ''alice''] [] []) = (Inr ''u2'', ex_w1)"
  using ex_valid by (simp_all add: CreateUser_def ex_w1_def ex_defs act_defs q_CreateUser_def has_user_def)

lemma ex_run_room: "run_state (CreateRoom ex_svc ex_lib (Inr (''r1'', 2)) ''go'' ''u1'' 2) ex_w1 = (Inr ''r1'', ex_w2)"
  using ex_valid by (simp add: CreateRoom_def create_room_tx_def ex_w1_def ex_w2_def ex_defs act_defs q_CreateRoom_def q_CreateRoomMember_def row_defs
      validateCapacity_def)

lemma ex_run_join: "run_state (JoinRoom ex_lib 3 ''u2'' ''r1'') ex_w2 = (Inr (), ex_w3)"
  by (simp add: JoinRoom_def join_tx_def ex_w2_def ex_w3_def ex_defs act_defs q_GetRoomForUpdate_def find_room_def q_ExistsRoomMember_def
      q_GetRoomMemberCount_def q_CreateRoomMember_def row_defs int32_of_def)

lemma ex_config [simp]: "svc_config ex_svc = ex_cfg" "MaxCapacity ex_cfg = 1000"
  by (simp_all add: ex_defs)

lemma ex_reach: "user_reach ex_cfg ex_w1" "user_reach ex_cfg ex_w2" "user_reach ex_cfg ex_w3"
proof -
  have 0: "w_db (ex_world [] [] []) = no_tables" by (simp add: ex_world_def no_tables_def)
  have "(user_step ex_cfg)\<^sup>*\<^sup>* (ex_world [] [] []) ex_w1"
    by (rule rtranclp_trans [OF r_into_rtranclp r_into_rtranclp])
      (rule user_step.us_CreateUser [OF ex_config(1) ex_run_user(1)], rule user_step.us_CreateUser [OF ex_config(1) ex_run_user(2)])
  moreover then have "(user_step ex_cfg)\<^sup>*\<^sup>* (ex_world [] [] []) ex_w2"
    by (rule rtranclp.rtrancl_into_rtrancl) (rule user_step.us_CreateRoom [OF ex_config(1) ex_run_room])
  moreover then have "(user_step ex_cfg)\<^sup>*\<^sup>* (ex_world [] [] []) ex_w3"
    by (rule rtranclp.rtrancl_into_rtrancl) (rule user_step.us_JoinRoom [OF ex_run_join])
  ultimately show "user_reach ex_cfg ex_w1" "user_reach ex_cfg ex_w2" "user_reach ex_cfg ex_w3" using 0 by (auto simp: user_reach_def)
qed

section \<open>What holds of every room\<close>

text \<open>C8: In every state that any sequence of requests can lead to, with any outcomes of the SQL
  statements (failures and lost replies included), each room has a capacity between 1 and the
  configured maximum, and no more members than that, each of them once.\<close>

theorem room_capacity_respected:
  assumes "user_reach cfg w" "MaxCapacity cfg < 2 ^ 31" "x \<in> set (t_rooms (w_db w))"
  shows "0 < room_Capacity x \<and> room_Capacity x \<le> MaxCapacity cfg \<and>
    int (length (members_of (w_db w) (room_ID x))) \<le> room_Capacity x \<and> distinct (map rm_UserID (members_of (w_db w) (room_ID x)))"
proof -
  note ok = user_reach_ok [OF assms(1,2)]
  have "inj_on (\<lambda>m. (rm_RoomID m, rm_UserID m)) (set (t_members (w_db w)))" "distinct (t_members (w_db w))"
    using rooms_okD(1) [OF ok] by (auto simp: schema_ok_def distinct_map)
  then have "distinct (map rm_UserID (members_of (w_db w) (room_ID x)))"
    by (auto simp: members_of_def distinct_map inj_on_def)
  with rooms_okD(2) [OF ok assms(3)] show ?thesis by (simp add: room_ok_def)
qed

theorem room_capacity_respected_witness:
  "int (length (members_of (w_db ex_w3) ''r1'')) \<le> 2 \<and> ex_room ''u1'' \<in> set (t_rooms (w_db ex_w3))"
  using room_capacity_respected [OF ex_reach(3), of "ex_room ''u1''"] by (simp add: ex_w3_def ex_defs)



section \<open>Leaving and deleting\<close>

text \<open>The row of a room after somebody left it.\<close>

lemma find_map_upd:
  "(\<And>x. room_ID (f x) = room_ID x) \<Longrightarrow>
    find (\<lambda>x. room_ID x = r) (map (\<lambda>x. if room_ID x = r then f x else x) xs) = map_option f (find (\<lambda>x. room_ID x = r) xs)"
  by (induction xs) auto

lemma find_mem: "find P xs = Some x \<Longrightarrow> x \<in> set xs \<and> P x"
  by (auto simp: find_Some_iff)

lemma members_of_member: "m \<in> set (members_of t r) \<Longrightarrow> is_member t r (rm_UserID m)"
  by (auto simp: members_of_def is_member_def)

lemma left_db_room:
  assumes x: "find_room t r = Some x"
  shows "room_ManagerID x \<noteq> Some u \<Longrightarrow> find_room (left_db t x u) r = Some x"
    "room_ManagerID x = Some u \<Longrightarrow> (\<And>v. is_member t r v \<Longrightarrow> v = u) \<Longrightarrow> \<not> has_room (left_db t x u) r"
    "room_ManagerID x = Some u \<Longrightarrow> is_member t r v \<Longrightarrow> v \<noteq> u \<Longrightarrow> \<exists>m\<in>set (members_of t r). rm_UserID m \<noteq> u \<and>
       (\<forall>m'\<in>set (members_of t r). rm_UserID m' \<noteq> u \<longrightarrow> rm_JoinedAt m \<le> rm_JoinedAt m') \<and>
       find_room (left_db t x u) r = Some (x\<lparr>room_ManagerID := Some (rm_UserID m)\<rparr>)"
proof -
  let ?t = "without_member t r u"
  have rid: "room_ID x = r" using find_room_mem [OF x] by simp
  have f: "find_room ?t r = Some x" using x by (simp add: find_room_def without_member_def)
  show "room_ManagerID x \<noteq> Some u \<Longrightarrow> find_room (left_db t x u) r = Some x" using f by (simp add: left_db_def rid)
  { assume u: "room_ManagerID x = Some u" and only: "\<And>v. is_member t r v \<Longrightarrow> v = u"
    have "members_of ?t r = []" using only members_of_member by (simp add: members_of_without filter_empty_conv)
    then show "\<not> has_room (left_db t x u) r" using u by (auto simp: left_db_def Let_def rid has_room_def without_room_def) }
  assume u: "room_ManagerID x = Some u" and v: "is_member t r v" "v \<noteq> u"
  have "is_member ?t r v" using v by (simp add: member_effects)
  then obtain m ms where s: "sort_key rm_JoinedAt (members_of ?t r) = m # ms"
    using no_members [of ?t r v] by (cases "sort_key rm_JoinedAt (members_of ?t r)") auto
  have e: "find_room (left_db t x u) r = Some (x\<lparr>room_ManagerID := Some (rm_UserID m)\<rparr>)"
    using u s f find_map_upd [of "\<lambda>y. y\<lparr>room_ManagerID := Some (rm_UserID m)\<rparr>" r "t_rooms ?t"] by (simp add: left_db_def Let_def rid with_manager_def find_room_def)
  have set: "set (m # ms) = set (members_of ?t r)" and sorted: "sorted (map rm_JoinedAt (m # ms))" by (metis s set_sort, metis s sorted_sort_key)
  have sub: "m' \<in> set (members_of ?t r) \<longleftrightarrow> m' \<in> set (members_of t r) \<and> rm_UserID m' \<noteq> u" for m' by (auto simp: members_of_without)
  have "m \<in> set (members_of t r)" "rm_UserID m \<noteq> u" using sub set by auto
  moreover have "\<forall>m'\<in>set (members_of t r). rm_UserID m' \<noteq> u \<longrightarrow> rm_JoinedAt m \<le> rm_JoinedAt m'"
  proof (intro ballI impI)
    fix m' assume "m' \<in> set (members_of t r)" "rm_UserID m' \<noteq> u"
    with sub set have "m' \<in> set (m # ms)" by blast
    with sorted show "rm_JoinedAt m \<le> rm_JoinedAt m'" by auto
  qed
  ultimately show "\<exists>m\<in>set (members_of t r). rm_UserID m \<noteq> u \<and>
       (\<forall>m'\<in>set (members_of t r). rm_UserID m' \<noteq> u \<longrightarrow> rm_JoinedAt m \<le> rm_JoinedAt m') \<and>
       find_room (left_db t x u) r = Some (x\<lparr>room_ManagerID := Some (rm_UserID m)\<rparr>)"
    using e by blast
qed

text \<open>C31: Leaving a room takes exactly that membership away. If the manager leaves, the room passes to the
  member who joined first among those who stay, or is deleted when nobody stays; otherwise the
  room's row does not change.\<close>

theorem leave_room_hands_over:
  fixes w w' :: "'w world"
  assumes parse: "lib_Parse L rid = Some r" "lib_Parse L uid = Some u" and run: "run_state (LeaveRoom L rid uid) w = (Inr (), w')"
  shows "(\<forall>r' v. is_member (w_db w') r' v \<longleftrightarrow> is_member (w_db w) r' v \<and> \<not> (r' = r \<and> v = u)) \<and>
    (\<exists>x. find_room (w_db w) r = Some x \<and>
      (if room_ManagerID x \<noteq> Some u then find_room (w_db w') r = Some x
       else if \<forall>v. is_member (w_db w) r v \<longrightarrow> v = u then \<not> has_room (w_db w') r
       else \<exists>m\<in>set (members_of (w_db w) r). rm_UserID m \<noteq> u \<and>
         (\<forall>m'\<in>set (members_of (w_db w) r). rm_UserID m' \<noteq> u \<longrightarrow> rm_JoinedAt m \<le> rm_JoinedAt m') \<and>
         find_room (w_db w') r = Some (x\<lparr>room_ManagerID := Some (rm_UserID m)\<rparr>)))"
proof -
  from run parse have "runs (runInTx (leaveRoomTx r u)) w () w'" by (simp add: LeaveRoom_def parse_id_def toPGUUID_def runs_def)
  then obtain w0 w1 :: "'w world" where "w_db w0 = w_db w" "runs (leaveRoomTx r u) w0 () w1" "w_db w' = w_db w1"
    by (elim runs_inTxE) blast
  then obtain x where x: "find_room (w_db w) r = Some x" "w_db w' = left_db (w_db w) x u" by (metis leaveRoomTx_eff)
  from left_db_room [OF x(1)] find_room_mem [OF x(1)] x show ?thesis by (auto simp: left_db_members)
qed

theorem leave_room_hands_over_witness:
  "find_room (w_db (snd (run_state (LeaveRoom ex_lib ''r1'' ''u1'') ex_w3))) ''r1'' = Some (ex_room ''u2'')"
proof -
  let ?run = "run_state (LeaveRoom ex_lib ''r1'' ''u1'') ex_w3"
  have ok: "fst ?run = Inr ()"
    by (simp add: LeaveRoom_def leaveRoomTx_def hand_over_room_def ex_w3_def ex_defs act_defs q_GetRoomForUpdate_def find_room_def q_DeleteRoomMember_def
        q_GetOldestRoomMember_def q_UpdateRoomManager_def row_defs)
  have f: "find_room (w_db ex_w3) ''r1'' = Some (ex_room ''u1'')" by (simp add: ex_w3_def ex_defs find_room_def)
  have m: "members_of (w_db ex_w3) ''r1'' = [ex_member ''u1'' 2, ex_member ''u2'' 3]" "is_member (w_db ex_w3) ''r1'' ''u2''"
    by (simp_all add: ex_w3_def ex_defs row_defs)
  have "run_state (LeaveRoom ex_lib ''r1'' ''u1'') ex_w3 = (Inr (), snd ?run)" using ok by (metis prod.collapse)
  from leave_room_hands_over [OF _ _ this, of "''r1''" "''u1''"] f m
  have "room_ManagerID (ex_room ''u1'') = Some ''u1'' \<and> find_room (w_db (snd ?run)) ''r1'' = Some ((ex_room ''u1'')\<lparr>room_ManagerID := Some ''u2''\<rparr>)"
    using m(1) unfolding ex_lib_def by (auto simp: ex_room_def ex_member_def split: if_splits)
  then show ?thesis by (simp add: ex_room_def)
qed

text \<open>C30: A successful \<^verbatim>\<open>DeleteUser\<close> erases the account: the user, whose password was checked, had its
  refresh tokens revoked first and is gone afterwards; it is in no room and manages none; every
  membership of every other user is as before, nobody else's account is touched, and the answer
  names exactly the rooms the user was in.\<close>

theorem delete_user_erases:
  assumes reach: "user_reach (svc_config s) w" "MaxCapacity (svc_config s) < 2 ^ 31" and parse: "lib_Parse L uid = Some u"
    and run: "run_state (DeleteUser s L uid pw) w = (Inr left, w')"
  shows "(\<exists>x\<in>set (t_users (w_db w)). usr_ID x = u \<and> svc_ComparePassword s (usr_PasswordHash x) pw = None) \<and>
    rts_RevokeUser (svc_tokens s) (lib_String L u) (w_tok w) = (None, w_tok w') \<and>
    (\<forall>v. has_user (w_db w') v \<longleftrightarrow> has_user (w_db w) v \<and> v \<noteq> u) \<and>
    (\<forall>r v. is_member (w_db w') r v \<longleftrightarrow> is_member (w_db w) r v \<and> v \<noteq> u) \<and>
    (\<forall>x\<in>set (t_rooms (w_db w')). room_ManagerID x \<noteq> Some u) \<and>
    set left = lib_String L ` {r. is_member (w_db w) r u}"
proof -
  note ok = user_reach_ok [OF reach]
  from run parse obtain x w1 where x: "x \<in> set (t_users (w_db w))" "usr_ID x = u" "svc_ComparePassword s (usr_PasswordHash x) pw = None"
    and rv: "rts_RevokeUser (svc_tokens s) (lib_String L u) (w_tok w) = (None, w_tok w1)"
    and tx: "runs (runInTx (delete_user_tx L u)) w1 left w'" "w_db w1 = w_db w"
    unfolding runs_def [symmetric] DeleteUser_def parse_id_def toPGUUID_def
    by (auto elim!: runs_checkE runs_queryE runs_tokE simp: q_GetUserByID_def dest!: find_mem split: option.splits if_splits)
  from tx(1) obtain w2 w3 where w2: "w_db w2 = w_db w1" "w_tok w2 = w_tok w1" "w_db w' = w_db w3" "w_tok w' = w_tok w3" and run3: "runs (delete_user_tx L u) w2 left w3" by (rule runs_inTxE)
  note E = delete_user_tx_eff [OF run3, where mx = "MaxCapacity (svc_config s)", unfolded w2 tx(2), OF ok, folded w2]
  have "room_ManagerID y \<noteq> Some u" if "y \<in> set (t_rooms (w_db w'))" for y
    using rooms_okD(2) [OF E(1) that] E(5) by (auto simp: room_ok_def)
  with x rv E w2 show ?thesis by auto
qed

theorem delete_user_erases_witness:
  "\<not> has_user (w_db (snd (run_state (DeleteUser ex_svc ex_lib ''u1'' ''Passw0rd!'') ex_w3))) ''u1'' \<and>
    fst (run_state (DeleteUser ex_svc ex_lib ''u1'' ''Passw0rd!'') ex_w3) = Inr [''r1'']"
proof -
  let ?run = "run_state (DeleteUser ex_svc ex_lib ''u1'' ''Passw0rd!'') ex_w3"
  have ok: "fst ?run = Inr [''r1'']"
    by (simp add: DeleteUser_def delete_user_tx_def leaveRoomTx_def hand_over_room_def ex_w3_def ex_defs act_defs NewRedisRefreshTokenStore_def
        on_redis_def rt_RevokeUser_def validateClient_def q_GetUserByID_def q_ListJoinedRoomIDsForUpdate_def q_GetRoomForUpdate_def find_room_def
        q_DeleteRoomMember_def q_GetOldestRoomMember_def q_UpdateRoomManager_def q_DeleteUser_def row_defs split: prod.splits)
  then have "run_state (DeleteUser ex_svc ex_lib ''u1'' ''Passw0rd!'') ex_w3 = (Inr [''r1''], snd ?run)" by (metis prod.collapse)
  from delete_user_erases [OF _ _ _ this] ex_reach(3) ok show ?thesis by (simp add: ex_lib_def)
qed

section \<open>Joining\<close>

text \<open>What \<^verbatim>\<open>JoinRoom\<close> answers and does when the database answers, on every branch: an unknown room is
  \<^verbatim>\<open>NotFound\<close>, joining again succeeds without effect, a full room is \<^verbatim>\<open>FailedPrecondition\<close>, an unknown
  user is an internal error, and otherwise the user is added with the time of the request. The
  conversion of the member count to 32 bits never matters.\<close>

theorem join_room_outcome:
  assumes "user_reach cfg w" "MaxCapacity cfg < 2 ^ 31" "w_sql w = []" "lib_Parse L uid = Some u" "lib_Parse L rid = Some r"
  shows "run_state (JoinRoom L now uid rid) w = (case find_room (w_db w) r of
      None \<Rightarrow> (Inl (StatusErr NotFound ''room not found''), w)
    | Some x \<Rightarrow>
        if is_member (w_db w) r u then (Inr (), w)
        else if room_Capacity x \<le> int (length (members_of (w_db w) r)) then (Inl (StatusErr FailedPrecondition ''room is full''), w)
        else if \<not> has_user (w_db w) u then (Inl (StatusErr Internal ''failed to join room''), w)
        else (Inr (), w\<lparr>w_db := (w_db w)\<lparr>t_members := t_members (w_db w) @ [\<lparr>rm_UserID = u, rm_RoomID = r, rm_JoinedAt = now\<rparr>]\<rparr>\<rparr>))"
proof (cases "find_room (w_db w) r")
  case None
  with assms show ?thesis by (simp add: JoinRoom_def join_tx_def act_defs q_GetRoomForUpdate_def)
next
  case (Some x)
  have "has_room (w_db w) r" using Some find_room_None [of "w_db w" r] by auto
  with assms(3-5) Some count_int32 [OF user_reach_ok [OF assms(1,2)] Some assms(2)] show ?thesis
    by (simp add: JoinRoom_def join_tx_def act_defs q_GetRoomForUpdate_def q_ExistsRoomMember_def q_GetRoomMemberCount_def q_CreateRoomMember_def
        fk_violation_def)
qed

theorem join_room_outcome_witness:
  "run_state (JoinRoom ex_lib 9 ''u3'' ''r1'') ex_w3 = (Inl (StatusErr FailedPrecondition ''room is full''), ex_w3)"
proof -
  have 1: "w_sql ex_w3 = []" "lib_Parse ex_lib ''u3'' = Some ''u3''" "lib_Parse ex_lib ''r1'' = Some ''r1''" by (simp_all add: ex_w3_def ex_defs)
  have "find_room (w_db ex_w3) ''r1'' = Some (ex_room ''u1'')" "room_Capacity (ex_room ''u1'') = 2" "\<not> is_member (w_db ex_w3) ''r1'' ''u3''"
    "length (members_of (w_db ex_w3) ''r1'') = 2" by (simp_all add: ex_w3_def ex_defs find_room_def row_defs)
  with join_room_outcome [OF ex_reach(3) _ 1] show ?thesis by simp
qed

section \<open>Failed requests\<close>

text \<open>Actions that use up outcomes and invent none, and actions that fail without effect unless a reply is lost.\<close>

definition draws :: "('w, 'a) act \<Rightarrow> bool" where
  "draws m \<longleftrightarrow> (\<forall>w. set (w_sql (snd (run_state m w))) \<subseteq> set (w_sql w))"

definition atomic :: "('w, 'a) act \<Rightarrow> bool" where
  "atomic m \<longleftrightarrow> (\<forall>w e w'. run_state m w = (Inl e, w') \<longrightarrow> (\<forall>n. SqlLost n \<notin> set (w_sql w)) \<longrightarrow> w_db w' = w_db w)"

named_theorems draws_intros \<open>actions that use up outcomes\<close>
named_theorems atomic_intros \<open>actions that fail without effect\<close>

lemma draws_basic [draws_intros]: "draws (ret x)" "draws (fail e)" "draws (query q)"
  by (auto simp: draws_def ret_def fail_def query_def on_db_def next_outcome_def split: list.splits sql_outcome.splits prod.splits)

lemma draws_check [draws_intros]: "draws m \<Longrightarrow> (\<And>e. draws (h e)) \<Longrightarrow> (\<And>x. draws (k x)) \<Longrightarrow> draws (check m h k)"
  by (fastforce simp: draws_def check_def split: prod.splits sum.splits)

lemma draws_tx [draws_intros]:
  "draws (create_room_tx L r at name m cap)" "draws (join_tx now r u)" "draws (update_room_tx r m name cap)" "draws (leaveRoomTx r u)"
  "draws (delete_room_tx r m)" "draws (leave_rooms L rs u acc)" "draws (delete_user_tx L u)"
proof -
  show leave: "draws (leaveRoomTx r u)" for r
    by (auto simp: leaveRoomTx_def locked_room_def hand_over_room_def intro!: draws_intros)
  show rooms: "draws (leave_rooms L rs u acc)" for rs acc
    by (induction rs arbitrary: acc) (auto intro!: draws_intros leave)
  show "draws (create_room_tx L r at name m cap)" "draws (join_tx now r u)" "draws (update_room_tx r m name cap)"
    "draws (delete_room_tx r m)" "draws (delete_user_tx L u)"
    by (auto simp: create_room_tx_def join_tx_def update_room_tx_def delete_room_tx_def delete_user_tx_def locked_room_def intro!: draws_intros rooms)
qed

lemma atomic_inTx [atomic_intros]:
  assumes "draws fn"
  shows "atomic (runInTx fn)"
  unfolding atomic_def
proof (intro allI impI)
  fix w e w'
  assume run: "run_state (runInTx fn) w = (Inl e, w')" and no: "\<forall>n. SqlLost n \<notin> set (w_sql w)"
  obtain b w0 where b: "run_state next_outcome w = (b, w0)" by fastforce
  obtain q w1 where q: "run_state fn w0 = (q, w1)" by fastforce
  have "set (w_sql w1) \<subseteq> set (w_sql w0)" using assms q by (metis draws_def snd_conv)
  moreover have "set (w_sql w0) \<subseteq> set (w_sql w)" using b by (auto simp: next_outcome_def split: list.splits)
  ultimately have "\<forall>n. SqlLost n \<notin> set (w_sql w1)" using no by blast
  then obtain c w2 where c: "run_state next_outcome w1 = (c, w2)" "\<forall>n. c \<noteq> SqlLost n"
    by (cases "w_sql w1") (auto simp: next_outcome_def)
  show "w_db w' = w_db w"
  proof (cases b)
    case SqlOk
    with run b q c show ?thesis by (cases q; cases c) (auto simp: runInTx_def check_def fail_def ret_def)
  qed (use run b next_outcome_db [OF b] in \<open>auto simp: runInTx_def fail_def\<close>)
qed

lemma atomic_fail [atomic_intros]: "atomic (fail e)" and atomic_ret [atomic_intros]: "atomic (ret x)"
  by (simp_all add: atomic_def fail_def ret_def)

lemma atomic_query [atomic_intros]: "(\<And>t e t'. q t = (Inl e, t') \<Longrightarrow> t' = t) \<Longrightarrow> atomic (query q)"
  by (auto simp: atomic_def query_def on_db_def next_outcome_def split: list.splits sql_outcome.splits prod.splits)

lemma atomic_read_check [atomic_intros]:
  "keeps_db m \<Longrightarrow> draws m \<Longrightarrow> (\<And>e. atomic (h e)) \<Longrightarrow> (\<And>x. atomic (k x)) \<Longrightarrow> atomic (check m h k)"
  unfolding atomic_def check_def keeps_db_def draws_def
  by (auto split: prod.splits sum.splits) (metis snd_conv subset_iff)+

text \<open>An action whose failure is only translated.\<close>

lemma atomic_check_map: "atomic m \<Longrightarrow> (\<And>e. \<exists>f. h e = fail f) \<Longrightarrow> (\<And>x. \<exists>y. k x = ret y) \<Longrightarrow> atomic (check m h k)"
  unfolding atomic_def check_def fail_def ret_def
  by (auto split: prod.splits sum.splits) (metis Inl_inject Inr_Inl_False prod.inject run_state_return)+

lemma atomic_tok [atomic_intros]: "(\<And>x. atomic (k x)) \<Longrightarrow> atomic (tok_call f \<bind> k)" for k :: "'b \<Rightarrow> ('w, 'a) act"
  by (auto simp: atomic_def tok_call_def split: prod.splits)

lemma atomic_parse_id [atomic_intros]: "(\<And>u. atomic (k u)) \<Longrightarrow> atomic (parse_id L msg i k)"
  by (simp add: parse_id_def atomic_fail split: sum.splits)

lemma atomic_guard [atomic_intros]: "atomic k \<Longrightarrow> atomic (guard_ok v k)"
  by (simp add: guard_ok_def atomic_fail split: option.splits)

lemma atomic_create_user: "(\<And>e. \<exists>y. h e = fail y) \<Longrightarrow> atomic (check (query (q_CreateUser x)) h (\<lambda>user. ret (f user)))"
  by (rule atomic_check_map) (auto simp: q_CreateUser_def intro!: atomic_query split: if_splits)

lemma atomicD: "atomic m \<Longrightarrow> run_state m w = (Inl e, w') \<Longrightarrow> \<forall>n. SqlLost n \<notin> set (w_sql w) \<Longrightarrow> w_db w' = w_db w"
  by (auto simp: atomic_def)

lemma handlers_atomic:
  "atomic (CreateUser s L newID un pw)" "atomic (CreateRoom s L newID name mid cap)" "atomic (JoinRoom L now uid rid)"
  "atomic (UpdateRoom s L rid qid name cap)" "atomic (LeaveRoom L rid uid)" "atomic (DeleteRoom L rid qid)" "atomic (DeleteUser s L uid pw)"
proof -
  show "atomic (CreateUser s L newID un pw)"
    by (auto simp: CreateUser_def intro!: atomic_guard atomic_fail atomic_create_user split: sum.splits)
  show "atomic (JoinRoom L now uid rid)"
    unfolding JoinRoom_def by (intro atomic_parse_id atomic_check_map atomic_inTx draws_tx) (auto split: option.splits)
  show "atomic (CreateRoom s L newID name mid cap)" "atomic (UpdateRoom s L rid qid name cap)" "atomic (LeaveRoom L rid uid)"
    "atomic (DeleteRoom L rid qid)"
    by (auto simp: CreateRoom_def UpdateRoom_def LeaveRoom_def DeleteRoom_def intro!: atomic_intros draws_tx split: sum.splits)
  show "atomic (DeleteUser s L uid pw)"
    by (auto simp: DeleteUser_def intro!: atomic_intros draws_tx draws_basic keeps_query split: option.splits)
qed

text \<open>C32: A request that is answered with an error has changed nothing: for every handler that writes, if
  it returns an error and no reply of the database was lost, all three tables are as they were,
  wherever in the transaction the failure happened.\<close>

theorem failed_request_changes_nothing:
  assumes "run_state (CreateUser s L newID un pw) w = (Inl e, w') \<or> run_state (CreateRoom s L newID name mid cap) w = (Inl e, w') \<or>
      run_state (JoinRoom L now uid rid) w = (Inl e, w') \<or> run_state (UpdateRoom s L rid qid name cap) w = (Inl e, w') \<or>
      run_state (LeaveRoom L rid uid) w = (Inl e, w') \<or> run_state (DeleteRoom L rid qid) w = (Inl e, w') \<or>
      run_state (DeleteUser s L uid pw) w = (Inl e, w')"
    and "\<forall>n. SqlLost n \<notin> set (w_sql w)"
  shows "w_db w' = w_db w"
  using assms by (auto dest: handlers_atomic [THEN atomicD])

text \<open>The second insert of \<^verbatim>\<open>CreateRoom\<close> fails: the room of the first one is gone.\<close>

theorem failed_request_changes_nothing_witness:
  "fst (run_state (CreateRoom ex_svc ex_lib (Inr (''r1'', 2)) ''go'' ''u1'' 2) (ex_w1\<lparr>w_sql := [SqlOk, SqlOk, SqlFail ''timeout'']\<rparr>)) =
      Inl (StatusErr Internal ''failed to join room as manager'') \<and>
    w_db (snd (run_state (CreateRoom ex_svc ex_lib (Inr (''r1'', 2)) ''go'' ''u1'' 2) (ex_w1\<lparr>w_sql := [SqlOk, SqlOk, SqlFail ''timeout'']\<rparr>))) = w_db ex_w1"
proof -
  let ?run = "run_state (CreateRoom ex_svc ex_lib (Inr (''r1'', 2)) ''go'' ''u1'' 2) (ex_w1\<lparr>w_sql := [SqlOk, SqlOk, SqlFail ''timeout'']\<rparr>)"
  have e: "fst ?run = Inl (StatusErr Internal ''failed to join room as manager'')"
    using ex_valid by (simp add: CreateRoom_def create_room_tx_def ex_w1_def ex_defs act_defs q_CreateRoom_def row_defs validateCapacity_def)
  then have "?run = (Inl (StatusErr Internal ''failed to join room as manager''), snd ?run)" by (metis prod.collapse)
  from failed_request_changes_nothing [OF disjI2 [OF disjI1], OF this] e show ?thesis by simp
qed

section \<open>Refreshing a token\<close>

lemma on_redisD:
  assumes "on_redis f w = (a, w')" "tw_calls w (tw_n w) = (others, n, now)"
  shows "f n now (others (tw_redis w)) = (a, tw_redis w')" "tw_n w' = Suc (tw_n w)" "tw_calls w' = tw_calls w"
  using assms by (auto simp: on_redis_def split: prod.splits)

lemma rotate_token_eff:
  assumes "runs (rotate_token s v old new acc) w (access, tok) w'"
  shows "access = acc" "tok = new" "w_db w' = w_db w"
    "rts_Rotate (svc_tokens s) old new (refreshTokenTTL s) (w_tok w) = (Inr \<lparr>rot_Status = RefreshTokenRotated, rot_UserID = val_UserID v\<rparr>, w_tok w')"
  using assms unfolding rotate_token_def
  by (auto elim!: runs_check_failE runs_tok_callE runs_retE split: RefreshTokenRotationStatus.splits if_splits
      simp del: RefreshTokenRotation.equality intro!: RefreshTokenRotation.equality)

lemma toPGUUID_Inr: "toPGUUID L i = Inr u \<longleftrightarrow> lib_Parse L i = Some u"
  by (simp add: toPGUUID_def split: option.splits)

lemma RefreshToken_eff:
  fixes w w' :: "'w world"
  assumes "runs (RefreshToken s L now new old) w (access, tok) w'"
  obtains v x t1 where "rts_Validate (svc_tokens s) old (w_tok w) = (Inr v, t1)" "val_Status v = RefreshTokenValidationActive"
    "x \<in> set (t_users (w_db w))" "lib_Parse L (val_UserID v) = Some (usr_ID x)" "issueAccessToken s L now (usr_ID x) (usr_Username x) = Inr access"
    "tok = new" "rts_Rotate (svc_tokens s) old new (refreshTokenTTL s) t1 = (Inr \<lparr>rot_Status = RefreshTokenRotated, rot_UserID = val_UserID v\<rparr>, w_tok w')"
proof -
  from assms obtain v x acc and w1 w2 :: "'w world" where 1: "rts_Validate (svc_tokens s) old (w_tok w) = (Inr v, w_tok w1)" "val_Status v = RefreshTokenValidationActive"
    "w_db w1 = w_db w" "toPGUUID L (val_UserID v) = Inr (usr_ID x)" "x \<in> set (t_users (w_db w1))" "w_tok w2 = w_tok w1"
    "issueAccessToken s L now (usr_ID x) (usr_Username x) = Inr acc" "runs (rotate_token s v old new acc) w2 (access, tok) w'"
    unfolding RefreshToken_def
    by (auto elim!: runs_check_failE runs_checkE runs_tok_callE runs_tokE runs_queryE dest!: find_mem simp: q_GetUserByID_def
        split: RefreshTokenValidationStatus.splits sum.splits option.splits if_splits)
  with rotate_token_eff [OF 1(8)] show thesis by (intro that [of v "w_tok w1" x]) (auto simp: toPGUUID_Inr)
qed

lemma refreshTokenTTL_exact:
  assumes "0 < RefreshTokenExpirationDays (svc_config s)" "RefreshTokenExpirationDays (svc_config s) < 100000"
  shows "refreshTokenTTL s = RefreshTokenExpirationDays (svc_config s) * 86400000 * 1000000"
  using assms by (simp add: refreshTokenTTL_def)

text \<open>A successful \<^verbatim>\<open>RefreshToken\<close> on the Redis store: the old token was active for a user that
  exists; the answer is an access token for that user and the new refresh token; in the end the
  new token is active for the same user and the old one is used and no longer active. Between the
  validation and the rotation anything may happen on the server.\<close>

theorem refresh_rotates:
  assumes R: "redis api view clock" and days: "0 < RefreshTokenExpirationDays (svc_config s)" "RefreshTokenExpirationDays (svc_config s) < 100000"
    and store: "svc_tokens s = NewRedisRefreshTokenStore sum256 api True"
    and calls: "tw_calls (w_tok w) (tw_n (w_tok w)) = (o0, n0, t0)" "tw_calls (w_tok w) (Suc (tw_n (w_tok w))) = (o1, n1, t1)"
    and s1: "s1 = o1 (snd (rt_Validate sum256 api True n0 old (o0 (tw_redis (w_tok w)))))"
    and ok: "tok_inv (RefreshTokenExpirationDays (svc_config s) * 86400000) (clock s1) (view s1)" "UnixMilli t1 = clock s1"
      "op_ok (HashToken sum256) (clock s1) (view s1) (OpRotate old new)"
    and run: "run_state (RefreshToken s L now new old) w = (Inr (access, tok), w')"
  defines "s2 \<equiv> tw_redis (w_tok w')"
  shows "tok = new \<and> (\<exists>x uid. x \<in> set (t_users (w_db w)) \<and> lib_Parse L uid = Some (usr_ID x) \<and>
    issueAccessToken s L now (usr_ID x) (usr_Username x) = Inr access \<and>
    tok_active (clock s1) (view s1) (HashToken sum256 old) = Some uid \<and> tok_active (clock s2) (view s2) (HashToken sum256 new) = Some uid \<and>
    tok_active (clock s2) (view s2) (HashToken sum256 old) = None \<and> tok_used (clock s2) (view s2) (HashToken sum256 old) = Some uid)"
proof -
  let ?T = "RefreshTokenExpirationDays (svc_config s) * 86400000" and ?H = "HashToken sum256"
  from run obtain v x tw where v: "rts_Validate (svc_tokens s) old (w_tok w) = (Inr v, tw)"
    and x: "x \<in> set (t_users (w_db w))" "lib_Parse L (val_UserID v) = Some (usr_ID x)" "issueAccessToken s L now (usr_ID x) (usr_Username x) = Inr access" "tok = new"
    and rot: "rts_Rotate (svc_tokens s) old new (refreshTokenTTL s) tw = (Inr \<lparr>rot_Status = RefreshTokenRotated, rot_UserID = val_UserID v\<rparr>, w_tok w')"
    unfolding runs_def [symmetric] by (elim RefreshToken_eff)
  from on_redisD [OF v [unfolded store NewRedisRefreshTokenStore_def, simplified] calls(1)]
  have tw: "tw_n tw = Suc (tw_n (w_tok w))" "tw_calls tw = tw_calls (w_tok w)" "s1 = o1 (tw_redis tw)" by (simp_all add: s1)
  from on_redisD(1) [OF rot [unfolded store NewRedisRefreshTokenStore_def, simplified], of o1 n1 t1] calls(2) tw have "rt_Rotate sum256 api True n1 t1 old new (?T * 1000000) s1 = (Inr \<lparr>rot_Status = RefreshTokenRotated, rot_UserID = val_UserID v\<rparr>, s2)"
    by (simp add: s2_def refreshTokenTTL_exact [OF days])
  then have e: "tok_exec sum256 api (?T * 1000000) n1 t1 (OpRotate old new) s1 = (TokRotated \<lparr>rot_Status = RefreshTokenRotated, rot_UserID = val_UserID v\<rparr>, s2)"
    by simp
  have T: "0 < ?T" using days by simp
  note X = exec_refines [OF R ok(1) T refl ok(2,3) e]
  have n1: "n1 = Reply" using X(4) by auto
  from X(3) [OF n1] have a: "tok_active (clock s1) (view s1) (?H old) = Some (val_UserID v)"
    by (auto simp: tok_abs_def split: option.splits)
  from X(5) n1 a ok(3) have "tok_active (clock s2) (view s2) (?H new) = Some (val_UserID v)" "tok_active (clock s2) (view s2) (?H old) = None"
    "tok_used (clock s2) (view s2) (?H old) = Some (val_UserID v)"
    by (auto simp: tok_abs_def)
  with a x show ?thesis by blast
qed

definition ex_login :: "(go_error + VerifyUserResponse) \<times> mem_redis tok_world world" where
  "ex_login = run_state (VerifyUser ex_svc ex_lib 0 ''a'' ''alice'' ''Passw0rd!'') ex_w1"

lemma ex_hash: "HashToken (\<lambda>t. t) ''a'' = ''61''" "HashToken (\<lambda>t. t) ''b'' = ''62''"
  by code_simp+

lemma ex_login_eq: "ex_login = (Inr \<lparr>vur_UserId = ''u1'', vur_AccessToken = ''u1'', vur_RefreshToken = ''a''\<rparr>,
    ex_w1\<lparr>w_tok := ex_tok\<lparr>tw_redis := \<lparr>mem_clock = 5, mem_keys = [activeKey ''61'' \<mapsto> (RStr ''u1'', Some 604800005),
      userIndexKey ''u1'' \<mapsto> (RZSet (fmupd ''61'' 604800005 fmempty), Some 604800005)]\<rparr>, tw_n := 1\<rparr>\<rparr>)"
  by (simp add: ex_login_def VerifyUser_def issueTokenPair_def issueAccessToken_def GenerateJWT_def ex_w1_def ex_defs act_defs q_GetUserByUsername_def
      NewRedisRefreshTokenStore_def on_redis_def rt_Issue_def validateClient_def validateRefreshTokenStoreInput_def refreshTokenTTL_def Let_def ex_hash
      issueRefreshTokenScript_def mem_defs Milliseconds_def UnixMilli_def split: prod.splits)

definition ex_redis :: mem_redis where "ex_redis = tw_redis (w_tok (snd ex_login))"

lemma ex_redis_eq: "ex_redis = \<lparr>mem_clock = 5, mem_keys = [activeKey ''61'' \<mapsto> (RStr ''u1'', Some 604800005),
      userIndexKey ''u1'' \<mapsto> (RZSet (fmupd ''61'' 604800005 fmempty), Some 604800005)]\<rparr>"
  by (simp add: ex_redis_def ex_login_eq)

lemma ex_redis_ok: "tok_inv 604800000 (mem_clock ex_redis) (mem_keys ex_redis)"
  "op_ok (HashToken (\<lambda>t. t)) (mem_clock ex_redis) (mem_keys ex_redis) (OpRotate ''a'' ''b'')"
proof -
  let ?s0 = "\<lparr>mem_clock = 5, mem_keys = Map.empty\<rparr>"
  have ok: "op_ok (HashToken (\<lambda>t. t)) (mem_clock ?s0) (mem_keys ?s0) (OpIssue ''u1'' ''a'')"
    by (simp add: unseen_def family_def zset_of_def)
  have inv: "tok_inv 604800000 (mem_clock ?s0) (mem_keys ?s0)" by (simp add: tok_inv_def)
  have now: "UnixMilli 5000000 = mem_clock ?s0" by (simp add: UnixMilli_def)
  have "tok_exec (\<lambda>t. t) mem_api (604800000 * 1000000) Reply 5000000 (OpIssue ''u1'' ''a'') ?s0 = (TokOk, ex_redis)"
    by (simp add: rt_Issue_def validateClient_def validateRefreshTokenStoreInput_def Let_def ex_hash issueRefreshTokenScript_def
        mem_defs ex_redis_eq Milliseconds_def UnixMilli_def tok_err_def)
  from exec_refines(2) [OF mem.redis_axioms inv _ refl now ok this] show "tok_inv 604800000 (mem_clock ex_redis) (mem_keys ex_redis)" by simp
  show "op_ok (HashToken (\<lambda>t. t)) (mem_clock ex_redis) (mem_keys ex_redis) (OpRotate ''a'' ''b'')"
    by (auto simp: ex_redis_eq ex_hash settled_def unseen_def family_def zset_of_def split: option.splits if_splits)
qed

theorem refresh_rotates_witness:
  "let r = run_state (RefreshToken ex_svc ex_lib 0 ''b'' ''a'') (snd ex_login); s2 = tw_redis (w_tok (snd r)) in
    fst r = Inr (''u1'', ''b'') \<and> tok_active (mem_clock s2) (mem_keys s2) ''62'' = Some ''u1'' \<and> tok_active (mem_clock s2) (mem_keys s2) ''61'' = None"
proof -
  let ?r = "run_state (RefreshToken ex_svc ex_lib 0 ''b'' ''a'') (snd ex_login)"
  have val: "snd (rt_Validate (\<lambda>t. t) mem_api True Reply ''a'' ex_redis) = ex_redis"
    by (simp add: rt_Validate_def validateClient_def Let_def ex_hash validateRefreshTokenScript_def mem_defs ex_redis_eq)
  have ok: "fst ?r = Inr (''u1'', ''b'')"
    by (simp add: ex_login_eq RefreshToken_def rotate_token_def issueAccessToken_def GenerateJWT_def ex_w1_def ex_defs act_defs q_GetUserByID_def
        NewRedisRefreshTokenStore_def on_redis_def rt_Validate_def rt_Rotate_def validateClient_def refreshTokenTTL_def Let_def ex_hash
        validateRefreshTokenScript_def rotateRefreshTokenScript_def mem_defs Milliseconds_def UnixMilli_def split: prod.splits)
  then have run: "?r = (Inr (''u1'', ''b''), snd ?r)" by (metis prod.collapse)
  have st: "svc_tokens ex_svc = NewRedisRefreshTokenStore (\<lambda>t. t) mem_api True" "RefreshTokenExpirationDays (svc_config ex_svc) = 7"
    by (simp_all add: ex_defs)
  have c: "tw_calls (w_tok (snd ex_login)) n = (\<lambda>s. s, Reply, 5000000)" for n by (simp add: ex_login_eq ex_tok_def)
  have s1: "ex_redis = (\<lambda>s. s) (snd (rt_Validate (\<lambda>t. t) mem_api True Reply ''a'' ((\<lambda>s. s) (tw_redis (w_tok (snd ex_login))))))"
    using val by (simp add: ex_redis_def)
  have now: "UnixMilli 5000000 = mem_clock ex_redis" by (simp add: UnixMilli_def ex_redis_eq)
  from refresh_rotates [OF mem.redis_axioms _ _ st(1) c c s1 _ now ex_redis_ok(2) run] st(2) ex_redis_ok(1) tok_invD
  have "tok_active (mem_clock (tw_redis (w_tok (snd ?r)))) (mem_keys (tw_redis (w_tok (snd ?r)))) ''62'' =
      tok_active (mem_clock ex_redis) (mem_keys ex_redis) ''61''"
    "tok_active (mem_clock (tw_redis (w_tok (snd ?r)))) (mem_keys (tw_redis (w_tok (snd ?r)))) ''61'' = None"
    by (auto simp: ex_hash)
  moreover have "tok_active (mem_clock ex_redis) (mem_keys ex_redis) ''61'' = Some ''u1''" by (simp add: ex_redis_eq tok_active_def)
  ultimately show ?thesis using ok by simp
qed

end
