(* ===== verification/User_Validation.thy ===== *)
theory User_Validation
  imports User_Service
begin

text \<open>
  The validation rules of the user service (\<^verbatim>\<open>internal/user/validation.go\<close>) against a reference
  definition that does not mention regular expressions.
\<close>

section \<open>Validation\<close>

text \<open>A rune below 128 is one byte; a longer encoding never decodes to one.\<close>

lemma high_bytes:
  "194 \<le> b \<Longrightarrow> 128 \<le> (b - 192) * 64 + (x :: nat)" "225 \<le> b \<Longrightarrow> 128 \<le> (b - 224) * 4096 + y + (x :: nat)"
  "160 \<le> b1 \<Longrightarrow> 128 \<le> y + (b1 - 128) * 64 + (x :: nat)" "241 \<le> b \<Longrightarrow> 128 \<le> (b - 240) * 262144 + z + y + (x :: nat)"
  "144 \<le> b1 \<Longrightarrow> 128 \<le> z + (b1 - 128) * 4096 + y + (x :: nat)"
  by linarith+

lemma decode_rune_high:
  assumes "128 \<le> b"
  shows "128 \<le> fst (decode_rune (b # bs))"
proof -
  have 3: "128 \<le> (b - 224) * 4096 + (b1 - 128) * 64 + x" if "224 \<le> b" "b = 224 \<longrightarrow> 160 \<le> b1" for b1 x
    using that high_bytes(2,3) by (cases "b = 224") simp_all
  have 4: "128 \<le> (b - 240) * 262144 + (b1 - 128) * 4096 + y + x" if "240 \<le> b" "b = 240 \<longrightarrow> 144 \<le> b1" for b1 x y
    using that high_bytes(4,5) by (cases "b = 240") simp_all
  show ?thesis using assms high_bytes(1) 3 4 by (simp add: decode_rune.simps(2) split: list.splits)
qed

lemma runes_of_small: "list_all (\<lambda>r. r < 128) (runes_of bs) \<Longrightarrow> list_all (\<lambda>b. b < 128) bs"
proof (induction bs rule: runes_of.induct)
  case (1 bs)
  show ?case
  proof (cases bs)
    case (Cons b rest)
    have "runes_of bs = fst (decode_rune bs) # runes_of (drop (snd (decode_rune bs)) bs)"
      by (subst runes_of.simps) (simp add: Cons)
    with "1.prems" have r: "fst (decode_rune bs) < 128" "list_all (\<lambda>r. r < 128) (runes_of (drop (snd (decode_rune bs)) bs))" by simp_all
    then have b: "b < 128" using decode_rune_high [of b rest] Cons by (cases "b < 128") auto
    then have "drop (snd (decode_rune bs)) bs = rest" using Cons by (simp add: decode_rune.simps(2))
    with "1.IH" Cons r b show ?thesis by simp
  qed simp
qed

lemma ascii_runes: "list_all (\<lambda>r. r < 128) (runes p) \<Longrightarrow> runes p = map byte p"
  using runes_of_small [of "map byte p"] runes_of_ascii [of "map byte p"] by (simp add: runes_def)

text \<open>The class of a character, and the classes that occur in a password.\<close>

definition char_class :: "nat \<Rightarrow> nat" where
  "char_class b = (if is_upper b then 0 else if is_lower b then 1 else if is_number b then 2 else 3)"

definition printable :: "nat \<Rightarrow> bool" where
  "printable b \<longleftrightarrow> 33 \<le> b \<and> b \<le> 126"

lemma special_ranges: "set special_chars = set ([33..<48] @ [58..<65] @ [91..<97] @ [123..<127])"
  by code_simp

lemma printable_classes: "printable b \<longleftrightarrow> is_lower b \<or> is_upper b \<or> is_number b \<or> is_special b"
proof -
  have "is_special b \<longleftrightarrow> 33 \<le> b \<and> b < 48 \<or> 58 \<le> b \<and> b < 65 \<or> 91 \<le> b \<and> b < 97 \<or> 123 \<le> b \<and> b < 127"
    by (simp only: is_special_def special_ranges set_append set_upt Un_iff atLeastLessThan_iff)
  then show ?thesis unfolding printable_def is_upper_def is_lower_def is_number_def by presburger
qed

lemma class_disjoint: "printable b \<Longrightarrow> is_special b \<longleftrightarrow> char_class b = 3"
proof -
  have "is_special b \<Longrightarrow> \<not> is_upper b \<and> \<not> is_lower b \<and> \<not> is_number b"
    by (auto simp: is_special_def special_chars_def is_upper_def is_lower_def is_number_def)
  then show "printable b \<Longrightarrow> is_special b \<longleftrightarrow> char_class b = 3" by (auto simp: printable_classes char_class_def)
qed

lemma class_range: "char_class ` S \<subseteq> {0, 1, 2, 3}"
  by (auto simp: char_class_def)

lemma card_of_four:
  assumes "C \<subseteq> {0, 1, 2, 3 :: nat}"
  shows "card C = (if 0 \<in> C then 1 else 0) + (if 1 \<in> C then 1 else 0) + (if 2 \<in> C then 1 else 0) + (if 3 \<in> C then 1 else 0)"
proof -
  let ?ks = "filter (\<lambda>k. k \<in> C) [0, 1, 2, 3]"
  have "C = set ?ks" using assms by auto
  moreover have "card (set ?ks) = length ?ks" by (rule distinct_card) simp
  ultimately have "card C = length ?ks" by simp
  then show ?thesis by simp
qed

lemma count_types_classes:
  assumes "list_all printable (runes p)"
  shows "count_types passwordPatterns p 0 = card (char_class ` set (runes p))"
proof -
  have "list_ex is_upper (runes p) \<longleftrightarrow> 0 \<in> char_class ` set (runes p)" "list_ex is_lower (runes p) \<longleftrightarrow> 1 \<in> char_class ` set (runes p)"
    "list_ex is_number (runes p) \<longleftrightarrow> 2 \<in> char_class ` set (runes p)"
    by (auto simp: list_ex_iff char_class_def image_iff is_upper_def is_lower_def is_number_def) 
  moreover have "list_ex is_special (runes p) \<longleftrightarrow> 3 \<in> char_class ` set (runes p)"
    using assms class_disjoint by (auto simp: list_ex_iff list_all_iff image_iff)
  ultimately show ?thesis by (simp add: passwordPatterns_def card_of_four [OF class_range])
qed

text \<open>C36: \<^verbatim>\<open>validatePassword\<close>, which matches six regular expressions over the runes of the password,
  accepts exactly the passwords of permitted byte length, not empty, whose bytes are all printable
  ASCII without the space, and in which at least three of the four classes of characters (upper
  case, lower case, digits, the rest) occur; no password with a multi-byte character passes.\<close>

theorem password_policy:
  "validatePassword p cfg = None \<longleftrightarrow>
    MinPasswordLength cfg \<le> int (length p) \<and> int (length p) \<le> MaxPasswordLength cfg \<and> p \<noteq> [] \<and>
    list_all (\<lambda>c. printable (byte c)) p \<and> 3 \<le> card ((\<lambda>c. char_class (byte c)) ` set p)"
proof -
  have small: "list_all printable xs \<Longrightarrow> list_all (\<lambda>r. r < 128) xs" for xs by (auto simp: list_all_iff printable_def)
  have allowed: "allowedPasswordChars p \<longleftrightarrow> p \<noteq> [] \<and> list_all printable (runes p)"
    by (auto simp: allowedPasswordChars_def printable_classes runes_def list_all_iff)
  have a: "runes p = map byte p" if "list_all printable (runes p) \<or> list_all (\<lambda>c. printable (byte c)) p"
  proof (rule ascii_runes)
    from that consider "list_all printable (runes p)" | "list_all (\<lambda>r. r < 128) (map byte p)"
      using small [of "map byte p"] by (auto simp: list_all_iff)
    then show "list_all (\<lambda>r. r < 128) (runes p)" by cases (simp_all add: small runes_def runes_of_ascii)
  qed
  have "list_all printable (runes p) \<longleftrightarrow> list_all (\<lambda>c. printable (byte c)) p" using a by (auto simp: list_all_iff)
  moreover have "list_all printable (runes p) \<Longrightarrow> count_types passwordPatterns p 0 = card ((\<lambda>c. char_class (byte c)) ` set p)"
    using a count_types_classes [of p] by (simp add: image_image)
  ultimately show ?thesis using allowed by (auto simp: validatePassword_def Let_def)
qed

end
