(* ===== verification/Ring.thy ===== *)
theory Ring
  imports Prelude "HOL-Library.List_Lexorder" "HOL-Library.Char_ord"
begin

text \<open>
  The hash ring that assigns rooms to WebSocket instances
  (\<^verbatim>\<open>internal/wsgateway/loadbalance\<close>). The consistent hashing library is a parameter: a record of
  its operations, and a locale with what its documentation promises. The ring of an instance is
  changed only by \<^verbatim>\<open>Set\<close>, which adds and removes the difference to the wanted members.
\<close>

section \<open>The library\<close>

record 'h consistent_api =
  c_New :: 'h
  c_Add :: "'h \<Rightarrow> string \<Rightarrow> 'h"
  c_Remove :: "'h \<Rightarrow> string \<Rightarrow> 'h"
  c_GetMembers :: "'h \<Rightarrow> string list"
  c_LocateKey :: "'h \<Rightarrow> string \<Rightarrow> string option"

text \<open>
  Adding a member that is there and removing one that is not change nothing; a key is located at
  one of the members, if there is any.
\<close>

locale consistent =
  fixes api :: "'h consistent_api"
  assumes new_members: "c_GetMembers api (c_New api) = []"
    and add_members: "set (c_GetMembers api (c_Add api h a)) = insert a (set (c_GetMembers api h))"
    and remove_members: "set (c_GetMembers api (c_Remove api h a)) = set (c_GetMembers api h) - {a}"
    and distinct_members: "distinct (c_GetMembers api h)"
    and locate_none: "c_LocateKey api h k = None \<longleftrightarrow> c_GetMembers api h = []"
    and locate_member: "c_LocateKey api h k = Some a \<Longrightarrow> a \<in> set (c_GetMembers api h)"

section \<open>The ring\<close>

text \<open>The loop of \<^verbatim>\<open>normalizeMembers\<close> with the addresses seen so far.\<close>

fun dedupe :: "string list \<Rightarrow> string list \<Rightarrow> string list" where
  "dedupe seen [] = []"
| "dedupe seen (addr # addrs) = (if addr \<in> set seen then dedupe seen addrs else addr # dedupe (addr # seen) addrs)"

definition normalizeMembers :: "string list \<Rightarrow> string list" where
  "normalizeMembers addrs = sort (dedupe [] addrs)"

definition ring_New :: "'h consistent_api \<Rightarrow> string list \<Rightarrow> 'h" where
  "ring_New api endpoints = fold (\<lambda>endpoint inst. c_Add api inst endpoint) (normalizeMembers endpoints) (c_New api)"

definition Locate :: "'h consistent_api \<Rightarrow> 'h \<Rightarrow> string \<Rightarrow> string" where
  "Locate api r roomID = (case c_LocateKey api r roomID of None \<Rightarrow> '''' | Some found \<Rightarrow> found)"

definition ring_Set :: "'h consistent_api \<Rightarrow> string list \<Rightarrow> 'h \<Rightarrow> 'h" where
  "ring_Set api addrs r =
    (let sortedAddrs = normalizeMembers addrs;
         current = c_GetMembers api r;
         r1 = fold (\<lambda>a r. if a \<notin> set current then c_Add api r a else r) sortedAddrs r;
         toRemove = sort (filter (\<lambda>a. a \<notin> set sortedAddrs) current)
     in fold (\<lambda>a r. c_Remove api r a) toRemove r1)"

definition Len :: "'h consistent_api \<Rightarrow> 'h \<Rightarrow> int" where
  "Len api r = int (length (c_GetMembers api r))"

definition Contains :: "'h consistent_api \<Rightarrow> 'h \<Rightarrow> string \<Rightarrow> bool" where
  "Contains api r addr \<longleftrightarrow> list_ex (\<lambda>m. m = addr) (c_GetMembers api r)"

section \<open>What the ring guarantees\<close>

lemma dedupe_set: "set (dedupe seen addrs) = set addrs - set seen"
  by (induction seen addrs rule: dedupe.induct) auto

lemma dedupe_distinct: "distinct (dedupe seen addrs)"
  by (induction seen addrs rule: dedupe.induct) (auto simp: dedupe_set)

lemma normalizeMembers_facts:
  "set (normalizeMembers addrs) = set addrs" "distinct (normalizeMembers addrs)" "sorted (normalizeMembers addrs)"
  by (simp_all add: normalizeMembers_def dedupe_set dedupe_distinct)

text \<open>The normal form depends on the set of addresses only.\<close>

lemma normalizeMembers_cong: "set a = set b \<Longrightarrow> normalizeMembers a = normalizeMembers b"
  using normalizeMembers_facts by (metis sorted_distinct_set_unique)

context consistent
begin

abbreviation members :: "'h \<Rightarrow> string set" where "members h \<equiv> set (c_GetMembers api h)"

lemma fold_add: "members (fold (\<lambda>a r. if P a then c_Add api r a else r) as r) = members r \<union> {a \<in> set as. P a}"
  by (induction as arbitrary: r) (auto simp: add_members)

lemma fold_remove: "members (fold (\<lambda>a r. c_Remove api r a) as r) = members r - set as"
  by (induction as arbitrary: r) (auto simp: remove_members)

lemma Set_members: "members (ring_Set api addrs r) = set addrs"
  by (auto simp: ring_Set_def Let_def fold_add fold_remove normalizeMembers_facts)

lemma New_members: "members (ring_New api addrs) = set addrs"
  using fold_add [of "\<lambda>_. True" "normalizeMembers addrs" "c_New api"] by (simp add: ring_New_def new_members normalizeMembers_facts)

lemma Len_Contains: "Len api r = int (card (members r))" "Contains api r a \<longleftrightarrow> a \<in> members r"
  by (simp_all add: Len_def Contains_def distinct_card distinct_members list_ex_iff)

lemma Set_same:
  assumes "members r = set addrs"
  shows "ring_Set api addrs r = r"
proof -
  have 1: "fold (\<lambda>a r. if a \<notin> S then c_Add api r a else r) as x = x" if "set as \<subseteq> S" for as S x
    using that by (induction as) auto
  have 2: "filter (\<lambda>a. a \<notin> set (normalizeMembers addrs)) (c_GetMembers api r) = []"
    using assms by (simp add: normalizeMembers_facts filter_empty_conv)
  have 3: "set (normalizeMembers addrs) \<subseteq> members r" using assms by (simp add: normalizeMembers_facts)
  show ?thesis unfolding ring_Set_def Let_def 1 [OF 3] 2 by simp
qed

lemma Locate_member: "members r \<noteq> {} \<Longrightarrow> Locate api r k \<in> members r"
  using locate_none [of r k] locate_member [of r k] by (auto simp: Locate_def split: option.splits)

lemma Locate_empty: "members r = {} \<Longrightarrow> Locate api r k = ''''"
  using locate_none [of r k] by (simp add: Locate_def split: option.splits)

end

section \<open>A library that keeps a sorted list\<close>

text \<open>It shows that the laws can hold: a key goes to the member its length points at.\<close>

definition list_ring :: "string list consistent_api" where
  "list_ring = \<lparr>c_New = [], c_Add = (\<lambda>h a. insort_insert a h), c_Remove = (\<lambda>h a. removeAll a h), c_GetMembers = remdups,
     c_LocateKey = (\<lambda>h k. case remdups h of [] \<Rightarrow> None | ms \<Rightarrow> Some (ms ! (length k mod length ms)))\<rparr>"

interpretation lr: consistent list_ring
proof unfold_locales
  fix h k and a :: string
  show "c_LocateKey list_ring h k = Some a \<Longrightarrow> a \<in> set (c_GetMembers list_ring h)"
    by (cases "remdups h") (auto simp: list_ring_def simp del: remdups.simps set_remdups, metis length_Cons mod_less_divisor nth_mem set_ConsD zero_less_Suc)
qed (auto simp: list_ring_def set_insort_insert split: list.splits)

end
