(* ===== verification/Membership.thy ===== *)
theory Membership
  imports Redis Ring
begin

text \<open>
  How the instances find each other (\<^verbatim>\<open>internal/shared/membership\<close>). A WebSocket instance registers
  its address under a key that expires unless a heartbeat refreshes it; every gateway and instance
  watches those keys and sets its hash ring to the addresses it finds. The watcher's loop is a
  step relation: each of its wake-ups, the calls others make on it, and everything else that
  happens to the world meanwhile.
\<close>

section \<open>The registry\<close>

record Registry =
  reg_keyPrefix :: string
  reg_addr :: string
  reg_token :: string
  reg_ttl :: int
  reg_heartbeat :: int

definition membershipKeyPrefix :: string where "membershipKeyPrefix = ''wss:member:''"
definition membershipTTL :: int where "membershipTTL = 30000"
definition membershipHeartbeat :: int where "membershipHeartbeat = 10000"

definition NewRegistry :: "string \<Rightarrow> string \<Rightarrow> string \<Rightarrow> int \<Rightarrow> int \<Rightarrow> Registry" where
  "NewRegistry uuid keyPrefix addr ttl heartbeat =
     \<lparr>reg_keyPrefix = keyPrefix, reg_addr = addr, reg_token = uuid, reg_ttl = ttl, reg_heartbeat = heartbeat\<rparr>"

definition reg_key :: "Registry \<Rightarrow> string" where "reg_key r = reg_keyPrefix r @ reg_addr r"

definition compareAndDeleteScript :: "'r redis_api \<Rightarrow> string \<Rightarrow> string \<Rightarrow> 'r \<Rightarrow> int \<times> 'r" where
  "compareAndDeleteScript api key tok s = (if r_get api s key = Some tok then r_del api s key else (0, s))"

definition reg_refresh :: "'r redis_api \<Rightarrow> Registry \<Rightarrow> net \<Rightarrow> 'r \<Rightarrow> (go_error + unit) \<times> 'r" where
  "reg_refresh api r n = net_call n (\<lambda>s. ((), r_set api s (reg_key r) (reg_token r) (Some (reg_ttl r))))"

definition deregister :: "'r redis_api \<Rightarrow> Registry \<Rightarrow> net \<Rightarrow> 'r \<Rightarrow> 'r" where
  "deregister api r n s = snd (net_call n (compareAndDeleteScript api (reg_key r) (reg_token r)) s)"

text \<open>
  The registry's loop wakes up for a heartbeat or because its context ended, after some time of the
  server has passed; each call has an outcome of its own.
\<close>

datatype reg_event = HeartbeatTick int net | CtxDone int net

fun reg_loop :: "'r redis_api \<Rightarrow> Registry \<Rightarrow> reg_event list \<Rightarrow> 'r \<Rightarrow> 'r" where
  "reg_loop api r [] s = s"
| "reg_loop api r (HeartbeatTick d n # es) s = reg_loop api r es (snd (reg_refresh api r n (r_tick api s d)))"
| "reg_loop api r (CtxDone d n # es) s = deregister api r n (r_tick api s d)"

definition reg_Run :: "'r redis_api \<Rightarrow> Registry \<Rightarrow> net \<Rightarrow> reg_event list \<Rightarrow> 'r \<Rightarrow> (go_error + unit) \<times> 'r" where
  "reg_Run api r n es s = (case reg_refresh api r n s of
      (Inl err, s') \<Rightarrow> (Inl (Wrap ''initial register'' err), s')
    | (Inr _, s') \<Rightarrow> (Inr (), reg_loop api r es s'))"

section \<open>The watcher\<close>

text \<open>
  The channels hold at most one element each, so a flag says whether there is one. \<open>lastAddrs\<close> is the
  map whose keys are the addresses of the last change.
\<close>

record 'h Watcher =
  wt_keyPrefix :: string
  wt_ring :: 'h
  wt_forceCh :: bool
  wt_events :: bool
  wt_lastAddrs :: "string set"
  wt_lastMemberCount :: int

definition NewWatcher :: "string \<Rightarrow> 'h \<Rightarrow> 'h Watcher" where
  "NewWatcher keyPrefix ring = \<lparr>wt_keyPrefix = keyPrefix, wt_ring = ring, wt_forceCh = False, wt_events = False,
     wt_lastAddrs = {}, wt_lastMemberCount = 0\<rparr>"

definition HasObservedMembers :: "'h Watcher \<Rightarrow> bool" where
  "HasObservedMembers wt \<longleftrightarrow> wt_lastMemberCount wt > 0"

definition ForceReconcile :: "'h Watcher \<Rightarrow> 'h Watcher" where
  "ForceReconcile wt = (if wt_forceCh wt then wt else wt\<lparr>wt_forceCh := True\<rparr>)"

definition notify :: "'h Watcher \<Rightarrow> 'h Watcher" where
  "notify wt = (if wt_events wt then wt else wt\<lparr>wt_events := True\<rparr>)"

definition TrimPrefix :: "string \<Rightarrow> string \<Rightarrow> string" where
  "TrimPrefix s p = (if take (length p) s = p then drop (length p) s else s)"

definition dedupeMemberKeys :: "string list \<Rightarrow> string \<Rightarrow> string list" where
  "dedupeMemberKeys keys p = sort (dedupe [] (map (\<lambda>k. TrimPrefix k p) keys))"

text \<open>
  \<open>scan cursor pattern count\<close> is the \<^verbatim>\<open>SCAN\<close> command on the world \<open>'w\<close>: the keys of the page and the next
  cursor. The loop follows the cursors until one is 0; nothing in the code bounds it.
\<close>

definition scanCount :: int where "scanCount = 100"

type_synonym 'w scan_cmd = "nat \<Rightarrow> string \<Rightarrow> int \<Rightarrow> 'w \<Rightarrow> (go_error + string list \<times> nat) \<times> 'w"

partial_function (option) scan_loop :: "'w scan_cmd \<Rightarrow> string \<Rightarrow> nat \<Rightarrow> string list \<Rightarrow> 'w \<Rightarrow> ((go_error + string list) \<times> 'w) option" where
  "scan_loop scan pattern cursor collected w = (case scan cursor pattern scanCount w of
      (Inl err, w') \<Rightarrow> Some (Inl (Wrap ''scan members'' err), w')
    | (Inr (keys, next), w') \<Rightarrow>
        if next = 0 then Some (Inr (collected @ keys), w')
        else scan_loop scan pattern next (collected @ keys) w')"

definition scanMembers :: "'w scan_cmd \<Rightarrow> 'h Watcher \<Rightarrow> 'w \<Rightarrow> ((go_error + string list) \<times> 'w) option" where
  "scanMembers scan wt w = (case scan_loop scan (wt_keyPrefix wt @ ''*'') 0 [] w of
      None \<Rightarrow> None
    | Some (Inl err, w') \<Rightarrow> Some (Inl err, w')
    | Some (Inr collected, w') \<Rightarrow> Some (Inr (dedupeMemberKeys collected (wt_keyPrefix wt)), w'))"

definition membershipChanged :: "string list \<Rightarrow> 'h Watcher \<Rightarrow> bool \<times> 'h Watcher" where
  "membershipChanged addrs wt =
    (if length addrs \<noteq> card (wt_lastAddrs wt) then (True, wt\<lparr>wt_lastAddrs := set addrs\<rparr>)
     else if list_ex (\<lambda>a. a \<notin> wt_lastAddrs wt) addrs then (True, wt\<lparr>wt_lastAddrs := set addrs\<rparr>)
     else (False, wt))"

definition reconcile :: "'h consistent_api \<Rightarrow> 'w scan_cmd \<Rightarrow> 'h Watcher \<Rightarrow> 'w \<Rightarrow> ((go_error + string) \<times> 'h Watcher \<times> 'w) option" where
  "reconcile api scan wt w = (case scanMembers scan wt w of
      None \<Rightarrow> None
    | Some (Inl err, w') \<Rightarrow> Some (Inl err, wt, w')
    | Some (Inr addrs, w') \<Rightarrow>
        (let wt1 = wt\<lparr>wt_lastMemberCount := int32_of (int (length addrs))\<rparr> in
         if addrs = [] \<and> card (wt_lastAddrs wt) > 0 then Some (Inr ''empty_skipped'', wt1, w')
         else (let wt2 = wt1\<lparr>wt_ring := ring_Set api addrs (wt_ring wt1)\<rparr>;
                   (changed, wt3) = membershipChanged addrs wt2
               in Some (Inr ''ok'', wt3, w'))))"

definition runReconcile :: "'h consistent_api \<Rightarrow> 'w scan_cmd \<Rightarrow> 'h Watcher \<Rightarrow> 'w \<Rightarrow> ('h Watcher \<times> 'w) option" where
  "runReconcile api scan wt w = (case reconcile api scan wt w of
      None \<Rightarrow> None
    | Some (Inl err, wt', w') \<Rightarrow> Some (wt', w')
    | Some (Inr result, wt', w') \<Rightarrow> if result = ''empty_skipped'' then Some (wt', w') else Some (notify wt', w'))"

text \<open>
  \<^verbatim>\<open>Watcher.Run\<close>: the initial reconcile, whose outcome is only logged, then a wake-up by a keyspace event,
  the ticker or a forced reconcile. The other rules are the calls of the watcher's users and the rest
  of the world.
\<close>

definition watch_start :: "'h consistent_api \<Rightarrow> 'w scan_cmd \<Rightarrow> 'h Watcher \<Rightarrow> 'w \<Rightarrow> ('h Watcher \<times> 'w) option" where
  "watch_start api scan wt w = map_option snd (reconcile api scan wt w)"

inductive watch_step :: "'h consistent_api \<Rightarrow> 'w scan_cmd \<Rightarrow> 'h Watcher \<times> 'w \<Rightarrow> 'h Watcher \<times> 'w \<Rightarrow> bool"
  for api :: "'h consistent_api" and scan :: "'w scan_cmd" where
  wake: "runReconcile api scan wt w = Some (wt', w') \<Longrightarrow> watch_step api scan (wt, w) (wt', w')"
| forced: "wt_forceCh wt \<Longrightarrow> runReconcile api scan (wt\<lparr>wt_forceCh := False\<rparr>) w = Some (wt', w') \<Longrightarrow>
    watch_step api scan (wt, w) (wt', w')"
| force: "watch_step api scan (wt, w) (ForceReconcile wt, w)"
| receive: "wt_events wt \<Longrightarrow> watch_step api scan (wt, w) (wt\<lparr>wt_events := False\<rparr>, w)"
| other: "watch_step api scan (wt, w) (wt, w')"

inductive_cases watch_stepE: "watch_step api scan (wt, w) c"

section \<open>What SCAN promises\<close>

text \<open>
  A full iteration from cursor 0: the worlds in which its calls were made and the keys they returned.
\<close>

inductive scan_path :: "'w scan_cmd \<Rightarrow> string \<Rightarrow> nat \<Rightarrow> 'w \<Rightarrow> 'w list \<Rightarrow> string list \<Rightarrow> 'w \<Rightarrow> bool"
  for scan :: "'w scan_cmd" and pat :: string where
  last: "scan c pat scanCount w = (Inr (ks, 0), w') \<Longrightarrow> scan_path scan pat c w [w] ks w'"
| more: "scan c pat scanCount w = (Inr (ks, c'), w1) \<Longrightarrow> c' \<noteq> 0 \<Longrightarrow> scan_path scan pat c' w1 ws ks' w' \<Longrightarrow>
    scan_path scan pat c w (w # ws) (ks @ ks') w'"

text \<open>
  The documented guarantees of \<^verbatim>\<open>SCAN\<close> with a pattern that is a prefix and a star: a full iteration
  returns every matching key that was there during all of it, and none that was never there.
\<close>

locale scan_server =
  fixes scan :: "'w scan_cmd" and live :: "'w \<Rightarrow> string \<Rightarrow> bool" and plain :: "string \<Rightarrow> bool"
  assumes scan_complete: "plain p \<Longrightarrow> scan_path scan (p @ ''*'') 0 w ws ks w' \<Longrightarrow> (\<And>v. v \<in> set ws \<Longrightarrow> live v (p @ a)) \<Longrightarrow> p @ a \<in> set ks"
    and scan_sound: "plain p \<Longrightarrow> scan_path scan (p @ ''*'') 0 w ws ks w' \<Longrightarrow> k \<in> set ks \<Longrightarrow>
          (\<exists>a. k = p @ a) \<and> (\<exists>v\<in>set ws. live v k)"

section \<open>Lemmas on the watcher\<close>

lemma TrimPrefix_append [simp]: "TrimPrefix (p @ a) p = a"
  by (simp add: TrimPrefix_def)

lemma dedupeMemberKeys_facts:
  "set (dedupeMemberKeys keys p) = (\<lambda>k. TrimPrefix k p) ` set keys" "distinct (dedupeMemberKeys keys p)" "sorted (dedupeMemberKeys keys p)"
  by (simp_all add: dedupeMemberKeys_def dedupe_set dedupe_distinct)

text \<open>The loop returns a list exactly when the server's cursors come back to 0.\<close>

lemma scan_loop_path: "scan_path scan pat c w ws ks w' \<Longrightarrow> scan_loop scan pat c acc w = Some (Inr (acc @ ks), w')"
proof (induction arbitrary: acc rule: scan_path.induct)
  case (last c w ks w')
  then show ?case by (subst scan_loop.simps) simp
next
  case (more c w ks c' w1 ws ks' w')
  then show ?case by (subst scan_loop.simps) simp
qed

lemma scan_loop_ok:
  assumes "scan_loop scan pat c acc w = Some (r, w')" and "r = Inr out"
  shows "\<exists>ws ks. scan_path scan pat c w ws ks w' \<and> out = acc @ ks"
proof -
  have "\<forall>out. fst y = Inr out \<longrightarrow> (\<exists>ws ks. scan_path scan pat c w ws ks (snd y) \<and> out = acc @ ks)"
    if "scan_loop scan pat c acc w = Some y" for y
    using that
  proof (induction rule: scan_loop.raw_induct [rotated, consumes 1, case_names step])
    case (step loop scan pat c acc w y)
    show ?case
    proof (intro allI impI)
      fix out assume out: "fst y = Inr out"
      obtain ks c' w1 where call: "scan c pat scanCount w = (Inr (ks, c'), w1)"
        using step(2) out by (auto split: prod.splits sum.splits)
      show "\<exists>ws ks. scan_path scan pat c w ws ks (snd y) \<and> out = acc @ ks"
      proof (cases "c' = 0")
        case True
        then have "y = (Inr (acc @ ks), w1)" "out = acc @ ks" using step(2) out call by auto
        then show ?thesis using scan_path.last [of scan c pat w ks w1] call True by (intro exI [of _ "[w]"] exI [of _ ks]) simp
      next
        case False
        then have "loop scan pat c' (acc @ ks) w1 = Some y" using step(2) call by simp
        from step(1) [OF this] out obtain ws ks' where "scan_path scan pat c' w1 ws ks' (snd y)" "out = (acc @ ks) @ ks'" by blast
        then show ?thesis using scan_path.more [of scan c pat w ks c' w1 ws ks' "snd y"] call False
          by (intro exI [of _ "w # ws"] exI [of _ "ks @ ks'"]) simp
      qed
    qed
  qed
  then show ?thesis using assms by fastforce
qed

lemma scanMembers_path:
  "scanMembers scan wt w = Some (Inr addrs, w') \<longleftrightarrow>
    (\<exists>ws ks. scan_path scan (wt_keyPrefix wt @ ''*'') 0 w ws ks w' \<and> addrs = dedupeMemberKeys ks (wt_keyPrefix wt))"
proof
  assume "scanMembers scan wt w = Some (Inr addrs, w')"
  then obtain ks where "scan_loop scan (wt_keyPrefix wt @ ''*'') 0 [] w = Some (Inr ks, w')" "addrs = dedupeMemberKeys ks (wt_keyPrefix wt)"
    by (auto simp: scanMembers_def split: option.splits sum.splits prod.splits)
  then show "\<exists>ws ks. scan_path scan (wt_keyPrefix wt @ ''*'') 0 w ws ks w' \<and> addrs = dedupeMemberKeys ks (wt_keyPrefix wt)"
    using scan_loop_ok by fastforce
next
  assume "\<exists>ws ks. scan_path scan (wt_keyPrefix wt @ ''*'') 0 w ws ks w' \<and> addrs = dedupeMemberKeys ks (wt_keyPrefix wt)"
  then obtain ws ks where p: "scan_path scan (wt_keyPrefix wt @ ''*'') 0 w ws ks w'" and a: "addrs = dedupeMemberKeys ks (wt_keyPrefix wt)"
    by blast
  show "scanMembers scan wt w = Some (Inr addrs, w')"
    using scan_loop_path [OF p, of "[]"] a by (simp add: scanMembers_def)
qed

lemma scanMembers_distinct: "scanMembers scan wt w = Some (Inr addrs, w') \<Longrightarrow> distinct addrs"
  using dedupeMemberKeys_facts by (fastforce simp: scanMembers_path)

text \<open>The map of the last addresses is the set of the addresses just applied, whether it was replaced or not.\<close>

lemma membershipChanged_last:
  assumes "distinct addrs" and "finite (wt_lastAddrs wt)"
  shows "snd (membershipChanged addrs wt) = wt\<lparr>wt_lastAddrs := set addrs\<rparr>"
proof -
  have "set addrs = wt_lastAddrs wt" if "length addrs = card (wt_lastAddrs wt)" "set addrs \<subseteq> wt_lastAddrs wt"
    using that assms card_subset_eq [of "wt_lastAddrs wt" "set addrs"] by (simp add: distinct_card)
  then show ?thesis by (cases wt) (auto simp: membershipChanged_def list_ex_iff subset_iff)
qed

section \<open>A registration lives as long as its heartbeat\<close>

text \<open>
  The time left before the key expires, along the events of the registry's loop, or none if it ran out: a
  heartbeat that reaches the server starts a new period, whether its reply arrives or not.
\<close>

fun time_left :: "int \<Rightarrow> reg_event list \<Rightarrow> int \<Rightarrow> int option" where
  "time_left ttl [] left = Some left"
| "time_left ttl (HeartbeatTick d n # es) left =
    (if 0 \<le> d \<and> d < left then time_left ttl es (case n of NoRequest _ \<Rightarrow> left - d | _ \<Rightarrow> ttl) else None)"
| "time_left ttl (CtxDone d n # es) left = None"

context redis
begin

lemma refresh_view:
  assumes "0 < reg_ttl r"
  shows "view (snd (reg_refresh api r n s)) = (case n of NoRequest _ \<Rightarrow> view s
      | _ \<Rightarrow> (view s)(reg_key r \<mapsto> (RStr (reg_token r), Some (clock s + reg_ttl r))))"
    and "clock (snd (reg_refresh api r n s)) = clock s"
  using assms by (cases n; auto simp: reg_refresh_def set_px)+

lemma beating:
  assumes "0 < reg_ttl r" and "view s (reg_key r) = Some (RStr (reg_token r), Some (clock s + left))"
    and "time_left (reg_ttl r) es left = Some left'"
  shows "\<exists>t. view (reg_loop api r es s) (reg_key r) = Some (RStr (reg_token r), Some t) \<and> t = clock (reg_loop api r es s) + left'"
  using assms(2,3)
proof (induction es arbitrary: s left)
  case (Cons e es)
  then obtain d n where e: "e = HeartbeatTick d n" and d: "0 \<le> d" "d < left" by (cases e) (auto split: if_splits)
  define left1 where "left1 = (case n of NoRequest _ \<Rightarrow> left - d | _ \<Rightarrow> reg_ttl r)"
  have "view (r_tick api s d) (reg_key r) = Some (RStr (reg_token r), Some (clock s + left))"
    using tick_keeps [OF d(1) Cons.prems(1)] d by simp
  then have "view (snd (reg_refresh api r n (r_tick api s d))) (reg_key r) =
      Some (RStr (reg_token r), Some (clock (snd (reg_refresh api r n (r_tick api s d))) + left1))"
    using assms(1) by (cases n) (auto simp: refresh_view left1_def)
  moreover have "time_left (reg_ttl r) es left1 = Some left'" using Cons.prems(2) d e by (simp add: left1_def)
  ultimately show ?case using Cons.IH e by simp
qed simp

lemma deregister_view:
  assumes "view s (reg_key r) = Some (RStr tok, e)"
  shows "view (deregister api r n s) = (if tok = reg_token r \<and> (\<forall>err. n \<noteq> NoRequest err) then (view s)(reg_key r := None) else view s)"
  using assms get_str [OF assms] by (cases n) (auto simp: deregister_def compareAndDeleteScript_def del_view)

end

text \<open>C20: A registered instance stays visible: as long as the gaps between the heartbeats that reach the server are
  shorter than the time to live (heartbeats whose reply is lost count, those that never arrive do not), the
  address's key is live with the instance's own token, at every moment before the remaining time runs out.\<close>

theorem registration_kept_alive:
  assumes "redis api view clock" and "0 < reg_ttl r"
    and "time_left (reg_ttl r) es (reg_ttl r) = Some left" and "0 \<le> d" "d < left"
  shows "fst (reg_Run api r Reply es s) = Inr () \<and>
    (\<exists>t. view (r_tick api (snd (reg_Run api r Reply es s)) d) (reg_key r) = Some (RStr (reg_token r), Some t))"
proof -
  let ?s = "snd (reg_refresh api r Reply s)"
  have run: "reg_Run api r Reply es s = (Inr (), reg_loop api r es ?s)" by (simp add: reg_Run_def reg_refresh_def)
  have "view ?s (reg_key r) = Some (RStr (reg_token r), Some (clock ?s + reg_ttl r))"
    by (simp add: redis.refresh_view [OF assms(1,2)])
  from redis.beating [OF assms(1,2) this assms(3)]
  have "view (reg_loop api r es ?s) (reg_key r) = Some (RStr (reg_token r), Some (clock (reg_loop api r es ?s) + left))" by simp
  from redis.tick_keeps [OF assms(1) assms(4) this] show ?thesis using assms(5) by (auto simp: run)
qed

theorem registration_kept_alive_witness:
  "\<exists>t. mem_keys (r_tick mem_api (snd (reg_Run mem_api (NewRegistry ''u'' ''wss:member:'' ''a:1'' 30000 10000) Reply
      [HeartbeatTick 10000 (NoRequest CtxErr), HeartbeatTick 10000 Reply] \<lparr>mem_clock = 0, mem_keys = Map.empty\<rparr>)) 29999) ''wss:member:a:1''
    = Some (RStr ''u'', Some t)"
  using registration_kept_alive [OF mem.redis_axioms, of "NewRegistry ''u'' ''wss:member:'' ''a:1'' 30000 10000"
      "[HeartbeatTick 10000 (NoRequest CtxErr), HeartbeatTick 10000 Reply]" 30000 29999 "\<lparr>mem_clock = 0, mem_keys = Map.empty\<rparr>"]
  by (simp add: NewRegistry_def reg_key_def)

text \<open>An instance that shuts down removes only its own registration: when the key of its address already holds the
  token of a successor, deregistering leaves every key as it is, whatever happens to the call; when the key
  holds its own token, exactly that key goes, if the call reaches the server.\<close>

theorem deregister_spares_successor:
  assumes "redis api view clock" and "view s (reg_key r) = Some (RStr tok, e)"
  shows "view (deregister api r n s) =
    (if tok = reg_token r \<and> (\<forall>err. n \<noteq> NoRequest err) then (view s)(reg_key r := None) else view s)"
  by (rule redis.deregister_view [OF assms])

theorem deregister_spares_successor_witness:
  "mem_keys (deregister mem_api (NewRegistry ''old'' ''wss:member:'' ''a:1'' 30000 10000) Reply
      \<lparr>mem_clock = 0, mem_keys = [''wss:member:a:1'' \<mapsto> (RStr ''new'', Some 30000)]\<rparr>) ''wss:member:a:1'' = Some (RStr ''new'', Some 30000)"
  using deregister_spares_successor [OF mem.redis_axioms, of "\<lparr>mem_clock = 0, mem_keys = [''wss:member:a:1'' \<mapsto> (RStr ''new'', Some 30000)]\<rparr>"
      "NewRegistry ''old'' ''wss:member:'' ''a:1'' 30000 10000" "''new''" "Some 30000" Reply]
  by (simp add: NewRegistry_def reg_key_def)

section \<open>The ring follows the registered members\<close>

text \<open>A reconcile that does not end with \<^verbatim>\<open>ok\<close> leaves the ring and the last addresses alone.\<close>

lemma reconcile_cases:
  fixes wt wt' :: "'h Watcher"
  assumes "reconcile api scan wt w = Some (r, wt', w')" and "finite (wt_lastAddrs wt)"
  obtains (error) err where "r = Inl err" "wt' = wt"
  | (empty) "r = Inr ''empty_skipped''" "wt' = wt\<lparr>wt_lastMemberCount := 0\<rparr>" "wt_lastAddrs wt \<noteq> {}"
  | (ok) addrs where "r = Inr ''ok''" "scanMembers scan wt w = Some (Inr addrs, w')" "addrs \<noteq> [] \<or> wt_lastAddrs wt = {}"
      "wt' = wt\<lparr>wt_lastMemberCount := int32_of (int (length addrs)), wt_ring := ring_Set api addrs (wt_ring wt), wt_lastAddrs := set addrs\<rparr>"
proof (cases "scanMembers scan wt w")
  case (Some y)
  obtain x v where y: "y = (x, v)" by force
  show ?thesis
  proof (cases x)
    case (Inl err)
    then show ?thesis using assms Some y by (intro error [of err]) (simp_all add: reconcile_def)
  next
    case (Inr addrs)
    have d: "distinct addrs" using scanMembers_distinct Some y Inr by fast
    show ?thesis
    proof (cases "addrs = [] \<and> card (wt_lastAddrs wt) > 0")
      case True
      then show ?thesis using assms(1) Some y Inr by (intro empty) (auto simp: reconcile_def)
    next
      case False
      have "snd (membershipChanged addrs v) = v\<lparr>wt_lastAddrs := set addrs\<rparr>" if "wt_lastAddrs v = wt_lastAddrs wt" for v :: "'h Watcher"
        using membershipChanged_last [OF d, of v] assms(2) that by simp
      then show ?thesis using assms Some y Inr False ok [of addrs]
        by (auto simp: reconcile_def Let_def case_prod_beta card_gt_0_iff)
    qed
  qed
qed (use assms in \<open>simp add: reconcile_def\<close>)

lemma runReconcile_fields:
  assumes "runReconcile api scan wt w = Some (wt', w')"
  shows "\<exists>r wt1. reconcile api scan wt w = Some (r, wt1, w') \<and> wt_ring wt' = wt_ring wt1 \<and> wt_lastAddrs wt' = wt_lastAddrs wt1 \<and>
    (r = Inr ''ok'' \<longrightarrow> wt_events wt')"
  using assms by (auto simp: runReconcile_def notify_def split: option.splits prod.splits sum.splits if_splits)

text \<open>The watcher's memory agrees with its ring.\<close>

definition watcher_inv :: "'h consistent_api \<Rightarrow> 'h Watcher \<Rightarrow> bool" where
  "watcher_inv api wt \<longleftrightarrow> wt_lastAddrs wt = set (c_GetMembers api (wt_ring wt))"

lemma watcher_inv_finite: "watcher_inv api wt \<Longrightarrow> finite (wt_lastAddrs wt)"
  by (simp add: watcher_inv_def)

context consistent
begin

lemma reconcile_inv:
  assumes "reconcile api scan wt w = Some (r, wt', w')" and inv: "watcher_inv api wt"
  shows "watcher_inv api wt' \<and> (wt_lastAddrs wt \<noteq> {} \<longrightarrow> wt_lastAddrs wt' \<noteq> {})"
  using assms(1) watcher_inv_finite [OF inv]
proof (cases rule: reconcile_cases)
  case (ok addrs)
  then show ?thesis by (auto simp: watcher_inv_def Set_members)
qed (use inv in \<open>auto simp: watcher_inv_def\<close>)

lemma runReconcile_inv:
  assumes "runReconcile api scan wt w = Some (wt', w')" and inv: "watcher_inv api wt"
  shows "watcher_inv api wt' \<and> (wt_lastAddrs wt \<noteq> {} \<longrightarrow> wt_lastAddrs wt' \<noteq> {})"
  using runReconcile_fields [OF assms(1)] reconcile_inv [OF _ inv] by (fastforce simp: watcher_inv_def)

lemma watch_step_inv:
  assumes "watch_step api scan c c'" and "watcher_inv api (fst c)"
  shows "watcher_inv api (fst c') \<and> (wt_lastAddrs (fst c) \<noteq> {} \<longrightarrow> wt_lastAddrs (fst c') \<noteq> {})"
  using assms
proof cases
  case (wake wt w wt' w')
  then show ?thesis using runReconcile_inv [of scan wt w wt' w'] assms(2) by auto
next
  case (forced wt w wt' w')
  then show ?thesis using runReconcile_inv [of scan "wt\<lparr>wt_forceCh := False\<rparr>" w wt' w'] assms(2) by (auto simp: watcher_inv_def)
qed (auto simp: watcher_inv_def ForceReconcile_def)

lemma watch_steps_inv:
  assumes "(watch_step api scan)\<^sup>*\<^sup>* c c'" and "watcher_inv api (fst c)"
  shows "watcher_inv api (fst c') \<and> (wt_lastAddrs (fst c) \<noteq> {} \<longrightarrow> wt_lastAddrs (fst c') \<noteq> {})"
  using assms by (induction rule: rtranclp_induct) (auto dest: watch_step_inv)

end

text \<open>C18: From the moment a watcher, started on the empty ring, has put a member into its ring, the ring is never empty
  again, whatever the following wake-ups, scan failures, empty scans, forced reconciles and actions of others are:
  \<^verbatim>\<open>Locate\<close> always names a member, and the watcher's remembered addresses are exactly the ring's members.\<close>

theorem ring_never_emptied:
  assumes "consistent api"
    and "watch_start api scan (NewWatcher pre (ring_New api [])) w = Some c"
    and "(watch_step api scan)\<^sup>*\<^sup>* c c'" and "(watch_step api scan)\<^sup>*\<^sup>* c' c''"
    and "c_GetMembers api (wt_ring (fst c')) \<noteq> []"
  shows "Locate api (wt_ring (fst c'')) roomID \<in> set (c_GetMembers api (wt_ring (fst c'')))
    \<and> wt_lastAddrs (fst c'') = set (c_GetMembers api (wt_ring (fst c'')))"
proof -
  have "watcher_inv api (NewWatcher pre (ring_New api []))"
    by (simp add: watcher_inv_def NewWatcher_def consistent.New_members [OF assms(1)])
  then have "watcher_inv api (fst c)"
    using assms(2) consistent.reconcile_inv [OF assms(1)] by (fastforce simp: watch_start_def)
  then have "watcher_inv api (fst c')" using consistent.watch_steps_inv [OF assms(1,3)] by blast
  then have "watcher_inv api (fst c'')" "wt_lastAddrs (fst c'') \<noteq> {}"
    using consistent.watch_steps_inv [OF assms(1,4)] assms(5) by (auto simp: watcher_inv_def)
  then show ?thesis using consistent.Locate_member [OF assms(1)] by (auto simp: watcher_inv_def)
qed

text \<open>C19: A reconcile whose scan completes with at least one address (or on a ring that never had one) sets the ring to
  what is registered: every address whose key was live during the whole scan is on the ring, and every
  address on the ring had a live key at some point of the scan.\<close>

theorem reconcile_tracks_members:
  assumes "consistent api" and "scan_server scan live plain" and "plain (wt_keyPrefix wt)" and "watcher_inv api wt"
    and "reconcile api scan wt w = Some (Inr ''ok'', wt', w')"
  shows "\<exists>ws ks. scan_path scan (wt_keyPrefix wt @ ''*'') 0 w ws ks w'
    \<and> (\<forall>a. (\<forall>v\<in>set ws. live v (wt_keyPrefix wt @ a)) \<longrightarrow> Contains api (wt_ring wt') a)
    \<and> (\<forall>a. Contains api (wt_ring wt') a \<longrightarrow> (\<exists>v\<in>set ws. live v (wt_keyPrefix wt @ a)))"
  using assms(5) watcher_inv_finite [OF assms(4)]
proof (cases rule: reconcile_cases)
  case (ok addrs)
  let ?p = "wt_keyPrefix wt"
  obtain ws ks where path: "scan_path scan (?p @ ''*'') 0 w ws ks w'" and addrs: "addrs = dedupeMemberKeys ks ?p"
    using ok(2) by (auto simp: scanMembers_path)
  have ring: "Contains api (wt_ring wt') a \<longleftrightarrow> a \<in> set addrs" for a
    using ok(4) by (simp add: consistent.Len_Contains [OF assms(1)] consistent.Set_members [OF assms(1)])
  have "a \<in> set addrs" if "\<forall>v\<in>set ws. live v (?p @ a)" for a
  proof -
    have "?p @ a \<in> set ks" using scan_server.scan_complete [OF assms(2,3) path] that by blast
    then show ?thesis unfolding addrs dedupeMemberKeys_facts using TrimPrefix_append by (metis image_eqI)
  qed
  moreover have "\<exists>v\<in>set ws. live v (?p @ a)" if at: "a \<in> set addrs" for a
  proof -
    obtain k where "k \<in> set ks" "a = TrimPrefix k ?p" using at unfolding addrs dedupeMemberKeys_facts by blast
    then show ?thesis using scan_server.scan_sound [OF assms(2,3) path] by fastforce
  qed
  ultimately show ?thesis using path ring by blast
qed simp_all

section \<open>A server that pages through its keys\<close>

text \<open>It shows that the guarantees of \<^verbatim>\<open>SCAN\<close> can hold: the world is the list of keys, a cursor is a position.\<close>

definition page_scan :: "string list scan_cmd" where
  "page_scan c pat cnt keys =
    (let page = filter (\<lambda>k. take (length pat - 1) k = butlast pat) (take (nat cnt) (drop c keys)) in
     (Inr (page, if length keys \<le> c + nat cnt then 0 else c + nat cnt), keys))"

lemma page_scan_path:
  assumes "scan_path page_scan (p @ ''*'') c w ws ks w'"
  shows "w' = w \<and> ws \<noteq> [] \<and> set ws = {w} \<and> ks = filter (\<lambda>k. take (length p) k = p) (drop c w)"
  using assms
proof (induction rule: scan_path.induct)
  case (last c w ks w')
  then show ?case by (auto simp: page_scan_def Let_def scanCount_def butlast_append split: if_splits)
next
  case (more c w ks c' w1 ws ks' w')
  have "ks = filter (\<lambda>k. take (length p) k = p) (take 100 (drop c w))" "w1 = w" "c' = c + 100"
    using more(1,2) by (auto simp: page_scan_def Let_def scanCount_def butlast_append split: if_splits)
  moreover have "drop c w = take 100 (drop c w) @ drop (c + 100) w"
    by (metis append_take_drop_id drop_drop add.commute)
  ultimately show ?case using more.IH by (metis filter_append list.distinct(1) insert_absorb2 list.simps(15))
qed

interpretation page: scan_server page_scan "\<lambda>keys k. k \<in> set keys" "\<lambda>p. True"
proof unfold_locales
  fix p a k :: string and w ws w' ks
  assume "scan_path page_scan (p @ ''*'') 0 w ws ks w'"
  note path = page_scan_path [OF this]
  then obtain v where v: "v \<in> set ws" by auto
  show "p @ a \<in> set ks" if "\<And>v. v \<in> set ws \<Longrightarrow> p @ a \<in> set v" using path that by auto
  show "(\<exists>a. k = p @ a) \<and> (\<exists>v\<in>set ws. k \<in> set v)" if "k \<in> set ks"
    using path that by (auto, metis append_take_drop_id)
qed

section \<open>Examples\<close>

text \<open>One watcher that has seen an instance, and then a scan that finds none.\<close>

definition wt_one :: "string list Watcher" where
  "wt_one = \<lparr>wt_keyPrefix = ''wss:member:'', wt_ring = [''a:1''], wt_forceCh = False, wt_events = False,
     wt_lastAddrs = {''a:1''}, wt_lastMemberCount = 1\<rparr>"

lemma scan_none: "scanMembers page_scan wt_one [] = Some (Inr [], [])"
  by (simp add: scanMembers_def scan_loop.simps page_scan_def Let_def scanCount_def dedupeMemberKeys_def)

lemma scan_one: "wt_keyPrefix wt = ''wss:member:'' \<Longrightarrow> scanMembers page_scan wt [''wss:member:a:1''] = Some (Inr [''a:1''], [''wss:member:a:1''])"
  by (simp add: scanMembers_def scan_loop.simps page_scan_def Let_def scanCount_def dedupeMemberKeys_def TrimPrefix_def)

lemma start_one:
  "watch_start list_ring page_scan (NewWatcher ''wss:member:'' (ring_New list_ring [])) [''wss:member:a:1''] = Some (wt_one, [''wss:member:a:1''])"
  by (simp add: watch_start_def reconcile_def scan_one NewWatcher_def ring_New_def normalizeMembers_def ring_Set_def
      list_ring_def membershipChanged_def wt_one_def insort_insert_triv insort_insert_insort)

theorem ring_never_emptied_witness:
  "Locate list_ring (wt_ring (wt_one\<lparr>wt_lastMemberCount := 0\<rparr>)) ''room'' \<in> {''a:1''}"
proof -
  have "watch_step list_ring page_scan (wt_one, [''wss:member:a:1'']) (wt_one, [])" by (rule watch_step.other)
  moreover have "runReconcile list_ring page_scan wt_one [] = Some (wt_one\<lparr>wt_lastMemberCount := 0\<rparr>, [])"
    by (simp add: runReconcile_def reconcile_def scan_none) (simp add: wt_one_def)
  ultimately have "(watch_step list_ring page_scan)\<^sup>*\<^sup>* (wt_one, [''wss:member:a:1'']) (wt_one\<lparr>wt_lastMemberCount := 0\<rparr>, [])"
    by (meson converse_rtranclp_into_rtranclp r_into_rtranclp watch_step.wake)
  from ring_never_emptied [OF lr.consistent_axioms start_one rtranclp.rtrancl_refl this, of "''room''"]
  show ?thesis by (simp add: wt_one_def list_ring_def)
qed

theorem reconcile_tracks_members_witness:
  "\<exists>ws ks. scan_path page_scan ''wss:member:*'' 0 [''wss:member:a:1''] ws ks [''wss:member:a:1'']
    \<and> (\<forall>a. (\<forall>v\<in>set ws. ''wss:member:'' @ a \<in> set v) \<longrightarrow> Contains list_ring [''a:1''] a)
    \<and> (\<forall>a. Contains list_ring [''a:1''] a \<longrightarrow> (\<exists>v\<in>set ws. ''wss:member:'' @ a \<in> set v))"
proof -
  have r: "reconcile list_ring page_scan wt_one [''wss:member:a:1''] = Some (Inr ''ok'', wt_one, [''wss:member:a:1''])"
    by (simp add: reconcile_def scan_one wt_one_def normalizeMembers_def ring_Set_def list_ring_def membershipChanged_def)
  have "watcher_inv list_ring wt_one" by (simp add: watcher_inv_def wt_one_def list_ring_def)
  from reconcile_tracks_members [OF lr.consistent_axioms page.scan_server_axioms TrueI this r]
  show ?thesis by (simp add: wt_one_def)
qed

end
