(* ===== verification/WS_Gateway.thy ===== *)
theory WS_Gateway
  imports Http Membership
begin

text \<open>
  The WebSocket gateway (\<^verbatim>\<open>internal/wsgateway\<close>): it issues one-time tickets to users with an access
  token, exchanges a ticket for the user's identity when a WebSocket connection is opened, and forwards
  the request to the instance that the hash ring names for the room. The transport to the instances,
  URL parsing and the JWT library are parameters.
\<close>

section \<open>Tickets\<close>

definition ticketKeyPrefix :: string where "ticketKeyPrefix = ''ws:ticket:''"

definition ts_Set :: "'r redis_api \<Rightarrow> string \<Rightarrow> string \<Rightarrow> int \<Rightarrow> net \<Rightarrow> 'r \<Rightarrow> go_error option \<times> 'r" where
  "ts_Set api ticket userID ttl n s = (case net_call n (\<lambda>s. r_setnx api s (ticketKeyPrefix @ ticket) userID ttl) s of
      (Inl err, s') \<Rightarrow> (Some (Wrap ''unable to set ticket'' err), s')
    | (Inr ok, s') \<Rightarrow> if \<not> ok then (Some (ErrNew ''ticket already exists''), s') else (None, s'))"

text \<open>The user's id, or none when Redis has no such key (\<^verbatim>\<open>redis.Nil\<close>).\<close>

definition ts_GetAndDelete :: "'r redis_api \<Rightarrow> string \<Rightarrow> net \<Rightarrow> 'r \<Rightarrow> (go_error + string option) \<times> 'r" where
  "ts_GetAndDelete api ticket n s = (case net_call n (\<lambda>s. r_getdel api s (ticketKeyPrefix @ ticket)) s of
      (Inl err, s') \<Rightarrow> (Inl (Wrap ''unable to get and delete ticket'' err), s')
    | (Inr r, s') \<Rightarrow> (Inr r, s'))"

section \<open>The router's state\<close>

datatype ws_json = StatusMap string | TicketResponse string

text \<open>
  What the router works with: Redis, the watcher with the ring it shares with the router, whether a
  Redis client and a member observer are configured, the outcome of a ping and of the next call to
  Redis, the targets that have a proxy, and everything behind the proxies.
\<close>

record ('r, 'h, 'u) ws_gateway =
  gw_redis :: 'r
  gw_watcher :: "'h Watcher"
  gw_hasRedis :: bool
  gw_isObserver :: bool
  gw_ping :: "string option"
  gw_net :: net
  gw_proxies :: "string list"
  gw_up :: 'u

record ws_gateway_cfg =
  gc_jwtSecret :: string
  gc_internalSecret :: string
  gc_TicketTTL :: int
  gc_PublicRPS :: int
  gc_PublicBurst :: int
  gc_WSRPS :: int
  gc_WSBurst :: int

text \<open>
  \<open>gl_send target limit request\<close> is the transport of the reverse proxy; \<open>limit\<close> bounds the bytes that can be
  read from the request's body.
\<close>

record ('r, 'h, 'u, 'a) gw_lib =
  gl_redis :: "'r redis_api"
  gl_ring :: "'h consistent_api"
  gl_parse_url :: "string \<Rightarrow> bool"
  gl_send :: "string \<Rightarrow> int option \<Rightarrow> 'a request \<Rightarrow> 'u \<Rightarrow> (go_error + ws_json response) \<times> 'u"
  gl_split_host_port :: "string \<Rightarrow> string option"
  gl_parse_jwt :: "string \<Rightarrow> string \<Rightarrow> string list \<Rightarrow> go_error + (UserClaims option \<times> bool)"
  gl_limit :: "string \<Rightarrow> int \<Rightarrow> int \<Rightarrow> 'r \<Rightarrow> (go_error + int) \<times> 'r"

section \<open>The reverse proxy\<close>

text \<open>
  \<^verbatim>\<open>httputil.ReverseProxy\<close> on the way out: the headers that \<^verbatim>\<open>Connection\<close> lists and the hop-by-hop headers are
  removed, \<^verbatim>\<open>Connection\<close> and \<^verbatim>\<open>Upgrade\<close> are set again for an upgrade, and the client's address is appended to
  \<^verbatim>\<open>X-Forwarded-For\<close>.
\<close>

definition hopHeaders :: "string list" where
  "hopHeaders = [''Connection'', ''Proxy-Connection'', ''Keep-Alive'', ''Proxy-Authenticate'', ''Proxy-Authorization'',
     ''Te'', ''Trailer'', ''Transfer-Encoding'', ''Upgrade'']"

definition connection_tokens :: "'a request \<Rightarrow> string list" where
  "connection_tokens rq = filter (\<lambda>t. t \<noteq> '''') (map (\<lambda>t. ascii_lower (TrimSpace t)) (Split CHR '','' (rq_Header rq ''Connection'')))"

definition removeHopByHopHeaders :: "'a request \<Rightarrow> 'a request" where
  "removeHopByHopHeaders rq = rq\<lparr>rq_Header := (\<lambda>k. if ascii_lower k \<in> set (connection_tokens rq) \<or> k \<in> set hopHeaders then '''' else rq_Header rq k)\<rparr>"

definition upgradeType :: "'a request \<Rightarrow> string" where
  "upgradeType rq = (if ''upgrade'' \<in> set (connection_tokens rq) then rq_Header rq ''Upgrade'' else '''')"

definition outgoing :: "(string \<Rightarrow> string option) \<Rightarrow> 'a request \<Rightarrow> 'a request" where
  "outgoing split_host_port rq =
    (let up = upgradeType rq;
         rq1 = removeHopByHopHeaders rq;
         rq2 = (if up \<noteq> '''' then rq1\<lparr>rq_Header := (rq_Header rq1)(''Connection'' := ''Upgrade'', ''Upgrade'' := up)\<rparr> else rq1)
     in case split_host_port (rq_RemoteAddr rq) of
          None \<Rightarrow> rq2
        | Some clientIP \<Rightarrow>
            (let prior = rq_Header rq2 ''X-Forwarded-For'' in
             rq2\<lparr>rq_Header := (rq_Header rq2)(''X-Forwarded-For'' := (if prior = '''' then clientIP else prior @ '', '' @ clientIP))\<rparr>))"

definition set_header :: "string \<Rightarrow> string \<Rightarrow> (string \<times> string) list \<Rightarrow> (string \<times> string) list" where
  "set_header k v hs = (k, v) # filter (\<lambda>h. fst h \<noteq> k) hs"

text \<open>The bytes of the problem that replaces a misdirected response.\<close>

definition stale_problem :: ProblemDetail where
  "stale_problem = \<lparr>pd_Type = ''about:blank'', pd_Title = StatusText 503, pd_Status = 503, pd_Detail = ''membership stale, please retry''\<rparr>"

definition quoted :: "string \<Rightarrow> string" where "quoted s = [CHR 0x22] @ s @ [CHR 0x22]"

definition stale_json :: string where
  "stale_json = ''{'' @ quoted ''type'' @ '':'' @ quoted (pd_Type stale_problem) @ '','' @ quoted ''title'' @ '':'' @ quoted (pd_Title stale_problem) @ '',''
     @ quoted ''status'' @ '':'' @ format_int (pd_Status stale_problem) @ '','' @ quoted ''detail'' @ '':'' @ quoted (pd_Detail stale_problem) @ ''}''"

definition ModifyResponse :: "ws_json response \<Rightarrow> ('r, 'h, 'u) ws_gateway \<Rightarrow> ws_json response \<times> ('r, 'h, 'u) ws_gateway" where
  "ModifyResponse resp g =
    (if rs_Status resp \<noteq> 421 then (resp, g)
     else (resp\<lparr>rs_Status := 503, rs_Body := Problem stale_problem,
              rs_Header := set_header ''Content-Length'' (format_int (int (length stale_json)))
                (set_header ''Content-Type'' ''application/problem+json'' (rs_Header resp))\<rparr>,
           g\<lparr>gw_watcher := ForceReconcile (gw_watcher g)\<rparr>))"

text \<open>A proxy exists per target; the result says whether the target's URL could be parsed.\<close>

definition getOrCreateProxy :: "(string \<Rightarrow> bool) \<Rightarrow> string \<Rightarrow> ('r, 'h, 'u) ws_gateway \<Rightarrow> bool \<times> ('r, 'h, 'u) ws_gateway" where
  "getOrCreateProxy parse_url targetAddr g =
    (if targetAddr \<in> set (gw_proxies g) then (True, g)
     else if \<not> parse_url (''http://'' @ targetAddr) then (False, g)
     else (True, g\<lparr>gw_proxies := targetAddr # gw_proxies g\<rparr>))"

definition proxy_ServeHTTP :: "('r, 'h, 'u, 'a) gw_lib \<Rightarrow> string \<Rightarrow> int option \<Rightarrow> 'a request \<Rightarrow> ('r, 'h, 'u) ws_gateway \<Rightarrow> ws_json response \<times> ('r, 'h, 'u) ws_gateway" where
  "proxy_ServeHTTP L targetAddr limit rq g = (case gl_send L targetAddr limit (outgoing (gl_split_host_port L) rq) (gw_up g) of
      (Inl err, u) \<Rightarrow> (WriteProblem 502 ''reverse proxy error'', g\<lparr>gw_up := u\<rparr>)
    | (Inr resp, u) \<Rightarrow> ModifyResponse resp (g\<lparr>gw_up := u\<rparr>))"

section \<open>Handlers\<close>

text \<open>\<open>ticket\<close> is the result of \<^verbatim>\<open>uuid.NewString()\<close>.\<close>

definition handleCreateWSTicket :: "('r, 'h, 'u, 'a) gw_lib \<Rightarrow> ws_gateway_cfg \<Rightarrow> string \<Rightarrow> ('a, ws_json, ('r, 'h, 'u) ws_gateway) handler" where
  "handleCreateWSTicket L cfg ticket cx rq g = (case GetUserID cx of
      None \<Rightarrow> (WriteProblem 401 ''missing user identity'', g)
    | Some userID \<Rightarrow> (case ts_Set (gl_redis L) ticket userID (gc_TicketTTL cfg) (gw_net g) (gw_redis g) of
          (Some err, s) \<Rightarrow> (WriteProblem 500 ''failed to issue ticket'', g\<lparr>gw_redis := s\<rparr>)
        | (None, s) \<Rightarrow> (WriteJSON 200 (TicketResponse ticket), g\<lparr>gw_redis := s\<rparr>)))"

definition proxyWebSocket :: "('r, 'h, 'u, 'a) gw_lib \<Rightarrow> ('a, ws_json, ('r, 'h, 'u) ws_gateway) handler" where
  "proxyWebSocket L cx rq g = (let ticket = query_Get rq ''ticket'' in
     if ticket = '''' then (WriteProblem 401 ''missing ticket'', g)
     else (case ts_GetAndDelete (gl_redis L) ticket (gw_net g) (gw_redis g) of
         (Inl err, s) \<Rightarrow> (WriteProblem 500 ''failed to validate ticket'', g\<lparr>gw_redis := s\<rparr>)
       | (Inr None, s) \<Rightarrow> (WriteProblem 401 ''invalid or expired ticket'', g\<lparr>gw_redis := s\<rparr>)
       | (Inr (Some userID), s) \<Rightarrow>
           (let g = g\<lparr>gw_redis := s\<rparr>; roomID = query_Get rq ''room_id'' in
            if roomID = '''' then (WriteProblem 400 ''room_id is required'', g)
            else (let targetAddr = Locate (gl_ring L) (wt_ring (gw_watcher g)) roomID in
              if targetAddr = '''' then (WriteProblem 503 ''ring not ready, please retry'', g)
              else (let rq = rq\<lparr>rq_Header := (rq_Header rq)(''X-User-ID'' := userID)\<rparr> in
                case getOrCreateProxy (gl_parse_url L) targetAddr g of
                  (False, g) \<Rightarrow> (WriteProblem 502 ''failed to create proxy'', g)
                | (True, g) \<Rightarrow> proxy_ServeHTTP L targetAddr None rq g)))))"

definition maxBroadcastPayload :: int where "maxBroadcastPayload = 65536"

definition proxyInternalRequest :: "('r, 'h, 'u, 'a) gw_lib \<Rightarrow> ('a, ws_json, ('r, 'h, 'u) ws_gateway) handler" where
  "proxyInternalRequest L cx rq g = (let roomID = rq_PathID rq in
     if roomID = '''' then (WriteProblem 400 ''room_id is required'', g)
     else (let targetAddr = Locate (gl_ring L) (wt_ring (gw_watcher g)) roomID in
       if targetAddr = '''' then
         (if rq_Method rq = ''DELETE'' then (WriteHeader 204, g)
          else (WriteProblem 500 ''no websocket server available'', g))
       else (case getOrCreateProxy (gl_parse_url L) targetAddr g of
           (False, g) \<Rightarrow> (WriteProblem 502 ''failed to create proxy'', g)
         | (True, g) \<Rightarrow> proxy_ServeHTTP L targetAddr (Some maxBroadcastPayload) rq g)))"

definition gw_handleBroadcast :: "('r, 'h, 'u, 'a) gw_lib \<Rightarrow> ('a, ws_json, ('r, 'h, 'u) ws_gateway) handler" where
  "gw_handleBroadcast L = proxyInternalRequest L"

definition gw_handleCloseRoom :: "('r, 'h, 'u, 'a) gw_lib \<Rightarrow> ('a, ws_json, ('r, 'h, 'u) ws_gateway) handler" where
  "gw_handleCloseRoom L = proxyInternalRequest L"

definition gw_readinessFailures :: "('r, 'h, 'u, 'a) gw_lib \<Rightarrow> ('r, 'h, 'u) ws_gateway \<Rightarrow> string list" where
  "gw_readinessFailures L g =
     (if \<not> gw_hasRedis g then [''redis client not configured'']
      else (case gw_ping g of None \<Rightarrow> [] | Some err \<Rightarrow> [''redis ping failed: '' @ err]))
     @ (if \<not> gw_isObserver g then [''membership observer not configured'']
        else if \<not> HasObservedMembers (gw_watcher g) then [''membership has no observed members''] else [])
     @ (if Len (gl_ring L) (wt_ring (gw_watcher g)) = 0 then [''hash ring empty''] else [])"

definition gw_handleReady :: "('r, 'h, 'u, 'a) gw_lib \<Rightarrow> ('a, ws_json, ('r, 'h, 'u) ws_gateway) handler" where
  "gw_handleReady L cx rq g = (let failures = gw_readinessFailures L g in
     if failures \<noteq> [] then (WriteProblem 503 (''not ready: '' @ Join ''; '' failures), g)
     else (WriteJSON 200 (StatusMap ''ready''), g))"

text \<open>A limiter of the router: the library's script on the router's Redis.\<close>

definition gw_Allow :: "('r, 'h, 'u, 'a) gw_lib \<Rightarrow> int \<Rightarrow> int \<Rightarrow> string \<Rightarrow> ('r, 'h, 'u) ws_gateway \<Rightarrow> (go_error + bool) \<times> ('r, 'h, 'u) ws_gateway" where
  "gw_Allow L rate burst = limiter_Allow (\<lambda>key rate burst g. case gl_limit L key rate burst (gw_redis g) of (r, s) \<Rightarrow> (r, g\<lparr>gw_redis := s\<rparr>)) rate burst"

text \<open>The routes, by the patterns they are registered under.\<close>

definition gw_registerRoutes :: "('r, 'h, 'u, 'a) gw_lib \<Rightarrow> ws_gateway_cfg \<Rightarrow> string \<Rightarrow> (string \<times> ('a, ws_json, ('r, 'h, 'u) ws_gateway) handler) list" where
  "gw_registerRoutes L cfg ticket =
    (let publicMws = [RateLimitMiddleware (gw_Allow L (gc_PublicRPS cfg) (gc_PublicBurst cfg)) (IPKeyFunc (gl_split_host_port L))];
         ticketMws = [BearerAuthMiddleware (gl_parse_jwt L) (gc_jwtSecret cfg),
           RateLimitMiddleware (gw_Allow L (gc_WSRPS cfg) (gc_WSBurst cfg)) (ContextKeyFunc cx_UserID)];
         internalMws = [InternalAuthMiddleware (gc_internalSecret cfg)]
     in [(''GET /health'', \<lambda>cx rq g. (WriteJSON 200 (StatusMap ''healthy''), g)),
         (''GET /ready'', gw_handleReady L),
         (''POST /ws/ticket'', ChainMiddleware (handleCreateWSTicket L cfg ticket) ticketMws),
         (''GET /ws'', ChainMiddleware (proxyWebSocket L) publicMws),
         (''POST /internal/rooms/{id}/broadcast'', ChainMiddleware (gw_handleBroadcast L) internalMws),
         (''DELETE /internal/rooms/{id}'', ChainMiddleware (gw_handleCloseRoom L) internalMws)])"

section \<open>A ticket is worth one connection\<close>

context redis
begin

lemma ts_Set_ok:
  assumes "ts_Set api t u ttl n s = (None, s1)" and "0 < ttl"
  shows "view s1 = (view s)(ticketKeyPrefix @ t \<mapsto> (RStr u, Some (clock s + ttl)))" and "clock s1 = clock s"
proof -
  have 1: "n = Reply" "fst (r_setnx api s (ticketKeyPrefix @ t) u ttl)" "s1 = snd (r_setnx api s (ticketKeyPrefix @ t) u ttl)"
    using assms(1) by (cases n; auto simp: ts_Set_def split: if_splits prod.splits sum.splits)+
  then have "view s (ticketKeyPrefix @ t) = None" using setnx_old by blast
  from setnx_new [OF this assms(2)] 1(3) show "view s1 = (view s)(ticketKeyPrefix @ t \<mapsto> (RStr u, Some (clock s + ttl)))" by blast
  show "clock s1 = clock s" by (simp add: 1(3))
qed

lemma ts_GetAndDelete_str:
  assumes "view s (ticketKeyPrefix @ t) = Some (RStr u, e)"
  shows "fst (ts_GetAndDelete api t Reply s) = Inr (Some u)"
    and "(\<And>err. n \<noteq> NoRequest err) \<Longrightarrow> view (snd (ts_GetAndDelete api t n s)) = (view s)(ticketKeyPrefix @ t := None)"
  using assms getdel_str [OF assms] getdel_view [of s "ticketKeyPrefix @ t"] by (cases n; auto simp: ts_GetAndDelete_def)+

lemma ts_GetAndDelete_none:
  "view s (ticketKeyPrefix @ t) = None \<Longrightarrow> fst (ts_GetAndDelete api t Reply s) = Inr None"
  by (simp add: ts_GetAndDelete_def getdel_none)

lemma ts_GetAndDelete_some:
  assumes "ts_GetAndDelete api t n s = (Inr (Some u), s')" and "view s (ticketKeyPrefix @ t) \<noteq> None \<longrightarrow> (\<exists>v e. view s (ticketKeyPrefix @ t) = Some (RStr v, e))"
  shows "(\<exists>e. view s (ticketKeyPrefix @ t) = Some (RStr u, e)) \<and> view s' = (view s)(ticketKeyPrefix @ t := None)"
proof -
  have n: "n = Reply" using assms(1) by (cases n) (auto simp: ts_GetAndDelete_def)
  show ?thesis
  proof (cases "view s (ticketKeyPrefix @ t)")
    case None
    then show ?thesis using ts_GetAndDelete_none [OF None] assms(1) n by simp
  next
    case (Some y)
    then obtain v e where v: "view s (ticketKeyPrefix @ t) = Some (RStr v, e)" using assms(2) by auto
    from ts_GetAndDelete_str(1) [OF v] ts_GetAndDelete_str(2) [OF v, of Reply] assms(1) n v show ?thesis by auto
  qed
qed

lemma gone_stays: "view s k = None \<Longrightarrow> 0 \<le> d \<Longrightarrow> view (r_tick api s d) k = None"
  using tick_sub [of d s k] by auto

end

text \<open>C21: A ticket that was issued to a user is redeemed for exactly that user until it expires, and once: after an
  exchange that reached Redis, with or without its reply, the ticket is unknown for ever after, and no
  other key is touched by the exchange.\<close>

theorem ticket_round_trip:
  assumes "redis api view clock" and "0 < ttl" and "ts_Set api t u ttl n s = (None, s1)" and "0 \<le> d" "d < ttl"
  shows "fst (ts_GetAndDelete api t Reply (r_tick api s1 d)) = Inr (Some u) \<and>
    ((\<forall>err. m \<noteq> NoRequest err) \<longrightarrow>
      (\<forall>d'\<ge>0. fst (ts_GetAndDelete api t Reply (r_tick api (snd (ts_GetAndDelete api t m (r_tick api s1 d))) d')) = Inr None) \<and>
      view (snd (ts_GetAndDelete api t m (r_tick api s1 d))) = (view (r_tick api s1 d))(ticketKeyPrefix @ t := None))"
proof -
  have "view s1 (ticketKeyPrefix @ t) = Some (RStr u, Some (clock s + ttl))" "clock s1 = clock s"
    using redis.ts_Set_ok [OF assms(1,3,2)] by auto
  then have v: "view (r_tick api s1 d) (ticketKeyPrefix @ t) = Some (RStr u, Some (clock s + ttl))"
    using redis.tick_keeps [OF assms(1,4)] assms(5) by auto
  then show ?thesis
    using redis.ts_GetAndDelete_str [OF assms(1) v] redis.ts_GetAndDelete_none [OF assms(1)] redis.gone_stays [OF assms(1)] by simp
qed

theorem ticket_round_trip_witness:
  "fst (ts_GetAndDelete mem_api ''t'' Reply (r_tick mem_api \<lparr>mem_clock = 0, mem_keys = [''ws:ticket:t'' \<mapsto> (RStr ''alice'', Some 30)]\<rparr> 29)) = Inr (Some ''alice'')
   \<and> fst (ts_GetAndDelete mem_api ''t'' Reply (r_tick mem_api (snd (ts_GetAndDelete mem_api ''t'' (NoReply CtxErr)
        (r_tick mem_api \<lparr>mem_clock = 0, mem_keys = [''ws:ticket:t'' \<mapsto> (RStr ''alice'', Some 30)]\<rparr> 29))) 5)) = Inr None"
proof -
  have "ts_Set mem_api ''t'' ''alice'' 30 Reply \<lparr>mem_clock = 0, mem_keys = Map.empty\<rparr> =
      (None, \<lparr>mem_clock = 0, mem_keys = [''ws:ticket:t'' \<mapsto> (RStr ''alice'', Some 30)]\<rparr>)"
    by (simp add: ts_Set_def mem_defs ticketKeyPrefix_def)
  from ticket_round_trip [OF mem.redis_axioms _ this, of 29 "NoReply CtxErr"] show ?thesis by simp
qed

section \<open>What reaches the instances\<close>

lemma ascii_lower_user_id: "ascii_lower ''X-User-ID'' = ''x-user-id''"
  by code_simp

text \<open>
  The proxy passes a header on unless it is a hop-by-hop header or the client listed it in
  \<^verbatim>\<open>Connection\<close>, in which case it is missing at the instance.
\<close>

lemma outgoing_user_id:
  "rq_Header (outgoing f rq) ''X-User-ID'' = (if ''x-user-id'' \<in> set (connection_tokens rq) then '''' else rq_Header rq ''X-User-ID'')"
  by (simp add: outgoing_def removeHopByHopHeaders_def hopHeaders_def ascii_lower_user_id Let_def split: option.splits)

lemma outgoing_same [simp]: "rq_Query (outgoing f rq) = rq_Query rq" "rq_PathID (outgoing f rq) = rq_PathID rq" "rq_Body (outgoing f rq) = rq_Body rq"
  "rq_Method (outgoing f rq) = rq_Method rq"
  by (simp_all add: outgoing_def removeHopByHopHeaders_def Let_def split: option.splits)

lemma ModifyResponse_same [simp]: "gw_up (snd (ModifyResponse r g)) = gw_up g" "gw_redis (snd (ModifyResponse r g)) = gw_redis g"
  by (simp_all add: ModifyResponse_def)

lemma proxy_up: "gw_up (snd (proxy_ServeHTTP L a lim rq g)) = snd (gl_send L a lim (outgoing (gl_split_host_port L) rq) (gw_up g))"
  "gw_redis (snd (proxy_ServeHTTP L a lim rq g)) = gw_redis g"
  by (simp_all add: proxy_ServeHTTP_def split: prod.splits sum.splits)

lemma getOrCreateProxy_same:
  "gw_up (snd (getOrCreateProxy f a g)) = gw_up g" "gw_redis (snd (getOrCreateProxy f a g)) = gw_redis g" "gw_watcher (snd (getOrCreateProxy f a g)) = gw_watcher g"
  by (simp_all add: getOrCreateProxy_def)

text \<open>A WebSocket request is forwarded only for a live ticket, which is used up by it, only to the instance that the
  ring names for its room, and with the identity of the ticket's user: whatever \<^verbatim>\<open>X-User-ID\<close> the client sent,
  the instance sees the ticket's user (or no user at all, when the client had the header dropped).\<close>

theorem proxied_identity:
  assumes "redis (gl_redis L) view clock"
    and "\<And>k. view (gw_redis g) (ticketKeyPrefix @ k) \<noteq> None \<Longrightarrow> \<exists>v e. view (gw_redis g) (ticketKeyPrefix @ k) = Some (RStr v, e)"
    and "gw_up (snd (proxyWebSocket L cx rq g)) \<noteq> gw_up g"
  shows "\<exists>u e out. view (gw_redis g) (ticketKeyPrefix @ query_Get rq ''ticket'') = Some (RStr u, e)
    \<and> view (gw_redis (snd (proxyWebSocket L cx rq g))) = (view (gw_redis g))(ticketKeyPrefix @ query_Get rq ''ticket'' := None)
    \<and> gw_up (snd (proxyWebSocket L cx rq g)) =
        snd (gl_send L (Locate (gl_ring L) (wt_ring (gw_watcher g)) (query_Get rq ''room_id'')) None out (gw_up g))
    \<and> query_Get out ''room_id'' = query_Get rq ''room_id'' \<and> rq_Header out ''X-User-ID'' \<in> {u, ''''}"
proof -
  let ?t = "query_Get rq ''ticket''"
  obtain u s where ts: "ts_GetAndDelete (gl_redis L) ?t (gw_net g) (gw_redis g) = (Inr (Some u), s)"
    using assms(3) by (auto simp: proxyWebSocket_def Let_def split: if_splits prod.splits sum.splits option.splits)
  from redis.ts_GetAndDelete_some [OF assms(1) ts] assms(2)
  have key: "\<exists>e. view (gw_redis g) (ticketKeyPrefix @ ?t) = Some (RStr u, e)" "view s = (view (gw_redis g))(ticketKeyPrefix @ ?t := None)" by auto
  let ?rq = "rq\<lparr>rq_Header := (rq_Header rq)(''X-User-ID'' := u)\<rparr>"
  let ?a = "Locate (gl_ring L) (wt_ring (gw_watcher g)) (query_Get rq ''room_id'')"
  let ?p = "getOrCreateProxy (gl_parse_url L) ?a (g\<lparr>gw_redis := s\<rparr>)"
  have "snd (proxyWebSocket L cx rq g) = snd (proxy_ServeHTTP L ?a None ?rq (snd ?p))"
    using assms(3) ts getOrCreateProxy_same(1) [of "gl_parse_url L" ?a "g\<lparr>gw_redis := s\<rparr>"]
    by (auto simp: proxyWebSocket_def Let_def split: if_splits prod.splits bool.splits)
  then have "gw_up (snd (proxyWebSocket L cx rq g)) = snd (gl_send L ?a None (outgoing (gl_split_host_port L) ?rq) (gw_up g))"
    "gw_redis (snd (proxyWebSocket L cx rq g)) = s"
    by (simp_all add: proxy_up getOrCreateProxy_same)
  moreover have "rq_Header (outgoing (gl_split_host_port L) ?rq) ''X-User-ID'' \<in> {u, ''''}" by (simp add: outgoing_user_id)
  ultimately show ?thesis using key by (auto simp: query_Get_def intro!: exI [of _ "outgoing (gl_split_host_port L) ?rq"])
qed

text \<open>An instance's \<^verbatim>\<open>421\<close> never reaches a client: the proxy answers it with \<^verbatim>\<open>503\<close> and leaves a forced
  reconcile pending; every other response of the instance is passed on unchanged and forces nothing, and a
  transport error becomes \<^verbatim>\<open>502\<close>.\<close>

theorem misdirected_hidden:
  "case gl_send L a lim (outgoing (gl_split_host_port L) rq) (gw_up g) of
     (Inl err, u) \<Rightarrow> proxy_ServeHTTP L a lim rq g = (WriteProblem 502 ''reverse proxy error'', g\<lparr>gw_up := u\<rparr>)
   | (Inr resp, u) \<Rightarrow>
       (if rs_Status resp = 421
        then rs_Status (fst (proxy_ServeHTTP L a lim rq g)) = 503 \<and> wt_forceCh (gw_watcher (snd (proxy_ServeHTTP L a lim rq g)))
          \<and> wt_ring (gw_watcher (snd (proxy_ServeHTTP L a lim rq g))) = wt_ring (gw_watcher g)
        else proxy_ServeHTTP L a lim rq g = (resp, g\<lparr>gw_up := u\<rparr>))"
  by (auto simp: proxy_ServeHTTP_def ModifyResponse_def ForceReconcile_def split: prod.splits sum.splits)

section \<open>The routes\<close>

lemma gw_Allow_frame: "gw_up (snd (gw_Allow L a b k g)) = gw_up g" "gw_net (snd (gw_Allow L a b k g)) = gw_net g"
  by (simp_all add: gw_Allow_def limiter_Allow_def split: prod.splits sum.splits)

text \<open>Behind a rate limit, a request runs its handler on a state of the limiter or is answered with \<^verbatim>\<open>429\<close>.\<close>

lemma limited_passes:
  assumes "RateLimitMiddleware f kf h cx rq w = (r, w')" and "rs_Status r \<noteq> 429"
  shows "\<exists>v. (v = w \<or> v = snd (f (kf cx rq) w)) \<and> h cx rq v = (r, w')"
  using assms by (auto simp: RateLimitMiddleware_def Let_def split: if_splits prod.splits sum.splits)

text \<open>A ticket is issued only to the subject of a valid access token: when \<^verbatim>\<open>POST /ws/ticket\<close> answers \<^verbatim>\<open>200\<close>, the bearer
  token verified under the gateway's secret and Redis now holds exactly its subject under the new ticket, to
  expire after the configured time; without a valid token the answer is \<^verbatim>\<open>401\<close> and nothing changes.\<close>

theorem ticket_for_token_subject:
  assumes "redis (gl_redis L) view clock" and "0 < gc_TicketTTL cfg"
    and "map_of (gw_registerRoutes L cfg ticket) ''POST /ws/ticket'' = Some h"
  shows "case VerifyJWT (gl_parse_jwt L) (extractToken rq) (gc_jwtSecret cfg) of
      Inl err \<Rightarrow> rs_Status (fst (h no_ctx rq g)) = 401 \<and> snd (h no_ctx rq g) = g
    | Inr claims \<Rightarrow> rs_Status (fst (h no_ctx rq g)) = 200 \<longrightarrow>
        (\<exists>t. view (gw_redis (snd (h no_ctx rq g))) (ticketKeyPrefix @ ticket) = Some (RStr (clm_Subject claims), Some t)
          \<and> t = clock (gw_redis (snd (h no_ctx rq g))) + gc_TicketTTL cfg)
        \<and> fst (h no_ctx rq g) = WriteJSON 200 (TicketResponse ticket)"
proof -
  let ?lim = "RateLimitMiddleware (gw_Allow L (gc_WSRPS cfg) (gc_WSBurst cfg)) (ContextKeyFunc cx_UserID)"
  have h: "h = BearerAuthMiddleware (gl_parse_jwt L) (gc_jwtSecret cfg) (?lim (handleCreateWSTicket L cfg ticket))"
    using assms(3) by (simp add: gw_registerRoutes_def Let_def)
  show ?thesis
  proof (cases "VerifyJWT (gl_parse_jwt L) (extractToken rq) (gc_jwtSecret cfg)")
    case (Inl err)
    then show ?thesis by (auto simp: h BearerAuthMiddleware_def Let_def)
  next
    case (Inr claims)
    define cx where "cx = no_ctx\<lparr>cx_UserID := Some (clm_Subject claims), cx_Username := Some (clm_Username claims)\<rparr>"
    have issue: "view (gw_redis g'') (ticketKeyPrefix @ ticket) = Some (RStr (clm_Subject claims), Some (clock (gw_redis g'') + gc_TicketTTL cfg))
        \<and> r = WriteJSON 200 (TicketResponse ticket)"
      if handled: "handleCreateWSTicket L cfg ticket cx rq g' = (r, g'')" and ok: "rs_Status r = 200" for g' g'' r
    proof -
      obtain s where "ts_Set (gl_redis L) ticket (clm_Subject claims) (gc_TicketTTL cfg) (gw_net g') (gw_redis g') = (None, s)"
        "g'' = g'\<lparr>gw_redis := s\<rparr>" "r = WriteJSON 200 (TicketResponse ticket)"
        using handled ok by (auto simp: handleCreateWSTicket_def cx_def GetUserID_def split: prod.splits option.splits)
      then show ?thesis using redis.ts_Set_ok [OF assms(1) _ assms(2)] by auto
    qed
    have "rs_Status (fst (h no_ctx rq g)) \<noteq> 200" if "extractToken rq = ''''" using that by (simp add: h BearerAuthMiddleware_def)
    moreover have "h no_ctx rq g = ?lim (handleCreateWSTicket L cfg ticket) cx rq g" if "extractToken rq \<noteq> ''''"
      using that Inr by (simp add: h BearerAuthMiddleware_def cx_def)
    moreover have "\<exists>g'. handleCreateWSTicket L cfg ticket cx rq g' = h no_ctx rq g"
      if "rs_Status (fst (h no_ctx rq g)) = 200" "h no_ctx rq g = ?lim (handleCreateWSTicket L cfg ticket) cx rq g"
    proof -
      obtain r w' where eq: "h no_ctx rq g = (r, w')" by force
      then show ?thesis using limited_passes [OF that(2) [symmetric, unfolded eq]] that(1) by auto
    qed
    ultimately have "rs_Status (fst (h no_ctx rq g)) = 200 \<Longrightarrow> \<exists>g'. handleCreateWSTicket L cfg ticket cx rq g' = h no_ctx rq g" by blast
    then show ?thesis using issue [of _ "fst (h no_ctx rq g)" "snd (h no_ctx rq g)"] Inr by auto
  qed
qed

text \<open>The internal routes are closed without the shared secret: a request whose \<^verbatim>\<open>X-Internal-Secret\<close> differs is answered
  with \<^verbatim>\<open>401\<close> and nothing is forwarded or changed.\<close>

theorem internal_routes_closed:
  assumes "p \<in> {''POST /internal/rooms/{id}/broadcast'', ''DELETE /internal/rooms/{id}''}"
    and "map_of (gw_registerRoutes L cfg ticket) p = Some h" and "rq_Header rq ''X-Internal-Secret'' \<noteq> gc_internalSecret cfg"
  shows "h no_ctx rq g = (WriteProblem 401 ''unauthorized'', g)"
  using assms by (auto simp: gw_registerRoutes_def InternalAuthMiddleware_def Let_def)

section \<open>Examples\<close>

text \<open>Behind the proxies, a list records the target and the identity of each request.\<close>

definition gx_lib :: "(mem_redis, string list, (string \<times> string) list, unit) gw_lib" where
  "gx_lib = \<lparr>gl_redis = mem_api, gl_ring = list_ring, gl_parse_url = (\<lambda>_. True),
     gl_send = (\<lambda>a lim rq u. (Inr (WriteHeader 101), (a, rq_Header rq ''X-User-ID'') # u)), gl_split_host_port = (\<lambda>_. None),
     gl_parse_jwt = (\<lambda>t sec algs. if t = ''tok'' then Inr (Some \<lparr>clm_Subject = ''alice'', clm_ExpiresAt = 0, clm_IssuedAt = 0, clm_Username = ''Alice''\<rparr>, True)
        else Inl (ErrNew ''bad token'')),
     gl_limit = (\<lambda>key rate burst s. (Inr 1, s))\<rparr>"

definition gx_gw :: "keyspace \<Rightarrow> (mem_redis, string list, (string \<times> string) list) ws_gateway" where
  "gx_gw ks = \<lparr>gw_redis = \<lparr>mem_clock = 0, mem_keys = ks\<rparr>, gw_watcher = wt_one, gw_hasRedis = True, gw_isObserver = True, gw_ping = None,
     gw_net = Reply, gw_proxies = [], gw_up = []\<rparr>"

definition gx_cfg :: ws_gateway_cfg where
  "gx_cfg = \<lparr>gc_jwtSecret = ''s'', gc_internalSecret = ''i'', gc_TicketTTL = 30000, gc_PublicRPS = 1, gc_PublicBurst = 1, gc_WSRPS = 1, gc_WSBurst = 1\<rparr>"

definition gx_rq :: "unit request" where
  "gx_rq = \<lparr>rq_Method = ''GET'', rq_Header = (\<lambda>k. if k = ''Authorization'' then ''Bearer tok'' else if k = ''X-User-ID'' then ''mallory'' else ''''),
     rq_PathID = '''', rq_Query = (\<lambda>k. if k = ''ticket'' then [''t''] else if k = ''room_id'' then [''r''] else []), rq_Cookie = None,
     rq_RemoteAddr = '''', rq_Body = (Inl EOF, None)\<rparr>"


lemma gx_no_tokens: "connection_tokens (gx_rq\<lparr>rq_Header := (rq_Header gx_rq)(k := v)\<rparr>) = []" if "k \<noteq> ''Connection''"
  using that by (simp add: connection_tokens_def gx_rq_def TrimSpace_def ascii_lower_def)

lemma gx_redeem: "ts_GetAndDelete mem_api ''t'' Reply \<lparr>mem_clock = 0, mem_keys = [''ws:ticket:t'' \<mapsto> (RStr ''alice'', None)]\<rparr> =
    (Inr (Some ''alice''), \<lparr>mem_clock = 0, mem_keys = Map.empty\<rparr>)"
  by (simp add: ts_GetAndDelete_def ticketKeyPrefix_def mem_defs)

lemma gx_proxied: "proxyWebSocket gx_lib no_ctx gx_rq (gx_gw [''ws:ticket:t'' \<mapsto> (RStr ''alice'', None)]) =
    (WriteHeader 101, (gx_gw Map.empty)\<lparr>gw_proxies := [''a:1''], gw_up := [(''a:1'', ''alice'')]\<rparr>)"
proof -
  have "Locate list_ring [''a:1''] ''r'' = ''a:1''" by (simp add: Locate_def list_ring_def)
  moreover have "query_Get gx_rq ''ticket'' = ''t''" "query_Get gx_rq ''room_id'' = ''r''" by (simp_all add: query_Get_def gx_rq_def)
  moreover have "rq_Header (outgoing f (gx_rq\<lparr>rq_Header := (rq_Header gx_rq)(''X-User-ID'' := ''alice'')\<rparr>)) ''X-User-ID'' = ''alice''" for f
    by (simp add: outgoing_user_id gx_no_tokens)
  ultimately show ?thesis
    by (simp add: proxyWebSocket_def gx_lib_def gx_gw_def wt_one_def gx_redeem getOrCreateProxy_def proxy_ServeHTTP_def ModifyResponse_def Let_def)
qed

theorem proxied_identity_witness:
  "\<exists>u e. [''ws:ticket:t'' \<mapsto> (RStr ''alice'', None)] ''ws:ticket:t'' = Some (RStr u, e) \<and>
     gw_up (snd (proxyWebSocket gx_lib no_ctx gx_rq (gx_gw [''ws:ticket:t'' \<mapsto> (RStr ''alice'', None)]))) \<in> {[(''a:1'', u)], [(''a:1'', '''')]}"
proof -
  let ?g = "gx_gw [''ws:ticket:t'' \<mapsto> (RStr ''alice'', None)]"
  have 1: "redis (gl_redis gx_lib) mem_keys mem_clock" using mem.redis_axioms by (simp add: gx_lib_def)
  have 2: "\<exists>v e. mem_keys (gw_redis ?g) (ticketKeyPrefix @ k) = Some (RStr v, e)" if "mem_keys (gw_redis ?g) (ticketKeyPrefix @ k) \<noteq> None" for k
    using that by (simp add: gx_gw_def split: if_splits)
  have 3: "gw_up (snd (proxyWebSocket gx_lib no_ctx gx_rq ?g)) \<noteq> gw_up ?g" by (simp add: gx_proxied) (simp add: gx_gw_def)
  have "Locate list_ring [''a:1''] ''r'' = ''a:1''" by (simp add: Locate_def list_ring_def)
  with proxied_identity [OF 1 2 3] show ?thesis
    by (auto simp: gx_lib_def gx_gw_def gx_rq_def wt_one_def query_Get_def ticketKeyPrefix_def)
qed

theorem ticket_for_token_subject_witness:
  "case map_of (gw_registerRoutes gx_lib gx_cfg ''t'') ''POST /ws/ticket'' of None \<Rightarrow> False
   | Some h \<Rightarrow> rs_Status (fst (h no_ctx gx_rq (gx_gw Map.empty))) = 200 \<longrightarrow>
      (\<exists>t. mem_keys (gw_redis (snd (h no_ctx gx_rq (gx_gw Map.empty)))) ''ws:ticket:t'' = Some (RStr ''alice'', Some t))"
proof -
  obtain h where h: "map_of (gw_registerRoutes gx_lib gx_cfg ''t'') ''POST /ws/ticket'' = Some h" by (simp add: gw_registerRoutes_def Let_def)
  have "extractToken gx_rq = ''tok''" by code_simp
  then have v: "VerifyJWT (gl_parse_jwt gx_lib) (extractToken gx_rq) (gc_jwtSecret gx_cfg) =
      Inr \<lparr>clm_Subject = ''alice'', clm_ExpiresAt = 0, clm_IssuedAt = 0, clm_Username = ''Alice''\<rparr>"
    by (simp add: VerifyJWT_def gx_lib_def)
  have 1: "redis (gl_redis gx_lib) mem_keys mem_clock" using mem.redis_axioms by (simp add: gx_lib_def)
  have 2: "0 < gc_TicketTTL gx_cfg" by (simp add: gx_cfg_def)
  from ticket_for_token_subject [OF 1 2 h, of gx_rq "gx_gw Map.empty"] show ?thesis
    unfolding v h by (auto simp: ticketKeyPrefix_def)
qed

theorem internal_routes_closed_witness:
  "\<forall>h. map_of (gw_registerRoutes gx_lib gx_cfg ''t'') ''DELETE /internal/rooms/{id}'' = Some h \<longrightarrow>
    h no_ctx gx_rq (gx_gw Map.empty) = (WriteProblem 401 ''unauthorized'', gx_gw Map.empty)"
proof -
  have "rq_Header gx_rq ''X-Internal-Secret'' \<noteq> gc_internalSecret gx_cfg" by (simp add: gx_rq_def gx_cfg_def)
  then show ?thesis using internal_routes_closed [of "''DELETE /internal/rooms/{id}''" gx_lib gx_cfg "''t''" _ gx_rq] by simp
qed

end
