(* ===== verification/WS_Router.thy ===== *)
theory WS_Router
  imports WS_Gateway Cluster User_Guarantees
begin

text \<open>
  The HTTP side of a WebSocket instance (\<^verbatim>\<open>internal/websocket\<close>: \<^verbatim>\<open>router.go\<close>, \<^verbatim>\<open>handler_ws.go\<close>,
  \<^verbatim>\<open>handler_internal.go\<close>): a connection is registered with the manager for a member of the room on the
  instance that owns it; system messages and closing a room come from the gateway. The user service, the
  WebSocket upgrade and the outcomes of the calls to the manager are parameters.
\<close>

section \<open>The router\<close>

definition checkGRPCHealth :: "health \<Rightarrow> string option" where
  "checkGRPCHealth h = (case h of
      NoHealthClient \<Rightarrow> Some ''health client not configured''
    | HealthError err \<Rightarrow> Some err
    | HealthStatus st \<Rightarrow> if st \<noteq> ''SERVING'' then Some (''status '' @ st) else None)"

text \<open>
  The router's state: the manager and the services behind it, the channel of the pipeline, the ring, the user
  service, and what the readiness checks find.
\<close>

record ('c, 'w, 'h, 'u) ws_instance =
  wi_manager :: "('c, 'w) manager"
  wi_world :: 'w
  wi_pipe :: pipe
  wi_ring :: 'h
  wi_advertisedAddr :: string
  wi_user :: 'u
  wi_hasRedis :: bool
  wi_ping :: "string option"
  wi_chatHealth :: health
  wi_userHealth :: health

text \<open>How the calls of one request end: the lease token and time of the manager, the status that a failing upgrade wrote.\<close>

record ws_call =
  wc_prepare :: api_event
  wc_token :: string
  wc_now :: int
  wc_upgrade :: "int option"
  wc_register :: register_event
  wc_cancel :: api_event
  wc_uuid :: "go_error + string"

text \<open>A response was written, the upgrade failed, the connection was closed again, or it is registered.\<close>

datatype ws_result = Responded "ws_json response" | UpgradeFailed int | ConnClosed | Connected

type_synonym 'u verify_client = "string \<Rightarrow> string \<Rightarrow> 'u \<Rightarrow> (go_error + unit) \<times> 'u"

definition serveWebSocket ::
  "'c lru_api \<Rightarrow> 'h consistent_api \<Rightarrow> 'u verify_client \<Rightarrow> ws_call \<Rightarrow> 'a request \<Rightarrow> ('c, 'w, 'h, 'u) ws_instance \<Rightarrow>
   ws_result \<times> ('c, 'w, 'h, 'u) ws_instance" where
  "serveWebSocket lru ring verify c req I = (let userID = rq_Header req ''X-User-ID'' in
     if userID = '''' then (Responded (WriteProblem 401 ''missing X-User-ID header''), I)
     else let roomID = query_Get req ''room_id'' in
     if roomID = '''' then (Responded (WriteProblem 400 ''missing room_id query parameter''), I)
     else (case verify roomID userID (wi_user I) of
       (Inl err, u) \<Rightarrow>
         (if status_code err = NotFound then (Responded (WriteProblem 403 ''not a member of the room''), I\<lparr>wi_user := u\<rparr>)
          else (Responded (WriteProblem 500 ''failed to verify room membership''), I\<lparr>wi_user := u\<rparr>))
     | (Inr _, u) \<Rightarrow>
       (let I = I\<lparr>wi_user := u\<rparr>; owner = Locate ring (wi_ring I) roomID in
        if owner \<noteq> wi_advertisedAddr I then (Responded (WriteProblem 421 ''not the owner of this room''), I)
        else (case PrepareRegister (wc_prepare c) lru (wi_pipe I) (wc_token c) (wc_now c) roomID (wi_manager I, wi_world I) of
          (Inl err, M, w) \<Rightarrow>
            (let I = I\<lparr>wi_manager := M, wi_world := w\<rparr> in
             if errors_is err ErrBusy \<or> errors_is err ErrRoomHandoffInProgress \<or> errors_is err ErrRoomSequenceUnavailable
             then (Responded (add_header ''Retry-After'' ''1'' (WriteProblem 503 ''room temporarily unavailable, please retry'')), I)
             else (Responded (WriteProblem 500 ''failed to prepare websocket registration''), I))
        | (Inr registration, M, w) \<Rightarrow>
            (let I = I\<lparr>wi_manager := M, wi_world := w\<rparr> in
             case wc_upgrade c of
               Some st \<Rightarrow> (UpgradeFailed st, I\<lparr>wi_manager := snd (Cancel (wc_cancel c) (Some registration) M)\<rparr>)
             | None \<Rightarrow> (case Commit (wc_register c) (wc_cancel c) userID (Some registration) M of
                 (Some err, r, M) \<Rightarrow> (ConnClosed, I\<lparr>wi_manager := snd (Cancel (wc_cancel c) r M)\<rparr>)
               | (None, r, M) \<Rightarrow> (Connected, I\<lparr>wi_manager := M\<rparr>)))))))"

section \<open>Internal requests\<close>

text \<open>The bytes of the two Korean sentences, UTF-8 as in the source.\<close>

definition joined_text :: string where
  "joined_text = map char_of [235, 139, 152, 236, 157, 180, 32, 235, 147, 164, 236, 150, 180, 236, 153, 148, 236, 138, 181, 235, 139, 136, 235, 139, 164, 46 :: nat]"

definition left_text :: string where
  "left_text = map char_of [235, 139, 152, 236, 157, 180, 32, 235, 130, 152, 234, 176, 148, 236, 138, 181, 235, 139, 136, 235, 139, 164, 46 :: nat]"

definition ws_handleBroadcast ::
  "ws_call \<Rightarrow> (BroadcastSystemMessageRequest, ws_json, ('c, 'w, 'h, 'u) ws_instance) handler" where
  "ws_handleBroadcast c cx req I = (let roomID = rq_PathID req in
     if roomID = '''' then (WriteProblem 400 ''room_id is required'', I)
     else (case ReadJSON (rq_Body req) of
       Inl err \<Rightarrow> (WriteProblem 400 ''invalid request body'', I)
     | Inr body \<Rightarrow>
       if bs_Username body = '''' \<or> bs_Event body = '''' then (WriteProblem 400 ''username and event are required'', I)
       else (case (if bs_Event body = SystemEventJoin then Some (bs_Username body @ joined_text)
                   else if bs_Event body = SystemEventLeave then Some (bs_Username body @ left_text) else None) of
         None \<Rightarrow> (WriteProblem 400 ''invalid system message type'', I)
       | Some content \<Rightarrow> (case NewSystemMessage (wc_uuid c) (wc_now c) roomID content of
           Inl err \<Rightarrow> (WriteProblem 500 ''failed to create system message'', I)
         | Inr msg \<Rightarrow> (case Broadcast (wc_prepare c) msg (wi_manager I) of
             (Some err, M) \<Rightarrow> (WriteProblem 500 ''failed to broadcast message'', I\<lparr>wi_manager := M\<rparr>)
           | (None, M) \<Rightarrow> (WriteHeader 204, I\<lparr>wi_manager := M\<rparr>))))))"

definition handleForceCloseRoom ::
  "ws_call \<Rightarrow> ('a, ws_json, ('c, 'w, 'h, 'u) ws_instance) handler" where
  "handleForceCloseRoom c cx req I = (let roomID = rq_PathID req in
     if roomID = '''' then (WriteProblem 400 ''room_id is required'', I)
     else (case ForceCloseRoom (wc_prepare c) (wc_now c) roomID (wi_manager I) of
       (Inl err, M) \<Rightarrow> (WriteProblem 500 ''failed to force close room'', I\<lparr>wi_manager := M\<rparr>)
     | (Inr _, M) \<Rightarrow> (WriteHeader 204, I\<lparr>wi_manager := M\<rparr>)))"

section \<open>Readiness\<close>

definition Stopped_mgr :: "('c, 'w) manager \<Rightarrow> bool" where "Stopped_mgr M = m_stopped M"

text \<open>
  \<^verbatim>\<open>PersistQueueUtilization() >= persistQueueReadyThreshold\<close>: the quotient of two small integers, compared with
  0.80 in floating point, which rounds monotonically, is the comparison of the exact fraction with 4/5.
\<close>

definition persist_queue_full :: "pipe \<Rightarrow> bool" where
  "persist_queue_full p \<longleftrightarrow> persistCap p \<noteq> 0 \<and> 4 * persistCap p \<le> 5 * length (persistCh p)"

text \<open>\<open>usage\<close> is the utilization printed with two digits.\<close>

definition ws_readinessFailures :: "'h consistent_api \<Rightarrow> (pipe \<Rightarrow> string) \<Rightarrow> ('c, 'w, 'h, 'u) ws_instance \<Rightarrow> string list" where
  "ws_readinessFailures ring usage I =
     (if Stopped_mgr (wi_manager I) then [''manager stopped''] else [])
     @ (if \<not> wi_hasRedis I then [''redis client not configured'']
        else (case wi_ping I of None \<Rightarrow> [] | Some err \<Rightarrow> [''redis ping failed: '' @ err]))
     @ (case checkGRPCHealth (wi_chatHealth I) of None \<Rightarrow> [] | Some err \<Rightarrow> [''chat-service health failed: '' @ err])
     @ (case checkGRPCHealth (wi_userHealth I) of None \<Rightarrow> [] | Some err \<Rightarrow> [''user-service health failed: '' @ err])
     @ (if Len ring (wi_ring I) = 0 then [''hash ring empty'']
        else if \<not> Contains ring (wi_ring I) (wi_advertisedAddr I) then [''self not observed in hash ring''] else [])
     @ (if persist_queue_full (wi_pipe I) then [''persist queue utilization '' @ usage (wi_pipe I) @ '' >= 0.80''] else [])"

definition ws_handleReady :: "'h consistent_api \<Rightarrow> (pipe \<Rightarrow> string) \<Rightarrow> ('a, ws_json, ('c, 'w, 'h, 'u) ws_instance) handler" where
  "ws_handleReady ring usage cx req I = (let failures = ws_readinessFailures ring usage I in
     if failures \<noteq> [] then (WriteProblem 503 (''not ready: '' @ Join ''; '' failures), I)
     else (WriteJSON 200 (StatusMap ''ready''), I))"

section \<open>Who gets a session\<close>

definition hubs_wf :: "('c, 'w) manager \<Rightarrow> bool" where
  "hubs_wf M \<longleftrightarrow> (\<forall>(room, i) \<in> set (m_hubs M). i < length (m_heap M) \<and> h_roomID (hs (m_heap M ! i)) = room)"

text \<open>The hub map is in order in every state that an instance can reach.\<close>

lemma reachable_hubs_wf:
  assumes "redis api view clock" "mongo col docs" "cluster_reach lru api view col docs cfg uuid addr (M, w)"
  shows "hubs_wf M"
  using mgr_invD(5) [OF cluster_reach_inv(1) [OF assms]] by (auto simp: hubs_wf_def)

lemma initializeSequence_room: "initializeSequence st w h = (r, h', w') \<Longrightarrow> h_roomID h' = h_roomID h"
  by (auto simp: initializeSequence_def split: option.splits prod.splits sum.splits)

lemma createHub_room:
  assumes "createHub lru p room M w = (Inr i, M', w')"
  shows "i < length (m_heap M') \<and> h_roomID (hs (m_heap M' ! i)) = room"
  using assms by (auto simp: createHub_def Let_def newHub_def dest: initializeSequence_room split: prod.splits option.splits)

lemma trackLease_heap: "m_heap (trackLease now l M) = m_heap M"
  by (simp add: trackLease_def split: option.splits)

lemma prepared_hub:
  assumes "PrepareRegister ev lru p token now room (M, w) = (Inr rg, M', w')" and "hubs_wf M"
  shows "rg_hub rg < length (m_heap M') \<and> h_roomID (hs (m_heap M' ! rg_hub rg)) = room \<and> \<not> rg_done rg"
proof -
  obtain i created where g: "getOrCreate lru p token now room M w = (Inr (i, created), M', w')"
    and rg: "rg = \<lparr>rg_roomID = room, rg_hub = i, rg_created = created, rg_done = False\<rparr>"
    using assms(1) by (cases ev) (auto simp: PrepareRegister_def flat_result_def run_prepare_def split: prod.splits sum.splits)
  have "i < length (m_heap M') \<and> h_roomID (hs (m_heap M' ! i)) = room"
  proof (cases "map_of (m_hubs M) room")
    case None
    with g show ?thesis
      by (auto simp: getOrCreate_def trackLease_heap dest: createHub_room split: option.splits prod.splits sum.splits)
  next
    case (Some j)
    then show ?thesis using g assms(2) map_of_SomeD [OF Some] by (auto simp: getOrCreate_def hubs_wf_def split: if_splits)
  qed
  then show ?thesis by (simp add: rg)
qed

text \<open>\<open>has_session h u\<close>: the hub's map has a session object of this user and of its room.\<close>

definition has_session :: "'c hub \<Rightarrow> string \<Rightarrow> bool" where
  "has_session h u \<longleftrightarrow> (case map_of (sessions h) u of None \<Rightarrow> False
     | Some p \<Rightarrow> p < length (objs h) \<and> s_senderID (objs h ! p) = u \<and> s_roomID (objs h ! p) = h_roomID h)"

lemma map_of_forget: "map_of (filter (\<lambda>(u', p). u' \<noteq> u) xs) v = (if v = u then None else map_of xs v)"
  by (induction xs) auto

lemma session_owner_kept [simp]:
  "s_senderID (close s) = s_senderID s" "s_roomID (close s) = s_roomID s"
  "s_senderID (send d s) = s_senderID s" "s_roomID (send d s) = s_roomID s"
  by (simp_all add: close_def send_def sendWithMeta_def closeWithCode_def)

lemma on_obj_frame [simp]:
  "length (objs (on_obj q f h)) = length (objs h)" "sessions (on_obj q f h) = sessions h" "h_roomID (on_obj q f h) = h_roomID h"
  by (simp_all add: on_obj_def)

lemma on_obj_owner:
  assumes "\<And>s. g (f s) = g s"
  shows "g (objs (on_obj q f h) ! p) = g (objs h ! p)"
  using assms by (cases "p < length (objs h)"; cases "p = q") (simp_all add: on_obj_def list_update_beyond)

lemma registerSession_owner:
  "h_roomID (registerSession q u h) = h_roomID h" "map_of (sessions (registerSession q u h)) v = (if v = u then Some q else map_of (sessions h) v)"
  "length (objs (registerSession q u h)) = length (objs h)"
  "s_senderID (objs (registerSession q u h) ! p) = s_senderID (objs h ! p)" "s_roomID (objs (registerSession q u h) ! p) = s_roomID (objs h ! p)"
  by (simp_all add: registerSession_def Let_def forget_session_def on_obj_owner [where g = s_senderID] on_obj_owner [where g = s_roomID]
      map_of_forget split: option.splits sum.splits)

lemma hub_register_session:
  assumes "hub_register rv u h = (None, h')"
  shows "has_session h' u \<and> h_roomID h' = h_roomID h"
  using assms by (auto simp: hub_register_def run_register_def Let_def has_session_def registerSession_owner newSession_def
      split: if_splits register_event.splits)

lemma committed_session:
  assumes "Commit rv ev u (Some rg) M = (None, r, M')" and "rg_hub rg < length (m_heap M)"
  shows "has_session (hs (m_heap M' ! rg_hub rg)) u \<and> h_roomID (hs (m_heap M' ! rg_hub rg)) = h_roomID (hs (m_heap M ! rg_hub rg)) \<and>
    length (m_heap M') = length (m_heap M)"
  using assms hub_register_session by (fastforce simp: Commit_def Let_def on_hub_def split: if_splits prod.splits option.splits)

text \<open>A connection is registered only for a user the user service confirmed as a member of the room, and only on the
  instance the ring names as the room's owner; the session then stands under exactly that user's id in a
  hub of exactly that room. When the user service does not confirm the membership or the room belongs
  elsewhere, the manager and everything behind it are untouched.\<close>

theorem session_only_for_members:
  assumes "hubs_wf (wi_manager I)" and "serveWebSocket lru ring verify c req I = (res, I')"
  shows "(res = Connected \<longrightarrow> (\<exists>u' i. verify (query_Get req ''room_id'') (rq_Header req ''X-User-ID'') (wi_user I) = (Inr (), u')
      \<and> rq_Header req ''X-User-ID'' \<noteq> '''' \<and> Locate ring (wi_ring I) (query_Get req ''room_id'') = wi_advertisedAddr I
      \<and> i < length (m_heap (wi_manager I')) \<and> h_roomID (hs (m_heap (wi_manager I') ! i)) = query_Get req ''room_id''
      \<and> has_session (hs (m_heap (wi_manager I') ! i)) (rq_Header req ''X-User-ID'')))
    \<and> ((\<exists>err u'. verify (query_Get req ''room_id'') (rq_Header req ''X-User-ID'') (wi_user I) = (Inl err, u'))
        \<or> Locate ring (wi_ring I) (query_Get req ''room_id'') \<noteq> wi_advertisedAddr I
       \<longrightarrow> (\<exists>r. res = Responded r \<and> 400 \<le> rs_Status r) \<and> wi_manager I' = wi_manager I \<and> wi_world I' = wi_world I)"
proof (intro conjI impI)
  let ?room = "query_Get req ''room_id''" and ?user = "rq_Header req ''X-User-ID''"
  assume "res = Connected"
  then obtain u' rg M w r M' where v: "?user \<noteq> ''''" "verify ?room ?user (wi_user I) = (Inr (), u')" "Locate ring (wi_ring I) ?room = wi_advertisedAddr I"
    and p: "PrepareRegister (wc_prepare c) lru (wi_pipe I) (wc_token c) (wc_now c) ?room (wi_manager I, wi_world I) = (Inr rg, M, w)"
    and m: "Commit (wc_register c) (wc_cancel c) ?user (Some rg) M = (None, r, M')" and I': "wi_manager I' = M'"
    using assms(2) by (auto simp: serveWebSocket_def Let_def split: if_splits prod.splits sum.splits option.splits)
  note 1 = prepared_hub [OF p assms(1)]
  with committed_session [OF m] v I'
  show "\<exists>u' i. verify ?room ?user (wi_user I) = (Inr (), u') \<and> ?user \<noteq> '''' \<and> Locate ring (wi_ring I) ?room = wi_advertisedAddr I
      \<and> i < length (m_heap (wi_manager I')) \<and> h_roomID (hs (m_heap (wi_manager I') ! i)) = ?room \<and> has_session (hs (m_heap (wi_manager I') ! i)) ?user"
    by (auto intro!: exI [of _ "rg_hub rg"])
next
  let ?room = "query_Get req ''room_id''" and ?user = "rq_Header req ''X-User-ID''"
  assume no: "(\<exists>err u'. verify ?room ?user (wi_user I) = (Inl err, u')) \<or> Locate ring (wi_ring I) ?room \<noteq> wi_advertisedAddr I"
  then show "\<exists>r. res = Responded r \<and> 400 \<le> rs_Status r" "wi_manager I' = wi_manager I" "wi_world I' = wi_world I"
    using assms(2) by (auto simp: serveWebSocket_def Let_def split: if_splits prod.splits sum.splits)
qed

section \<open>The gateway, the instance and the user service together\<close>

text \<open>The instance's client of the user service.\<close>

definition user_verify :: "(go_error \<Rightarrow> string) \<Rightarrow> net \<Rightarrow> lib \<Rightarrow> 'w world verify_client" where
  "user_verify text n L room user = grpc_call text n (run_state (VerifyRoomMember L room user))"

lemma user_verify_member:
  assumes "user_verify text n L room user w = (Inr (), w')"
  shows "\<exists>r u. lib_Parse L room = Some r \<and> lib_Parse L user = Some u \<and> is_member (w_db w) r u"
proof -
  have "runs (VerifyRoomMember L room user) w () w'" using assms by (simp add: user_verify_def grpc_ok runs_def)
  then show ?thesis unfolding VerifyRoomMember_def parse_id_def toPGUUID_def
    by (auto elim!: runs_elims simp: q_ExistsRoomMember_def split: option.splits sum.splits if_splits)
qed

text \<open>What a reverse proxy gets back for a WebSocket request to the instance.\<close>

definition ws_answer :: "ws_result \<Rightarrow> go_error + ws_json response" where
  "ws_answer res = (case res of
      Responded r \<Rightarrow> Inr r
    | UpgradeFailed st \<Rightarrow> Inr (WriteHeader st)
    | ConnClosed \<Rightarrow> Inr (WriteHeader 101)
    | Connected \<Rightarrow> Inr (WriteHeader 101))"

definition send_instance ::
  "'c lru_api \<Rightarrow> 'h consistent_api \<Rightarrow> 'u verify_client \<Rightarrow> ws_call \<Rightarrow> string \<Rightarrow> int option \<Rightarrow> 'a request \<Rightarrow>
   ('c, 'w, 'h, 'u) ws_instance \<Rightarrow> (go_error + ws_json response) \<times> ('c, 'w, 'h, 'u) ws_instance" where
  "send_instance lru ring verify c target limit rq I =
    (if target \<noteq> wi_advertisedAddr I then (Inl (External ''no such host''), I)
     else (case serveWebSocket lru ring verify c rq I of (res, I') \<Rightarrow> (ws_answer res, I')))"

text \<open>C15: Across the gateway, the instance and the user service, a WebSocket request that changes the manager of an instance
  was made with a live ticket, which is gone afterwards, and by a member: the ticket's user is a member of the
  room in the user service's tables at that moment, and the room is one the instance owns. An identity that
  the client wrote into the request itself plays no part.\<close>

theorem connection_needs_ticket_and_membership:
  assumes "redis (gl_redis L) view clock"
    and "\<And>k. view (gw_redis g) (ticketKeyPrefix @ k) \<noteq> None \<Longrightarrow> \<exists>v e. view (gw_redis g) (ticketKeyPrefix @ k) = Some (RStr v, e)"
    and "gl_send L = send_instance lru ring (user_verify text n UL) c" and "hubs_wf (wi_manager (gw_up g))"
    and "wi_manager (gw_up (snd (proxyWebSocket L cx rq g))) \<noteq> wi_manager (gw_up g)"
  shows "\<exists>userID e r u. view (gw_redis g) (ticketKeyPrefix @ query_Get rq ''ticket'') = Some (RStr userID, e)
    \<and> view (gw_redis (snd (proxyWebSocket L cx rq g))) (ticketKeyPrefix @ query_Get rq ''ticket'') = None
    \<and> lib_Parse UL (query_Get rq ''room_id'') = Some r \<and> lib_Parse UL userID = Some u
    \<and> is_member (w_db (wi_user (gw_up g))) r u
    \<and> Locate ring (wi_ring (gw_up g)) (query_Get rq ''room_id'') = wi_advertisedAddr (gw_up g)"
proof -
  let ?I = "gw_up g" and ?room = "query_Get rq ''room_id''" and ?g' = "snd (proxyWebSocket L cx rq g)"
  have "gw_up ?g' \<noteq> ?I" using assms(5) by auto
  from proxied_identity [OF assms(1,2) this] obtain userID e out where key: "view (gw_redis g) (ticketKeyPrefix @ query_Get rq ''ticket'') = Some (RStr userID, e)"
      "view (gw_redis ?g') = (view (gw_redis g))(ticketKeyPrefix @ query_Get rq ''ticket'' := None)"
    and up: "gw_up ?g' = snd (gl_send L (Locate (gl_ring L) (wt_ring (gw_watcher g)) ?room) None out ?I)"
    and out: "query_Get out ''room_id'' = ?room" "rq_Header out ''X-User-ID'' \<in> {userID, ''''}"
    by blast
  obtain res I' where sv: "serveWebSocket lru ring (user_verify text n UL) c out ?I = (res, I')" by force
  have I': "wi_manager I' \<noteq> wi_manager ?I"
    using assms(5) up sv by (auto simp: assms(3) send_instance_def split: if_splits)
  then have user: "rq_Header out ''X-User-ID'' = userID" using sv out(2) by (auto simp: serveWebSocket_def)
  from session_only_for_members [OF assms(4) sv] I' out(1) user
  have own: "Locate ring (wi_ring ?I) ?room = wi_advertisedAddr ?I" and "\<not> (\<exists>err u'. user_verify text n UL ?room userID (wi_user ?I) = (Inl err, u'))" by auto
  moreover obtain x u' where "user_verify text n UL ?room userID (wi_user ?I) = (x, u')" by force
  ultimately have "user_verify text n UL ?room userID (wi_user ?I) = (Inr (), u')" by (cases x) auto
  from user_verify_member [OF this] show ?thesis using key own by auto
qed

text \<open>What a failed connection attempt tells the client: a room that another instance still holds, that is being handed
  over or whose last number cannot be read is answered with \<^verbatim>\<open>503\<close> and \<^verbatim>\<open>Retry-After\<close>; an unconfirmed member with \<^verbatim>\<open>403\<close>; a
  room owned elsewhere with \<^verbatim>\<open>421\<close>; all other failures before the upgrade with \<^verbatim>\<open>500\<close>.\<close>

theorem connection_errors:
  assumes "rq_Header req ''X-User-ID'' = uid" "uid \<noteq> ''''" "query_Get req ''room_id'' = room" "room \<noteq> ''''"
    and "serveWebSocket lru ring verify c req I = (Responded r, I')"
  shows "case verify room uid (wi_user I) of
      (Inl err, _) \<Rightarrow> rs_Status r = (if status_code err = NotFound then 403 else 500)
    | (Inr _, u) \<Rightarrow> if Locate ring (wi_ring I) room \<noteq> wi_advertisedAddr I then rs_Status r = 421
        else (\<exists>err. fst (PrepareRegister (wc_prepare c) lru (wi_pipe I) (wc_token c) (wc_now c) room (wi_manager I, wi_world I)) = Inl err
          \<and> rs_Status r = (if \<exists>s \<in> {ErrBusy, ErrRoomHandoffInProgress, ErrRoomSequenceUnavailable}. errors_is err s then 503 else 500)
          \<and> (rs_Status r = 503 \<longrightarrow> (''Retry-After'', ''1'') \<in> set (rs_Header r)))"
proof -
  obtain x u where v: "verify room uid (wi_user I) = (x, u)" by force
  show ?thesis
  proof (cases x)
    case (Inl err)
    then show ?thesis using assms v by (auto simp: serveWebSocket_def Let_def split: if_splits)
  next
    case (Inr y)
    obtain p M w where p: "PrepareRegister (wc_prepare c) lru (wi_pipe I) (wc_token c) (wc_now c) room (wi_manager I, wi_world I) = (p, M, w)"
      by (metis surj_pair)
    show ?thesis
    proof (cases "Locate ring (wi_ring I) room = wi_advertisedAddr I")
      case False
      then show ?thesis using assms v Inr by (simp add: serveWebSocket_def Let_def) auto
    next
      case True
      then have "serveWebSocket lru ring verify c req I = (case p of Inl err \<Rightarrow>
          (Responded (if errors_is err ErrBusy \<or> errors_is err ErrRoomHandoffInProgress \<or> errors_is err ErrRoomSequenceUnavailable
             then add_header ''Retry-After'' ''1'' (WriteProblem 503 ''room temporarily unavailable, please retry'')
             else WriteProblem 500 ''failed to prepare websocket registration''), I\<lparr>wi_user := u, wi_manager := M, wi_world := w\<rparr>)
        | Inr rg \<Rightarrow> serveWebSocket lru ring verify c req I)"
        using assms(1-4) v Inr p by (cases p) (simp_all add: serveWebSocket_def Let_def)
      then have "\<exists>err. p = Inl err \<and> r = (if errors_is err ErrBusy \<or> errors_is err ErrRoomHandoffInProgress \<or> errors_is err ErrRoomSequenceUnavailable
             then add_header ''Retry-After'' ''1'' (WriteProblem 503 ''room temporarily unavailable, please retry'')
             else WriteProblem 500 ''failed to prepare websocket registration'')"
        using assms v Inr p True by (cases p) (auto simp: serveWebSocket_def Let_def split: option.splits prod.splits)
      then show ?thesis using v Inr p True by (auto simp: add_header_def)
    qed
  qed
qed

section \<open>Examples\<close>

text \<open>User \<^verbatim>\<open>u1\<close> holds a ticket and is a member of the room \<^verbatim>\<open>r1\<close>, which the only instance owns.\<close>

type_synonym rx_instance = "(nat \<times> string list, (mem_redis, chat_message list) cluster, string list, mem_redis tok_world world) ws_instance"

definition rx_call :: ws_call where
  "rx_call = \<lparr>wc_prepare = Answered, wc_token = ''t1'', wc_now = 0, wc_upgrade = None, wc_register = RegAccepted, wc_cancel = Answered, wc_uuid = Inr ''id''\<rparr>"

definition rx_inst :: rx_instance where
  "rx_inst = \<lparr>wi_manager = cx_mgr, wi_world = cx_w0, wi_pipe = ex_pipe, wi_ring = [''a1''], wi_advertisedAddr = ''a1'', wi_user = ex_w2,
     wi_hasRedis = True, wi_ping = None, wi_chatHealth = HealthStatus ''SERVING'', wi_userHealth = HealthStatus ''SERVING''\<rparr>"

definition rx_verify :: "mem_redis tok_world world verify_client" where
  "rx_verify = user_verify (\<lambda>_. '''') Reply ex_lib"

definition rx_lib :: "(mem_redis, string list, rx_instance, unit) gw_lib" where
  "rx_lib = \<lparr>gl_redis = mem_api, gl_ring = list_ring, gl_parse_url = (\<lambda>_. True), gl_send = send_instance list_lru list_ring rx_verify rx_call,
     gl_split_host_port = (\<lambda>_. None), gl_parse_jwt = (\<lambda>t sec algs. Inl CtxErr), gl_limit = (\<lambda>key rate burst s. (Inr 1, s))\<rparr>"

definition rx_gw :: "(mem_redis, string list, rx_instance) ws_gateway" where
  "rx_gw = \<lparr>gw_redis = \<lparr>mem_clock = 0, mem_keys = [''ws:ticket:t'' \<mapsto> (RStr ''u1'', None)]\<rparr>, gw_watcher = wt_one\<lparr>wt_ring := [''a1'']\<rparr>,
     gw_hasRedis = True, gw_isObserver = True, gw_ping = None, gw_net = Reply, gw_proxies = [], gw_up = rx_inst\<rparr>"

definition rx_req :: "unit request" where
  "rx_req = gx_rq\<lparr>rq_Query := (\<lambda>k. if k = ''ticket'' then [''t''] else if k = ''room_id'' then [''r1''] else [])\<rparr>"

lemma rx_locate: "Locate list_ring [''a1''] ''r1'' = ''a1''"
  by (simp add: Locate_def list_ring_def)

lemma rx_verified: "rx_verify ''r1'' ''u1'' ex_w2 = (Inr (), ex_w2)"
  by (simp add: rx_verify_def user_verify_def grpc_call_def VerifyRoomMember_def act_defs ex_w2_def ex_defs
      q_ExistsRoomMember_def row_defs)

text \<open>The instance's part: the request that arrives registers a session in a new hub.\<close>

lemma rx_served:
  assumes "rq_Header req ''X-User-ID'' = ''u1''" and "query_Get req ''room_id'' = ''r1''"
  shows "\<exists>I'. serveWebSocket list_lru list_ring rx_verify rx_call req rx_inst = (Connected, I') \<and> length (m_heap (wi_manager I')) = 1"
proof -
  have "PrepareRegister Answered list_lru ex_pipe ''t1'' 0 ''r1'' (cx_mgr, cx_w0) =
      (Inr \<lparr>rg_roomID = ''r1'', rg_hub = 0, rg_created = True, rg_done = False\<rparr>, cx_at 0, cx_w1 [cx_doc 41])"
    by (simp add: PrepareRegister_def run_prepare_def cx_create flat_result_def)
  moreover have "\<exists>r M. Commit RegAccepted Answered ''u1'' (Some \<lparr>rg_roomID = ''r1'', rg_hub = 0, rg_created = True, rg_done = False\<rparr>) (cx_at 0) = (None, r, M)
      \<and> length (m_heap M) = 1"
    by (simp add: Commit_def Let_def hub_register_def run_register_def on_hub_def cx_at_def cx_hub_eqs(1) started_def newHub_def)
  ultimately show ?thesis using assms by (auto simp: serveWebSocket_def Let_def rx_inst_def rx_call_def rx_verified rx_locate)
qed

lemma rx_hubs_wf: "hubs_wf (wi_manager rx_inst)"
  by (simp add: hubs_wf_def rx_inst_def cx_mgr_simps)

theorem session_only_for_members_witness:
  "\<exists>I' u'. serveWebSocket list_lru list_ring rx_verify rx_call (rx_req\<lparr>rq_Header := (\<lambda>_. ''u1'')\<rparr>) rx_inst = (Connected, I') \<and>
    rx_verify ''r1'' ''u1'' ex_w2 = (Inr (), u')"
proof -
  have q: "query_Get (rx_req\<lparr>rq_Header := (\<lambda>_. ''u1'')\<rparr>) ''room_id'' = ''r1''" by (simp add: query_Get_def rx_req_def)
  from rx_served [OF _ q] obtain I' where s: "serveWebSocket list_lru list_ring rx_verify rx_call (rx_req\<lparr>rq_Header := (\<lambda>_. ''u1'')\<rparr>) rx_inst = (Connected, I')"
    by auto
  from session_only_for_members [OF rx_hubs_wf s] q s show ?thesis by (auto simp: rx_inst_def)
qed

theorem connection_needs_ticket_and_membership_witness:
  "\<exists>u. mem_keys (gw_redis rx_gw) ''ws:ticket:t'' = Some (RStr u, None) \<and> is_member (w_db ex_w2) ''r1'' u"
proof -
  have k: "connection_tokens (rx_req\<lparr>rq_Header := (rq_Header rx_req)(''X-User-ID'' := ''u1'')\<rparr>) = []"
    by (simp add: connection_tokens_def rx_req_def gx_rq_def TrimSpace_def ascii_lower_def)
  define out where "out = outgoing (\<lambda>_. None) (rx_req\<lparr>rq_Header := (rq_Header rx_req)(''X-User-ID'' := ''u1'')\<rparr>)"
  have out: "rq_Header out ''X-User-ID'' = ''u1''" "query_Get out ''room_id'' = ''r1''"
    using k by (simp_all add: out_def outgoing_user_id) (simp add: query_Get_def rx_req_def)
  obtain I' where s: "serveWebSocket list_lru list_ring rx_verify rx_call out rx_inst = (Connected, I')" "length (m_heap (wi_manager I')) = 1"
    using rx_served [OF out] by blast
  have rd: "ts_GetAndDelete mem_api ''t'' Reply \<lparr>mem_clock = 0, mem_keys = [''ws:ticket:t'' \<mapsto> (RStr ''u1'', None)]\<rparr> =
      (Inr (Some ''u1''), \<lparr>mem_clock = 0, mem_keys = Map.empty\<rparr>)"
    by (simp add: ts_GetAndDelete_def ticketKeyPrefix_def mem_defs)
  have qs: "query_Get rx_req ''ticket'' = ''t''" "query_Get rx_req ''room_id'' = ''r1''" by (simp_all add: query_Get_def rx_req_def)
  have up: "gw_up (snd (proxyWebSocket rx_lib no_ctx rx_req rx_gw)) = I'"
    using s(1) out_def rd qs
    by (simp add: proxyWebSocket_def Let_def rx_lib_def rx_gw_def getOrCreateProxy_def proxy_ServeHTTP_def send_instance_def rx_locate)
       (simp add: rx_inst_def ws_answer_def)
  have 1: "redis (gl_redis rx_lib) mem_keys mem_clock" using mem.redis_axioms by (simp add: rx_lib_def)
  have 2: "\<exists>v e. mem_keys (gw_redis rx_gw) (ticketKeyPrefix @ k) = Some (RStr v, e)" if "mem_keys (gw_redis rx_gw) (ticketKeyPrefix @ k) \<noteq> None" for k
    using that by (simp add: rx_gw_def split: if_splits)
  have 3: "gl_send rx_lib = send_instance list_lru list_ring (user_verify (\<lambda>_. '''') Reply ex_lib) rx_call" by (simp add: rx_lib_def rx_verify_def)
  have 4: "hubs_wf (wi_manager (gw_up rx_gw))" using rx_hubs_wf by (simp add: rx_gw_def)
  have 5: "wi_manager (gw_up (snd (proxyWebSocket rx_lib no_ctx rx_req rx_gw))) \<noteq> wi_manager (gw_up rx_gw)"
    unfolding up using s(2) cx_mgr_simps(2) by (auto simp: rx_gw_def rx_inst_def)
  from connection_needs_ticket_and_membership [OF 1 2 3 4 5] show ?thesis unfolding qs
    by (auto simp: rx_gw_def ticketKeyPrefix_def ex_lib_def rx_inst_def)
qed

theorem connection_errors_witness:
  "\<exists>r. serveWebSocket list_lru list_ring rx_verify rx_call (rx_req\<lparr>rq_Header := (\<lambda>_. ''u1'')\<rparr>) (rx_inst\<lparr>wi_advertisedAddr := ''b1''\<rparr>) =
      (Responded r, rx_inst\<lparr>wi_advertisedAddr := ''b1''\<rparr>) \<and> rs_Status r = 421"
proof -
  let ?req = "rx_req\<lparr>rq_Header := (\<lambda>_. ''u1'')\<rparr>" and ?I = "rx_inst\<lparr>wi_advertisedAddr := ''b1''\<rparr>"
  have q: "rq_Header ?req ''X-User-ID'' = ''u1''" "query_Get ?req ''room_id'' = ''r1''" by (simp_all add: query_Get_def rx_req_def)
  have s: "serveWebSocket list_lru list_ring rx_verify rx_call ?req ?I = (Responded (WriteProblem 421 ''not the owner of this room''), ?I)"
    using q by (simp add: serveWebSocket_def Let_def rx_inst_def rx_verified rx_locate)
  from connection_errors [OF q(1) _ q(2) _ s] show ?thesis using s by (simp add: rx_inst_def rx_verified rx_locate)
qed

end
