(* ===== verification/Api_Gateway.thy ===== *)
theory Api_Gateway
  imports WS_Router
begin

text \<open>
  The public HTTP API (\<^verbatim>\<open>internal/apigateway\<close>): each handler checks the request, calls the user or chat
  service and writes the answer; joining, leaving and deleting start a goroutine that tells the WebSocket
  gateway. The services' clients, the JSON decoders and the HTTP client are parameters.
\<close>

section \<open>Requests and answers\<close>

record Credentials =
  cu_Username :: string
  cu_Password :: string

record RoomSettings =
  rb_Name :: string
  rb_Capacity :: int

record ApiUser =
  au_UserID :: string
  au_Username :: string

record JoinedRoom =
  jr_ID :: string
  jr_Name :: string
  jr_ManagerID :: string
  jr_Capacity :: int
  jr_MemberCount :: int
  jr_JoinedAt :: string

record ApiRoomMember =
  am_UserID :: string
  am_Username :: string
  am_JoinedAt :: string

record SearchedRoom =
  sr_ID :: string
  sr_Name :: string
  sr_ManagerID :: string
  sr_Capacity :: int
  sr_MemberCount :: int

record ApiMessage =
  ag_ID :: string
  ag_RoomID :: string
  ag_SenderID :: string
  ag_Content :: string
  ag_ClientMsgID :: string
  ag_Type :: string
  ag_SequenceNumber :: int
  ag_Timestamp :: int

datatype api_json =
    StatusJSON string
  | CreateUserResponse string
  | VerifyUserJSON string string
  | RefreshTokenResponse string
  | BatchGetUsersResponse "ApiUser list"
  | CreateRoomResponse string
  | ListJoinedRoomsResponse "JoinedRoom list"
  | ListRoomMembersResponse "ApiRoomMember list"
  | SearchRoomsResponse "SearchedRoom list" int
  | ListMessagesResponse "ApiMessage list"

text \<open>A message of the chat service; its timestamp may be missing.\<close>

record pb_Message =
  pm_Id :: string
  pm_RoomId :: string
  pm_SenderId :: string
  pm_Content :: string
  pm_ClientMsgId :: string
  pm_Type :: string
  pm_SequenceNumber :: int
  pm_Timestamp :: "int option"

section \<open>What the gateway calls\<close>

text \<open>The clients of the services, over the state \<open>'w\<close> of everything behind the gateway.\<close>

type_synonym ('w, 'a) client = "'w \<Rightarrow> (go_error + 'a) \<times> 'w"

record 'w user_client =
  uc_CreateUser :: "string \<Rightarrow> string \<Rightarrow> ('w, string) client"
  uc_VerifyUser :: "string \<Rightarrow> string \<Rightarrow> ('w, VerifyUserResponse) client"
  uc_RefreshToken :: "string \<Rightarrow> ('w, string \<times> string) client"
  uc_RevokeToken :: "string \<Rightarrow> ('w, unit) client"
  uc_DeleteUser :: "string \<Rightarrow> string \<Rightarrow> ('w, string list) client"
  uc_BatchGetUsers :: "string list \<Rightarrow> ('w, pb_User list) client"
  uc_ListJoinedRooms :: "string \<Rightarrow> ('w, pb_UserRoom list) client"
  uc_SearchRooms :: "string \<Rightarrow> int \<Rightarrow> int \<Rightarrow> ('w, pb_Room list \<times> int) client"
  uc_CreateRoom :: "string \<Rightarrow> string \<Rightarrow> int \<Rightarrow> ('w, string) client"
  uc_UpdateRoom :: "string \<Rightarrow> string \<Rightarrow> int \<Rightarrow> string \<Rightarrow> ('w, unit) client"
  uc_DeleteRoom :: "string \<Rightarrow> string \<Rightarrow> ('w, unit) client"
  uc_JoinRoom :: "string \<Rightarrow> string \<Rightarrow> ('w, unit) client"
  uc_LeaveRoom :: "string \<Rightarrow> string \<Rightarrow> ('w, unit) client"
  uc_GetMemberJoinedAt :: "string \<Rightarrow> string \<Rightarrow> ('w, int) client"
  uc_VerifyRoomMember :: "string \<Rightarrow> string \<Rightarrow> ('w, unit) client"
  uc_ListRoomMembers :: "string \<Rightarrow> ('w, pb_RoomMember list) client"

record 'w chat_client =
  cl_SyncMessages :: "string \<Rightarrow> int \<Rightarrow> int \<Rightarrow> int \<Rightarrow> ('w, pb_Message list) client"
  cl_ListMessages :: "string \<Rightarrow> int \<Rightarrow> int \<Rightarrow> ('w, pb_Message list) client"

text \<open>A request of the gateway's own HTTP client.\<close>

record http_out =
  ho_Method :: string
  ho_URL :: string
  ho_Header :: "(string \<times> string) list"
  ho_Body :: "BroadcastSystemMessageRequest option"

text \<open>
  \<open>al_Do\<close> returns the status of the response; \<open>al_new_ok\<close> says whether a request can be made for the URL;
  \<open>al_rfc3339\<close> formats a time; the decoders read the body as the handler's struct.
\<close>

record ('w, 'a) api_lib =
  al_user :: "'w user_client"
  al_chat :: "'w chat_client"
  al_Do :: "http_out \<Rightarrow> ('w, int) client"
  al_new_ok :: "string \<Rightarrow> bool"
  al_rfc3339 :: "int \<Rightarrow> string"
  al_parse_uuid :: "string \<Rightarrow> bool"
  al_parse_jwt :: "string \<Rightarrow> string \<Rightarrow> string list \<Rightarrow> go_error + (UserClaims option \<times> bool)"
  al_limit :: "string \<Rightarrow> int \<Rightarrow> int \<Rightarrow> ('w, int) client"
  al_split_host_port :: "string \<Rightarrow> string option"
  al_credentials :: "'a json_stream \<Rightarrow> Credentials json_stream"
  al_password :: "'a json_stream \<Rightarrow> string json_stream"
  al_settings :: "'a json_stream \<Rightarrow> RoomSettings json_stream"

record api_cfg =
  ac_Env :: string
  ac_jwtSecret :: string
  ac_InternalSecret :: string
  ac_WSHost :: string
  ac_WSPort :: string
  ac_RefreshTokenExpirationDays :: int
  ac_DefaultLimit :: int
  ac_MaxLimit :: int
  ac_PublicRPS :: int
  ac_PublicBurst :: int
  ac_AuthRPS :: int
  ac_AuthBurst :: int

text \<open>The goroutines that were started and have not run yet.\<close>

datatype api_job = Announce string string string | AnnounceAll "string list" string string | CloseHub string

record 'w api_gateway =
  ag_back :: 'w
  ag_jobs :: "api_job list"
  ag_hasRedis :: bool
  ag_ping :: "string option"
  ag_userHealth :: health
  ag_chatHealth :: health

type_synonym ('a, 'w) api_handler = "('a, api_json, 'w api_gateway) handler"

section \<open>Helpers of the handlers\<close>

definition writeProblemFromGRPC :: "go_error \<Rightarrow> api_json response" where
  "writeProblemFromGRPC err = (case status_from_error err of
      None \<Rightarrow> WriteProblem 500 ''internal server error''
    | Some (c, msg) \<Rightarrow> (case c of
        NotFound \<Rightarrow> WriteProblem 404 msg
      | AlreadyExists \<Rightarrow> WriteProblem 409 msg
      | InvalidArgument \<Rightarrow> WriteProblem 400 msg
      | Unauthenticated \<Rightarrow> WriteProblem 401 msg
      | PermissionDenied \<Rightarrow> WriteProblem 403 msg
      | FailedPrecondition \<Rightarrow> WriteProblem 409 msg
      | ResourceExhausted \<Rightarrow> WriteProblem 503 (''system overloaded: '' @ msg)
      | DeadlineExceeded \<Rightarrow> WriteProblem 504 (''processing timeout: '' @ msg)
      | _ \<Rightarrow> WriteProblem 500 msg))"

text \<open>A call of a service, with the answer for an error.\<close>

definition calling :: "('w, 'a) client \<Rightarrow> 'w api_gateway \<Rightarrow> ('a \<Rightarrow> 'w api_gateway \<Rightarrow> api_json response \<times> 'w api_gateway) \<Rightarrow> api_json response \<times> 'w api_gateway" where
  "calling f g k = (case f (ag_back g) of
      (Inl err, w) \<Rightarrow> (writeProblemFromGRPC err, g\<lparr>ag_back := w\<rparr>)
    | (Inr a, w) \<Rightarrow> k a (g\<lparr>ag_back := w\<rparr>))"

definition with_user :: "http_ctx \<Rightarrow> 'g \<Rightarrow> (string \<Rightarrow> api_json response \<times> 'g) \<Rightarrow> api_json response \<times> 'g" where
  "with_user cx g k = (case GetUserID cx of None \<Rightarrow> (WriteProblem 401 ''unauthorized'', g) | Some userID \<Rightarrow> k userID)"

definition start_job :: "api_job \<Rightarrow> 'w api_gateway \<Rightarrow> 'w api_gateway" where
  "start_job j g = g\<lparr>ag_jobs := ag_jobs g @ [j]\<rparr>"

definition getUsername :: "http_ctx \<Rightarrow> string" where
  "getUsername cx = (case GetUsername cx of
      Some username \<Rightarrow> if username \<noteq> '''' then username else (case GetUserID cx of Some u \<Rightarrow> u | None \<Rightarrow> ''Unknown'')
    | None \<Rightarrow> (case GetUserID cx of Some u \<Rightarrow> u | None \<Rightarrow> ''Unknown''))"

definition secondsPerDay :: int where "secondsPerDay = 86400"

text \<open>\<^verbatim>\<open>http.SetCookie\<close> of a cookie whose value needs no quoting; a negative \<^verbatim>\<open>MaxAge\<close> is written as 0.\<close>

definition cookie_String :: "bool \<Rightarrow> string \<Rightarrow> int \<Rightarrow> string" where
  "cookie_String secure value maxAge = ''refresh_token='' @ value @ ''; Path=/auth''
     @ (if maxAge > 0 then ''; Max-Age='' @ format_int maxAge else if maxAge < 0 then ''; Max-Age=0'' else '''')
     @ ''; HttpOnly'' @ (if secure then ''; Secure'' else '''') @ ''; SameSite=Strict''"

definition setRefreshTokenCookie :: "api_cfg \<Rightarrow> string \<Rightarrow> api_json response \<Rightarrow> api_json response" where
  "setRefreshTokenCookie cfg token = add_header ''Set-Cookie'' (cookie_String (ac_Env cfg = ''prod'') token (ac_RefreshTokenExpirationDays cfg * secondsPerDay))"

definition clearRefreshTokenCookie :: "api_cfg \<Rightarrow> api_json response \<Rightarrow> api_json response" where
  "clearRefreshTokenCookie cfg = add_header ''Set-Cookie'' (cookie_String (ac_Env cfg = ''prod'') '''' (-1))"

section \<open>Accounts and tokens\<close>

definition handleCreateUser :: "('w, 'a) api_lib \<Rightarrow> ('a, 'w) api_handler" where
  "handleCreateUser L cx req g = (case ReadJSON (al_credentials L (rq_Body req)) of
      Inl err \<Rightarrow> (WriteProblem 400 ''invalid request body'', g)
    | Inr body \<Rightarrow>
        if cu_Username body = '''' \<or> cu_Password body = '''' then (WriteProblem 400 ''username and password are required'', g)
        else calling (uc_CreateUser (al_user L) (cu_Username body) (cu_Password body)) g
          (\<lambda>userId g. (WriteJSON 201 (CreateUserResponse userId), g)))"

definition handleVerifyUser :: "('w, 'a) api_lib \<Rightarrow> api_cfg \<Rightarrow> ('a, 'w) api_handler" where
  "handleVerifyUser L cfg cx req g = (case ReadJSON (al_credentials L (rq_Body req)) of
      Inl err \<Rightarrow> (WriteProblem 400 ''invalid request body'', g)
    | Inr body \<Rightarrow>
        if cu_Username body = '''' \<or> cu_Password body = '''' then (WriteProblem 400 ''username and password are required'', g)
        else calling (uc_VerifyUser (al_user L) (cu_Username body) (cu_Password body)) g
          (\<lambda>resp g. (setRefreshTokenCookie cfg (vur_RefreshToken resp) (WriteJSON 200 (VerifyUserJSON (vur_UserId resp) (vur_AccessToken resp))), g)))"

definition handleDeleteUser :: "('w, 'a) api_lib \<Rightarrow> api_cfg \<Rightarrow> ('a, 'w) api_handler" where
  "handleDeleteUser L cfg cx req g = with_user cx g (\<lambda>userID.
     case ReadJSON (al_password L (rq_Body req)) of
       Inl err \<Rightarrow> (WriteProblem 400 ''invalid request body'', g)
     | Inr password \<Rightarrow>
         if password = '''' then (WriteProblem 400 ''password is required'', g)
         else calling (uc_DeleteUser (al_user L) userID password) g (\<lambda>leftRoomIds g.
           (clearRefreshTokenCookie cfg (WriteHeader 204),
            if leftRoomIds = [] then g else start_job (AnnounceAll leftRoomIds (getUsername cx) SystemEventLeave) g)))"

definition maxBatchUserIDs :: nat where "maxBatchUserIDs = 100"

definition handleBatchGetUsers :: "('w, 'a) api_lib \<Rightarrow> ('a, 'w) api_handler" where
  "handleBatchGetUsers L cx req g = (let ids = rq_Query req ''ids'' in
     if ids = [] then (WriteProblem 400 ''ids parameter is required'', g)
     else if length ids > maxBatchUserIDs then (WriteProblem 400 ''too many ids'', g)
     else if list_ex (\<lambda>i. \<not> al_parse_uuid L i) ids then (WriteProblem 400 ''invalid user id'', g)
     else calling (uc_BatchGetUsers (al_user L) ids) g (\<lambda>users g.
       (WriteJSON 200 (BatchGetUsersResponse (map (\<lambda>u. \<lparr>au_UserID = pb_Id u, au_Username = pb_Username u\<rparr>) users)), g)))"

definition handleRefreshToken :: "('w, 'a) api_lib \<Rightarrow> api_cfg \<Rightarrow> ('a, 'w) api_handler" where
  "handleRefreshToken L cfg cx req g = (case rq_Cookie req of
      None \<Rightarrow> (WriteProblem 401 ''missing refresh token'', g)
    | Some token \<Rightarrow> calling (uc_RefreshToken (al_user L) token) g (\<lambda>(accessToken, refreshToken) g.
        (setRefreshTokenCookie cfg refreshToken (WriteJSON 200 (RefreshTokenResponse accessToken)), g)))"

definition handleRevokeToken :: "('w, 'a) api_lib \<Rightarrow> api_cfg \<Rightarrow> ('a, 'w) api_handler" where
  "handleRevokeToken L cfg cx req g = (case rq_Cookie req of
      None \<Rightarrow> (WriteProblem 401 ''missing refresh token'', g)
    | Some token \<Rightarrow> calling (uc_RevokeToken (al_user L) token) g (\<lambda>_ g. (clearRefreshTokenCookie cfg (WriteHeader 204), g)))"

section \<open>Rooms\<close>

definition handleListJoinedRooms :: "('w, 'a) api_lib \<Rightarrow> ('a, 'w) api_handler" where
  "handleListJoinedRooms L cx req g = with_user cx g (\<lambda>userID.
     calling (uc_ListJoinedRooms (al_user L) userID) g (\<lambda>rooms g.
       (WriteJSON 200 (ListJoinedRoomsResponse (map (\<lambda>ur. \<lparr>jr_ID = pbr_Id (pbu_Room ur), jr_Name = pbr_Name (pbu_Room ur),
          jr_ManagerID = pbr_ManagerId (pbu_Room ur), jr_Capacity = pbr_Capacity (pbu_Room ur), jr_MemberCount = pbr_MemberCount (pbu_Room ur),
          jr_JoinedAt = al_rfc3339 L (pbu_JoinedAt ur)\<rparr>) rooms)), g)))"

text \<open>The \<^verbatim>\<open>limit\<close> and \<^verbatim>\<open>offset\<close> parameters of a search, or the text of the refusal.\<close>

definition search_limit :: "api_cfg \<Rightarrow> string \<Rightarrow> string + int" where
  "search_limit cfg limitStr =
    (if limitStr = '''' then Inr (ac_DefaultLimit cfg)
     else (case ParseInt limitStr 32 of
         None \<Rightarrow> Inl ''invalid limit parameter''
       | Some l \<Rightarrow> if l \<le> 0 then Inl ''limit must be positive''
           else if int32_of l > ac_MaxLimit cfg then Inl ''limit exceeds maximum allowed'' else Inr (int32_of l)))"

definition search_offset :: "string \<Rightarrow> string + int" where
  "search_offset offsetStr =
    (if offsetStr = '''' then Inr 0
     else (case ParseInt offsetStr 32 of
         None \<Rightarrow> Inl ''invalid offset parameter''
       | Some off \<Rightarrow> if off < 0 then Inl ''invalid offset parameter'' else Inr (int32_of off)))"

definition handleSearchRooms :: "('w, 'a) api_lib \<Rightarrow> api_cfg \<Rightarrow> ('a, 'w) api_handler" where
  "handleSearchRooms L cfg cx req g = (case search_limit cfg (query_Get req ''limit'') of
      Inl msg \<Rightarrow> (WriteProblem 400 msg, g)
    | Inr limit \<Rightarrow> (case search_offset (query_Get req ''offset'') of
        Inl msg \<Rightarrow> (WriteProblem 400 msg, g)
      | Inr offset \<Rightarrow> calling (uc_SearchRooms (al_user L) (query_Get req ''q'') limit offset) g (\<lambda>(rooms, totalCount) g.
          (WriteJSON 200 (SearchRoomsResponse (map (\<lambda>r. \<lparr>sr_ID = pbr_Id r, sr_Name = pbr_Name r, sr_ManagerID = pbr_ManagerId r,
             sr_Capacity = pbr_Capacity r, sr_MemberCount = pbr_MemberCount r\<rparr>) rooms) (int64_of totalCount)), g))))"

definition handleCreateRoom :: "('w, 'a) api_lib \<Rightarrow> ('a, 'w) api_handler" where
  "handleCreateRoom L cx req g = with_user cx g (\<lambda>userID.
     case ReadJSON (al_settings L (rq_Body req)) of
       Inl err \<Rightarrow> (WriteProblem 400 ''invalid request body'', g)
     | Inr body \<Rightarrow>
         if rb_Name body = '''' then (WriteProblem 400 ''room name is required'', g)
         else calling (uc_CreateRoom (al_user L) (rb_Name body) userID (rb_Capacity body)) g
           (\<lambda>roomId g. (WriteJSON 201 (CreateRoomResponse roomId), g)))"

definition handleUpdateRoom :: "('w, 'a) api_lib \<Rightarrow> ('a, 'w) api_handler" where
  "handleUpdateRoom L cx req g = with_user cx g (\<lambda>userID.
     case ReadJSON (al_settings L (rq_Body req)) of
       Inl err \<Rightarrow> (WriteProblem 400 ''invalid request body'', g)
     | Inr body \<Rightarrow> calling (uc_UpdateRoom (al_user L) (rq_PathID req) (rb_Name body) (rb_Capacity body) userID) g
         (\<lambda>_ g. (WriteHeader 204, g)))"

definition handleDeleteRoom :: "('w, 'a) api_lib \<Rightarrow> ('a, 'w) api_handler" where
  "handleDeleteRoom L cx req g = with_user cx g (\<lambda>userID.
     calling (uc_DeleteRoom (al_user L) (rq_PathID req) userID) g
       (\<lambda>_ g. (WriteHeader 204, start_job (CloseHub (rq_PathID req)) g)))"

definition handleJoinRoom :: "('w, 'a) api_lib \<Rightarrow> ('a, 'w) api_handler" where
  "handleJoinRoom L cx req g = with_user cx g (\<lambda>userID.
     calling (uc_JoinRoom (al_user L) (rq_PathID req) userID) g
       (\<lambda>_ g. (WriteHeader 204, start_job (Announce (rq_PathID req) (getUsername cx) SystemEventJoin) g)))"

definition handleLeaveRoom :: "('w, 'a) api_lib \<Rightarrow> ('a, 'w) api_handler" where
  "handleLeaveRoom L cx req g = with_user cx g (\<lambda>userID.
     calling (uc_LeaveRoom (al_user L) (rq_PathID req) userID) g
       (\<lambda>_ g. (WriteHeader 204, start_job (Announce (rq_PathID req) (getUsername cx) SystemEventLeave) g)))"

definition messagesFromProto :: "pb_Message list \<Rightarrow> ApiMessage list" where
  "messagesFromProto msgs = map (\<lambda>m. \<lparr>ag_ID = pm_Id m, ag_RoomID = pm_RoomId m, ag_SenderID = pm_SenderId m, ag_Content = pm_Content m,
     ag_ClientMsgID = pm_ClientMsgId m, ag_Type = pm_Type m, ag_SequenceNumber = pm_SequenceNumber m,
     ag_Timestamp = (case pm_Timestamp m of None \<Rightarrow> 0 | Some ts \<Rightarrow> ts)\<rparr>) msgs"

text \<open>The \<^verbatim>\<open>limit\<close> of a page: 0 when it is missing, none when it is refused.\<close>

definition page_limit :: "string \<Rightarrow> int option" where
  "page_limit s = (if s = '''' then Some 0
     else (case ParseInt s 32 of None \<Rightarrow> None | Some limit \<Rightarrow> if limit \<le> 0 then None else Some limit))"

definition handleListMessages :: "('w, 'a) api_lib \<Rightarrow> ('a, 'w) api_handler" where
  "handleListMessages L cx req g = (let roomID = rq_PathID req; lastSeqStr = query_Get req ''last_seq''; limitStr = query_Get req ''limit'' in
     with_user cx g (\<lambda>userID.
     calling (uc_GetMemberJoinedAt (al_user L) roomID userID) g (\<lambda>joinedAt g.
       if lastSeqStr \<noteq> '''' then
         (case ParseInt lastSeqStr 64 of
            None \<Rightarrow> (WriteProblem 400 ''invalid last_seq parameter'', g)
          | Some lastSeq \<Rightarrow> (case page_limit limitStr of
              None \<Rightarrow> (WriteProblem 400 ''invalid limit parameter'', g)
            | Some limit \<Rightarrow> calling (cl_SyncMessages (al_chat L) roomID lastSeq (int32_of limit) joinedAt) g
                (\<lambda>msgs g. (WriteJSON 200 (ListMessagesResponse (messagesFromProto msgs)), g))))
       else (case page_limit limitStr of
          None \<Rightarrow> (WriteProblem 400 ''invalid limit parameter'', g)
        | Some limit \<Rightarrow> calling (cl_ListMessages (al_chat L) roomID (int32_of limit) joinedAt) g
            (\<lambda>msgs g. (WriteJSON 200 (ListMessagesResponse (messagesFromProto msgs)), g))))))"

definition handleListRoomMembers :: "('w, 'a) api_lib \<Rightarrow> ('a, 'w) api_handler" where
  "handleListRoomMembers L cx req g = (let roomID = rq_PathID req in
     with_user cx g (\<lambda>userID.
     calling (uc_VerifyRoomMember (al_user L) roomID userID) g (\<lambda>_ g.
     calling (uc_ListRoomMembers (al_user L) roomID) g (\<lambda>members g.
       (WriteJSON 200 (ListRoomMembersResponse (map (\<lambda>m. \<lparr>am_UserID = pbm_UserId m, am_Username = pbm_Username m,
          am_JoinedAt = al_rfc3339 L (pbm_JoinedAt m)\<rparr>) members)), g)))))"

section \<open>Telling the WebSocket gateway\<close>

definition WSGatewayAddr :: "api_cfg \<Rightarrow> string" where
  "WSGatewayAddr cfg = ''http://'' @ ac_WSHost cfg @ '':'' @ ac_WSPort cfg"

definition broadcastSystemMessage :: "('w, 'a) api_lib \<Rightarrow> api_cfg \<Rightarrow> string \<Rightarrow> string \<Rightarrow> string \<Rightarrow> 'w \<Rightarrow> 'w" where
  "broadcastSystemMessage L cfg roomID username eventType w =
    (let url = WSGatewayAddr cfg @ ''/internal/rooms/'' @ roomID @ ''/broadcast'' in
     if \<not> al_new_ok L url then w
     else snd (al_Do L \<lparr>ho_Method = ''POST'', ho_URL = url,
       ho_Header = [(''X-Internal-Secret'', ac_InternalSecret cfg), (''Content-Type'', ''application/json'')],
       ho_Body = Some \<lparr>bs_Username = username, bs_Event = eventType\<rparr>\<rparr> w))"

text \<open>The goroutine of \<^verbatim>\<open>handleDeleteRoom\<close>; the status of the answer is only logged.\<close>

definition close_hub :: "('w, 'a) api_lib \<Rightarrow> api_cfg \<Rightarrow> string \<Rightarrow> 'w \<Rightarrow> 'w" where
  "close_hub L cfg roomID w =
    (let url = WSGatewayAddr cfg @ ''/internal/rooms/'' @ roomID in
     if \<not> al_new_ok L url then w
     else snd (al_Do L \<lparr>ho_Method = ''DELETE'', ho_URL = url, ho_Header = [(''X-Internal-Secret'', ac_InternalSecret cfg)], ho_Body = None\<rparr> w))"

fun run_job :: "('w, 'a) api_lib \<Rightarrow> api_cfg \<Rightarrow> api_job \<Rightarrow> 'w \<Rightarrow> 'w" where
  "run_job L cfg (Announce roomID username ev) w = broadcastSystemMessage L cfg roomID username ev w"
| "run_job L cfg (AnnounceAll roomIDs username ev) w = fold (\<lambda>roomID. broadcastSystemMessage L cfg roomID username ev) roomIDs w"
| "run_job L cfg (CloseHub roomID) w = close_hub L cfg roomID w"

text \<open>A started goroutine runs at some later time; \<^verbatim>\<open>Wait\<close> returns when none is left.\<close>

definition run_goroutine :: "('w, 'a) api_lib \<Rightarrow> api_cfg \<Rightarrow> nat \<Rightarrow> 'w api_gateway \<Rightarrow> 'w api_gateway" where
  "run_goroutine L cfg i g =
    (if i < length (ag_jobs g)
     then g\<lparr>ag_back := run_job L cfg (ag_jobs g ! i) (ag_back g), ag_jobs := take i (ag_jobs g) @ drop (Suc i) (ag_jobs g)\<rparr> else g)"

definition api_Wait :: "'w api_gateway \<Rightarrow> bool" where "api_Wait g \<longleftrightarrow> ag_jobs g = []"

section \<open>Routes\<close>

definition api_checkGRPCHealth :: "health \<Rightarrow> string option" where
  "api_checkGRPCHealth h = (case h of
      NoHealthClient \<Rightarrow> Some ''health client not configured''
    | HealthError err \<Rightarrow> Some err
    | HealthStatus st \<Rightarrow> if st \<noteq> ''SERVING'' then Some (''status '' @ st) else None)"

definition api_readinessFailures :: "'w api_gateway \<Rightarrow> string list" where
  "api_readinessFailures g =
     (if \<not> ag_hasRedis g then [''redis client not configured'']
      else (case ag_ping g of None \<Rightarrow> [] | Some err \<Rightarrow> [''redis ping failed: '' @ err]))
     @ (case api_checkGRPCHealth (ag_userHealth g) of None \<Rightarrow> [] | Some err \<Rightarrow> [''user-service health failed: '' @ err])
     @ (case api_checkGRPCHealth (ag_chatHealth g) of None \<Rightarrow> [] | Some err \<Rightarrow> [''chat-service health failed: '' @ err])"

definition api_handleReady :: "('a, 'w) api_handler" where
  "api_handleReady cx req g = (let failures = api_readinessFailures g in
     if failures \<noteq> [] then (WriteProblem 503 (''not ready: '' @ Join ''; '' failures), g)
     else (WriteJSON 200 (StatusJSON ''ready''), g))"

definition api_Allow :: "('w, 'a) api_lib \<Rightarrow> int \<Rightarrow> int \<Rightarrow> string \<Rightarrow> 'w api_gateway \<Rightarrow> (go_error + bool) \<times> 'w api_gateway" where
  "api_Allow L = limiter_Allow (\<lambda>key rate burst g. case al_limit L key rate burst (ag_back g) of (r, w) \<Rightarrow> (r, g\<lparr>ag_back := w\<rparr>))"

definition publicMws :: "('w, 'a) api_lib \<Rightarrow> api_cfg \<Rightarrow> ('a, api_json, 'w api_gateway) middleware list" where
  "publicMws L cfg = [RateLimitMiddleware (api_Allow L (ac_PublicRPS cfg) (ac_PublicBurst cfg)) (IPKeyFunc (al_split_host_port L))]"

definition authMws :: "('w, 'a) api_lib \<Rightarrow> api_cfg \<Rightarrow> ('a, api_json, 'w api_gateway) middleware list" where
  "authMws L cfg = [BearerAuthMiddleware (al_parse_jwt L) (ac_jwtSecret cfg),
     RateLimitMiddleware (api_Allow L (ac_AuthRPS cfg) (ac_AuthBurst cfg)) (ContextKeyFunc cx_UserID)]"

text \<open>The routes that need an access token, and all routes.\<close>

definition auth_handlers :: "('w, 'a) api_lib \<Rightarrow> api_cfg \<Rightarrow> (string \<times> ('a, 'w) api_handler) list" where
  "auth_handlers L cfg = [
     (''DELETE /me'', handleDeleteUser L cfg),
     (''GET /users'', handleBatchGetUsers L),
     (''GET /me/rooms'', handleListJoinedRooms L),
     (''GET /rooms'', handleSearchRooms L cfg),
     (''POST /rooms'', handleCreateRoom L),
     (''PATCH /rooms/{id}'', handleUpdateRoom L),
     (''DELETE /rooms/{id}'', handleDeleteRoom L),
     (''PUT /rooms/{id}/members/me'', handleJoinRoom L),
     (''DELETE /rooms/{id}/members/me'', handleLeaveRoom L),
     (''GET /rooms/{id}/members'', handleListRoomMembers L),
     (''GET /rooms/{id}/messages'', handleListMessages L)]"

definition api_registerRoutes :: "('w, 'a) api_lib \<Rightarrow> api_cfg \<Rightarrow> (string \<times> ('a, 'w) api_handler) list" where
  "api_registerRoutes L cfg =
    [(''GET /health'', \<lambda>cx req g. (WriteJSON 200 (StatusJSON ''healthy''), g)),
     (''GET /ready'', api_handleReady),
     (''POST /users'', ChainMiddleware (handleCreateUser L) (publicMws L cfg)),
     (''POST /auth/token'', ChainMiddleware (handleVerifyUser L cfg) (publicMws L cfg)),
     (''POST /auth/token/refresh'', ChainMiddleware (handleRefreshToken L cfg) (publicMws L cfg)),
     (''DELETE /auth/token'', ChainMiddleware (handleRevokeToken L cfg) (publicMws L cfg))]
    @ map (\<lambda>(p, h). (p, ChainMiddleware h (authMws L cfg))) (auth_handlers L cfg)"

end
