(* ===== verification/Api_Guarantees.thy ===== *)
theory Api_Guarantees
  imports Api_Gateway
begin

text \<open>
  The API gateway together with the services it calls: the clients are the gRPC calls of the user service's
  and the chat service's operations, the rate limiter works on a part of the state of its own, and the
  announcements reach the WebSocket gateway. The theorems follow a request from its access token to the
  tables and the message store.
\<close>

section \<open>The services behind the gateway\<close>

record ('w, 'm, 'x) api_back =
  ab_user :: "'w world"
  ab_chat :: 'm
  ab_rest :: 'x

definition on_user :: "(go_error \<Rightarrow> string) \<Rightarrow> net \<Rightarrow> ('w, 'a) act \<Rightarrow> (('w, 'm, 'x) api_back, 'a) client" where
  "on_user tx n m b = (case grpc_call tx n (run_state m) (ab_user b) of (r, u) \<Rightarrow> (r, b\<lparr>ab_user := u\<rparr>))"

definition on_chat :: "(go_error \<Rightarrow> string) \<Rightarrow> net \<Rightarrow> ('m, 'a) client \<Rightarrow> (('w, 'm, 'x) api_back, 'a) client" where
  "on_chat tx n f b = (case grpc_call tx n f (ab_chat b) of (r, m) \<Rightarrow> (r, b\<lparr>ab_chat := m\<rparr>))"

text \<open>
  What one request finds: how its calls end, the time, a fresh identifier and a fresh token.
\<close>

record api_call =
  ap_text :: "go_error \<Rightarrow> string"
  ap_net :: net
  ap_now :: int
  ap_newID :: "go_error + (uuid \<times> int)"
  ap_newToken :: string

definition user_service_client :: "api_call \<Rightarrow> 'w Service \<Rightarrow> lib \<Rightarrow> ('w, 'm, 'x) api_back user_client" where
  "user_service_client c s UL = (let call = ap_text c; n = ap_net c in \<lparr>
     uc_CreateUser = (\<lambda>un pw. on_user call n (CreateUser s UL (ap_newID c) un pw)),
     uc_VerifyUser = (\<lambda>un pw. on_user call n (VerifyUser s UL (ap_now c) (ap_newToken c) un pw)),
     uc_RefreshToken = (\<lambda>tok. on_user call n (RefreshToken s UL (ap_now c) (ap_newToken c) tok)),
     uc_RevokeToken = (\<lambda>tok. on_user call n (RevokeToken s tok)),
     uc_DeleteUser = (\<lambda>uid pw. on_user call n (DeleteUser s UL uid pw)),
     uc_BatchGetUsers = (\<lambda>ids. on_user call n (BatchGetUsers UL ids)),
     uc_ListJoinedRooms = (\<lambda>uid. on_user call n (ListJoinedRooms UL uid)),
     uc_SearchRooms = (\<lambda>q limit off. on_user call n (SearchRooms s UL q limit off)),
     uc_CreateRoom = (\<lambda>name mid cap. on_user call n (CreateRoom s UL (ap_newID c) name mid cap)),
     uc_UpdateRoom = (\<lambda>rid name cap qid. on_user call n (UpdateRoom s UL rid qid name cap)),
     uc_DeleteRoom = (\<lambda>rid qid. on_user call n (DeleteRoom UL rid qid)),
     uc_JoinRoom = (\<lambda>rid uid. on_user call n (JoinRoom UL (ap_now c) uid rid)),
     uc_LeaveRoom = (\<lambda>rid uid. on_user call n (LeaveRoom UL rid uid)),
     uc_GetMemberJoinedAt = (\<lambda>rid uid. on_user call n (GetMemberJoinedAt UL rid uid)),
     uc_VerifyRoomMember = (\<lambda>rid uid. on_user call n (VerifyRoomMember UL rid uid)),
     uc_ListRoomMembers = (\<lambda>rid. on_user call n (ListRoomMembers UL rid))\<rparr>)"

text \<open>
  The messages as the chat service sends them; \<open>ms\<close> converts the time a member joined to the precision of the
  stored dates.
\<close>

definition pb_of :: "chat_message \<Rightarrow> pb_Message" where
  "pb_of m = \<lparr>pm_Id = cm_ID m, pm_RoomId = cm_RoomID m, pm_SenderId = cm_SenderID m, pm_Content = cm_Content m, pm_ClientMsgId = cm_ClientMsgID m,
     pm_Type = cm_Type m, pm_SequenceNumber = cm_SequenceNumber m, pm_Timestamp = Some (cm_CreatedAt m div 1000)\<rparr>"

definition map_result :: "('a \<Rightarrow> 'b) \<Rightarrow> (go_error + 'a) \<times> 'm \<Rightarrow> (go_error + 'b) \<times> 'm" where
  "map_result f r = (map_sum id f (fst r), snd r)"

definition chat_service_client :: "api_call \<Rightarrow> ChatConfig \<Rightarrow> 'm collection \<Rightarrow> (int \<Rightarrow> int) \<Rightarrow> ('w, 'm, 'x) api_back chat_client" where
  "chat_service_client c cfg col ms = \<lparr>
     cl_SyncMessages = (\<lambda>room lastSeq limit joinedAt. on_chat (ap_text c) (ap_net c)
       (\<lambda>m. map_result (map pb_of) (chat_SyncMessages cfg col room lastSeq limit (Some (ms joinedAt)) m))),
     cl_ListMessages = (\<lambda>room limit joinedAt. on_chat (ap_text c) (ap_net c)
       (\<lambda>m. map_result (map pb_of) (ListMessages cfg col room limit (Some (ms joinedAt)) m)))\<rparr>"

text \<open>The limiter's Redis is apart from the tables and the messages.\<close>

definition wired ::
  "(string \<Rightarrow> int \<Rightarrow> int \<Rightarrow> ('x, int) client) \<Rightarrow> (('w, 'm, 'x) api_back, 'a) api_lib \<Rightarrow> api_call \<Rightarrow> 'w Service \<Rightarrow> lib \<Rightarrow> ChatConfig \<Rightarrow> 'm collection \<Rightarrow> (int \<Rightarrow> int) \<Rightarrow>
   (('w, 'm, 'x) api_back, 'a) api_lib" where
  "wired lim L c s UL ccfg col ms = L\<lparr>al_user := user_service_client c s UL, al_chat := chat_service_client c ccfg col ms,
     al_limit := (\<lambda>key rate burst b. case lim key rate burst (ab_rest b) of (r, x) \<Rightarrow> (r, b\<lparr>ab_rest := x\<rparr>))\<rparr>"

section \<open>Authenticated routes\<close>

lemma grpc_problem_status: "400 \<le> rs_Status (writeProblemFromGRPC err)"
  by (simp add: writeProblemFromGRPC_def split: option.splits prod.splits codes.splits)

lemma calling_ok:
  assumes "calling f g k = (r, g')" and "rs_Status r < 400"
  shows "\<exists>a w. f (ag_back g) = (Inr a, w) \<and> k a (g\<lparr>ag_back := w\<rparr>) = (r, g')"
proof (cases "f (ag_back g)")
  case (Pair x w)
  then show ?thesis using assms grpc_problem_status by (cases x) (auto simp: calling_def not_le [symmetric])
qed

definition claims_ctx :: "UserClaims \<Rightarrow> http_ctx" where
  "claims_ctx c = \<lparr>cx_UserID = Some (clm_Subject c), cx_Username = Some (clm_Username c)\<rparr>"

lemma with_claims [simp]: "with_user (claims_ctx c) g k = k (clm_Subject c)"
  by (simp add: with_user_def claims_ctx_def GetUserID_def)

lemma auth_route_handler:
  assumes "map_of (auth_handlers L cfg) p = Some handle"
  shows "map_of (api_registerRoutes L cfg) p = Some (ChainMiddleware handle (authMws L cfg))"
proof -
  have "p \<notin> {''GET /health'', ''GET /ready'', ''POST /users'', ''POST /auth/token'', ''POST /auth/token/refresh'', ''DELETE /auth/token''}"
    using assms by (auto simp: auth_handlers_def split: if_splits)
  then show ?thesis using assms by (simp add: api_registerRoutes_def map_of_map)
qed

text \<open>The state that a request behind the limiter finds.\<close>

definition limited :: "('w, 'a) api_lib \<Rightarrow> api_cfg \<Rightarrow> string \<Rightarrow> 'w api_gateway \<Rightarrow> 'w api_gateway" where
  "limited L cfg user g = (if user = '''' then g else snd (api_Allow L (ac_AuthRPS cfg) (ac_AuthBurst cfg) user g))"

lemma auth_route:
  assumes "map_of (auth_handlers L cfg) p = Some handle" and "map_of (api_registerRoutes L cfg) p = Some h"
  shows "(if extractToken req = '''' then h no_ctx req g = (WriteProblem 401 ''missing token'', g)
     else case VerifyJWT (al_parse_jwt L) (extractToken req) (ac_jwtSecret cfg) of
         Inl err \<Rightarrow> h no_ctx req g = (WriteProblem 401 ''invalid token'', g)
       | Inr clm \<Rightarrow> h no_ctx req g = handle (claims_ctx clm) req (limited L cfg (clm_Subject clm) g)
           \<or> h no_ctx req g = (add_header ''Retry-After'' ''1'' (WriteProblem 429 ''rate limit exceeded''), limited L cfg (clm_Subject clm) g))"
proof -
  have "h = ChainMiddleware handle (authMws L cfg)" using assms auth_route_handler by fastforce
  then show ?thesis
    by (auto simp: authMws_def BearerAuthMiddleware_def RateLimitMiddleware_def ContextKeyFunc_def limited_def claims_ctx_def no_ctx_def Let_def
        split: sum.splits prod.splits)
qed

text \<open>No route of the API that needs an access token reaches a service without one: when the bearer token is missing
  or does not verify under the gateway's secret, the answer is \<^verbatim>\<open>401\<close> and nothing at all happens behind the
  gateway; with a valid token the handler runs as the token's subject, or the answer is \<^verbatim>\<open>429\<close>.\<close>

theorem api_needs_token:
  assumes "map_of (auth_handlers L cfg) p = Some handle" and "map_of (api_registerRoutes L cfg) p = Some h"
  shows "case (extractToken req, VerifyJWT (al_parse_jwt L) (extractToken req) (ac_jwtSecret cfg)) of
      (_ # _, Inr clm) \<Rightarrow> h no_ctx req g = handle (claims_ctx clm) req (limited L cfg (clm_Subject clm) g)
        \<or> rs_Status (fst (h no_ctx req g)) = 429 \<and> snd (h no_ctx req g) = limited L cfg (clm_Subject clm) g
    | _ \<Rightarrow> rs_Status (fst (h no_ctx req g)) = 401 \<and> snd (h no_ctx req g) = g"
  using auth_route [OF assms, of req g] by (auto split: list.splits sum.splits)

section \<open>From the token to the tables and the messages\<close>

lemma wired_simps [simp]:
  "al_user (wired lim L c s UL ccfg col ms) = user_service_client c s UL" "al_chat (wired lim L c s UL ccfg col ms) = chat_service_client c ccfg col ms"
  "al_parse_jwt (wired lim L c s UL ccfg col ms) = al_parse_jwt L"
  by (simp_all add: wired_def)

lemma limited_frame:
  "ab_user (ag_back (limited (wired lim L c s UL ccfg col ms) cfg u g)) = ab_user (ag_back g)"
  "ab_chat (ag_back (limited (wired lim L c s UL ccfg col ms) cfg u g)) = ab_chat (ag_back g)"
  by (simp_all add: limited_def api_Allow_def limiter_Allow_def wired_def split: prod.splits sum.splits)

lemma on_user_ok: "on_user tx n m b = (Inr a, b') \<longleftrightarrow> n = Reply \<and> (\<exists>u. runs m (ab_user b) a u \<and> b' = b\<lparr>ab_user := u\<rparr>)"
proof -
  obtain x u where "grpc_call tx n (run_state m) (ab_user b) = (x, u)" by force
  then show ?thesis using grpc_ok [of tx n "run_state m" "ab_user b" a u] grpc_ok [of tx n "run_state m" "ab_user b" a]
    by (auto simp: on_user_def runs_def)
qed

lemma on_chat_ok: "on_chat tx n f b = (Inr a, b') \<longleftrightarrow> n = Reply \<and> (\<exists>m. f (ab_chat b) = (Inr a, m) \<and> b' = b\<lparr>ab_chat := m\<rparr>)"
proof -
  obtain x m where "grpc_call tx n f (ab_chat b) = (x, m)" by force
  then show ?thesis using grpc_ok [of tx n f "ab_chat b" a m] grpc_ok [of tx n f "ab_chat b" a] by (auto simp: on_chat_def)
qed

lemma map_result_ok: "map_result f r = (Inr b, m) \<longleftrightarrow> (\<exists>a. r = (Inr a, m) \<and> b = f a)"
  by (cases r; cases "fst r") (auto simp: map_result_def)

text \<open>An answer below 400 of a protected route is the handler's, for the subject of a valid token.\<close>

lemma auth_route_ok:
  assumes "map_of (auth_handlers L cfg) p = Some handle" "map_of (api_registerRoutes L cfg) p = Some h"
    and "h no_ctx req g = (r, g')" "rs_Status r < 400"
  obtains clm where "VerifyJWT (al_parse_jwt L) (extractToken req) (ac_jwtSecret cfg) = Inr clm"
    "handle (claims_ctx clm) req (limited L cfg (clm_Subject clm) g) = (r, g')"
  using auth_route [OF assms(1,2), of req g] assms(3,4) by (auto split: if_splits sum.splits)

text \<open>The pages of both queries hold only what a member may see.\<close>

lemma visible_page:
  assumes M: "mongo col docs" and "0 < limit" and "col_Find col f dir limit m = (Inr page, m')" and "d \<in> set page"
  shows "d \<in> set (docs m) \<and> matches f d"
  using mongo.find_ok [OF M assms(2,3)] assms(4) set_take_subset by (fastforce simp: Chat.query_def)

lemma visible_messages:
  assumes "mongo col docs" and pos: "0 < cc_SyncDefault cfg" "0 < cc_SyncMax cfg" "0 < cc_HistoryDefault cfg" "0 < cc_HistoryMax cfg"
    and "chat_SyncMessages cfg col room lastSeq limit (Some t) m = (Inr page, m') \<or> ListMessages cfg col room limit (Some t) m = (Inr page, m')"
    and "d \<in> set page"
  shows "d \<in> set (docs m) \<and> cm_RoomID d = room \<and> t \<le> cm_CreatedAt d"
  using assms(6)
proof
  assume "chat_SyncMessages cfg col room lastSeq limit (Some t) m = (Inr page, m')"
  then obtain m1 where "col_Find col \<lparr>f_roomId = room, f_createdAt_gte = Some t, f_sequence_gt = Some lastSeq\<rparr> 1
      (clamp_limit (cc_SyncDefault cfg) (cc_SyncMax cfg) limit) m = (Inr page, m1)"
    by (auto simp: chat_SyncMessages_def repo_SyncMessages_def split: if_splits prod.splits sum.splits)
  from visible_page [OF assms(1) clamp_limit_pos [OF pos(1,2)] this assms(7)] show ?thesis by (simp add: matches_def)
next
  assume "ListMessages cfg col room limit (Some t) m = (Inr page, m')"
  then obtain m1 where "col_Find col \<lparr>f_roomId = room, f_createdAt_gte = Some t, f_sequence_gt = None\<rparr> (-1)
      (clamp_limit (cc_HistoryDefault cfg) (cc_HistoryMax cfg) limit) m = (Inr page, m1)"
    by (auto simp: ListMessages_def GetHistory_def split: if_splits prod.splits sum.splits)
  from visible_page [OF assms(1) clamp_limit_pos [OF pos(3,4)] this assms(7)] show ?thesis by (simp add: matches_def)
qed

lemma joinedAt_member:
  assumes "runs (GetMemberJoinedAt UL room user) w t w'"
  shows "\<exists>r u m. lib_Parse UL room = Some r \<and> lib_Parse UL user = Some u \<and> m \<in> set (t_members (w_db w)) \<and> rm_RoomID m = r \<and> rm_UserID m = u \<and> rm_JoinedAt m = t"
proof -
  have "\<exists>r u. lib_Parse UL room = Some r \<and> lib_Parse UL user = Some u \<and> q_GetMemberJoinedAt r u (w_db w) = (Inr t, w_db w)"
    using assms unfolding GetMemberJoinedAt_def parse_id_def toPGUUID_def
    by (auto elim!: runs_elims simp: q_GetMemberJoinedAt_def split: option.splits sum.splits if_splits list.splits)
  then obtain r u where p: "lib_Parse UL room = Some r" "lib_Parse UL user = Some u" and q: "q_GetMemberJoinedAt r u (w_db w) = (Inr t, w_db w)" by blast
  from q obtain m ms where f: "filter (\<lambda>m. rm_RoomID m = r \<and> rm_UserID m = u \<and> has_room (w_db w) r) (t_members (w_db w)) = m # ms" "rm_JoinedAt m = t"
    by (auto simp: q_GetMemberJoinedAt_def split: list.splits)
  have "m \<in> set (filter (\<lambda>m. rm_RoomID m = r \<and> rm_UserID m = u \<and> has_room (w_db w) r) (t_members (w_db w)))" unfolding f(1) by simp
  then show ?thesis using p f(2) by auto
qed

text \<open>C16: Messages are read only by members, and only from the time they joined: when \<^verbatim>\<open>GET /rooms/{id}/messages\<close> answers \<^verbatim>\<open>200\<close>,
  the access token verified, its subject is a member of that room in the user service's tables, and every
  message of the answer is stored, belongs to the room and is not older than the moment the subject joined.\<close>

theorem history_only_for_members:
  assumes "mongo col docs" and "0 < cc_SyncDefault ccfg" "0 < cc_SyncMax ccfg" "0 < cc_HistoryDefault ccfg" "0 < cc_HistoryMax ccfg"
    and "map_of (api_registerRoutes (wired lim L c s UL ccfg col ms) cfg) ''GET /rooms/{id}/messages'' = Some h"
    and "h no_ctx req g = (r, g')" "rs_Status r = 200"
  shows "\<exists>clm room u m page. VerifyJWT (al_parse_jwt L) (extractToken req) (ac_jwtSecret cfg) = Inr clm
    \<and> lib_Parse UL (rq_PathID req) = Some room \<and> lib_Parse UL (clm_Subject clm) = Some u
    \<and> m \<in> set (t_members (w_db (ab_user (ag_back g)))) \<and> rm_RoomID m = room \<and> rm_UserID m = u
    \<and> rs_Body r = JSON (ListMessagesResponse (messagesFromProto (map pb_of page)))
    \<and> (\<forall>d \<in> set page. d \<in> set (docs (ab_chat (ag_back g))) \<and> cm_RoomID d = rq_PathID req \<and> ms (rm_JoinedAt m) \<le> cm_CreatedAt d)"
proof -
  let ?L = "wired lim L c s UL ccfg col ms"
  have hd: "map_of (auth_handlers ?L cfg) ''GET /rooms/{id}/messages'' = Some (handleListMessages ?L)" by (simp add: auth_handlers_def)
  from auth_route_ok [OF hd assms(6,7)] assms(8) obtain clm where v: "VerifyJWT (al_parse_jwt L) (extractToken req) (ac_jwtSecret cfg) = Inr clm"
    and run: "handleListMessages ?L (claims_ctx clm) req (limited ?L cfg (clm_Subject clm) g) = (r, g')" by auto
  let ?g = "limited ?L cfg (clm_Subject clm) g"
  from calling_ok [OF run [unfolded handleListMessages_def Let_def with_claims]] assms(8)
  obtain t b where "uc_GetMemberJoinedAt (al_user ?L) (rq_PathID req) (clm_Subject clm) (ag_back ?g) = (Inr t, b)"
    and rest: "(if query_Get req ''last_seq'' \<noteq> '''' then
         (case ParseInt (query_Get req ''last_seq'') 64 of
            None \<Rightarrow> (WriteProblem 400 ''invalid last_seq parameter'', ?g\<lparr>ag_back := b\<rparr>)
          | Some lastSeq \<Rightarrow> (case page_limit (query_Get req ''limit'') of
              None \<Rightarrow> (WriteProblem 400 ''invalid limit parameter'', ?g\<lparr>ag_back := b\<rparr>)
            | Some limit \<Rightarrow> calling (cl_SyncMessages (al_chat ?L) (rq_PathID req) lastSeq (int32_of limit) t) (?g\<lparr>ag_back := b\<rparr>)
                (\<lambda>msgs g. (WriteJSON 200 (ListMessagesResponse (messagesFromProto msgs)), g))))
       else (case page_limit (query_Get req ''limit'') of
          None \<Rightarrow> (WriteProblem 400 ''invalid limit parameter'', ?g\<lparr>ag_back := b\<rparr>)
        | Some limit \<Rightarrow> calling (cl_ListMessages (al_chat ?L) (rq_PathID req) (int32_of limit) t) (?g\<lparr>ag_back := b\<rparr>)
            (\<lambda>msgs g. (WriteJSON 200 (ListMessagesResponse (messagesFromProto msgs)), g)))) = (r, g')"
    by auto
  then have "\<exists>u. runs (GetMemberJoinedAt UL (rq_PathID req) (clm_Subject clm)) (ab_user (ag_back ?g)) t u \<and> b = (ag_back ?g)\<lparr>ab_user := u\<rparr>"
    by (simp add: user_service_client_def Let_def on_user_ok)
  then have joined: "runs (GetMemberJoinedAt UL (rq_PathID req) (clm_Subject clm)) (ab_user (ag_back g)) t (ab_user b)" and chat: "ab_chat b = ab_chat (ag_back g)"
    by (auto simp: limited_frame)
  have "\<exists>msgs b'. ((\<exists>seq l. cl_SyncMessages (al_chat ?L) (rq_PathID req) seq l t b = (Inr msgs, b')) \<or>
      (\<exists>l. cl_ListMessages (al_chat ?L) (rq_PathID req) l t b = (Inr msgs, b'))) \<and> rs_Body r = JSON (ListMessagesResponse (messagesFromProto msgs))"
    using rest assms(8) by (auto simp: WriteJSON_def split: if_splits option.splits dest!: calling_ok) blast+
  then obtain msgs page m' where body: "rs_Body r = JSON (ListMessagesResponse (messagesFromProto msgs))" and msgs: "msgs = map pb_of page"
    and pg: "(\<exists>seq lim. chat_SyncMessages ccfg col (rq_PathID req) seq lim (Some (ms t)) (ab_chat b) = (Inr page, m') \<or>
      ListMessages ccfg col (rq_PathID req) lim (Some (ms t)) (ab_chat b) = (Inr page, m'))"
    by (auto simp: chat_service_client_def on_chat_ok map_result_ok) blast+
  from joinedAt_member [OF joined] obtain room u m where mem: "lib_Parse UL (rq_PathID req) = Some room" "lib_Parse UL (clm_Subject clm) = Some u"
      "m \<in> set (t_members (w_db (ab_user (ag_back g))))" "rm_RoomID m = room" "rm_UserID m = u" "rm_JoinedAt m = t" by blast
  have "\<forall>d \<in> set page. d \<in> set (docs (ab_chat (ag_back g))) \<and> cm_RoomID d = rq_PathID req \<and> ms (rm_JoinedAt m) \<le> cm_CreatedAt d"
    using visible_messages [OF assms(1-5)] pg chat mem(6) by metis
  then show ?thesis using v mem body msgs by blast
qed

text \<open>What a manager is: the requester's id is the room's manager in the tables.\<close>

definition manages :: "lib \<Rightarrow> 'w world \<Rightarrow> string \<Rightarrow> string \<Rightarrow> bool" where
  "manages UL w roomID userID \<longleftrightarrow> (\<exists>rid u room. lib_Parse UL roomID = Some rid \<and> lib_Parse UL userID = Some u
     \<and> find_room (w_db w) rid = Some room \<and> room_ManagerID room = Some u)"

lemma tx_manages:
  assumes "lib_Parse UL i = Some rid" "lib_Parse UL q = Some u" "w_db w0 = w_db w"
    and "runs (update_room_tx rid u name cap) w0 x w1 \<or> runs (delete_room_tx rid u) w0 x w1"
  shows "manages UL w i q"
  using assms unfolding manages_def update_room_tx_def delete_room_tx_def by (auto elim!: runs_elims split: if_splits)

lemma only_manager:
  assumes "run_state (UpdateRoom s UL i q name cap) w = (r, w') \<or> run_state (DeleteRoom UL i q) w = (r, w')"
    and "(\<exists>x. r = Inr x) \<or> w_db w' \<noteq> w_db w"
  shows "manages UL w i q"
proof -
  have "\<exists>rid u fn. lib_Parse UL i = Some rid \<and> lib_Parse UL q = Some u \<and> run_state (runInTx fn) w = (r, w')
      \<and> (fn = update_room_tx rid u name cap \<or> fn = delete_room_tx rid u)"
    using assms by (auto simp: UpdateRoom_def DeleteRoom_def parse_id_def toPGUUID_def guard_ok_def fail_def split: option.splits sum.splits)
  then obtain rid u fn where ids: "lib_Parse UL i = Some rid" "lib_Parse UL q = Some u" and run: "run_state (runInTx fn) w = (r, w')"
    and fn: "fn = update_room_tx rid u name cap \<or> fn = delete_room_tx rid u" by blast
  from run show ?thesis
  proof (cases rule: runInTx_cases)
    case (committed x w0 w1)
    then show ?thesis using tx_manages [OF ids committed(1)] fn by blast
  qed (use assms(2) in auto)
qed

lemma on_user_effect:
  assumes "on_user tx n m b = (r, b')" "(\<exists>x. r = Inr x) \<or> w_db (ab_user b') \<noteq> w_db (ab_user b)"
  obtains q u where "run_state m (ab_user b) = (q, u)" "(\<exists>x. q = Inr x) \<or> w_db u \<noteq> w_db (ab_user b)"
  using assms by (cases n; cases "run_state m (ab_user b)") (auto simp: on_user_def grpc_call_def split: sum.splits)

lemma calling_effect:
  assumes "calling f g (\<lambda>_ g. (WriteHeader 204, K g)) = (r, g')" and "\<And>g. ag_back (K g) = ag_back g"
    and "rs_Status r = 204 \<or> X (ag_back g')"
  shows "\<exists>x b'. f (ag_back g) = (x, b') \<and> ((\<exists>a. x = Inr a) \<or> X b')"
proof (cases "f (ag_back g)")
  case (Pair x b')
  have "\<not> rs_Status (writeProblemFromGRPC err) = 204" for err using grpc_problem_status [of err] by auto
  then show ?thesis using assms Pair by (cases x) (auto simp: calling_def)
qed

text \<open>C17: A room is changed or deleted through the API only by its manager: when the request is answered with \<^verbatim>\<open>204\<close>, or when any
  table of the user service differs afterwards, whatever was lost on the way, the bearer token verified under
  the gateway's secret and its subject was the room's manager.\<close>

theorem room_changed_only_by_manager:
  assumes "p \<in> {''PATCH /rooms/{id}'', ''DELETE /rooms/{id}''}"
    and "map_of (api_registerRoutes (wired lim L c s UL ccfg col ms) cfg) p = Some h"
    and "h no_ctx req g = (r, g')" "rs_Status r = 204 \<or> w_db (ab_user (ag_back g')) \<noteq> w_db (ab_user (ag_back g))"
  shows "\<exists>clm. VerifyJWT (al_parse_jwt L) (extractToken req) (ac_jwtSecret cfg) = Inr clm
    \<and> manages UL (ab_user (ag_back g)) (rq_PathID req) (clm_Subject clm)"
proof -
  let ?L = "wired lim L c s UL ccfg col ms"
  have "\<exists>hd. map_of (auth_handlers ?L cfg) p = Some hd \<and> (hd = handleUpdateRoom ?L \<or> hd = handleDeleteRoom ?L)"
    using assms(1) by (auto simp: auth_handlers_def)
  then obtain handle where hd: "map_of (auth_handlers ?L cfg) p = Some handle" "handle = handleUpdateRoom ?L \<or> handle = handleDeleteRoom ?L" by blast
  obtain clm where v: "VerifyJWT (al_parse_jwt L) (extractToken req) (ac_jwtSecret cfg) = Inr clm"
    and run: "handle (claims_ctx clm) req (limited ?L cfg (clm_Subject clm) g) = (r, g')"
    using auth_route [OF hd(1) assms(2), of req g] assms(3,4) by (auto simp: limited_frame split: if_splits sum.splits)
  let ?b = "ag_back (limited ?L cfg (clm_Subject clm) g)"
  let ?X = "\<lambda>b. w_db (ab_user b) \<noteq> w_db (ab_user (ag_back g))"
  have "\<exists>m x b'. (m = DeleteRoom UL (rq_PathID req) (clm_Subject clm) \<or> (\<exists>name cap. m = UpdateRoom s UL (rq_PathID req) (clm_Subject clm) name cap))
      \<and> on_user (ap_text c) (ap_net c) m ?b = (x, b') \<and> ((\<exists>a. x = Inr a) \<or> w_db (ab_user b') \<noteq> w_db (ab_user (ag_back g)))"
    using hd(2)
  proof
    assume "handle = handleUpdateRoom ?L"
    then obtain name cap where "calling (on_user (ap_text c) (ap_net c) (UpdateRoom s UL (rq_PathID req) (clm_Subject clm) name cap))
        (limited ?L cfg (clm_Subject clm) g) (\<lambda>_ g. (WriteHeader 204, g)) = (r, g')"
      using run assms(4) by (auto simp: handleUpdateRoom_def user_service_client_def Let_def limited_frame split: sum.splits)
    from calling_effect [where K = "\<lambda>g. g" and X = ?X, OF this refl assms(4)] show ?thesis by blast
  next
    assume "handle = handleDeleteRoom ?L"
    then have "calling (on_user (ap_text c) (ap_net c) (DeleteRoom UL (rq_PathID req) (clm_Subject clm)))
        (limited ?L cfg (clm_Subject clm) g) (\<lambda>_ g. (WriteHeader 204, start_job (CloseHub (rq_PathID req)) g)) = (r, g')"
      using run by (simp add: handleDeleteRoom_def user_service_client_def Let_def)
    from calling_effect [where X = ?X, OF this _ assms(4)] show ?thesis by (auto simp: start_job_def)
  qed
  then obtain m x b' where m: "m = DeleteRoom UL (rq_PathID req) (clm_Subject clm) \<or> (\<exists>name cap. m = UpdateRoom s UL (rq_PathID req) (clm_Subject clm) name cap)"
    and ou: "on_user (ap_text c) (ap_net c) m ?b = (x, b')" "(\<exists>a. x = Inr a) \<or> w_db (ab_user b') \<noteq> w_db (ab_user ?b)" unfolding limited_frame by blast
  from ou obtain q u where "run_state m (ab_user ?b) = (q, u)" "(\<exists>a. q = Inr a) \<or> w_db u \<noteq> w_db (ab_user ?b)" by (rule on_user_effect)
  then have "manages UL (ab_user (ag_back g)) (rq_PathID req) (clm_Subject clm)"
    unfolding limited_frame using m only_manager by metis
  then show ?thesis using v by blast
qed

section \<open>Announcements\<close>





section \<open>The announcement reaches the room's hub\<close>

text \<open>
  The WebSocket gateway's multiplexer for the internal patterns, and an instance behind its proxies. A
  request of the HTTP client arrives with the headers it was given and its encoded body.
\<close>

definition ws_mux :: "string \<Rightarrow> http_out \<Rightarrow> (string \<times> string) option" where
  "ws_mux base q = (if take (length base) (ho_URL q) \<noteq> base then None
     else (case Split CHR ''/'' (drop (length base) (ho_URL q)) of
        [a, b, c, i, d] \<Rightarrow>
          if [a, b, c, d] = ['''', ''internal'', ''rooms'', ''broadcast''] \<and> ho_Method q = ''POST'' \<and> i \<noteq> ''''
          then Some (''POST /internal/rooms/{id}/broadcast'', i) else None
      | [a, b, c, i] \<Rightarrow>
          if [a, b, c] = ['''', ''internal'', ''rooms''] \<and> ho_Method q = ''DELETE'' \<and> i \<noteq> ''''
          then Some (''DELETE /internal/rooms/{id}'', i) else None
      | _ \<Rightarrow> None))"

definition ws_request :: "string \<Rightarrow> http_out \<Rightarrow> BroadcastSystemMessageRequest request" where
  "ws_request i q = \<lparr>rq_Method = ho_Method q, rq_Header = (\<lambda>k. case map_of (ho_Header q) k of None \<Rightarrow> '''' | Some v \<Rightarrow> v), rq_PathID = i,
     rq_Query = (\<lambda>_. []), rq_Cookie = None, rq_RemoteAddr = '''', rq_Body = (case ho_Body q of None \<Rightarrow> (Inl EOF, Some EOF) | Some b \<Rightarrow> (Inr b, Some EOF))\<rparr>"

definition gateway_Do ::
  "string \<Rightarrow> ('r, 'h, 'u, BroadcastSystemMessageRequest) gw_lib \<Rightarrow> ws_gateway_cfg \<Rightarrow> http_out \<Rightarrow>
   (('w, 'm, ('r, 'h, 'u) ws_gateway) api_back, int) client" where
  "gateway_Do base GL gcfg q b = (case ws_mux base q of
      None \<Rightarrow> (Inr 404, b)
    | Some (p, i) \<Rightarrow> (case map_of (gw_registerRoutes GL gcfg '''') p of
        None \<Rightarrow> (Inr 404, b)
      | Some h \<Rightarrow> (case h no_ctx (ws_request i q) (ab_rest b) of (r, g) \<Rightarrow> (Inr (rs_Status r), b\<lparr>ab_rest := g\<rparr>))))"

definition send_internal ::
  "ws_call \<Rightarrow> string \<Rightarrow> int option \<Rightarrow> BroadcastSystemMessageRequest request \<Rightarrow> ('c, 'w, 'h, 'u) ws_instance \<Rightarrow>
   (go_error + ws_json response) \<times> ('c, 'w, 'h, 'u) ws_instance" where
  "send_internal c target limit rq I =
    (if target \<noteq> wi_advertisedAddr I then (Inl (External ''no such host''), I)
     else (case (if rq_Method rq = ''DELETE'' then handleForceCloseRoom c no_ctx rq I else ws_handleBroadcast c no_ctx rq I) of
       (r, I') \<Rightarrow> (Inr r, I')))"

lemma Split_append: "c \<notin> set a \<Longrightarrow> Split c (a @ c # b) = a # Split c b"
  by (induction a) (auto split: list.splits)

lemma ws_mux_broadcast:
  assumes "CHR ''/'' \<notin> set room" "room \<noteq> ''''"
  shows "ws_mux base \<lparr>ho_Method = ''POST'', ho_URL = base @ ''/internal/rooms/'' @ room @ ''/broadcast'', ho_Header = hdrs, ho_Body = b\<rparr> =
    Some (''POST /internal/rooms/{id}/broadcast'', room)"
proof -
  have "Split CHR ''/'' (''/internal/rooms/'' @ room @ ''/broadcast'') = ['''', ''internal'', ''rooms'', room, ''broadcast'']"
    using Split_append [OF assms(1), of "''broadcast''"] by (simp)
  then show ?thesis using assms(2) by (simp add: ws_mux_def)
qed

definition event_text :: "string \<Rightarrow> string" where
  "event_text ev = (if ev = SystemEventJoin then joined_text else left_text)"

text \<open>C24: An announcement of the API gateway ends up in the queue of the instance that owns the room: when the two gateways share
  the internal secret, the ring names the instance and the manager takes the message, exactly one system
  message is queued, for that room and with the user's name and the sentence of the event; with another
  secret nothing happens at all.\<close>

theorem announcement_queued:
  assumes "al_Do L = gateway_Do (WSGatewayAddr cfg) GL gcfg" and "gl_send GL = send_internal c"
    and "al_new_ok L (WSGatewayAddr cfg @ ''/internal/rooms/'' @ room @ ''/broadcast'')" and "CHR ''/'' \<notin> set room" "room \<noteq> ''''"
    and "username \<noteq> ''''" "ev \<in> {SystemEventJoin, SystemEventLeave}"
    and "Locate (gl_ring GL) (wt_ring (gw_watcher (ab_rest b))) room = wi_advertisedAddr (gw_up (ab_rest b))" "wi_advertisedAddr (gw_up (ab_rest b)) \<noteq> ''''"
    and "\<And>u. gl_parse_url GL u" and "wc_uuid c = Inr i" "wc_prepare c = Answered"
  shows "if ac_InternalSecret cfg \<noteq> gc_internalSecret gcfg then broadcastSystemMessage L cfg room username ev b = b
    else m_broadcastCh (wi_manager (gw_up (ab_rest (broadcastSystemMessage L cfg room username ev b)))) = m_broadcastCh (wi_manager (gw_up (ab_rest b))) @
         [\<lparr>ID = '''', RoomID = room, SenderID = systemSenderID, Content = username @ event_text ev, ClientMsgID = i, MType = msgTypeSystem,
           SequenceNumber = 0, Timestamp = wc_now c, ReceivedAt = 0\<rparr>]"
proof -
  define q where "q = \<lparr>ho_Method = ''POST'', ho_URL = WSGatewayAddr cfg @ ''/internal/rooms/'' @ room @ ''/broadcast'',
       ho_Header = [(''X-Internal-Secret'', ac_InternalSecret cfg), (''Content-Type'', ''application/json'')],
       ho_Body = Some \<lparr>bs_Username = username, bs_Event = ev\<rparr>\<rparr>"
  let ?rq = "ws_request room q"
  have rq: "rq_PathID ?rq = room" "rq_Method ?rq = ''POST''" "rq_Body ?rq = (Inr \<lparr>bs_Username = username, bs_Event = ev\<rparr>, Some EOF)"
    "rq_Header ?rq ''X-Internal-Secret'' = ac_InternalSecret cfg"
    by (simp_all add: ws_request_def q_def)
  have mux: "ws_mux (WSGatewayAddr cfg) q = Some (''POST /internal/rooms/{id}/broadcast'', room)"
    unfolding q_def by (rule ws_mux_broadcast [OF assms(4,5)])
  let ?g = "ab_rest b"
  have send: "broadcastSystemMessage L cfg room username ev b =
      b\<lparr>ab_rest := snd (InternalAuthMiddleware (gc_internalSecret gcfg) (gw_handleBroadcast GL) no_ctx ?rq ?g)\<rparr>"
  proof -
    have "broadcastSystemMessage L cfg room username ev b = snd (al_Do L q b)"
      unfolding broadcastSystemMessage_def Let_def q_def using assms(3) by simp
    also have "\<dots> = b\<lparr>ab_rest := snd (InternalAuthMiddleware (gc_internalSecret gcfg) (gw_handleBroadcast GL) no_ctx ?rq ?g)\<rparr>"
      by (simp add: assms(1) gateway_Do_def mux gw_registerRoutes_def Let_def split: prod.splits)
    finally show ?thesis .
  qed
  let ?I = "gw_up ?g"
  have handled: "wi_manager (snd (ws_handleBroadcast c no_ctx (outgoing f ?rq) ?I)) = (wi_manager ?I)\<lparr>m_broadcastCh := m_broadcastCh (wi_manager ?I) @
      [\<lparr>ID = '''', RoomID = room, SenderID = systemSenderID, Content = username @ event_text ev, ClientMsgID = i, MType = msgTypeSystem,
           SequenceNumber = 0, Timestamp = wc_now c, ReceivedAt = 0\<rparr>]\<rparr>" for f
    using assms(5-7,11,12) rq
    by (auto simp: ws_handleBroadcast_def Let_def ReadJSON_def NewSystemMessage_def Broadcast_def event_text_def SystemEventJoin_def SystemEventLeave_def)
  have "gw_up (snd (proxyInternalRequest GL no_ctx ?rq ?g)) = snd (ws_handleBroadcast c no_ctx (outgoing (gl_split_host_port GL) ?rq) ?I)"
    using assms(5,8-10) rq
    by (simp add: proxyInternalRequest_def Let_def getOrCreateProxy_def proxy_up assms(2) send_internal_def split: prod.splits)
  then show ?thesis using send handled rq(4) by (simp add: InternalAuthMiddleware_def gw_handleBroadcast_def)
qed

section \<open>How errors are reported\<close>

text \<open>The status of a refused request tells whose fault it was: for every error of a service the answer is a client error (4xx)
  exactly when the service answered with one of the codes for a wrong, unauthorised or conflicting request,
  and a server error (5xx) otherwise; the text of the service's status is kept in the problem's detail.\<close>

theorem error_status_class:
  "(rs_Status (writeProblemFromGRPC err) \<in> {400, 401, 403, 404, 409}
      \<longleftrightarrow> (\<exists>c m. status_from_error err = Some (c, m) \<and> c \<in> {NotFound, AlreadyExists, InvalidArgument, Unauthenticated, PermissionDenied, FailedPrecondition}))
   \<and> (rs_Status (writeProblemFromGRPC err) \<in> {400, 401, 403, 404, 409} \<or> rs_Status (writeProblemFromGRPC err) \<in> {500, 503, 504})
   \<and> (\<forall>c m. status_from_error err = Some (c, m) \<longrightarrow>
       (\<exists>pre pd. rs_Body (writeProblemFromGRPC err) = Problem pd \<and> pd_Detail pd = pre @ m \<and> pd_Status pd = rs_Status (writeProblemFromGRPC err)))"
  by (auto simp: writeProblemFromGRPC_def WriteProblem_def split: option.splits prod.splits codes.splits)

section \<open>Every answer is well formed\<close>

text \<open>
  A JSON body comes with its content type and a status below 400; a problem document with its own content type,
  a status of at least 400 that it repeats, and that status's name as its title.
\<close>

definition response_wf :: "'b response \<Rightarrow> bool" where
  "response_wf r \<longleftrightarrow> (case rs_Body r of
      NoBody \<Rightarrow> True
    | JSON x \<Rightarrow> (''Content-Type'', ''application/json'') \<in> set (rs_Header r) \<and> rs_Status r < 400
    | Problem pd \<Rightarrow> (''Content-Type'', ''application/problem+json'') \<in> set (rs_Header r) \<and> 400 \<le> rs_Status r
        \<and> pd_Status pd = rs_Status r \<and> pd_Title pd = StatusText (rs_Status r) \<and> pd_Title pd \<noteq> '''')"

named_theorems wf_intros \<open>how a well-formed answer is made\<close>

lemma wf_problem [wf_intros]: "s \<in> {400, 401, 403, 404, 409, 429, 500, 503, 504} \<Longrightarrow> response_wf (WriteProblem s d)"
  by (auto simp: response_wf_def WriteProblem_def StatusText_def)

lemma wf_json [wf_intros]: "s < 400 \<Longrightarrow> response_wf (WriteJSON s x)"
  by (simp add: response_wf_def WriteJSON_def)

lemma wf_header [wf_intros]: "response_wf (WriteHeader s)"
  by (simp add: response_wf_def WriteHeader_def)

lemma wf_add_header [wf_intros]: "response_wf r \<Longrightarrow> response_wf (add_header k v r)"
  by (auto simp: response_wf_def add_header_def split: body.splits)

lemma wf_grpc [wf_intros]: "response_wf (writeProblemFromGRPC err)"
  by (auto simp: writeProblemFromGRPC_def intro!: wf_intros split: option.splits prod.splits codes.splits)

lemma wf_calling [wf_intros]: "(\<And>a g. response_wf (fst (k a g))) \<Longrightarrow> response_wf (fst (calling f g k))"
  by (auto simp: calling_def intro!: wf_intros split: prod.splits sum.splits)

lemma wf_with_user [wf_intros]: "(\<And>u. response_wf (fst (k u))) \<Longrightarrow> response_wf (fst (with_user cx g k))"
  by (auto simp: with_user_def intro!: wf_intros split: option.splits)

lemma wf_limited [wf_intros]:
  assumes "\<And>cx req g. response_wf (fst (h cx req g))"
  shows "response_wf (fst (RateLimitMiddleware f kf h cx req g))"
  using assms by (auto simp: RateLimitMiddleware_def Let_def intro!: wf_intros split: prod.splits sum.splits)

lemma wf_bearer [wf_intros]:
  assumes "\<And>cx req g. response_wf (fst (h cx req g))"
  shows "response_wf (fst (BearerAuthMiddleware parse sec h cx req g))"
  using assms by (auto simp: BearerAuthMiddleware_def Let_def intro!: wf_intros split: sum.splits)

lemma wf_auth_handlers:
  assumes "map_of (auth_handlers L cfg) p = Some handle"
  shows "response_wf (fst (handle cx req g))"
  using map_of_SomeD [OF assms]
  by (auto simp: auth_handlers_def handleDeleteUser_def handleBatchGetUsers_def handleListJoinedRooms_def handleSearchRooms_def handleCreateRoom_def
      handleUpdateRoom_def handleDeleteRoom_def handleJoinRoom_def handleLeaveRoom_def handleListRoomMembers_def handleListMessages_def
      clearRefreshTokenCookie_def Let_def intro!: wf_intros split: sum.splits option.splits prod.splits)

text \<open>C29: Every answer of every route is a well-formed document: JSON bodies have the JSON content type and a success status, problem
  documents have theirs, an error status of the API that they repeat, and the standard name of that status as
  their title, whatever the request, the services and the limiter do.\<close>

theorem responses_well_formed:
  assumes "map_of (api_registerRoutes L cfg) p = Some h"
  shows "response_wf (fst (h no_ctx req g))"
proof (cases "map_of (auth_handlers L cfg) p")
  case (Some handle)
  then have "h = ChainMiddleware handle (authMws L cfg)" using auth_route_handler [OF Some] assms by simp
  then show ?thesis using wf_auth_handlers [OF Some] by (auto simp: authMws_def intro!: wf_intros)
next
  case None
  then show ?thesis using assms
    by (auto simp: api_registerRoutes_def map_of_map publicMws_def api_handleReady_def handleCreateUser_def handleVerifyUser_def handleRefreshToken_def
        handleRevokeToken_def setRefreshTokenCookie_def clearRefreshTokenCookie_def Let_def intro!: wf_intros split: if_splits sum.splits option.splits)
qed

section \<open>Examples\<close>

type_synonym 'x ax_back = "(mem_redis tok_world, chat_message list, 'x) api_back"

definition ax_call :: api_call where
  "ax_call = \<lparr>ap_text = (\<lambda>_. ''''), ap_net = Reply, ap_now = 9, ap_newID = Inr (''x'', 9), ap_newToken = ''n''\<rparr>"

definition ax_lib0 :: "('x ax_back, unit) api_lib" where
  "ax_lib0 = \<lparr>al_user = user_service_client ax_call ex_svc ex_lib, al_chat = chat_service_client ax_call ex_chat mem_col id, al_Do = (\<lambda>q b. (Inr 204, b)),
     al_new_ok = (\<lambda>_. True), al_rfc3339 = (\<lambda>_. ''''), al_parse_uuid = (\<lambda>_. True),
     al_parse_jwt = (\<lambda>t sec algs. if t = ''tok'' then Inr (Some \<lparr>clm_Subject = ''u1'', clm_ExpiresAt = 0, clm_IssuedAt = 0, clm_Username = ''alice''\<rparr>, True)
        else Inl (ErrNew ''bad token'')),
     al_limit = (\<lambda>key rate burst b. (Inr 1, b)), al_split_host_port = (\<lambda>_. None), al_credentials = (\<lambda>_. (Inl EOF, None)), al_password = (\<lambda>_. (Inl EOF, None)),
     al_settings = (\<lambda>_. (Inl EOF, None))\<rparr>"

definition ax_lib :: "(unit ax_back, unit) api_lib" where
  "ax_lib = wired (\<lambda>key rate burst x. (Inr 1, x)) ax_lib0 ax_call ex_svc ex_lib ex_chat mem_col id"

definition ax_cfg :: api_cfg where
  "ax_cfg = \<lparr>ac_Env = ''prod'', ac_jwtSecret = ''s'', ac_InternalSecret = ''i'', ac_WSHost = ''ws'', ac_WSPort = ''80'', ac_RefreshTokenExpirationDays = 7,
     ac_DefaultLimit = 20, ac_MaxLimit = 100, ac_PublicRPS = 1, ac_PublicBurst = 1, ac_AuthRPS = 1, ac_AuthBurst = 1\<rparr>"

definition ax_gw :: "unit ax_back api_gateway" where
  "ax_gw = \<lparr>ag_back = \<lparr>ab_user = ex_w3, ab_chat = [ex_doc 4], ab_rest = ()\<rparr>, ag_jobs = [], ag_hasRedis = True, ag_ping = None,
     ag_userHealth = HealthStatus ''SERVING'', ag_chatHealth = HealthStatus ''SERVING''\<rparr>"

definition ax_req :: "string \<Rightarrow> unit request" where
  "ax_req auth = \<lparr>rq_Method = ''GET'', rq_Header = (\<lambda>k. if k = ''Authorization'' then auth else ''''), rq_PathID = ''r1'', rq_Query = (\<lambda>_. []),
     rq_Cookie = None, rq_RemoteAddr = '''', rq_Body = (Inl EOF, None)\<rparr>"

lemma ax_token: "extractToken (ax_req ''Bearer tok'') = ''tok''"
  by code_simp

lemma ax_verified: "VerifyJWT (al_parse_jwt ax_lib) ''tok'' (ac_jwtSecret ax_cfg) =
    Inr \<lparr>clm_Subject = ''u1'', clm_ExpiresAt = 0, clm_IssuedAt = 0, clm_Username = ''alice''\<rparr>"
  by (simp add: VerifyJWT_def ax_lib_def ax_lib0_def)

theorem api_needs_token_witness:
  "\<forall>h. map_of (api_registerRoutes ax_lib ax_cfg) ''DELETE /rooms/{id}'' = Some h \<longrightarrow>
    rs_Status (fst (h no_ctx (ax_req '''') ax_gw)) = 401 \<and> snd (h no_ctx (ax_req '''') ax_gw) = ax_gw"
proof -
  have 1: "map_of (auth_handlers ax_lib ax_cfg) ''DELETE /rooms/{id}'' = Some (handleDeleteRoom ax_lib)" by (simp add: auth_handlers_def)
  have "extractToken (ax_req '''') = ''''" by code_simp
  then show ?thesis using api_needs_token [OF 1, of _ "ax_req ''''" ax_gw] by auto
qed

theorem error_status_class_witness:
  "rs_Status (writeProblemFromGRPC (StatusErr FailedPrecondition ''room is full'')) \<in> {400, 401, 403, 404, 409}"
  using error_status_class [of "StatusErr FailedPrecondition ''room is full''"] by auto

definition ax_alice :: http_ctx where "ax_alice = \<lparr>cx_UserID = Some ''u1'', cx_Username = Some ''alice''\<rparr>"

text \<open>The requests of \<^verbatim>\<open>u1\<close> pass the limiter.\<close>

lemma ax_route:
  assumes "map_of (auth_handlers ax_lib ax_cfg) p = Some handle"
  shows "\<exists>h. map_of (api_registerRoutes ax_lib ax_cfg) p = Some h \<and> h no_ctx (ax_req ''Bearer tok'') ax_gw = handle ax_alice (ax_req ''Bearer tok'') ax_gw"
proof -
  have "api_Allow ax_lib (ac_AuthRPS ax_cfg) (ac_AuthBurst ax_cfg) ''u1'' ax_gw = (Inr True, ax_gw)"
    by (simp add: api_Allow_def limiter_Allow_def ax_lib_def wired_def ax_gw_def)
  then have "ChainMiddleware handle (authMws ax_lib ax_cfg) no_ctx (ax_req ''Bearer tok'') ax_gw = handle ax_alice (ax_req ''Bearer tok'') ax_gw"
    by (simp add: authMws_def BearerAuthMiddleware_def RateLimitMiddleware_def ContextKeyFunc_def Let_def ax_token ax_verified no_ctx_def ax_alice_def)
  then show ?thesis using auth_route_handler [OF assms] by blast
qed

lemma ax_simps: "al_user ax_lib = user_service_client ax_call ex_svc ex_lib" "al_chat ax_lib = chat_service_client ax_call ex_chat mem_col id"
  "with_user ax_alice g k = k ''u1''" "rq_PathID (ax_req a) = ''r1''" "query_Get (ax_req a) k' = ''''"
  by (simp_all add: ax_lib_def wired_def with_user_def ax_alice_def GetUserID_def ax_req_def query_Get_def)

theorem history_only_for_members_witness:
  "\<exists>r. (\<exists>h g'. map_of (api_registerRoutes ax_lib ax_cfg) ''GET /rooms/{id}/messages'' = Some h
      \<and> h no_ctx (ax_req ''Bearer tok'') ax_gw = (r, g')) \<and> rs_Status r = 200
    \<and> (\<exists>page. rs_Body r = JSON (ListMessagesResponse (messagesFromProto (map pb_of page))) \<and> (\<forall>d \<in> set page. d = ex_doc 4))"
proof -
  have hd: "map_of (auth_handlers ax_lib ax_cfg) ''GET /rooms/{id}/messages'' = Some (handleListMessages ax_lib)" by (simp add: auth_handlers_def)
  obtain h where h: "map_of (api_registerRoutes ax_lib ax_cfg) ''GET /rooms/{id}/messages'' = Some h"
    and eq: "h no_ctx (ax_req ''Bearer tok'') ax_gw = handleListMessages ax_lib ax_alice (ax_req ''Bearer tok'') ax_gw"
    using ax_route [OF hd] by blast
  have "rs_Status (fst (handleListMessages ax_lib ax_alice (ax_req ''Bearer tok'') ax_gw)) = 200"
    by (simp add: handleListMessages_def ax_simps calling_def user_service_client_def chat_service_client_def on_user_def on_chat_def grpc_call_def Let_def
        ax_call_def ax_gw_def GetMemberJoinedAt_def act_defs ex_w3_def ex_defs q_GetMemberJoinedAt_def row_defs page_limit_def map_result_def
        ListMessages_def GetHistory_def mem_col_def Chat.query_def matches_def clamp_limit_def ex_chat_def ex_doc_def)
  then obtain r g' where r: "h no_ctx (ax_req ''Bearer tok'') ax_gw = (r, g')" "rs_Status r = 200" unfolding eq by (metis prod.collapse)
  have pos: "0 < cc_SyncDefault ex_chat" "0 < cc_SyncMax ex_chat" "0 < cc_HistoryDefault ex_chat" "0 < cc_HistoryMax ex_chat" by (simp_all add: ex_chat_def)
  from history_only_for_members [OF mem_mongo.mongo_axioms pos h [unfolded ax_lib_def] r(1) r(2)] show ?thesis
    using h r by (fastforce simp: ax_gw_def)
qed

theorem room_changed_only_by_manager_witness:
  "\<exists>r. (\<exists>h g'. map_of (api_registerRoutes ax_lib ax_cfg) ''DELETE /rooms/{id}'' = Some h \<and> h no_ctx (ax_req ''Bearer tok'') ax_gw = (r, g'))
    \<and> rs_Status r = 204 \<and> (\<exists>room. find_room (w_db ex_w3) ''r1'' = Some room \<and> room_ManagerID room = Some ''u1'')"
proof -
  have hd: "map_of (auth_handlers ax_lib ax_cfg) ''DELETE /rooms/{id}'' = Some (handleDeleteRoom ax_lib)" by (simp add: auth_handlers_def)
  obtain h where h: "map_of (api_registerRoutes ax_lib ax_cfg) ''DELETE /rooms/{id}'' = Some h"
    and eq: "h no_ctx (ax_req ''Bearer tok'') ax_gw = handleDeleteRoom ax_lib ax_alice (ax_req ''Bearer tok'') ax_gw"
    using ax_route [OF hd] by blast
  have "rs_Status (fst (handleDeleteRoom ax_lib ax_alice (ax_req ''Bearer tok'') ax_gw)) = 204"
    by (simp add: handleDeleteRoom_def ax_simps calling_def user_service_client_def on_user_def grpc_call_def Let_def
        ax_call_def ax_gw_def DeleteRoom_def delete_room_tx_def act_defs ex_w3_def ex_defs q_GetRoomForUpdate_def find_room_def q_DeleteRoom_def row_defs)
  then obtain r g' where r: "h no_ctx (ax_req ''Bearer tok'') ax_gw = (r, g')" "rs_Status r = 204" unfolding eq by (metis prod.collapse)
  from room_changed_only_by_manager [OF _ h [unfolded ax_lib_def] r(1) disjI1 [OF r(2)]] ax_verified show ?thesis
    using h r by (auto simp: manages_def ax_gw_def ax_token ax_lib_def ex_lib_def ax_simps(4))
qed


definition bx_gl :: "(mem_redis, string list, rx_instance, BroadcastSystemMessageRequest) gw_lib" where
  "bx_gl = \<lparr>gl_redis = mem_api, gl_ring = list_ring, gl_parse_url = (\<lambda>_. True), gl_send = send_internal rx_call,
     gl_split_host_port = (\<lambda>_. None), gl_parse_jwt = (\<lambda>t sec algs. Inl CtxErr), gl_limit = (\<lambda>key rate burst s. (Inr 1, s))\<rparr>"

definition bx_lib :: "((mem_redis, string list, rx_instance) ws_gateway ax_back, unit) api_lib" where
  "bx_lib = ax_lib0\<lparr>al_Do := gateway_Do (WSGatewayAddr ax_cfg) bx_gl gx_cfg\<rparr>"

theorem announcement_queued_witness:
  "map RoomID (m_broadcastCh (wi_manager (gw_up (ab_rest (broadcastSystemMessage bx_lib ax_cfg ''r1'' ''alice'' ''join''
      \<lparr>ab_user = ex_w3, ab_chat = [], ab_rest = rx_gw\<rparr>))))) = [''r1'']"
proof -
  have "m_broadcastCh cx_mgr = []" by (simp add: cx_mgr_def SetRoomLeaseStore_def SetSequenceFloorStore_def NewManager_def Let_def)
  moreover have "ac_InternalSecret ax_cfg = gc_internalSecret gx_cfg" by (simp add: ax_cfg_def gx_cfg_def)
  ultimately show ?thesis
    using announcement_queued [of bx_lib ax_cfg bx_gl gx_cfg rx_call "''r1''" "''alice''" "''join''" "\<lparr>ab_user = ex_w3, ab_chat = [], ab_rest = rx_gw\<rparr>" "''id''"]
    by (simp add: bx_lib_def bx_gl_def ax_lib0_def SystemEventJoin_def rx_call_def rx_gw_def rx_inst_def rx_locate)
qed

theorem responses_well_formed_witness:
  "\<exists>h. map_of (api_registerRoutes ax_lib ax_cfg) ''POST /users'' = Some h \<and> response_wf (fst (h no_ctx (ax_req '''') ax_gw))"
proof -
  obtain h where h: "map_of (api_registerRoutes ax_lib ax_cfg) ''POST /users'' = Some h" by (simp add: api_registerRoutes_def)
  then show ?thesis using responses_well_formed by blast
qed

end
