(* ===== verification/Hasher.thy ===== *)
theory Hasher
  imports Prelude
begin

text \<open>
  The pool that hashes passwords (\<^verbatim>\<open>internal/user/hasher\<close>): a bounded queue, a fixed number of workers, and one
  answer per accepted job. The goroutines of the pool interleave in a step relation; bcrypt is a
  parameter, the pair of its two functions.
\<close>

section \<open>The pool\<close>

datatype jobType = jobHash | jobCompare

text \<open>The job's channels are its own, so a number stands for them.\<close>

record job =
  jb_chans :: nat
  jb_typ :: jobType
  jb_password :: string
  jb_hashedPassword :: string

text \<open>What is sent to a job's channels: a hash, the error of hashing, or the outcome of a comparison.\<close>

datatype job_result = HashResult string | HashError go_error | CompareResult "go_error option"

record bcrypt =
  bc_Generate :: "string \<Rightarrow> go_error + string"
  bc_Compare :: "string \<Rightarrow> string \<Rightarrow> go_error option"

record PoolConfig =
  pc_Workers :: int
  pc_Buffer :: int

datatype worker = Waiting | Working job | Returned

text \<open>\<open>pl_out\<close> is the content of the jobs' channels, each of which holds one value.\<close>

record pool =
  pl_config :: PoolConfig
  jobQueue :: "job list"
  pl_workers :: "worker list"
  pl_isClosed :: bool
  pl_out :: "nat \<Rightarrow> job_result option"

definition DefaultPoolConfig :: "nat \<Rightarrow> PoolConfig" where
  "DefaultPoolConfig gomaxprocs = \<lparr>pc_Workers = int gomaxprocs, pc_Buffer = 100 * int gomaxprocs\<rparr>"

definition NewPool :: "nat \<Rightarrow> PoolConfig \<Rightarrow> pool" where
  "NewPool gomaxprocs cfg0 =
    (let cfg1 = (if pc_Workers cfg0 \<le> 0 then cfg0\<lparr>pc_Workers := int gomaxprocs\<rparr> else cfg0);
         cfg = (if pc_Buffer cfg1 \<le> 0 then cfg1\<lparr>pc_Buffer := 1024\<rparr> else cfg1)
     in \<lparr>pl_config = cfg, jobQueue = [], pl_workers = replicate (nat (pc_Workers cfg)) Waiting, pl_isClosed = False, pl_out = Map.empty\<rparr>)"

text \<open>
  The \<^verbatim>\<open>select\<close> of \<^verbatim>\<open>enqueue\<close>: when the queue has room and the context has ended, either case may be taken;
  \<open>pick\<close> says which.
\<close>

definition enqueue :: "bool \<Rightarrow> bool \<Rightarrow> job \<Rightarrow> pool \<Rightarrow> go_error option \<times> pool" where
  "enqueue ctxDone pick j P =
    (if pl_isClosed P then (Some ErrClosed, P)
     else if int (length (jobQueue P)) < pc_Buffer (pl_config P) \<and> (\<not> ctxDone \<or> pick) then (None, P\<lparr>jobQueue := jobQueue P @ [j]\<rparr>)
     else if ctxDone then (Some CtxErr, P)
     else (Some ErrQueueFull, P))"

text \<open>The second half of \<^verbatim>\<open>HashPassword\<close> and \<^verbatim>\<open>ComparePassword\<close>, on the content of the job's channels; none while it waits.\<close>

definition await_hash :: "bool \<Rightarrow> bool \<Rightarrow> job_result option \<Rightarrow> (go_error + string) option" where
  "await_hash ctxDone pick out = (case out of
      Some (HashResult h) \<Rightarrow> if ctxDone \<and> \<not> pick then Some (Inl CtxErr) else Some (Inr h)
    | Some (HashError err) \<Rightarrow> if ctxDone \<and> \<not> pick then Some (Inl CtxErr) else Some (Inl err)
    | _ \<Rightarrow> if ctxDone then Some (Inl CtxErr) else None)"

definition await_compare :: "bool \<Rightarrow> bool \<Rightarrow> job_result option \<Rightarrow> go_error option option" where
  "await_compare ctxDone pick out = (case out of
      Some (CompareResult r) \<Rightarrow> if ctxDone \<and> \<not> pick then Some (Some CtxErr) else Some r
    | _ \<Rightarrow> if ctxDone then Some (Some CtxErr) else None)"

definition hash_job :: "nat \<Rightarrow> string \<Rightarrow> job" where
  "hash_job i password = \<lparr>jb_chans = i, jb_typ = jobHash, jb_password = password, jb_hashedPassword = ''''\<rparr>"

definition compare_job :: "nat \<Rightarrow> string \<Rightarrow> string \<Rightarrow> job" where
  "compare_job i hashedPassword password = \<lparr>jb_chans = i, jb_typ = jobCompare, jb_password = password, jb_hashedPassword = hashedPassword\<rparr>"

text \<open>What a worker sends for a job; the send does not block and is dropped when the channel is full.\<close>

definition job_answer :: "bcrypt \<Rightarrow> job \<Rightarrow> job_result" where
  "job_answer bc j = (case jb_typ j of
      jobHash \<Rightarrow> (case bc_Generate bc (jb_password j) of Inl err \<Rightarrow> HashError err | Inr h \<Rightarrow> HashResult h)
    | jobCompare \<Rightarrow> CompareResult (bc_Compare bc (jb_hashedPassword j) (jb_password j)))"

definition send_answer :: "bcrypt \<Rightarrow> job \<Rightarrow> pool \<Rightarrow> pool" where
  "send_answer bc j P = (case pl_out P (jb_chans j) of
      None \<Rightarrow> P\<lparr>pl_out := (pl_out P)(jb_chans j \<mapsto> job_answer bc j)\<rparr>
    | Some _ \<Rightarrow> P)"

definition Close :: "pool \<Rightarrow> pool" where
  "Close P = P\<lparr>pl_isClosed := True\<rparr>"

text \<open>\<^verbatim>\<open>wg.Wait()\<close> returns.\<close>

definition workers_returned :: "pool \<Rightarrow> bool" where
  "workers_returned P \<longleftrightarrow> list_all (\<lambda>w. w = Returned) (pl_workers P)"

section \<open>The goroutines\<close>

text \<open>The steps of the workers.\<close>

inductive worker_step :: "bcrypt \<Rightarrow> pool \<Rightarrow> pool \<Rightarrow> bool" for bc where
  receive: "i < length (pl_workers P) \<Longrightarrow> pl_workers P ! i = Waiting \<Longrightarrow> jobQueue P = j # q \<Longrightarrow>
    worker_step bc P (P\<lparr>jobQueue := q, pl_workers := (pl_workers P)[i := Working j]\<rparr>)"
| answer: "i < length (pl_workers P) \<Longrightarrow> pl_workers P ! i = Working j \<Longrightarrow>
    worker_step bc P (send_answer bc j (P\<lparr>pl_workers := (pl_workers P)[i := Waiting]\<rparr>))"
| return: "i < length (pl_workers P) \<Longrightarrow> pl_workers P ! i = Waiting \<Longrightarrow> jobQueue P = [] \<Longrightarrow> pl_isClosed P \<Longrightarrow>
    worker_step bc P (P\<lparr>pl_workers := (pl_workers P)[i := Returned]\<rparr>)"

text \<open>
  All steps, with the jobs accepted so far: a call of \<^verbatim>\<open>enqueue\<close> comes with channels of its own.
\<close>

inductive pool_step :: "bcrypt \<Rightarrow> pool \<times> job list \<Rightarrow> pool \<times> job list \<Rightarrow> bool" for bc where
  accept: "jb_chans j \<notin> jb_chans ` set js \<Longrightarrow> enqueue c p j P = (None, P') \<Longrightarrow> pool_step bc (P, js) (P', js @ [j])"
| refuse: "enqueue c p j P = (Some err, P') \<Longrightarrow> pool_step bc (P, js) (P', js)"
| work: "worker_step bc P P' \<Longrightarrow> pool_step bc (P, js) (P', js)"
| shut: "pool_step bc (P, js) (Close P, js)"

definition pool_reach :: "bcrypt \<Rightarrow> pool \<times> job list \<Rightarrow> bool" where
  "pool_reach bc S \<longleftrightarrow> (\<exists>n cfg. 0 < n \<and> (pool_step bc)\<^sup>*\<^sup>* (NewPool n cfg, []) S)"

inductive_cases worker_stepE: "worker_step bc P P'"
inductive_cases pool_stepE: "pool_step bc (P, js) S"

section \<open>The invariant\<close>

definition in_work :: "pool \<Rightarrow> job list" where
  "in_work P = concat (map (\<lambda>w. case w of Working j \<Rightarrow> [j] | _ \<Rightarrow> []) (pl_workers P))"

definition answered :: "pool \<Rightarrow> job list \<Rightarrow> job list" where
  "answered P js = filter (\<lambda>j. pl_out P (jb_chans j) \<noteq> None) js"

text \<open>
  Every accepted job is in the queue, with one worker, or answered; nothing else is; the queue is within
  its bound; workers return only from a closed and empty queue.
\<close>

definition pool_inv :: "bcrypt \<Rightarrow> pool \<times> job list \<Rightarrow> bool" where
  "pool_inv bc S \<longleftrightarrow> (case S of (P, js) \<Rightarrow>
     distinct (map jb_chans js) \<and> mset js = mset (jobQueue P) + mset (in_work P) + mset (answered P js) \<and>
     (\<forall>i r. pl_out P i = Some r \<longrightarrow> (\<exists>j \<in> set js. jb_chans j = i \<and> r = job_answer bc j)) \<and>
     int (length (jobQueue P)) \<le> pc_Buffer (pl_config P) \<and> pl_workers P \<noteq> [] \<and>
     (Returned \<in> set (pl_workers P) \<longrightarrow> pl_isClosed P \<and> jobQueue P = []))"

lemma in_work_update:
  assumes "i < length (pl_workers P)"
  shows "mset (in_work (P\<lparr>pl_workers := (pl_workers P)[i := w]\<rparr>)) + mset (case pl_workers P ! i of Working j \<Rightarrow> [j] | _ \<Rightarrow> [])
    = mset (in_work P) + mset (case w of Working j \<Rightarrow> [j] | _ \<Rightarrow> [])"
proof -
  have "mset (concat (map f (ws[i := w]))) + mset (f (ws ! i)) = mset (concat (map f ws)) + mset (f w)" if "i < length ws" for f :: "worker \<Rightarrow> job list" and ws
    using that
  proof (induction ws arbitrary: i)
    case (Cons v ws)
    then show ?case by (cases i) (auto simp: ac_simps)
  qed simp
  from this [OF assms] show ?thesis by (simp add: in_work_def)
qed

lemma job_unique: "distinct (map jb_chans js) \<Longrightarrow> j \<in> set js \<Longrightarrow> k \<in> set js \<Longrightarrow> jb_chans j = jb_chans k \<Longrightarrow> j = k"
  by (auto simp: distinct_map inj_on_def)

lemma answered_more:
  assumes "distinct (map jb_chans js)" "j \<in> set js" "out (jb_chans j) = None"
  shows "mset (filter (\<lambda>k. (out(jb_chans j \<mapsto> r)) (jb_chans k) \<noteq> None) js) = add_mset j (mset (filter (\<lambda>k. out (jb_chans k) \<noteq> None) js))"
  using assms
proof (induction js)
  case (Cons k js)
  show ?case
  proof (cases "k = j")
    case True
    then have "filter (\<lambda>k. (out(jb_chans j \<mapsto> r)) (jb_chans k) \<noteq> None) js = filter (\<lambda>k. out (jb_chans k) \<noteq> None) js"
      using Cons.prems(1) by (intro filter_cong) (auto simp: image_iff)
    then show ?thesis using True Cons.prems(3) by simp
  next
    case False
    then have "jb_chans k \<noteq> jb_chans j" using Cons.prems by (metis job_unique list.set_intros(1))
    then show ?thesis using Cons False by auto
  qed
qed simp

lemma pool_invD:
  assumes "pool_inv bc (P, js)"
  shows "distinct (map jb_chans js)" "mset js = mset (jobQueue P) + mset (in_work P) + mset (answered P js)"
    "pl_out P i = Some r \<Longrightarrow> \<exists>j \<in> set js. jb_chans j = i \<and> r = job_answer bc j"
    "int (length (jobQueue P)) \<le> pc_Buffer (pl_config P)" "pl_workers P \<noteq> []"
    "Returned \<in> set (pl_workers P) \<Longrightarrow> pl_isClosed P \<and> jobQueue P = []"
  using assms by (simp_all add: pool_inv_def)

lemma working_job:
  assumes "pool_inv bc (P, js)" "i < length (pl_workers P)" "pl_workers P ! i = Working j"
  shows "j \<in> set js \<and> pl_out P (jb_chans j) = None"
proof -
  note I = pool_invD [OF assms(1)]
  have "Working j \<in> set (pl_workers P)" using nth_mem [OF assms(2)] assms(3) by simp
  then have w: "j \<in> set (in_work P)" by (force simp: in_work_def)
  then have js: "j \<in># mset js" unfolding I(2) by simp
  have "distinct js" using I(1) by (simp add: distinct_map)
  then have "count (mset js) j \<le> 1" by (simp add: distinct_count_atmost_1)
  moreover have "count (mset js) j = count (mset (jobQueue P)) j + count (mset (in_work P)) j + count (mset (answered P js)) j"
    by (simp only: I(2) count_union)
  moreover have "1 \<le> count (mset (in_work P)) j" using w by (metis count_greater_eq_one_iff set_mset_mset)
  ultimately have "count (mset (answered P js)) j = 0" by linarith
  then have "j \<notin> set (answered P js)" by (metis count_eq_zero_iff set_mset_mset)
  then show ?thesis using js by (simp add: answered_def)
qed

lemma answered_accept:
  assumes "pool_inv bc (P, js)" "jb_chans j \<notin> jb_chans ` set js"
  shows "answered P (js @ [j]) = answered P js"
proof -
  have "pl_out P (jb_chans j) = None"
  proof (rule ccontr)
    assume "pl_out P (jb_chans j) \<noteq> None"
    then obtain r where "pl_out P (jb_chans j) = Some r" by blast
    from pool_invD(3) [OF assms(1) this] assms(2) show False by (metis image_eqI)
  qed
  then show ?thesis by (simp add: answered_def)
qed

lemma worker_step_inv:
  assumes "worker_step bc P P'" "pool_inv bc (P, js)"
  shows "pool_inv bc (P', js)"
  using assms(1)
proof cases
  note I = pool_invD [OF assms(2)]
  case (receive i j q)
  have "mset (in_work P') = add_mset j (mset (in_work P))"
    using in_work_update [OF receive(2), of "Working j"] receive by (simp add: in_work_def)
  moreover have "Returned \<in> set (pl_workers P') \<Longrightarrow> Returned \<in> set (pl_workers P)"
    using set_update_subset_insert [of "pl_workers P" i "Working j"] receive(1) by auto
  ultimately show ?thesis using I receive by (auto simp: pool_inv_def answered_def)
next
  note I = pool_invD [OF assms(2)]
  case (answer i j)
  note j = working_job [OF assms(2) answer(2,3)]
  have w: "mset (in_work P') + {#j#} = mset (in_work P)"
    using in_work_update [OF answer(2), of Waiting] answer j by (simp add: in_work_def send_answer_def)
  have out: "pl_out P' = (pl_out P)(jb_chans j \<mapsto> job_answer bc j)" "jobQueue P' = jobQueue P" "pl_config P' = pl_config P" "pl_isClosed P' = pl_isClosed P"
    "pl_workers P' = (pl_workers P)[i := Waiting]"
    using answer j by (simp_all add: send_answer_def)
  have a: "mset (answered P' js) = add_mset j (mset (answered P js))"
    unfolding answered_def out(1) by (rule answered_more [OF I(1)]) (use j in simp_all)
  have r: "Returned \<in> set (pl_workers P') \<Longrightarrow> Returned \<in> set (pl_workers P)"
    using set_update_subset_insert [of "pl_workers P" i Waiting] by (auto simp: out)
  have "mset js = mset (jobQueue P') + mset (in_work P') + mset (answered P' js)" unfolding a out(2) I(2) using w by (metis add_mset_add_single union_assoc union_commute)
  then show ?thesis using I j r by (auto simp: pool_inv_def out)
next
  note I = pool_invD [OF assms(2)]
  case (return i)
  have "mset (in_work P') = mset (in_work P)" using in_work_update [OF return(2), of Returned] return by (simp add: in_work_def)
  then show ?thesis using I return by (auto simp: pool_inv_def answered_def)
qed

lemma pool_step_inv:
  assumes "pool_step bc S S'" "pool_inv bc S"
  shows "pool_inv bc S'"
  using assms(1)
proof cases
  case (accept j js c p P P')
  then have P': "P' = P\<lparr>jobQueue := jobQueue P @ [j]\<rparr>" "int (length (jobQueue P)) < pc_Buffer (pl_config P)" "\<not> pl_isClosed P"
    by (auto simp: enqueue_def split: if_splits)
  note inv = assms(2) [unfolded accept(1)]
  have a: "answered P' (js @ [j]) = answered P js" using answered_accept [OF inv accept(3)] by (simp add: P' answered_def)
  have "distinct (map jb_chans (js @ [j]))" using accept(3) pool_invD(1) [OF inv] by auto
  moreover have "mset (js @ [j]) = mset (jobQueue P') + mset (in_work P') + mset (answered P' (js @ [j]))"
    unfolding a using pool_invD(2) [OF inv] by (simp add: P' in_work_def)
  moreover have "\<forall>i r. pl_out P' i = Some r \<longrightarrow> (\<exists>k \<in> set (js @ [j]). jb_chans k = i \<and> r = job_answer bc k)"
    using pool_invD(3) [OF inv] by (fastforce simp: P')
  ultimately show ?thesis using pool_invD(4-6) [OF inv] P' accept(2) by (auto simp: pool_inv_def)
next
  case (refuse c p j P err P' js)
  then show ?thesis using assms(2) by (auto simp: enqueue_def split: if_splits)
next
  case (work P P' js)
  then show ?thesis using assms(2) worker_step_inv by simp
next
  case (shut P js)
  then show ?thesis using assms(2) by (auto simp: pool_inv_def Close_def in_work_def answered_def)
qed

lemma pool_reach_inv: "pool_reach bc S \<Longrightarrow> pool_inv bc S"
proof -
  assume "pool_reach bc S"
  then obtain n cfg where n: "0 < n" and steps: "(pool_step bc)\<^sup>*\<^sup>* (NewPool n cfg, []) S" by (auto simp: pool_reach_def)
  have "pool_inv bc (NewPool n cfg, [])" using n by (auto simp: pool_inv_def NewPool_def Let_def in_work_def answered_def)
  with steps show ?thesis by (induction rule: rtranclp_induct) (auto intro: pool_step_inv)
qed

section \<open>Every accepted job is answered\<close>

lemma own_answer:
  assumes "pool_inv bc (P, js)" "j \<in> set js" "pl_out P (jb_chans j) \<noteq> None"
  shows "pl_out P (jb_chans j) = Some (job_answer bc j)"
proof -
  from assms(3) obtain r where r: "pl_out P (jb_chans j) = Some r" by blast
  from pool_invD(3) [OF assms(1) r] job_unique [OF pool_invD(1) [OF assms(1)] assms(2)] r show ?thesis by metis
qed

lemma all_answered:
  assumes "pool_inv bc (P, js)" "jobQueue P = []" "in_work P = []" "j \<in> set js"
  shows "pl_out P (jb_chans j) = Some (job_answer bc j)"
proof -
  have "mset js = mset (answered P js)" using pool_invD(2) [OF assms(1)] assms(2,3) by simp
  then have "j \<in> set (answered P js)" using assms(4) by (metis set_mset_mset)
  then show ?thesis using own_answer [OF assms(1,4)] by (auto simp: answered_def)
qed

text \<open>C22: Accepted work is never lost or mixed up: in every interleaving of callers, workers and \<^verbatim>\<open>Close\<close>, the queue stays within
  its bound, an answer in a job's channel is the answer of that job's own password, and when \<^verbatim>\<open>Close\<close> has
  returned (all workers have) every job that was ever accepted has been answered.\<close>

theorem accepted_jobs_answered:
  assumes "pool_reach bc (P, js)"
  shows "int (length (jobQueue P)) \<le> pc_Buffer (pl_config P)
    \<and> (\<forall>j \<in> set js. pl_out P (jb_chans j) \<in> {None, Some (job_answer bc j)})
    \<and> (workers_returned P \<longrightarrow> (\<forall>j \<in> set js. pl_out P (jb_chans j) = Some (job_answer bc j)))"
proof (intro conjI ballI impI)
  note I = pool_reach_inv [OF assms]
  show "int (length (jobQueue P)) \<le> pc_Buffer (pl_config P)" by (rule pool_invD(4) [OF I])
  show "pl_out P (jb_chans j) \<in> {None, Some (job_answer bc j)}" if "j \<in> set js" for j using own_answer [OF I that] by blast
  assume "workers_returned P"
  then have all: "\<forall>w \<in> set (pl_workers P). w = Returned" by (simp add: workers_returned_def list_all_iff)
  then have "Returned \<in> set (pl_workers P)" using pool_invD(5) [OF I] by (metis list.set_intros(1) neq_Nil_conv)
  then have "jobQueue P = []" using pool_invD(6) [OF I] by blast
  moreover have "in_work P = []" using all by (force simp: in_work_def concat_eq_Nil_conv split: worker.splits)
  ultimately show "pl_out P (jb_chans j) = Some (job_answer bc j)" if "j \<in> set js" for j using all_answered [OF I _ _ that] by blast
qed

section \<open>The workers come to an end\<close>

text \<open>Two steps per queued job, one per job in work, one per worker that has not returned.\<close>

definition work_left :: "pool \<Rightarrow> nat" where
  "work_left P = 2 * length (jobQueue P) + length (in_work P) + length (filter (\<lambda>w. w \<noteq> Returned) (pl_workers P))"

lemma filter_update_length:
  assumes "i < length ws"
  shows "length (filter f (ws[i := w])) + (if f (ws ! i) then 1 else 0) = length (filter f ws) + (if f w then 1 else 0)"
  using assms
proof (induction ws arbitrary: i)
  case (Cons v ws)
  then show ?case by (cases i) (auto split: if_splits)
qed simp

lemma worker_step_left: "worker_step bc P P' \<Longrightarrow> work_left P = Suc (work_left P')"
proof (induction rule: worker_step.induct)
  case (receive i P j q)
  have "length (in_work (P\<lparr>pl_workers := (pl_workers P)[i := Working j]\<rparr>)) = Suc (length (in_work P))"
    using arg_cong [OF in_work_update [OF receive(1), of "Working j"], of size] receive by simp
  then show ?case using receive filter_update_length [OF receive(1), of "\<lambda>w. w \<noteq> Returned" "Working j"] by (simp add: work_left_def in_work_def)
next
  case (answer i P j)
  have "Suc (length (in_work (P\<lparr>pl_workers := (pl_workers P)[i := Waiting]\<rparr>))) = length (in_work P)"
    using arg_cong [OF in_work_update [OF answer(1), of Waiting], of size] answer by simp
  then show ?case using answer filter_update_length [OF answer(1), of "\<lambda>w. w \<noteq> Returned" Waiting]
    by (simp add: work_left_def in_work_def send_answer_def split: option.splits)
next
  case (return i P)
  have "length (in_work (P\<lparr>pl_workers := (pl_workers P)[i := Returned]\<rparr>)) = length (in_work P)"
    using arg_cong [OF in_work_update [OF return(1), of Returned], of size] return by simp
  then show ?case using return filter_update_length [OF return(1), of "\<lambda>w. w \<noteq> Returned" Returned] by (simp add: work_left_def in_work_def)
qed

lemma worker_steps_left: "(worker_step bc ^^ n) P P' \<Longrightarrow> work_left P = n + work_left P'"
  by (induction n arbitrary: P') (auto dest!: worker_step_left)

lemma worker_steps_inv: "(worker_step bc ^^ n) P P' \<Longrightarrow> pool_inv bc (P, js) \<Longrightarrow> pool_inv bc (P', js)"
  by (induction n arbitrary: P') (auto intro: worker_step_inv)

text \<open>While a job is queued or in work, some worker can move.\<close>

lemma worker_enabled:
  assumes "pool_inv bc (P, js)" "jobQueue P \<noteq> [] \<or> in_work P \<noteq> []"
  shows "\<exists>Q. worker_step bc P Q"
proof (cases "in_work P = []")
  case False
  then obtain j where "Working j \<in> set (pl_workers P)" by (auto simp: in_work_def concat_eq_Nil_conv split: worker.splits) (metis worker.exhaust)
  then show ?thesis using worker_step.answer by (metis in_set_conv_nth)
next
  case True
  then obtain j q where q: "jobQueue P = j # q" using assms(2) by (cases "jobQueue P") auto
  obtain w where w: "w \<in> set (pl_workers P)" using pool_invD(5) [OF assms(1)] by (cases "pl_workers P") auto
  have "w \<noteq> Returned" using w pool_invD(6) [OF assms(1)] q by auto
  moreover have "w \<noteq> Working k" for k using True w by (auto simp: in_work_def concat_eq_Nil_conv)
  ultimately have "w = Waiting" by (cases w) auto
  then show ?thesis using worker_step.receive q w by (metis in_set_conv_nth)
qed

text \<open>The workers finish: from any reachable state they make at most \<open>work_left\<close> more steps of their own, and when none of them
  can move any more, every accepted job has its answer.\<close>

theorem workers_finish:
  assumes "pool_reach bc (P, js)" and "(worker_step bc ^^ n) P P'"
  shows "n \<le> work_left P \<and> ((\<nexists>Q. worker_step bc P' Q) \<longrightarrow> (\<forall>j \<in> set js. pl_out P' (jb_chans j) = Some (job_answer bc j)))"
proof (intro conjI impI ballI)
  show "n \<le> work_left P" using worker_steps_left [OF assms(2)] by simp
  fix j assume stuck: "\<nexists>Q. worker_step bc P' Q" and j: "j \<in> set js"
  have I: "pool_inv bc (P', js)" by (rule worker_steps_inv [OF assms(2) pool_reach_inv [OF assms(1)]])
  show "pl_out P' (jb_chans j) = Some (job_answer bc j)" using all_answered [OF I _ _ j] worker_enabled [OF I] stuck by blast
qed

section \<open>Examples\<close>

definition hx_bc :: bcrypt where
  "hx_bc = \<lparr>bc_Generate = (\<lambda>p. if length p > 72 then Inl (ErrNew ''too long'') else Inr (CHR ''h'' # p)),
     bc_Compare = (\<lambda>h p. if h = CHR ''h'' # p then None else Some ErrMismatchedHashAndPassword)\<rparr>"

definition hx_job :: job where "hx_job = hash_job 0 ''pw''"

definition hx_cfg :: PoolConfig where "hx_cfg = \<lparr>pc_Workers = 1, pc_Buffer = 1\<rparr>"

definition hx_queued :: pool where
  "hx_queued = (NewPool 1 hx_cfg)\<lparr>jobQueue := [hx_job]\<rparr>"

definition hx_done :: pool where
  "hx_done = \<lparr>pl_config = hx_cfg, jobQueue = [], pl_workers = [Waiting], pl_isClosed = False, pl_out = [0 \<mapsto> HashResult ''hpw'']\<rparr>"

lemma hx_reach: "pool_reach hx_bc (hx_queued, [hx_job])"
proof -
  have "enqueue False True hx_job (NewPool 1 hx_cfg) = (None, hx_queued)"
    by (simp add: enqueue_def NewPool_def hx_cfg_def hx_queued_def)
  from pool_step.accept [OF _ this, of "[]" hx_bc] have "pool_step hx_bc (NewPool 1 hx_cfg, []) (hx_queued, [hx_job])" by simp
  then show ?thesis unfolding pool_reach_def by (blast intro: zero_less_one)
qed

lemma hx_runs: "(worker_step hx_bc ^^ 2) hx_queued hx_done"
proof -
  let ?Q = "hx_queued\<lparr>jobQueue := [], pl_workers := [Working hx_job]\<rparr>"
  have "worker_step hx_bc hx_queued ?Q"
    using worker_step.receive [of 0 hx_queued hx_job "[]" hx_bc] by (simp add: hx_queued_def NewPool_def hx_cfg_def)
  moreover have "worker_step hx_bc ?Q hx_done"
    using worker_step.answer [of 0 ?Q hx_job hx_bc]
    by (simp add: send_answer_def hx_queued_def NewPool_def hx_cfg_def hx_job_def hash_job_def job_answer_def hx_bc_def hx_done_def)
  ultimately show ?thesis by (auto simp: numeral_2_eq_2)
qed

theorem accepted_jobs_answered_witness:
  "int (length (jobQueue hx_queued)) \<le> 1 \<and> pl_out hx_queued 0 \<in> {None, Some (job_answer hx_bc hx_job)}"
  using accepted_jobs_answered [OF hx_reach] by (simp add: hx_queued_def NewPool_def hx_cfg_def hx_job_def hash_job_def)

theorem workers_finish_witness: "pl_out hx_done 0 = Some (job_answer hx_bc hx_job)"
proof -
  have "\<nexists>Q. worker_step hx_bc hx_done Q" by (auto elim!: worker_stepE simp: hx_done_def)
  then show ?thesis using workers_finish [OF hx_reach hx_runs] by (simp add: hx_job_def hash_job_def)
qed

end
