(* ===== verification/Rate_Limit.thy ===== *)
theory Rate_Limit
  imports Complex_Main Prelude
begin

text \<open>
  The in-memory rate limiter (\<^verbatim>\<open>internal/shared/ratelimit/memory.go\<close>) that limits the messages of a user in a
  room: a token bucket per key, spread over shards. A \<^verbatim>\<open>float64\<close> is the rational number it denotes, and every
  operation on floats is the exact operation followed by the rounding \<open>rnd\<close>, which is a parameter; the
  locale states what IEEE 754 promises of it and the proofs need.
\<close>

section \<open>Buckets\<close>

record bucket =
  bk_tokens :: rat
  bk_lastUpdate :: int

record limiter =
  lm_rps :: rat
  lm_burst :: rat
  lm_ttl :: int
  lm_shards :: "(string \<rightharpoonup> bucket) list"

definition numShards :: nat where "numShards = 64"

definition NewMemory :: "(rat \<Rightarrow> rat) \<Rightarrow> rat \<Rightarrow> int \<Rightarrow> int \<Rightarrow> limiter" where
  "NewMemory rnd rps burst ttl = \<lparr>lm_rps = rps, lm_burst = rnd (of_int burst), lm_ttl = ttl, lm_shards = replicate numShards Map.empty\<rparr>"

text \<open>\<^verbatim>\<open>Duration.Seconds\<close> of a duration in nanoseconds: whole seconds plus the rest, each as a float.\<close>

definition Seconds :: "(rat \<Rightarrow> rat) \<Rightarrow> int \<Rightarrow> rat" where
  "Seconds rnd d = (let sec = sgn d * (\<bar>d\<bar> div 1000000000); nsec = sgn d * (\<bar>d\<bar> mod 1000000000) in
     rnd (rnd (of_int sec) + rnd (rnd (of_int nsec) / 1000000000)))"

text \<open>\<open>hash\<close> is \<^verbatim>\<open>maphash.String\<close> with the limiter's seed.\<close>

definition shard_of :: "(string \<Rightarrow> nat) \<Rightarrow> string \<Rightarrow> limiter \<Rightarrow> nat" where
  "shard_of hash key l = hash key mod length (lm_shards l)"

definition put_bucket :: "nat \<Rightarrow> string \<Rightarrow> bucket \<Rightarrow> limiter \<Rightarrow> limiter" where
  "put_bucket i key b l = l\<lparr>lm_shards := (lm_shards l)[i := ((lm_shards l) ! i)(key \<mapsto> b)]\<rparr>"

definition refill :: "(rat \<Rightarrow> rat) \<Rightarrow> int \<Rightarrow> limiter \<Rightarrow> bucket \<Rightarrow> rat" where
  "refill rnd now l b =
    (let elapsed = Seconds rnd (now - bk_lastUpdate b);
         newTokens = rnd (bk_tokens b + rnd (elapsed * lm_rps l))
     in if newTokens > lm_burst l then lm_burst l else newTokens)"

definition mem_Allow :: "(rat \<Rightarrow> rat) \<Rightarrow> (string \<Rightarrow> nat) \<Rightarrow> int \<Rightarrow> string \<Rightarrow> limiter \<Rightarrow> bool \<times> limiter" where
  "mem_Allow rnd hash now key l = (let i = shard_of hash key l in
     case (lm_shards l ! i) key of
       None \<Rightarrow> (True, put_bucket i key \<lparr>bk_tokens = rnd (lm_burst l - 1), bk_lastUpdate = now\<rparr> l)
     | Some b \<Rightarrow> (let newTokens = refill rnd now l b in
         if newTokens \<ge> 1 then (True, put_bucket i key \<lparr>bk_tokens = rnd (newTokens - 1), bk_lastUpdate = now\<rparr> l)
         else (False, l)))"

text \<open>The janitor's interval and its sweep, which runs only when the limiter has a time to live.\<close>

definition janitor_interval :: "int \<Rightarrow> int" where
  "janitor_interval ttl = max (min (ttl div 2) (10 * 60 * 1000000000)) 1000000000"

definition sweep :: "int \<Rightarrow> limiter \<Rightarrow> limiter" where
  "sweep now l = l\<lparr>lm_shards := map (\<lambda>s k. case s k of None \<Rightarrow> None | Some b \<Rightarrow> if now - bk_lastUpdate b > lm_ttl l then None else Some b) (lm_shards l)\<rparr>"

text \<open>The bucket of a key.\<close>

definition bucket_of :: "(string \<Rightarrow> nat) \<Rightarrow> limiter \<Rightarrow> string \<Rightarrow> bucket option" where
  "bucket_of hash l key = (lm_shards l ! shard_of hash key l) key"

section \<open>Rounding\<close>

locale float64 =
  fixes rnd :: "rat \<Rightarrow> rat"
  assumes rnd_mono: "x \<le> y \<Longrightarrow> rnd x \<le> rnd y"
    and rnd_int: "\<bar>n\<bar> \<le> 2 ^ 53 \<Longrightarrow> rnd (of_int n) = of_int n"

interpretation exact: float64 "\<lambda>x. x"
  by unfold_locales simp_all

section \<open>What the limiter guarantees\<close>

definition limiter_wf :: "limiter \<Rightarrow> bool" where
  "limiter_wf l \<longleftrightarrow> lm_shards l \<noteq> [] \<and> 0 \<le> lm_rps l \<and> (\<exists>n. lm_burst l = of_int n \<and> 1 \<le> n \<and> n \<le> 2 ^ 53) \<and>
     (\<forall>s \<in> set (lm_shards l). \<forall>k b. s k = Some b \<longrightarrow> 0 \<le> bk_tokens b \<and> bk_tokens b \<le> lm_burst l)"

lemma shard_lt: "lm_shards l \<noteq> [] \<Longrightarrow> shard_of hash key l < length (lm_shards l)"
  by (simp add: shard_of_def)

lemma put_bucket_of:
  assumes "lm_shards l \<noteq> []"
  shows "bucket_of hash (put_bucket (shard_of hash key l) key b l) k = (if k = key then Some b else bucket_of hash l k)"
  using shard_lt [OF assms, of hash] by (auto simp: bucket_of_def put_bucket_def shard_of_def nth_list_update)

lemma put_bucket_wf:
  assumes "limiter_wf l" "0 \<le> bk_tokens b" "bk_tokens b \<le> lm_burst l"
  shows "limiter_wf (put_bucket (shard_of hash key l) key b l)"
proof -
  let ?i = "shard_of hash key l"
  have i: "?i < length (lm_shards l)" using assms(1) by (simp add: shard_lt limiter_wf_def)
  have "0 \<le> bk_tokens c \<and> bk_tokens c \<le> lm_burst l" if s: "s \<in> set ((lm_shards l)[?i := (lm_shards l ! ?i)(key \<mapsto> b)])" and c: "s k = Some c" for s k c
  proof -
    from s have "s \<in> set (lm_shards l) \<or> s = (lm_shards l ! ?i)(key \<mapsto> b)" using set_update_subset_insert by fast
    moreover have "0 \<le> bk_tokens c \<and> bk_tokens c \<le> lm_burst l" if "t \<in> set (lm_shards l)" "t k = Some c" for t
      using assms(1) that unfolding limiter_wf_def by blast
    ultimately show ?thesis using c assms(2,3) nth_mem [OF i] by (auto split: if_splits)
  qed
  then show ?thesis using assms(1) by (auto simp: limiter_wf_def put_bucket_def)
qed

context float64
begin

lemma rnd_0: "rnd 0 = 0" and rnd_1: "rnd 1 = 1"
  using rnd_int [of 0] rnd_int [of 1] by simp_all

lemma rnd_nonneg: "0 \<le> x \<Longrightarrow> 0 \<le> rnd x"
  using rnd_mono [of 0 x] by (simp add: rnd_0)

lemma Seconds_0: "Seconds rnd 0 = 0"
  by (simp add: Seconds_def rnd_0)

lemma spend:
  assumes "1 \<le> x" "x \<le> of_int n" "n \<le> 2 ^ 53" "1 \<le> n"
  shows "0 \<le> rnd (x - 1) \<and> rnd (x - 1) \<le> of_int n"
proof -
  have "rnd (x - 1) \<le> rnd (of_int n)" using assms(2) by (intro rnd_mono) simp
  then show ?thesis using assms rnd_int [of n] rnd_nonneg [of "x - 1"] by simp
qed

lemma Allow_wf:
  assumes "limiter_wf l"
  shows "limiter_wf (snd (mem_Allow rnd hash now key l))"
proof -
  obtain n where n: "lm_burst l = of_int n" "1 \<le> n" "n \<le> 2 ^ 53" using assms by (auto simp: limiter_wf_def)
  have "refill rnd now l b \<le> of_int n" for b by (simp add: refill_def Let_def n(1))
  then show ?thesis
    using assms spend [OF _ _ n(3,2)] n
    by (auto simp: mem_Allow_def Let_def intro!: put_bucket_wf split: option.splits)
qed

text \<open>The answers to a number of requests for one key at one moment.\<close>

lemma Allow_now:
  assumes "limiter_wf l" "bucket_of hash l key = Some \<lparr>bk_tokens = of_int m, bk_lastUpdate = now\<rparr>" "0 \<le> m"
  shows "if 1 \<le> m then fst (mem_Allow rnd hash now key l) \<and>
      bucket_of hash (snd (mem_Allow rnd hash now key l)) key = Some \<lparr>bk_tokens = of_int (m - 1), bk_lastUpdate = now\<rparr>
    else mem_Allow rnd hash now key l = (False, l)"
proof -
  obtain n where n: "lm_burst l = of_int n" "n \<le> 2 ^ 53" using assms(1) by (auto simp: limiter_wf_def)
  have sh: "lm_shards l \<noteq> []" using assms(1) by (simp add: limiter_wf_def)
  have "lm_shards l ! shard_of hash key l \<in> set (lm_shards l)" using shard_lt [OF sh] by simp
  then have "of_int m \<le> lm_burst l" using assms(1,2) unfolding limiter_wf_def bucket_of_def by fastforce
  then have m: "m \<le> n" by (simp add: n(1))
  have r: "refill rnd now l \<lparr>bk_tokens = of_int m, bk_lastUpdate = now\<rparr> = of_int m"
    using m n assms(3) rnd_int [of m] by (simp add: refill_def Let_def Seconds_0 rnd_0)
  have "rnd (of_int m - 1) = of_int (m - 1)" if "1 \<le> m" using rnd_int [of "m - 1"] that m n(2) by simp
  then show ?thesis
    using assms(2) put_bucket_of [OF sh, of hash key] r
    by (auto simp: mem_Allow_def Let_def bucket_of_def [symmetric])
qed

text \<open>A request touches no other key's bucket.\<close>

lemma Allow_other: "limiter_wf l \<Longrightarrow> k \<noteq> key \<Longrightarrow> bucket_of hash (snd (mem_Allow rnd hash now key l)) k = bucket_of hash l k"
  by (auto simp: mem_Allow_def Let_def put_bucket_of limiter_wf_def split: option.splits)

end

lemma sweep_wf: "limiter_wf l \<Longrightarrow> limiter_wf (sweep now l)"
  by (fastforce simp: limiter_wf_def sweep_def split: option.splits if_splits)

text \<open>A number of requests for one key at one moment.\<close>

fun allow_times :: "(rat \<Rightarrow> rat) \<Rightarrow> (string \<Rightarrow> nat) \<Rightarrow> int \<Rightarrow> string \<Rightarrow> nat \<Rightarrow> limiter \<Rightarrow> bool list" where
  "allow_times rnd hash now key 0 l = []"
| "allow_times rnd hash now key (Suc n) l = (case mem_Allow rnd hash now key l of (ok, l') \<Rightarrow> ok # allow_times rnd hash now key n l')"

context float64
begin

lemma allow_times_left:
  assumes "limiter_wf l" "bucket_of hash l key = Some \<lparr>bk_tokens = of_int (int m), bk_lastUpdate = now\<rparr>"
  shows "allow_times rnd hash now key n l = replicate (min n m) True @ replicate (n - m) False"
  using assms
proof (induction n arbitrary: m l)
  case (Suc n)
  note A = Allow_now [OF Suc.prems, simplified]
  show ?case
  proof (cases m)
    case 0
    then have "mem_Allow rnd hash now key l = (False, l)" using A by simp
    then show ?thesis using Suc.IH [OF Suc.prems] 0 by simp
  next
    case (Suc m')
    then have "fst (mem_Allow rnd hash now key l)"
      "bucket_of hash (snd (mem_Allow rnd hash now key l)) key = Some \<lparr>bk_tokens = of_int (int m'), bk_lastUpdate = now\<rparr>" using A by simp_all
    then show ?thesis using Suc.IH [OF Allow_wf [OF Suc.prems(1)]] Suc by (simp add: case_prod_beta)
  qed
qed simp

end

text \<open>A key that the limiter has not seen gets exactly its burst at one moment: of any number of requests the first
  \<^verbatim>\<open>burst\<close> pass and all others are refused, whatever the rounding of floats is.\<close>

theorem burst_is_exact:
  assumes "float64 rnd" "limiter_wf l" "bucket_of hash l key = None" "lm_burst l = of_int (int B)"
  shows "allow_times rnd hash now key n l = replicate (min n B) True @ replicate (n - B) False"
proof (cases n)
  case (Suc n')
  obtain c where c: "lm_burst l = of_int c" "1 \<le> c" "c \<le> 2 ^ 53" using assms(2) by (auto simp: limiter_wf_def)
  then have B: "1 \<le> B" "int B \<le> 2 ^ 53" using assms(4) by auto
  have sh: "lm_shards l \<noteq> []" using assms(2) by (simp add: limiter_wf_def)
  have "rnd (lm_burst l - 1) = of_int (int (B - 1))"
    using float64.rnd_int [OF assms(1), of "int B - 1"] B by (simp add: assms(4) of_nat_diff)
  then have run: "mem_Allow rnd hash now key l = (True, put_bucket (shard_of hash key l) key \<lparr>bk_tokens = of_int (int (B - 1)), bk_lastUpdate = now\<rparr> l)"
    using assms(3) by (simp add: mem_Allow_def Let_def bucket_of_def)
  let ?l = "put_bucket (shard_of hash key l) key \<lparr>bk_tokens = of_int (int (B - 1)), bk_lastUpdate = now\<rparr> l"
  have "limiter_wf ?l" using float64.Allow_wf [OF assms(1,2), of hash now key] run by simp
  from float64.allow_times_left [OF assms(1) this] put_bucket_of [OF sh, of hash key]
  have "allow_times rnd hash now key n' ?l = replicate (min n' (B - 1)) True @ replicate (n' - (B - 1)) False" by simp
  moreover have "min n B = Suc (min n' (B - 1))" "n - B = n' - (B - 1)" using B Suc by auto
  moreover have "allow_times rnd hash now key n l = True # allow_times rnd hash now key n' ?l" unfolding Suc by (simp add: run)
  ultimately show ?thesis by (simp only: replicate_Suc append_Cons)
qed simp

section \<open>The rate over time\<close>

text \<open>
  Requests for any keys and sweeps of the janitor, in the order of their times; how many requests for one key pass.
\<close>

datatype lim_event = Req string int | Sweep int

fun event_time :: "lim_event \<Rightarrow> int" where
  "event_time (Req k t) = t"
| "event_time (Sweep t) = t"

fun in_order :: "int \<Rightarrow> lim_event list \<Rightarrow> bool" where
  "in_order t [] = True"
| "in_order t (e # es) = (t \<le> event_time e \<and> in_order (event_time e) es)"

fun passed :: "(rat \<Rightarrow> rat) \<Rightarrow> (string \<Rightarrow> nat) \<Rightarrow> string \<Rightarrow> lim_event list \<Rightarrow> limiter \<Rightarrow> nat" where
  "passed rnd hash key [] l = 0"
| "passed rnd hash key (Req k t # es) l = (case mem_Allow rnd hash t k l of (ok, l') \<Rightarrow>
     (if ok \<and> k = key then 1 else 0) + passed rnd hash key es l')"
| "passed rnd hash key (Sweep t # es) l = passed rnd hash key es (sweep t l)"

definition end_time :: "int \<Rightarrow> lim_event list \<Rightarrow> int" where
  "end_time t es = (if es = [] then t else event_time (last es))"

definition secs :: "int \<Rightarrow> rat" where "secs d = of_int d / 1000000000"

lemma Seconds_exact: "Seconds (\<lambda>x. x) d = secs d"
proof -
  have "(of_int \<bar>d\<bar> :: rat) = of_int (\<bar>d\<bar> div 1000000000) * 1000000000 + of_int (\<bar>d\<bar> mod 1000000000)"
    by (metis div_mult_mod_eq of_int_add of_int_mult of_int_numeral)
  then have "(of_int (\<bar>d\<bar> div 1000000000) :: rat) + of_int (\<bar>d\<bar> mod 1000000000) / 1000000000 = of_int \<bar>d\<bar> / 1000000000" by (simp add: field_simps)
  then have "of_int (sgn d) * ((of_int (\<bar>d\<bar> div 1000000000) :: rat) + of_int (\<bar>d\<bar> mod 1000000000) / 1000000000) = of_int (sgn d * \<bar>d\<bar>) / 1000000000"
    by simp
  then show ?thesis by (simp add: Seconds_def secs_def Let_def distrib_left sgn_mult_abs)
qed

lemma secs_add: "secs (a + b) = secs a + secs b" and secs_mono: "a \<le> b \<Longrightarrow> secs a \<le> secs b" and secs_0: "secs 0 = 0"
  by (simp_all add: secs_def add_divide_distrib divide_right_mono)

text \<open>What a key could spend at a moment.\<close>

definition available :: "(string \<Rightarrow> nat) \<Rightarrow> string \<Rightarrow> int \<Rightarrow> limiter \<Rightarrow> rat" where
  "available hash key t l = (case bucket_of hash l key of None \<Rightarrow> lm_burst l
     | Some b \<Rightarrow> min (lm_burst l) (bk_tokens b + secs (t - bk_lastUpdate b) * lm_rps l))"

lemma refill_available: "bucket_of hash l key = Some b \<Longrightarrow> refill (\<lambda>x. x) t l b = available hash key t l"
  by (simp add: refill_def available_def Let_def Seconds_exact min_def)

lemma available_later:
  assumes "limiter_wf l" "t \<le> t'"
  shows "available hash key t' l \<le> available hash key t l + lm_rps l * secs (t' - t)"
proof -
  have r: "0 \<le> lm_rps l" and d: "0 \<le> secs (t' - t)" using assms secs_mono [of 0 "t' - t"] by (simp_all add: limiter_wf_def secs_0)
  have "secs (t' - u) * lm_rps l = secs (t - u) * lm_rps l + lm_rps l * secs (t' - t)" for u
    using secs_add [of "t - u" "t' - t"] by (simp add: algebra_simps)
  then show ?thesis using mult_nonneg_nonneg [OF r d] by (auto simp: available_def split: option.splits)
qed

lemma limiter_fields [simp]:
  "lm_rps (snd (mem_Allow rnd hash t k l)) = lm_rps l" "lm_burst (snd (mem_Allow rnd hash t k l)) = lm_burst l" "lm_ttl (snd (mem_Allow rnd hash t k l)) = lm_ttl l"
  "lm_rps (sweep t l) = lm_rps l" "lm_burst (sweep t l) = lm_burst l" "lm_ttl (sweep t l) = lm_ttl l"
  by (simp_all add: mem_Allow_def Let_def put_bucket_def sweep_def split: option.splits)

lemma bucket_of_sweep:
  "lm_shards l \<noteq> [] \<Longrightarrow> bucket_of hash (sweep t l) key =
    (case bucket_of hash l key of None \<Rightarrow> None | Some b \<Rightarrow> if t - bk_lastUpdate b > lm_ttl l then None else Some b)"
  using shard_lt [of l hash key] by (simp add: bucket_of_def sweep_def shard_of_def)

lemma wf_bucket:
  assumes "limiter_wf l" "bucket_of hash l key = Some b"
  shows "0 \<le> bk_tokens b"
proof -
  have "lm_shards l ! shard_of hash key l \<in> set (lm_shards l)" using assms(1) by (simp add: shard_lt limiter_wf_def)
  then show ?thesis using assms unfolding limiter_wf_def bucket_of_def by blast
qed

text \<open>The three ways the amount changes at one moment: a request that passes spends one, a refused one and other keys nothing, a sweep adds nothing.\<close>

lemma available_Allow:
  assumes "limiter_wf l"
  shows "available hash key t (snd (mem_Allow (\<lambda>x. x) hash t k l)) + (if fst (mem_Allow (\<lambda>x. x) hash t k l) \<and> k = key then 1 else 0) \<le> available hash key t l"
proof (cases "k = key")
  case False
  then show ?thesis using exact.Allow_other [OF assms, of key k hash t] by (simp add: available_def split: option.splits)
next
  case True
  have sh: "lm_shards l \<noteq> []" using assms by (simp add: limiter_wf_def)
  show ?thesis
  proof (cases "bucket_of hash l key")
    case None
    then show ?thesis using True put_bucket_of [OF sh, of hash key]
      by (simp add: mem_Allow_def Let_def bucket_of_def [symmetric] available_def secs_0)
  next
    case (Some b)
    then show ?thesis using True put_bucket_of [OF sh, of hash key] refill_available [OF Some, of t]
      by (auto simp: mem_Allow_def Let_def bucket_of_def [symmetric] available_def [of _ _ _ "put_bucket _ _ _ _"] secs_0)
  qed
qed

lemma available_sweep:
  assumes "limiter_wf l" "lm_burst l \<le> lm_rps l * secs (lm_ttl l)"
  shows "available hash key t (sweep t l) \<le> available hash key t l"
proof (cases "bucket_of hash l key")
  case (Some b)
  have "lm_burst l \<le> bk_tokens b + secs (t - bk_lastUpdate b) * lm_rps l" if "lm_ttl l < t - bk_lastUpdate b"
  proof -
    have "secs (lm_ttl l) * lm_rps l \<le> secs (t - bk_lastUpdate b) * lm_rps l"
      using secs_mono [of "lm_ttl l" "t - bk_lastUpdate b"] that assms(1) by (intro mult_right_mono) (auto simp: limiter_wf_def)
    then show ?thesis using assms(2) wf_bucket [OF assms(1) Some] by (simp add: mult.commute)
  qed
  then show ?thesis using Some bucket_of_sweep [of l hash t key] assms(1) by (auto simp: available_def limiter_wf_def)
qed (use bucket_of_sweep [of l hash t key] assms(1) in \<open>simp add: available_def limiter_wf_def\<close>)

lemma end_time_Cons: "end_time t (e # es) = end_time (event_time e) es"
  by (simp add: end_time_def)

text \<open>A bucket was last updated in the past.\<close>

definition in_past :: "(string \<Rightarrow> nat) \<Rightarrow> string \<Rightarrow> int \<Rightarrow> limiter \<Rightarrow> bool" where
  "in_past hash key t l = (case bucket_of hash l key of None \<Rightarrow> True | Some b \<Rightarrow> bk_lastUpdate b \<le> t)"

lemma in_past_Allow:
  assumes "limiter_wf l" "in_past hash key t l"
  shows "in_past hash key t (snd (mem_Allow (\<lambda>x. x) hash t k l))"
proof (cases "k = key")
  case False
  then show ?thesis using exact.Allow_other [OF assms(1), of key k hash t] assms(2) by (simp add: in_past_def)
next
  case True
  have sh: "lm_shards l \<noteq> []" using assms(1) by (simp add: limiter_wf_def)
  show ?thesis using True assms(2) put_bucket_of [OF sh, of hash key]
    by (auto simp: mem_Allow_def Let_def in_past_def split: option.splits)
qed

lemma in_past_sweep: "limiter_wf l \<Longrightarrow> in_past hash key t l \<Longrightarrow> in_past hash key t (sweep t l)"
  using bucket_of_sweep [of l hash t key] by (simp add: in_past_def limiter_wf_def split: option.splits)

lemma available_nonneg:
  assumes "limiter_wf l" "in_past hash key t l"
  shows "0 \<le> available hash key t l"
proof -
  have B: "0 \<le> lm_burst l" and r: "0 \<le> lm_rps l" using assms(1) by (auto simp: limiter_wf_def)
  have "0 \<le> bk_tokens b + secs (t - bk_lastUpdate b) * lm_rps l" if b: "bucket_of hash l key = Some b" for b
    using secs_mono [of 0 "t - bk_lastUpdate b"] b assms(2) r wf_bucket [OF assms(1) b] by (simp add: in_past_def secs_0)
  then show ?thesis using B by (simp add: available_def split: option.splits)
qed

definition event_run :: "(rat \<Rightarrow> rat) \<Rightarrow> (string \<Rightarrow> nat) \<Rightarrow> lim_event \<Rightarrow> limiter \<Rightarrow> limiter" where
  "event_run rnd hash e l = (case e of Req k t \<Rightarrow> snd (mem_Allow rnd hash t k l) | Sweep t \<Rightarrow> sweep t l)"

lemma event_keeps:
  assumes "limiter_wf l" "in_past hash key (event_time e) l"
  shows "limiter_wf (event_run (\<lambda>x. x) hash e l) \<and> in_past hash key (event_time e) (event_run (\<lambda>x. x) hash e l) \<and>
    lm_burst (event_run (\<lambda>x. x) hash e l) = lm_burst l \<and> lm_rps (event_run (\<lambda>x. x) hash e l) = lm_rps l \<and> lm_ttl (event_run (\<lambda>x. x) hash e l) = lm_ttl l"
  using assms exact.Allow_wf [OF assms(1)]
  by (cases e) (simp_all add: event_run_def sweep_wf in_past_Allow in_past_sweep)

lemma event_spends:
  assumes "limiter_wf l" "lm_burst l \<le> lm_rps l * secs (lm_ttl l)"
  shows "of_nat (passed (\<lambda>x. x) hash key (e # es) l) + available hash key (event_time e) (event_run (\<lambda>x. x) hash e l)
    \<le> available hash key (event_time e) l + of_nat (passed (\<lambda>x. x) hash key es (event_run (\<lambda>x. x) hash e l))"
proof (cases e)
  case (Req k t)
  then show ?thesis using available_Allow [OF assms(1), of hash key t k] by (auto simp: event_run_def case_prod_beta split: if_splits)
next
  case (Sweep t)
  then show ?thesis using available_sweep [OF assms, of hash key t] by (simp add: event_run_def)
qed

lemma passed_le:
  assumes "limiter_wf l" "in_past hash key t l" "in_order t es" "lm_burst l \<le> lm_rps l * secs (lm_ttl l)"
  shows "of_nat (passed (\<lambda>x. x) hash key es l) \<le> available hash key t l + lm_rps l * secs (end_time t es - t)"
  using assms
proof (induction es arbitrary: t l)
  case Nil
  then show ?case by (simp add: available_nonneg end_time_def secs_0)
next
  case (Cons e es)
  let ?u = "event_time e" and ?l = "event_run (\<lambda>x. x) hash e l"
  have tu: "t \<le> ?u" "in_order ?u es" using Cons.prems(3) by simp_all
  have "in_past hash key ?u l" using Cons.prems(2) tu(1) by (auto simp: in_past_def split: option.splits)
  note K = event_keeps [OF Cons.prems(1) this]
  have IH: "of_nat (passed (\<lambda>x. x) hash key es ?l) \<le> available hash key ?u ?l + lm_rps l * secs (end_time ?u es - ?u)"
    using Cons.IH [of ?l ?u] K tu(2) Cons.prems(4) by simp
  have "secs (end_time t (e # es) - t) = secs (end_time ?u es - ?u) + secs (?u - t)"
    using secs_add [of "end_time ?u es - ?u" "?u - t"] by (simp add: end_time_Cons)
  then have "lm_rps l * secs (end_time t (e # es) - t) = lm_rps l * secs (end_time ?u es - ?u) + lm_rps l * secs (?u - t)"
    by (simp add: distrib_left)
  then show ?case using IH event_spends [OF Cons.prems(1,4), of hash key e es] available_later [OF Cons.prems(1) tu(1), of hash key] by linarith
qed

text \<open>C27: over any stretch of time, with requests for any keys and sweeps of the janitor in between, a limiter lets through of one key at most
  its burst and what its rate yields in that time; for this a forgotten bucket must have been full again, which holds when the
  time to live is long enough for the rate to refill the burst. The float operations are taken as exact here.\<close>

theorem token_bucket_bound:
  assumes "0 \<le> rps" "1 \<le> B" "B \<le> 2 ^ 53" "of_int B \<le> rps * secs ttl" "in_order t es"
  shows "of_nat (passed (\<lambda>x. x) hash key es (NewMemory (\<lambda>x. x) rps B ttl)) \<le> of_int B + rps * secs (end_time t es - t)"
proof -
  let ?l = "NewMemory (\<lambda>x. x) rps B ttl"
  have wf: "limiter_wf ?l" using assms(1-3) by (auto simp: limiter_wf_def NewMemory_def numShards_def)
  have none: "bucket_of hash ?l key = None" by (simp add: bucket_of_def shard_of_def NewMemory_def numShards_def)
  have "lm_burst ?l = of_int B" "lm_rps ?l = rps" "lm_ttl ?l = ttl" by (simp_all add: NewMemory_def)
  then show ?thesis using passed_le [OF wf _ assms(5), of hash key] none assms(4) by (simp add: in_past_def available_def)
qed

text \<open>At 2 a second with a burst of 5 and an hour of life: of six requests at once and three more after a second, seven pass.\<close>

theorem token_bucket_bound_witness:
  "passed (\<lambda>x. x) (\<lambda>k. 0) ''u'' (replicate 6 (Req ''u'' 0) @ [Sweep 5, Req ''v'' 7] @ replicate 3 (Req ''u'' 1000000000)) (NewMemory (\<lambda>x. x) 2 5 3600000000000) = 7 \<and>
   of_nat (passed (\<lambda>x. x) (\<lambda>k. 0) ''u'' (replicate 6 (Req ''u'' 0) @ [Sweep 5, Req ''v'' 7] @ replicate 3 (Req ''u'' 1000000000)) (NewMemory (\<lambda>x. x) 2 5 3600000000000)) \<le> (7 :: rat)"
proof
  show "passed (\<lambda>x. x) (\<lambda>k. 0) ''u'' (replicate 6 (Req ''u'' 0) @ [Sweep 5, Req ''v'' 7] @ replicate 3 (Req ''u'' 1000000000)) (NewMemory (\<lambda>x. x) 2 5 3600000000000) = 7"
    by code_simp
  show "of_nat (passed (\<lambda>x. x) (\<lambda>k. 0) ''u'' (replicate 6 (Req ''u'' 0) @ [Sweep 5, Req ''v'' 7] @ replicate 3 (Req ''u'' 1000000000)) (NewMemory (\<lambda>x. x) 2 5 3600000000000)) \<le> (7 :: rat)"
    using token_bucket_bound [of 2 5 3600000000000 0 "replicate 6 (Req ''u'' 0) @ [Sweep 5, Req ''v'' 7] @ replicate 3 (Req ''u'' 1000000000)" "\<lambda>k. 0" "''u''"]
    by (simp add: secs_def end_time_def eval_nat_numeral)
qed

end
