(* ===== verification/Access_Log.thy ===== *)
theory Access_Log
  imports Http
begin

text \<open>
  The access logs and the recovery from panics (\<^verbatim>\<open>internal/shared/middleware\<close>: \<^verbatim>\<open>http_logging.go\<close>,
  \<^verbatim>\<open>grpc_logging.go\<close>, \<^verbatim>\<open>recovery.go\<close>). A log entry is its level and its attributes; \<^verbatim>\<open>url.Values\<close> is a list of
  parameters with their values, and its \<^verbatim>\<open>Encode\<close> a parameter.
\<close>

section \<open>HTTP requests\<close>

type_synonym url_values = "(string \<times> string list) list"

record log_request =
  lr_Method :: string
  lr_Path :: string
  lr_Query :: url_values
  lr_XFF :: string
  lr_ContentLength :: int
  lr_RemoteAddr :: string
  lr_UserAgent :: string

datatype attr = AttrString string string | AttrInt string int | AttrBool string bool
datatype level = LevelInfo | LevelError

type_synonym log_entry = "level \<times> string \<times> attr list"

definition sensitiveParams :: "string list" where
  "sensitiveParams = [''token'', ''password'', ''secret'', ''key'', ''authorization'', ''access_token'', ''refresh_token'']"

definition sanitizeQuery :: "(url_values \<Rightarrow> string) \<Rightarrow> url_values \<Rightarrow> string" where
  "sanitizeQuery Encode query = Encode (map (\<lambda>(k, vals). (k, if k \<in> set sensitiveParams then map (\<lambda>_. ''***'') vals else vals)) query)"

definition appendQueryAttr :: "(url_values \<Rightarrow> string) \<Rightarrow> attr list \<Rightarrow> url_values \<Rightarrow> attr list" where
  "appendQueryAttr Encode attrs query = (if query = [] then attrs else attrs @ [AttrString ''query'' (sanitizeQuery Encode query)])"

definition appendXFFAttr :: "attr list \<Rightarrow> string \<Rightarrow> attr list" where
  "appendXFFAttr attrs xff = (if xff = '''' then attrs else attrs @ [AttrString ''xff'' xff])"

definition isProbePath :: "string \<Rightarrow> bool" where
  "isProbePath path \<longleftrightarrow> path = ''/health'' \<or> path = ''/ready''"

definition logHijacked :: "(url_values \<Rightarrow> string) \<Rightarrow> log_request \<Rightarrow> log_entry" where
  "logHijacked Encode r = (LevelInfo, ''http request'',
     appendXFFAttr (appendQueryAttr Encode [AttrString ''method'' (lr_Method r), AttrString ''path'' (lr_Path r),
       AttrInt ''content_length'' (lr_ContentLength r), AttrString ''remote_addr'' (lr_RemoteAddr r), AttrString ''user_agent'' (lr_UserAgent r),
       AttrBool ''hijacked'' True] (lr_Query r)) (lr_XFF r))"

text \<open>
  The writer that records what the handler did: the last status it wrote, the bytes that were written and
  whether it took the connection over. A handler is the list of its calls on the writer, each with the
  outcome of the underlying one.
\<close>

record loggingResponseWriter =
  lw_statusCode :: int
  lw_bytesWritten :: int
  lw_hijacked :: bool

datatype write_call = CallWriteHeader int | CallWrite int | CallHijack bool

fun lw_call :: "write_call \<Rightarrow> loggingResponseWriter \<Rightarrow> loggingResponseWriter" where
  "lw_call (CallWriteHeader code) w = w\<lparr>lw_statusCode := code\<rparr>"
| "lw_call (CallWrite n) w = w\<lparr>lw_bytesWritten := lw_bytesWritten w + n\<rparr>"
| "lw_call (CallHijack ok) w = (if ok then w\<lparr>lw_hijacked := True\<rparr> else w)"

definition LoggingMiddleware :: "(url_values \<Rightarrow> string) \<Rightarrow> int \<Rightarrow> write_call list \<Rightarrow> log_request \<Rightarrow> log_entry option" where
  "LoggingMiddleware Encode latencyMs calls r =
    (if isProbePath (lr_Path r) then None
     else let lw = fold lw_call calls \<lparr>lw_statusCode = 200, lw_bytesWritten = 0, lw_hijacked = False\<rparr> in
       if lw_hijacked lw then Some (logHijacked Encode r)
       else Some (if lw_statusCode lw \<ge> 500 then LevelError else LevelInfo, ''http request'',
         appendXFFAttr (appendQueryAttr Encode [AttrString ''method'' (lr_Method r), AttrString ''path'' (lr_Path r), AttrInt ''status'' (lw_statusCode lw),
           AttrInt ''latency_ms'' latencyMs, AttrInt ''bytes_written'' (lw_bytesWritten lw), AttrInt ''content_length'' (lr_ContentLength r),
           AttrString ''remote_addr'' (lr_RemoteAddr r), AttrString ''user_agent'' (lr_UserAgent r)] (lr_Query r)) (lr_XFF r)))"

section \<open>gRPC calls\<close>

definition isServerError :: "codes \<Rightarrow> bool" where
  "isServerError c \<longleftrightarrow> c \<in> {Internal, Unknown, DataLoss, Unavailable}"

definition health_prefix :: string where "health_prefix = ''/grpc.health.v1.Health/''"

text \<open>\<open>name\<close> is \<^verbatim>\<open>code.String()\<close>, \<open>err_text\<close> the error's text; no error has the code \<^verbatim>\<open>OK\<close>.\<close>

definition UnaryLoggingInterceptor ::
  "(codes \<Rightarrow> string) \<Rightarrow> (go_error \<Rightarrow> string) \<Rightarrow> int \<Rightarrow> string \<Rightarrow> go_error option \<Rightarrow> log_entry option" where
  "UnaryLoggingInterceptor name err_text latencyMs method err =
    (if take (length health_prefix) method = health_prefix then None
     else let code = (case err of None \<Rightarrow> OK | Some e \<Rightarrow> status_code e) in
       Some (if isServerError code then LevelError else LevelInfo, ''grpc request'',
         [AttrString ''method'' method, AttrString ''code'' (name code), AttrInt ''latency_ms'' latencyMs]
         @ (case err of None \<Rightarrow> [] | Some e \<Rightarrow> [AttrString ''error'' (err_text e)])))"

section \<open>Recovery\<close>

text \<open>A handler that panics returns its panic value, printed, and the state it left.\<close>

definition RecoveryMiddleware :: "('a request \<Rightarrow> 'w \<Rightarrow> (string + 'b response) \<times> 'w) \<Rightarrow> 'a request \<Rightarrow> 'w \<Rightarrow> 'b response \<times> 'w" where
  "RecoveryMiddleware next r w = (case next r w of
      (Inl v, w') \<Rightarrow> (WriteProblem 500 ''internal server error'', w')
    | (Inr resp, w') \<Rightarrow> (resp, w'))"

definition UnaryRecoveryInterceptor :: "('s \<Rightarrow> (string + (go_error + 'a)) \<times> 's) \<Rightarrow> 's \<Rightarrow> (go_error + 'a) \<times> 's" where
  "UnaryRecoveryInterceptor handler s = (case handler s of
      (Inl v, s') \<Rightarrow> (Inl (StatusErr Internal (''internal error: '' @ v)), s')
    | (Inr r, s') \<Rightarrow> (r, s'))"

section \<open>What the logs reveal\<close>

text \<open>Two queries that differ only in the values of sensitive parameters.\<close>

definition same_public :: "url_values \<Rightarrow> url_values \<Rightarrow> bool" where
  "same_public q q' \<longleftrightarrow> list_all2 (\<lambda>(k, vs) (k', vs'). k = k' \<and> length vs = length vs' \<and> (k \<notin> set sensitiveParams \<longrightarrow> vs = vs')) q q'"

lemma sanitizeQuery_public:
  assumes "same_public q q'"
  shows "sanitizeQuery Encode q = sanitizeQuery Encode q'"
proof -
  have "map (\<lambda>(k, vals). (k, if k \<in> set sensitiveParams then map (\<lambda>_. ''***'') vals else vals)) q =
      map (\<lambda>(k, vals). (k, if k \<in> set sensitiveParams then map (\<lambda>_. ''***'') vals else vals)) q'"
    using assms unfolding same_public_def by (induction rule: list_all2_induct) (auto simp: map_replicate_const)
  then show ?thesis by (simp add: sanitizeQuery_def)
qed

text \<open>
  The log of a request does not depend on the values of its sensitive query parameters, whatever the handler
  does and however the query is encoded.
\<close>

theorem log_hides_secrets:
  assumes "same_public (lr_Query r) q'"
  shows "LoggingMiddleware Encode ms calls (r\<lparr>lr_Query := q'\<rparr>) = LoggingMiddleware Encode ms calls r"
proof -
  have "(q' = []) = (lr_Query r = [])" using assms by (cases q') (auto simp: same_public_def)
  then show ?thesis using sanitizeQuery_public [OF assms, of Encode]
    by (auto simp: LoggingMiddleware_def logHijacked_def appendQueryAttr_def Let_def)
qed

text \<open>A WebSocket ticket is not among the sensitive parameters: it is logged as it is.\<close>

lemma log_shows_ticket:
  "LoggingMiddleware (\<lambda>q. concat (map (\<lambda>(k, vs). k @ concat vs) q)) 0 [] \<lparr>lr_Method = ''GET'', lr_Path = ''/ws'', lr_Query = [(''ticket'', [t])],
     lr_XFF = '''', lr_ContentLength = 0, lr_RemoteAddr = '''', lr_UserAgent = ''''\<rparr> =
   Some (LevelInfo, ''http request'', [AttrString ''method'' ''GET'', AttrString ''path'' ''/ws'', AttrInt ''status'' 200, AttrInt ''latency_ms'' 0,
     AttrInt ''bytes_written'' 0, AttrInt ''content_length'' 0, AttrString ''remote_addr'' '''', AttrString ''user_agent'' '''', AttrString ''query'' (''ticket'' @ t)])"
  by (simp add: LoggingMiddleware_def isProbePath_def appendXFFAttr_def appendQueryAttr_def sanitizeQuery_def sensitiveParams_def)

end
