(* ===== verification/Wiring.thy ===== *)
theory Wiring
  imports Api_Gateway
begin

text \<open>
  How the programs put their parts together: the constructors of the three routers
  (\<^verbatim>\<open>NewRouter\<close> of \<^verbatim>\<open>internal/websocket\<close>, \<^verbatim>\<open>internal/wsgateway\<close> and \<^verbatim>\<open>internal/apigateway\<close>), the routes of an instance,
  and the stores, ring and watcher that \<^verbatim>\<open>cmd/websocket-service\<close> and \<^verbatim>\<open>cmd/ws-gateway\<close> give them. The
  lemmas connect what is built with the states the other theories start from.
\<close>

section \<open>A WebSocket instance\<close>

record 'w routerOptions =
  ro_shutdownTimeout :: int
  ro_redisClient :: bool
  ro_roomLeaseStore :: "'w LeaseStore option"
  ro_sequenceFloor :: "'w SequenceFloorStore option"
  ro_chatHealth :: health
  ro_userHealth :: health

definition no_options :: "'w routerOptions" where
  "no_options = \<lparr>ro_shutdownTimeout = 0, ro_redisClient = False, ro_roomLeaseStore = None, ro_sequenceFloor = None,
     ro_chatHealth = NoHealthClient, ro_userHealth = NoHealthClient\<rparr>"

type_synonym 'w RouterOption = "'w routerOptions \<Rightarrow> 'w routerOptions"

definition WithShutdownTimeout :: "int \<Rightarrow> 'w RouterOption" where
  "WithShutdownTimeout timeout opt = opt\<lparr>ro_shutdownTimeout := timeout\<rparr>"

definition WithRedisClient :: "bool \<Rightarrow> 'w RouterOption" where
  "WithRedisClient client opt = opt\<lparr>ro_redisClient := client\<rparr>"

definition WithRoomLeaseStore :: "'w LeaseStore option \<Rightarrow> 'w RouterOption" where
  "WithRoomLeaseStore store opt = opt\<lparr>ro_roomLeaseStore := store\<rparr>"

definition WithSequenceFloorStore :: "'w SequenceFloorStore option \<Rightarrow> 'w RouterOption" where
  "WithSequenceFloorStore store opt = opt\<lparr>ro_sequenceFloor := store\<rparr>"

definition WithHealthClients :: "health \<Rightarrow> health \<Rightarrow> 'w RouterOption" where
  "WithHealthClients chatHealth userHealth opt = opt\<lparr>ro_chatHealth := chatHealth, ro_userHealth := userHealth\<rparr>"

record WebSocketConfig =
  wsc_AdvertisedAddr :: string
  wsc_Manager :: ManagerConfig

text \<open>
  \<open>w\<close> and \<open>u\<close> are what lies behind the clients: the chat service with Redis, and the user service. A nil lease store
  leaves the manager without one.
\<close>

definition ws_NewRouter ::
  "'w MessageStore \<Rightarrow> 'w \<Rightarrow> 'u \<Rightarrow> WebSocketConfig \<Rightarrow> 'h \<Rightarrow> 'w RouterOption list \<Rightarrow> ('c, 'w, 'h, 'u) ws_instance" where
  "ws_NewRouter store w u cfg hashRing opts =
    (let options = fold (\<lambda>opt. opt) opts no_options;
         manager = NewManager (wsc_Manager cfg) (Some store) [ro_shutdownTimeout options];
         manager = (case ro_roomLeaseStore options of None \<Rightarrow> manager\<lparr>m_leaseStore := None\<rparr> | Some st \<Rightarrow> SetRoomLeaseStore st manager);
         manager = (case ro_sequenceFloor options of None \<Rightarrow> manager | Some st \<Rightarrow> SetSequenceFloorStore st manager)
     in \<lparr>wi_manager = manager, wi_world = w, wi_pipe = pl_pipe (NewPipeline w), wi_ring = hashRing, wi_advertisedAddr = wsc_AdvertisedAddr cfg,
         wi_user = u, wi_hasRedis = ro_redisClient options, wi_ping = None, wi_chatHealth = ro_chatHealth options, wi_userHealth = ro_userHealth options\<rparr>)"

text \<open>The routes of an instance, by the patterns they are registered under.\<close>

definition ws_registerRoutes ::
  "'c lru_api \<Rightarrow> 'h consistent_api \<Rightarrow> (pipe \<Rightarrow> string) \<Rightarrow> 'u verify_client \<Rightarrow> ws_call \<Rightarrow>
   (string \<times> (BroadcastSystemMessageRequest request \<Rightarrow> ('c, 'w, 'h, 'u) ws_instance \<Rightarrow> ws_result \<times> ('c, 'w, 'h, 'u) ws_instance)) list" where
  "ws_registerRoutes lru ring usage verify c =
    (let plain = (\<lambda>h req I. case h no_ctx req I of (r, I') \<Rightarrow> (Responded r, I'))
     in [(''GET /health'', \<lambda>req I. (Responded (WriteJSON 200 (StatusMap ''healthy'')), I)),
         (''GET /ready'', plain (ws_handleReady ring usage)),
         (''GET /ws'', serveWebSocket lru ring verify c),
         (''POST /internal/rooms/{id}/broadcast'', plain (ws_handleBroadcast c)),
         (''DELETE /internal/rooms/{id}'', plain (handleForceCloseRoom c))])"

text \<open>The router that \<^verbatim>\<open>run\<close> of the WebSocket service makes, with its ring, watcher and registration.\<close>

definition new_instance ::
  "'r redis_api \<Rightarrow> 'h consistent_api \<Rightarrow> ChatConfig \<Rightarrow> uuid_api \<Rightarrow> 'm collection \<Rightarrow> int \<Rightarrow> health \<Rightarrow> health \<Rightarrow> WebSocketConfig \<Rightarrow>
   ('r, 'm) cluster \<Rightarrow> 'u \<Rightarrow> ('c, ('r, 'm) cluster, 'h, 'u) ws_instance" where
  "new_instance api ring ccfg uuid col shutdownTimeout chatHealth userHealth cfg w u =
     ws_NewRouter (cluster_store ccfg uuid col) w u cfg (ring_New ring [])
       [WithShutdownTimeout shutdownTimeout, WithRedisClient True, WithRoomLeaseStore (Some (cluster_leases api (wsc_AdvertisedAddr cfg))),
        WithSequenceFloorStore (Some (cluster_floor api)), WithHealthClients chatHealth userHealth]"

definition new_registry :: "string \<Rightarrow> WebSocketConfig \<Rightarrow> Registry" where
  "new_registry uuid cfg = NewRegistry uuid membershipKeyPrefix (wsc_AdvertisedAddr cfg) membershipTTL membershipHeartbeat"

definition new_watcher :: "'h consistent_api \<Rightarrow> 'h Watcher" where
  "new_watcher ring = NewWatcher membershipKeyPrefix (ring_New ring [])"

section \<open>The gateways\<close>

record RateLimitConfig =
  rl_RPS :: rat
  rl_Burst :: int

text \<open>The fields of the gateways' configurations that their routers read; the ticket's time to live in Redis' milliseconds.\<close>

record wsg_Config =
  gcf_JWTSecret :: string
  gcf_InternalSecret :: string
  gcf_TicketTTL :: int
  gcf_Public :: RateLimitConfig
  gcf_WSEstablish :: RateLimitConfig

definition limiter_rate :: "RateLimitConfig \<Rightarrow> int" where
  "limiter_rate c = \<lceil>rl_RPS c\<rceil>"

definition gw_NewRouter :: "wsg_Config \<Rightarrow> 'h Watcher \<Rightarrow> 'r \<Rightarrow> 'u \<Rightarrow> ws_gateway_cfg \<times> ('r, 'h, 'u) ws_gateway" where
  "gw_NewRouter cfg watcher s up =
    (\<lparr>gc_jwtSecret = gcf_JWTSecret cfg, gc_internalSecret = gcf_InternalSecret cfg, gc_TicketTTL = gcf_TicketTTL cfg,
       gc_PublicRPS = limiter_rate (gcf_Public cfg), gc_PublicBurst = rl_Burst (gcf_Public cfg),
       gc_WSRPS = limiter_rate (gcf_WSEstablish cfg), gc_WSBurst = rl_Burst (gcf_WSEstablish cfg)\<rparr>,
     \<lparr>gw_redis = s, gw_watcher = watcher, gw_hasRedis = True, gw_isObserver = True, gw_ping = None, gw_net = Reply, gw_proxies = [], gw_up = up\<rparr>)"

record api_Config =
  acf_Env :: string
  acf_JWTSecret :: string
  acf_InternalSecret :: string
  acf_WSGatewayHost :: string
  acf_WSGatewayPort :: string
  acf_UserHost :: string
  acf_UserGRPC :: string
  acf_ChatHost :: string
  acf_ChatGRPC :: string
  acf_RefreshTokenExpirationDays :: int
  acf_DefaultLimit :: int
  acf_MaxLimit :: int
  acf_Public :: RateLimitConfig
  acf_Authenticated :: RateLimitConfig

definition UserAddr :: "api_Config \<Rightarrow> string" where
  "UserAddr c = ''dns:///'' @ acf_UserHost c @ '':'' @ acf_UserGRPC c"

definition ChatAddr :: "api_Config \<Rightarrow> string" where
  "ChatAddr c = ''dns:///'' @ acf_ChatHost c @ '':'' @ acf_ChatGRPC c"

text \<open>The options are the health clients, none of which is set by default.\<close>

definition api_WithHealthClients :: "health \<Rightarrow> health \<Rightarrow> health \<times> health \<Rightarrow> health \<times> health" where
  "api_WithHealthClients userHealth chatHealth opt = (userHealth, chatHealth)"

definition api_NewRouter :: "api_Config \<Rightarrow> 'w \<Rightarrow> bool \<Rightarrow> (health \<times> health \<Rightarrow> health \<times> health) list \<Rightarrow> api_cfg \<times> 'w api_gateway" where
  "api_NewRouter cfg back redisClient opts =
    (let (userHealth, chatHealth) = fold (\<lambda>opt. opt) opts (NoHealthClient, NoHealthClient)
     in (\<lparr>ac_Env = acf_Env cfg, ac_jwtSecret = acf_JWTSecret cfg, ac_InternalSecret = acf_InternalSecret cfg,
           ac_WSHost = acf_WSGatewayHost cfg, ac_WSPort = acf_WSGatewayPort cfg,
           ac_RefreshTokenExpirationDays = acf_RefreshTokenExpirationDays cfg, ac_DefaultLimit = acf_DefaultLimit cfg, ac_MaxLimit = acf_MaxLimit cfg,
           ac_PublicRPS = limiter_rate (acf_Public cfg), ac_PublicBurst = rl_Burst (acf_Public cfg),
           ac_AuthRPS = limiter_rate (acf_Authenticated cfg), ac_AuthBurst = rl_Burst (acf_Authenticated cfg)\<rparr>,
         \<lparr>ag_back = back, ag_jobs = [], ag_hasRedis = redisClient, ag_ping = None, ag_userHealth = userHealth, ag_chatHealth = chatHealth\<rparr>))"

section \<open>What is built is a proper start\<close>

text \<open>
  A new instance is in an initial state of the cluster, so every guarantee about reachable managers holds for
  what it becomes.
\<close>

lemma new_instance_manager:
  "wi_manager (new_instance api ring ccfg uuid col t ch uh cfg w u) = SetRoomLeaseStore (cluster_leases api (wsc_AdvertisedAddr cfg))
     (SetSequenceFloorStore (cluster_floor api) (NewManager (wsc_Manager cfg) (Some (cluster_store ccfg uuid col)) [t]))"
  "wi_world (new_instance api ring ccfg uuid col t ch uh cfg w u) = w" "wi_ring (new_instance api ring ccfg uuid col t ch uh cfg w u) = ring_New ring []"
  "wi_advertisedAddr (new_instance api ring ccfg uuid col t ch uh cfg w u) = wsc_AdvertisedAddr cfg"
  by (simp_all add: new_instance_def ws_NewRouter_def Let_def WithShutdownTimeout_def WithRedisClient_def WithRoomLeaseStore_def
      WithSequenceFloorStore_def WithHealthClients_def no_options_def SetRoomLeaseStore_def SetSequenceFloorStore_def)

lemma new_instance_reachable:
  assumes "cluster_wf view docs w"
  shows "cluster_reach lru api view col docs ccfg uuid (wsc_AdvertisedAddr cfg)
    (wi_manager (new_instance api ring ccfg uuid col t ch uh cfg w u), wi_world (new_instance api ring ccfg uuid col t ch uh cfg w u))"
  unfolding new_instance_manager cluster_reach_def by (rule mgr_reach.mr_init) (rule assms)

lemma new_slots_ok: "slots_ok (wi_pipe (new_instance api ring ccfg uuid col t ch uh cfg w u))"
  by (simp add: new_instance_def ws_NewRouter_def Let_def NewPipeline_def slots_ok_def)

lemma limiter_rate_pos: "0 < rl_RPS c \<Longrightarrow> 1 \<le> limiter_rate c"
  by (simp add: limiter_rate_def one_le_ceiling)

context consistent
begin

lemma empty_ring_not_ready:
  "members (wi_ring I) = {} \<Longrightarrow> ''hash ring empty'' \<in> set (ws_readinessFailures api usage I)"
  "members (wt_ring (gw_watcher g)) = {} \<Longrightarrow> gl_ring L = api \<Longrightarrow> ''hash ring empty'' \<in> set (gw_readinessFailures L g)"
  by (auto simp: ws_readinessFailures_def gw_readinessFailures_def Len_Contains)

lemma empty_ring_refuses:
  assumes "members (wi_ring I) = {}" "wi_advertisedAddr I \<noteq> ''''"
  shows "\<exists>r. fst (serveWebSocket lru api verify c req I) = Responded r \<and> 400 \<le> rs_Status r"
    "wi_manager (snd (serveWebSocket lru api verify c req I)) = wi_manager I"
  using assms by (auto simp: serveWebSocket_def Let_def Locate_empty split: prod.splits sum.splits)

lemma empty_ring_forwards_nothing:
  assumes "members (wt_ring (gw_watcher g)) = {}" "gl_ring L = api"
  shows "gw_up (snd (proxyWebSocket L cx rq g)) = gw_up g" "400 \<le> rs_Status (fst (proxyWebSocket L cx rq g))"
  using assms by (auto simp: proxyWebSocket_def Let_def Locate_empty split: prod.splits sum.splits option.splits)

end

text \<open>Nothing is served before the members are known: an instance as its program builds it is not ready and refuses every WebSocket
  request, with its manager untouched, and a WebSocket gateway as its program builds it is not ready and
  forwards none, until their watchers have put a member into their rings.\<close>

theorem nothing_before_membership:
  assumes "consistent ring" and "wsc_AdvertisedAddr cfg \<noteq> ''''" and "gl_ring L = ring"
    and "I = new_instance api ring ccfg uuid col t ch uh cfg w u" and "gw_NewRouter gcf (new_watcher ring) s up = (gcfg, g)"
  shows "rs_Status (fst (ws_handleReady ring usage cx req I)) = 503 \<and>
    (\<exists>r. fst (serveWebSocket lru ring verify c req I) = Responded r \<and> 400 \<le> rs_Status r) \<and>
    wi_manager (snd (serveWebSocket lru ring verify c req I)) = wi_manager I \<and>
    rs_Status (fst (gw_handleReady L cx rq g)) = 503 \<and>
    400 \<le> rs_Status (fst (proxyWebSocket L cx rq g)) \<and>
    gw_up (snd (proxyWebSocket L cx rq g)) = up"
proof (intro conjI)
  have i: "set (c_GetMembers ring (wi_ring I)) = {}" "wi_advertisedAddr I \<noteq> ''''"
    using consistent.New_members [OF assms(1), of "[]"] assms(2,4) by (simp_all add: new_instance_manager)
  have g: "set (c_GetMembers ring (wt_ring (gw_watcher g))) = {}" "gw_up g = up"
    using consistent.New_members [OF assms(1), of "[]"] assms(5) by (auto simp: gw_NewRouter_def new_watcher_def NewWatcher_def)
  show "rs_Status (fst (ws_handleReady ring usage cx req I)) = 503"
    using consistent.empty_ring_not_ready(1) [OF assms(1) i(1), of usage] by (auto simp: ws_handleReady_def Let_def)
  show "rs_Status (fst (gw_handleReady L cx rq g)) = 503"
    using consistent.empty_ring_not_ready(2) [OF assms(1) g(1) assms(3)] by (auto simp: gw_handleReady_def Let_def)
  show "\<exists>r. fst (serveWebSocket lru ring verify c req I) = Responded r \<and> 400 \<le> rs_Status r"
    and "wi_manager (snd (serveWebSocket lru ring verify c req I)) = wi_manager I"
    by (rule consistent.empty_ring_refuses [OF assms(1) i])+
  show "400 \<le> rs_Status (fst (proxyWebSocket L cx rq g))" and "gw_up (snd (proxyWebSocket L cx rq g)) = up"
    using consistent.empty_ring_forwards_nothing [OF assms(1) g(1) assms(3)] g(2) by simp_all
qed

definition nx_cfg :: WebSocketConfig where
  "nx_cfg = \<lparr>wsc_AdvertisedAddr = ''a1'', wsc_Manager = \<lparr>mc_IdleTimeout = 1, mc_WriteWait = 1, mc_PongWait = 1, mc_PingPeriod = 1, mc_MaxLength = 100\<rparr>\<rparr>"

definition nx_inst :: rx_instance where
  "nx_inst = new_instance mem_api list_ring ex_chat ex_uuid mem_col 0 (HealthStatus ''SERVING'') (HealthStatus ''SERVING'') nx_cfg cx_w0 ex_w2"

definition nx_rates :: RateLimitConfig where "nx_rates = \<lparr>rl_RPS = 1 / 2, rl_Burst = 1\<rparr>"

definition nx_gw :: "ws_gateway_cfg \<times> (mem_redis, string list, (string \<times> string) list) ws_gateway" where
  "nx_gw = gw_NewRouter \<lparr>gcf_JWTSecret = ''s'', gcf_InternalSecret = ''i'', gcf_TicketTTL = 30000, gcf_Public = nx_rates, gcf_WSEstablish = nx_rates\<rparr>
     (new_watcher list_ring) \<lparr>mem_clock = 0, mem_keys = [''ws:ticket:t'' \<mapsto> (RStr ''u1'', None)]\<rparr> []"

theorem nothing_before_membership_witness:
  "rs_Status (fst (ws_handleReady list_ring (\<lambda>_. '''') no_ctx gx_rq nx_inst)) = 503 \<and>
   (\<exists>r. fst (serveWebSocket list_lru list_ring rx_verify rx_call gx_rq nx_inst) = Responded r \<and> 400 \<le> rs_Status r) \<and>
   gw_up (snd (proxyWebSocket gx_lib no_ctx gx_rq (snd nx_gw))) = []"
proof -
  obtain gcfg g where g: "nx_gw = (gcfg, g)" by force
  note * = nothing_before_membership [OF lr.consistent_axioms _ _ nx_inst_def g [unfolded nx_gw_def]]
  have c: "wsc_AdvertisedAddr nx_cfg \<noteq> ''''" "gl_ring gx_lib = list_ring" by (simp_all add: nx_cfg_def gx_lib_def)
  show ?thesis unfolding g snd_conv using * [OF c] by blast
qed

end
