(* ===== verification/Lifecycle.thy ===== *)
theory Lifecycle
  imports Wiring Api_Guarantees "HOL-Library.Sublist"
begin

text \<open>
  The life of a program from its start to its end (\<^verbatim>\<open>cmd/user-service\<close>, \<^verbatim>\<open>cmd/chat-service\<close>, \<^verbatim>\<open>cmd/api-gateway\<close>): the goroutines
  that report the health of the database and that stop the server interleave in step relations. The gRPC
  health server is a parameter with the two laws of a map.
\<close>

section \<open>Health of the gRPC services\<close>

datatype serving = SERVING | NOT_SERVING

fun serving_name :: "serving \<Rightarrow> string" where
  "serving_name SERVING = ''SERVING''"
| "serving_name NOT_SERVING = ''NOT_SERVING''"

record 's health_server =
  hv_Set :: "string \<Rightarrow> serving \<Rightarrow> 's \<Rightarrow> 's"
  hv_Check :: "string \<Rightarrow> 's \<Rightarrow> health"

locale grpc_health =
  fixes hv :: "'s health_server"
  assumes set_same: "hv_Check hv n (hv_Set hv n st s) = HealthStatus (serving_name st)"
    and set_other: "m \<noteq> n \<Longrightarrow> hv_Check hv m (hv_Set hv n st s) = hv_Check hv m s"

definition userServiceName :: string where "userServiceName = ''user.v1.UserService''"
definition chatServiceName :: string where "chatServiceName = ''chat.v1.ChatService''"

text \<open>\<^verbatim>\<open>setUserServingStatus\<close> and \<^verbatim>\<open>setChatServingStatus\<close>: the server as a whole, then the service.\<close>

definition setServingStatus :: "'s health_server \<Rightarrow> string \<Rightarrow> serving \<Rightarrow> 's \<Rightarrow> 's" where
  "setServingStatus hv name st s = hv_Set hv name st (hv_Set hv '''' st s)"

text \<open>
  Where the reporting goroutine stands (\<^verbatim>\<open>reportPostgresHealth\<close>, \<^verbatim>\<open>reportMongoHealth\<close>: waiting, pinging, about to make the first
  or second of its two calls with a status, the same with its last status, returned) and where the
  goroutine of \<^verbatim>\<open>runServer\<close> that stops the server.
\<close>

datatype reporter = RWait | RPing | RSet1 serving | RSet2 serving | RLast1 | RLast2 | RReturned
datatype stopper = SWait | SSet1 | SSet2 | SStop | SReturned

text \<open>
  \<open>hy_ctx\<close>: the signal came; \<open>hy_egCtx\<close>: the error group's own context was cancelled because \<^verbatim>\<open>Serve\<close> failed. \<open>hy_ping\<close> is the
  outcome of the last ping that was written to the end.
\<close>

record 's health_sys =
  hy_srv :: 's
  hy_ctx :: bool
  hy_egCtx :: bool
  hy_reporter :: reporter
  hy_stopper :: stopper
  hy_serve :: "go_error option option"
  hy_ping :: "serving option"

definition health_start :: "'s health_server \<Rightarrow> string \<Rightarrow> 's \<Rightarrow> 's health_sys" where
  "health_start hv name s = \<lparr>hy_srv = setServingStatus hv name SERVING s, hy_ctx = False, hy_egCtx = False, hy_reporter = RPing,
     hy_stopper = SWait, hy_serve = None, hy_ping = None\<rparr>"

definition ping_status :: "go_error option \<Rightarrow> serving" where
  "ping_status err = (case err of None \<Rightarrow> SERVING | Some _ \<Rightarrow> NOT_SERVING)"

inductive report_step :: "'s health_server \<Rightarrow> string \<Rightarrow> 's health_sys \<Rightarrow> 's health_sys \<Rightarrow> bool" for hv name where
  tick: "hy_reporter H = RWait \<Longrightarrow> report_step hv name H (H\<lparr>hy_reporter := RPing\<rparr>)"
| ping: "hy_reporter H = RPing \<Longrightarrow> report_step hv name H (H\<lparr>hy_reporter := RSet1 (ping_status err)\<rparr>)"
| set1: "hy_reporter H = RSet1 st \<Longrightarrow> report_step hv name H (H\<lparr>hy_srv := hv_Set hv '''' st (hy_srv H), hy_reporter := RSet2 st\<rparr>)"
| set2: "hy_reporter H = RSet2 st \<Longrightarrow>
    report_step hv name H (H\<lparr>hy_srv := hv_Set hv name st (hy_srv H), hy_reporter := RWait, hy_ping := Some st\<rparr>)"
| ended: "hy_reporter H = RWait \<Longrightarrow> hy_ctx H \<Longrightarrow> report_step hv name H (H\<lparr>hy_reporter := RLast1\<rparr>)"
| last1: "hy_reporter H = RLast1 \<Longrightarrow> report_step hv name H (H\<lparr>hy_srv := hv_Set hv '''' NOT_SERVING (hy_srv H), hy_reporter := RLast2\<rparr>)"
| last2: "hy_reporter H = RLast2 \<Longrightarrow> report_step hv name H (H\<lparr>hy_srv := hv_Set hv name NOT_SERVING (hy_srv H), hy_reporter := RReturned\<rparr>)"

inductive serve_step :: "'s health_server \<Rightarrow> string \<Rightarrow> 's health_sys \<Rightarrow> 's health_sys \<Rightarrow> bool" for hv name where
  serve_error: "hy_serve H = None \<Longrightarrow> serve_step hv name H (H\<lparr>hy_serve := Some (Some err), hy_egCtx := True\<rparr>)"
| stop: "hy_stopper H = SWait \<Longrightarrow> hy_ctx H \<or> hy_egCtx H \<Longrightarrow> serve_step hv name H (H\<lparr>hy_stopper := SSet1\<rparr>)"
| stop1: "hy_stopper H = SSet1 \<Longrightarrow> serve_step hv name H (H\<lparr>hy_srv := hv_Set hv '''' NOT_SERVING (hy_srv H), hy_stopper := SSet2\<rparr>)"
| stop2: "hy_stopper H = SSet2 \<Longrightarrow> serve_step hv name H (H\<lparr>hy_srv := hv_Set hv name NOT_SERVING (hy_srv H), hy_stopper := SStop\<rparr>)"
| stopped: "hy_stopper H = SStop \<Longrightarrow>
    serve_step hv name H (H\<lparr>hy_stopper := SReturned, hy_serve := (case hy_serve H of None \<Rightarrow> Some None | r \<Rightarrow> r)\<rparr>)"

inductive health_step :: "'s health_server \<Rightarrow> string \<Rightarrow> 's health_sys \<Rightarrow> 's health_sys \<Rightarrow> bool" for hv name where
  reports: "report_step hv name H H' \<Longrightarrow> health_step hv name H H'"
| serves: "serve_step hv name H H' \<Longrightarrow> health_step hv name H H'"
| signal: "health_step hv name H (H\<lparr>hy_ctx := True\<rparr>)"

inductive_cases report_stepE: "report_step hv name H H'"
inductive_cases serve_stepE: "serve_step hv name H H'"
inductive_cases health_stepE: "health_step hv name H H'"

definition health_reach :: "'s health_server \<Rightarrow> string \<Rightarrow> 's health_sys \<Rightarrow> bool" where
  "health_reach hv name H \<longleftrightarrow> (\<exists>s. (health_step hv name)\<^sup>*\<^sup>* (health_start hv name s) H)"

context grpc_health
begin

text \<open>What both checks answer.\<close>

definition answers :: "string \<Rightarrow> serving \<Rightarrow> 's health_sys \<Rightarrow> bool" where
  "answers m st H \<longleftrightarrow> hv_Check hv m (hy_srv H) = HealthStatus (serving_name st)"

definition health_inv :: "string \<Rightarrow> 's health_sys \<Rightarrow> bool" where
  "health_inv name H \<longleftrightarrow>
     (hy_reporter H = RLast2 \<longrightarrow> answers '''' NOT_SERVING H) \<and>
     (hy_reporter H = RReturned \<longrightarrow> answers '''' NOT_SERVING H \<and> answers name NOT_SERVING H) \<and>
     (hy_stopper H \<noteq> SWait \<longrightarrow> hy_ctx H \<or> hy_egCtx H) \<and>
     (hy_stopper H = SWait \<longrightarrow> (\<forall>st. hy_reporter H = RSet2 st \<longrightarrow> answers '''' st H) \<and>
       (\<forall>st. hy_ping H = Some st \<and> hy_reporter H \<in> {RWait, RPing} \<longrightarrow> answers '''' st H \<and> answers name st H))"

lemma health_inv_step:
  assumes "health_step hv name H H'" "health_inv name H" "name \<noteq> ''''"
  shows "health_inv name H'"
  using assms(1)
proof (cases rule: health_step.cases)
  case reports
  then show ?thesis using assms(2,3) by (cases rule: report_step.cases) (auto simp: health_inv_def answers_def set_same set_other)
next
  case serves
  then show ?thesis using assms(2,3) by (cases rule: serve_step.cases) (auto simp: health_inv_def answers_def set_same set_other)
qed (use assms(2) in \<open>auto simp: health_inv_def answers_def\<close>)

lemma health_reach_inv:
  assumes "health_reach hv name H" "name \<noteq> ''''"
  shows "health_inv name H"
proof -
  obtain s where "(health_step hv name)\<^sup>*\<^sup>* (health_start hv name s) H" using assms(1) by (auto simp: health_reach_def)
  moreover have "health_inv name (health_start hv name s)" by (simp add: health_start_def health_inv_def)
  ultimately show ?thesis by (induction rule: rtranclp_induct) (blast intro: health_inv_step [OF _ _ assms(2)])+
qed

end

section \<open>A health server\<close>

definition map_health :: "(string \<Rightarrow> serving option) health_server" where
  "map_health = \<lparr>hv_Set = (\<lambda>n st s. s(n \<mapsto> st)),
     hv_Check = (\<lambda>n s. case s n of None \<Rightarrow> HealthError ''unknown service'' | Some st \<Rightarrow> HealthStatus (serving_name st))\<rparr>"

interpretation mh: grpc_health map_health
  by unfold_locales (simp_all add: map_health_def)

text \<open>The readiness checks of the gateways follow the database and the end of the service: while no shutdown has begun, whenever
  the reporter has written the outcome of a ping and waits or pings again, both names are healthy for the
  gateways exactly if that ping succeeded; and once the reporter has returned after the signal, both names are
  not serving, whatever the goroutine that stops the server does and in whatever order the two run.\<close>

theorem health_follows_pings:
  assumes "grpc_health hv" and "health_reach hv name H" and "name \<noteq> ''''" and "m \<in> {'''', name}"
  shows "(hy_stopper H = SWait \<and> hy_ping H = Some st \<and> hy_reporter H \<in> {RWait, RPing} \<longrightarrow>
      (checkGRPCHealth (hv_Check hv m (hy_srv H)) = None \<longleftrightarrow> st = SERVING) \<and> (api_checkGRPCHealth (hv_Check hv m (hy_srv H)) = None \<longleftrightarrow> st = SERVING)) \<and>
    (hy_reporter H = RReturned \<and> (health_step hv name)\<^sup>*\<^sup>* H H' \<longrightarrow>
      checkGRPCHealth (hv_Check hv m (hy_srv H')) = Some ''status NOT_SERVING'' \<and> api_checkGRPCHealth (hv_Check hv m (hy_srv H')) = Some ''status NOT_SERVING'')"
proof (rule conjI; rule impI; elim conjE)
  note inv = grpc_health.health_reach_inv [OF assms(1) _ assms(3), unfolded grpc_health.health_inv_def [OF assms(1)] grpc_health.answers_def [OF assms(1)]]
  show "(checkGRPCHealth (hv_Check hv m (hy_srv H)) = None \<longleftrightarrow> st = SERVING) \<and> (api_checkGRPCHealth (hv_Check hv m (hy_srv H)) = None \<longleftrightarrow> st = SERVING)"
    if "hy_stopper H = SWait" "hy_ping H = Some st" "hy_reporter H \<in> {RWait, RPing}"
    using inv [OF assms(2)] that assms(4) by (cases st) (auto simp: checkGRPCHealth_def api_checkGRPCHealth_def)
  assume ret: "hy_reporter H = RReturned" and run: "(health_step hv name)\<^sup>*\<^sup>* H H'"
  have "hy_reporter H' = RReturned"
    using run ret by (induction rule: rtranclp_induct) (auto elim!: health_stepE report_stepE serve_stepE)
  moreover have "health_reach hv name H'" using assms(2) run unfolding health_reach_def by (meson rtranclp_trans)
  ultimately show "checkGRPCHealth (hv_Check hv m (hy_srv H')) = Some ''status NOT_SERVING'' \<and> api_checkGRPCHealth (hv_Check hv m (hy_srv H')) = Some ''status NOT_SERVING''"
    using inv assms(4) by (auto simp: checkGRPCHealth_def api_checkGRPCHealth_def)
qed

text \<open>A user service that pings its database once with success, gets the signal and ends.\<close>

definition hz_state :: "(string \<Rightarrow> serving option) \<Rightarrow> bool \<Rightarrow> reporter \<Rightarrow> serving option \<Rightarrow> (string \<Rightarrow> serving option) health_sys" where
  "hz_state s c r p = \<lparr>hy_srv = s, hy_ctx = c, hy_egCtx = False, hy_reporter = r, hy_stopper = SWait, hy_serve = None, hy_ping = p\<rparr>"

definition hz_up :: "string \<Rightarrow> serving option" where "hz_up = ['''' \<mapsto> SERVING, userServiceName \<mapsto> SERVING]"
definition hz_down :: "string \<Rightarrow> serving option" where "hz_down = ['''' \<mapsto> NOT_SERVING, userServiceName \<mapsto> NOT_SERVING]"

lemma hz_pinged: "(health_step map_health userServiceName)\<^sup>*\<^sup>* (health_start map_health userServiceName Map.empty) (hz_state hz_up False RWait (Some SERVING))"
proof -
  let ?step = "health_step map_health userServiceName"
  note more = converse_rtranclp_into_rtranclp [where r = ?step]
  have 1: "?step (health_start map_health userServiceName Map.empty) (hz_state hz_up False (RSet1 SERVING) None)"
    using health_step.reports [OF report_step.ping [of "health_start map_health userServiceName Map.empty" map_health userServiceName None]]
    by (simp add: health_start_def hz_state_def hz_up_def setServingStatus_def map_health_def ping_status_def)
  have 2: "?step (hz_state hz_up False (RSet1 SERVING) None) (hz_state hz_up False (RSet2 SERVING) None)"
    using health_step.reports [OF report_step.set1 [of "hz_state hz_up False (RSet1 SERVING) None" SERVING map_health userServiceName]]
    by (simp add: hz_state_def map_health_def hz_up_def userServiceName_def fun_upd_twist)
  have 3: "?step (hz_state hz_up False (RSet2 SERVING) None) (hz_state hz_up False RWait (Some SERVING))"
    using health_step.reports [OF report_step.set2 [of "hz_state hz_up False (RSet2 SERVING) None" SERVING map_health userServiceName]]
    by (simp add: hz_state_def map_health_def hz_up_def userServiceName_def fun_upd_twist)
  show ?thesis by (rule more [OF 1 more [OF 2 more [OF 3 rtranclp.rtrancl_refl]]])
qed

lemma hz_ended: "(health_step map_health userServiceName)\<^sup>*\<^sup>* (hz_state hz_up False RWait (Some SERVING)) (hz_state hz_down True RReturned (Some SERVING))"
proof -
  let ?step = "health_step map_health userServiceName"
  note more = converse_rtranclp_into_rtranclp [where r = ?step]
  have 1: "?step (hz_state hz_up False RWait p) (hz_state hz_up True RWait p)" for p
    using health_step.signal [of map_health userServiceName "hz_state hz_up False RWait p"] by (simp add: hz_state_def)
  have 2: "?step (hz_state s True RWait p) (hz_state s True RLast1 p)" for s p
    using health_step.reports [OF report_step.ended [of "hz_state s True RWait p" map_health userServiceName]] by (simp add: hz_state_def)
  have 3: "?step (hz_state s True RLast1 p) (hz_state (s('''' \<mapsto> NOT_SERVING)) True RLast2 p)" for s p
    using health_step.reports [OF report_step.last1 [of "hz_state s True RLast1 p" map_health userServiceName]] by (simp add: hz_state_def map_health_def)
  have 4: "?step (hz_state s True RLast2 p) (hz_state (s(userServiceName \<mapsto> NOT_SERVING)) True RReturned p)" for s p
    using health_step.reports [OF report_step.last2 [of "hz_state s True RLast2 p" map_health userServiceName]] by (simp add: hz_state_def map_health_def)
  have 5: "hz_up('''' \<mapsto> NOT_SERVING, userServiceName \<mapsto> NOT_SERVING) = hz_down"
    by (auto simp: hz_up_def hz_down_def userServiceName_def)
  show ?thesis unfolding 5 [symmetric]
    by (rule more [OF 1 more [OF 2 more [OF 3 more [OF 4 rtranclp.rtrancl_refl]]]])
qed

theorem health_follows_pings_witness:
  "checkGRPCHealth (hv_Check map_health userServiceName hz_up) = None \<and> checkGRPCHealth (hv_Check map_health userServiceName hz_down) = Some ''status NOT_SERVING''"
proof -
  have r1: "health_reach map_health userServiceName (hz_state hz_up False RWait (Some SERVING))" using hz_pinged by (auto simp: health_reach_def)
  have r2: "health_reach map_health userServiceName (hz_state hz_down True RReturned (Some SERVING))"
    using rtranclp_trans [OF hz_pinged hz_ended] by (auto simp: health_reach_def)
  have n: "userServiceName \<noteq> ''''" "userServiceName \<in> {'''', userServiceName}" by (simp_all add: userServiceName_def)
  show ?thesis
    using health_follows_pings [OF mh.grpc_health_axioms r1 n, of SERVING] health_follows_pings [OF mh.grpc_health_axioms r2 n, of SERVING "hz_state hz_down True RReturned (Some SERVING)"]
    by (simp add: hz_state_def)
qed

text \<open>
  The status can come back for a moment: a ping that was under way when the signal came is written after the
  stopping goroutine has set both names to not serving.
\<close>

lemma status_can_flap:
  "\<exists>H. health_reach map_health userServiceName H \<and> hy_stopper H = SStop \<and> checkGRPCHealth (hv_Check map_health userServiceName (hy_srv H)) = None"
proof -
  let ?step = "health_step map_health userServiceName"
  note more = converse_rtranclp_into_rtranclp [where r = ?step]
  define H where "H = (\<lambda>s r st p. \<lparr>hy_srv = s, hy_ctx = True, hy_egCtx = False, hy_reporter = r, hy_stopper = st, hy_serve = None, hy_ping = p\<rparr> ::
    (string \<Rightarrow> serving option) health_sys)"
  have 0: "?step (health_start map_health userServiceName Map.empty) (H hz_up RPing SWait None)"
    using health_step.signal [of map_health userServiceName "health_start map_health userServiceName Map.empty"]
    by (simp add: H_def health_start_def setServingStatus_def map_health_def hz_up_def)
  have 1: "?step (H s RPing SWait p) (H s (RSet1 SERVING) SWait p)" for s p
    using health_step.reports [OF report_step.ping [of "H s RPing SWait p" map_health userServiceName None]] by (simp add: H_def ping_status_def)
  have 2: "?step (H s r SWait p) (H s r SSet1 p)" for s r p
    using health_step.serves [OF serve_step.stop [of "H s r SWait p" map_health userServiceName]] by (simp add: H_def)
  have 3: "?step (H s r SSet1 p) (H (s('''' \<mapsto> NOT_SERVING)) r SSet2 p)" for s r p
    using health_step.serves [OF serve_step.stop1 [of "H s r SSet1 p" map_health userServiceName]] by (simp add: H_def map_health_def)
  have 4: "?step (H s r SSet2 p) (H (s(userServiceName \<mapsto> NOT_SERVING)) r SStop p)" for s r p
    using health_step.serves [OF serve_step.stop2 [of "H s r SSet2 p" map_health userServiceName]] by (simp add: H_def map_health_def)
  have 5: "?step (H s (RSet1 st) SStop p) (H (s('''' \<mapsto> st)) (RSet2 st) SStop p)" for s st p
    using health_step.reports [OF report_step.set1 [of "H s (RSet1 st) SStop p" st map_health userServiceName]] by (simp add: H_def map_health_def)
  have 6: "?step (H s (RSet2 st) SStop p) (H (s(userServiceName \<mapsto> st)) RWait SStop (Some st))" for s st p
    using health_step.reports [OF report_step.set2 [of "H s (RSet2 st) SStop p" st map_health userServiceName]] by (simp add: H_def map_health_def)
  note run = more [OF 0 more [OF 1 more [OF 2 more [OF 3 more [OF 4 more [OF 5 more [OF 6 rtranclp.rtrancl_refl]]]]]]]
  show ?thesis by (rule exI, intro conjI, unfold health_reach_def, rule exI, rule run) (simp_all add: H_def checkGRPCHealth_def map_health_def)
qed

section \<open>The end of the API gateway\<close>

text \<open>
  \<^verbatim>\<open>runServer\<close> of the API gateway: requests are accepted while the server listens and are answered at some later time; the
  goroutines they started run at any time; the stopping goroutine shuts the server down, waits for the
  goroutines and returns the error of the shutdown. \<open>pr_started\<close> and \<open>pr_ran\<close> record the goroutines that were
  started and that have finished.
\<close>

datatype stop_phase = PWait | PShutdown | PJobs "go_error option" | PReturned "go_error option"

record ('a, 'w) api_prog =
  pr_gw :: "'w api_gateway"
  pr_open :: "(string \<times> 'a request) list"
  pr_listen :: bool
  pr_egCtx :: bool
  pr_phase :: stop_phase
  pr_serve :: "go_error option option"
  pr_started :: "api_job list"
  pr_ran :: "api_job list"

definition api_start :: "'w api_gateway \<Rightarrow> ('a, 'w) api_prog" where
  "api_start g = \<lparr>pr_gw = g, pr_open = [], pr_listen = True, pr_egCtx = False, pr_phase = PWait, pr_serve = None, pr_started = [], pr_ran = []\<rparr>"

inductive prog_step :: "('w, 'a) api_lib \<Rightarrow> api_cfg \<Rightarrow> ('a, 'w) api_prog \<Rightarrow> ('a, 'w) api_prog \<Rightarrow> bool" for L cfg where
  accept: "pr_listen P \<Longrightarrow> prog_step L cfg P (P\<lparr>pr_open := pr_open P @ [(p, rq)]\<rparr>)"
| answer: "i < length (pr_open P) \<Longrightarrow> pr_open P ! i = (p, rq) \<Longrightarrow> map_of (api_registerRoutes L cfg) p = Some h \<Longrightarrow> h no_ctx rq (pr_gw P) = (r, g) \<Longrightarrow>
    prog_step L cfg P (P\<lparr>pr_open := take i (pr_open P) @ drop (Suc i) (pr_open P), pr_gw := g,
      pr_started := pr_started P @ drop (length (ag_jobs (pr_gw P))) (ag_jobs g)\<rparr>)"
| no_route: "i < length (pr_open P) \<Longrightarrow> pr_open P ! i = (p, rq) \<Longrightarrow> map_of (api_registerRoutes L cfg) p = None \<Longrightarrow>
    prog_step L cfg P (P\<lparr>pr_open := take i (pr_open P) @ drop (Suc i) (pr_open P)\<rparr>)"
| goroutine: "i < length (ag_jobs (pr_gw P)) \<Longrightarrow>
    prog_step L cfg P (P\<lparr>pr_gw := run_goroutine L cfg i (pr_gw P), pr_ran := pr_ran P @ [ag_jobs (pr_gw P) ! i]\<rparr>)"
| interrupt: "prog_step L cfg P (P\<lparr>pr_egCtx := True\<rparr>)"
| listen_error: "pr_serve P = None \<Longrightarrow> prog_step L cfg P (P\<lparr>pr_serve := Some (Some err), pr_listen := False, pr_egCtx := True\<rparr>)"
| shut: "pr_phase P = PWait \<Longrightarrow> pr_egCtx P \<Longrightarrow>
    prog_step L cfg P (P\<lparr>pr_phase := PShutdown, pr_listen := False, pr_serve := (case pr_serve P of None \<Rightarrow> Some None | r \<Rightarrow> r)\<rparr>)"
| shut_done: "pr_phase P = PShutdown \<Longrightarrow> pr_open P = [] \<Longrightarrow> prog_step L cfg P (P\<lparr>pr_phase := PJobs None\<rparr>)"
| shut_timeout: "pr_phase P = PShutdown \<Longrightarrow> prog_step L cfg P (P\<lparr>pr_phase := PJobs (Some CtxErr)\<rparr>)"
| waited: "pr_phase P = PJobs err \<Longrightarrow> api_Wait (pr_gw P) \<Longrightarrow> prog_step L cfg P (P\<lparr>pr_phase := PReturned err\<rparr>)"

definition prog_reach :: "('w, 'a) api_lib \<Rightarrow> api_cfg \<Rightarrow> ('a, 'w) api_prog \<Rightarrow> bool" where
  "prog_reach L cfg P \<longleftrightarrow> (\<exists>g. ag_jobs g = [] \<and> (prog_step L cfg)\<^sup>*\<^sup>* (api_start g) P)"

text \<open>Handlers only add goroutines.\<close>

abbreviation adds_jobs :: "'w api_gateway \<Rightarrow> api_json response \<times> 'w api_gateway \<Rightarrow> bool" where
  "adds_jobs g x \<equiv> prefix (ag_jobs g) (ag_jobs (snd x))"

lemma adds_calling:
  assumes "ag_jobs g1 = ag_jobs g" "\<And>a w. adds_jobs g (k a (g1\<lparr>ag_back := w\<rparr>))"
  shows "adds_jobs g (calling f g1 k)"
  using assms by (auto simp: calling_def split: prod.splits sum.splits)

lemma adds_with_user: "(\<And>u. adds_jobs g (k u)) \<Longrightarrow> adds_jobs g (with_user cx g k)"
  by (simp add: with_user_def split: option.splits)

lemma adds_limited:
  assumes "\<And>g. adds_jobs g (next cx rq g)"
  shows "adds_jobs g (RateLimitMiddleware (api_Allow L a b) key next cx rq g)"
proof (cases "api_Allow L a b (key cx rq) g")
  case (Pair x g1)
  then have "ag_jobs g1 = ag_jobs g"
    by (auto simp: api_Allow_def limiter_Allow_def split: prod.splits sum.splits)
  then show ?thesis using Pair assms [of g] assms [of g1] by (simp add: RateLimitMiddleware_def Let_def split: sum.splits)
qed

lemma adds_bearer:
  assumes "\<And>cx. adds_jobs g (next cx rq g)"
  shows "adds_jobs g (BearerAuthMiddleware parse secret next cx rq g)"
  using assms by (simp add: BearerAuthMiddleware_def Let_def split: sum.splits)

lemma adds_auth_handlers:
  assumes "map_of (auth_handlers L cfg) p = Some handle"
  shows "adds_jobs g (handle cx rq g)"
  using map_of_SomeD [OF assms]
  by (auto simp: auth_handlers_def handleDeleteUser_def handleBatchGetUsers_def handleListJoinedRooms_def handleSearchRooms_def handleCreateRoom_def
      handleUpdateRoom_def handleDeleteRoom_def handleJoinRoom_def handleLeaveRoom_def handleListRoomMembers_def handleListMessages_def
      start_job_def Let_def intro!: adds_calling adds_with_user split: sum.splits option.splits prod.splits)

lemma adds_routes:
  assumes "map_of (api_registerRoutes L cfg) p = Some h"
  shows "adds_jobs g (h cx rq g)"
proof (cases "map_of (auth_handlers L cfg) p")
  case (Some handle)
  then have "h = ChainMiddleware handle (authMws L cfg)" using map_of_SomeD [OF Some] assms by (auto simp: api_registerRoutes_def map_of_map auth_handlers_def)
  then show ?thesis using adds_auth_handlers [OF Some] by (simp add: authMws_def adds_bearer adds_limited)
next
  case None
  then show ?thesis using assms
    by (auto simp: api_registerRoutes_def map_of_map publicMws_def api_handleReady_def handleCreateUser_def handleVerifyUser_def handleRefreshToken_def
        handleRevokeToken_def Let_def intro!: adds_limited adds_calling split: if_splits sum.splits option.splits)
qed

definition prog_inv :: "('a, 'w) api_prog \<Rightarrow> bool" where
  "prog_inv P \<longleftrightarrow> mset (pr_started P) = mset (pr_ran P) + mset (ag_jobs (pr_gw P)) \<and> (pr_phase P \<noteq> PWait \<longrightarrow> \<not> pr_listen P) \<and>
     (pr_phase P \<in> {PJobs None, PReturned None} \<longrightarrow> pr_open P = []) \<and> (pr_phase P = PReturned None \<longrightarrow> ag_jobs (pr_gw P) = [])"

lemma prog_inv_step:
  assumes "prog_step L cfg P P'" "prog_inv P"
  shows "prog_inv P'"
  using assms(1)
proof (cases rule: prog_step.cases)
  case (answer i p rq h r g)
  have "prefix (ag_jobs (pr_gw P)) (ag_jobs g)" using adds_routes [OF answer(4), of "pr_gw P" no_ctx rq] answer(5) by simp
  then obtain js where "ag_jobs g = ag_jobs (pr_gw P) @ js" by (auto elim: prefixE)
  then show ?thesis using assms(2) answer by (auto simp: prog_inv_def)
next
  case (goroutine i)
  have "mset (ag_jobs (pr_gw P)) = add_mset (ag_jobs (pr_gw P) ! i) (mset (take i (ag_jobs (pr_gw P)) @ drop (Suc i) (ag_jobs (pr_gw P))))"
    using goroutine(2) by (subst id_take_nth_drop [OF goroutine(2)]) simp
  then show ?thesis using assms(2) goroutine by (auto simp: prog_inv_def run_goroutine_def)
qed (use assms(2) in \<open>auto simp: prog_inv_def api_Wait_def\<close>)

text \<open>C25: A clean end of the API gateway loses no announcement: when the stopping goroutine has returned without an error, no
  request is being handled, no further one is accepted, and every announcement or room closing that any
  request ever started has been carried out, each exactly once.\<close>

theorem clean_end_announces_all:
  assumes "prog_reach L cfg P" and "pr_phase P = PReturned None" and "(prog_step L cfg)\<^sup>*\<^sup>* P P'"
  shows "pr_phase P' = PReturned None \<and> pr_open P' = [] \<and> pr_started P' = pr_started P \<and> mset (pr_ran P') = mset (pr_started P)"
proof -
  have inv: "prog_inv Q" if reach: "prog_reach L cfg Q" for Q
  proof -
    obtain g where g: "ag_jobs g = []" "(prog_step L cfg)\<^sup>*\<^sup>* (api_start g) Q" using reach by (auto simp: prog_reach_def)
    have "prog_inv (api_start g)" using g(1) by (simp add: api_start_def prog_inv_def)
    with g(2) show ?thesis by (induction rule: rtranclp_induct) (blast intro: prog_inv_step)+
  qed
  from assms(3) have *: "pr_phase P' = PReturned None \<and> pr_started P' = pr_started P \<and> prog_inv P'"
  proof (induction rule: rtranclp_induct)
    case (step Q R)
    then have q: "pr_phase Q = PReturned None" "pr_open Q = []" "\<not> pr_listen Q" "pr_started Q = pr_started P" by (auto simp: prog_inv_def)
    from step(2) have "pr_phase R = PReturned None \<and> pr_started R = pr_started P" by (cases rule: prog_step.cases) (use q in simp_all)
    then show ?case using prog_inv_step [OF step(2)] step(3) by blast
  qed (use assms(1,2) inv in auto)
  then show ?thesis by (auto simp: prog_inv_def)
qed

text \<open>A manager deletes a room; the gateway tells the hub and ends.\<close>

definition lx_prog ::
  "unit ax_back api_gateway \<Rightarrow> (string \<times> unit request) list \<Rightarrow> bool \<Rightarrow> stop_phase \<Rightarrow> api_job list \<Rightarrow> api_job list \<Rightarrow> (unit, unit ax_back) api_prog" where
  "lx_prog g rqs e ph js dn = \<lparr>pr_gw = g, pr_open = rqs, pr_listen = (ph = PWait), pr_egCtx = e, pr_phase = ph,
     pr_serve = (if ph = PWait then None else Some None), pr_started = js, pr_ran = dn\<rparr>"

lemma lx_deleted:
  "\<exists>h r g'. map_of (api_registerRoutes ax_lib ax_cfg) ''DELETE /rooms/{id}'' = Some h \<and> h no_ctx (ax_req ''Bearer tok'') ax_gw = (r, g') \<and> ag_jobs g' = [CloseHub ''r1'']"
proof -
  have hd: "map_of (auth_handlers ax_lib ax_cfg) ''DELETE /rooms/{id}'' = Some (handleDeleteRoom ax_lib)" by (simp add: auth_handlers_def)
  have "ag_jobs (snd (handleDeleteRoom ax_lib ax_alice (ax_req ''Bearer tok'') ax_gw)) = [CloseHub ''r1'']"
    by (simp add: handleDeleteRoom_def ax_simps calling_def user_service_client_def on_user_def grpc_call_def Let_def start_job_def
        ax_call_def ax_gw_def DeleteRoom_def delete_room_tx_def act_defs ex_w3_def ex_defs q_GetRoomForUpdate_def find_room_def q_DeleteRoom_def row_defs)
  then show ?thesis using ax_route [OF hd] by (metis prod.collapse)
qed

lemma lx_run: "\<exists>P. prog_reach ax_lib ax_cfg P \<and> pr_phase P = PReturned None \<and> pr_started P = [CloseHub ''r1'']"
proof -
  let ?step = "prog_step ax_lib ax_cfg" and ?rq = "(''DELETE /rooms/{id}'', ax_req ''Bearer tok'')" and ?j = "CloseHub ''r1''"
  note more = converse_rtranclp_into_rtranclp [where r = ?step]
  obtain h r g where h: "map_of (api_registerRoutes ax_lib ax_cfg) ''DELETE /rooms/{id}'' = Some h" "h no_ctx (ax_req ''Bearer tok'') ax_gw = (r, g)"
    and g: "ag_jobs g = [?j]" using lx_deleted by blast
  define g2 where "g2 = run_goroutine ax_lib ax_cfg 0 g"
  have jobs: "ag_jobs g2 = []" "ag_jobs ax_gw = []" by (simp_all add: g2_def run_goroutine_def g ax_gw_def)
  have 1: "?step (api_start ax_gw) (lx_prog ax_gw [?rq] False PWait [] [])"
    using prog_step.accept [of "api_start ax_gw" ax_lib ax_cfg] by (simp add: api_start_def lx_prog_def)
  have 2: "?step (lx_prog ax_gw [?rq] False PWait [] []) (lx_prog g [] False PWait [?j] [])"
    using prog_step.answer [where P = "lx_prog ax_gw [?rq] False PWait [] []" and i = 0 and p = "fst ?rq" and rq = "snd ?rq" and h = h and r = r and g = g and L = ax_lib and cfg = ax_cfg] h
    by (simp add: lx_prog_def g jobs)
  have 3: "?step (lx_prog g [] False PWait [?j] []) (lx_prog g2 [] False PWait [?j] [?j])"
    using prog_step.goroutine [where P = "lx_prog g [] False PWait [?j] []" and i = 0 and L = ax_lib and cfg = ax_cfg] by (simp add: lx_prog_def g g2_def)
  have 4: "?step (lx_prog g2 [] False PWait [?j] [?j]) (lx_prog g2 [] True PWait [?j] [?j])"
    using prog_step.interrupt [of ax_lib ax_cfg "lx_prog g2 [] False PWait [?j] [?j]"] by (simp add: lx_prog_def)
  have 5: "?step (lx_prog g2 [] True PWait [?j] [?j]) (lx_prog g2 [] True PShutdown [?j] [?j])"
    using prog_step.shut [of "lx_prog g2 [] True PWait [?j] [?j]" ax_lib ax_cfg] by (simp add: lx_prog_def)
  have 6: "?step (lx_prog g2 [] True PShutdown [?j] [?j]) (lx_prog g2 [] True (PJobs None) [?j] [?j])"
    using prog_step.shut_done [of "lx_prog g2 [] True PShutdown [?j] [?j]" ax_lib ax_cfg] by (simp add: lx_prog_def)
  have 7: "?step (lx_prog g2 [] True (PJobs None) [?j] [?j]) (lx_prog g2 [] True (PReturned None) [?j] [?j])"
    using prog_step.waited [of "lx_prog g2 [] True (PJobs None) [?j] [?j]" None ax_lib ax_cfg] by (simp add: lx_prog_def api_Wait_def jobs)
  have "prog_reach ax_lib ax_cfg (lx_prog g2 [] True (PReturned None) [?j] [?j])"
    using more [OF 1 more [OF 2 more [OF 3 more [OF 4 more [OF 5 more [OF 6 more [OF 7 rtranclp.rtrancl_refl]]]]]]] jobs(2) by (auto simp: prog_reach_def)
  then show ?thesis by (intro exI conjI) (auto simp: lx_prog_def)
qed

theorem clean_end_announces_all_witness:
  "\<exists>P. prog_reach ax_lib ax_cfg P \<and> pr_phase P = PReturned None \<and> pr_ran P = [CloseHub ''r1'']"
proof -
  obtain P where P: "prog_reach ax_lib ax_cfg P" "pr_phase P = PReturned None" "pr_started P = [CloseHub ''r1'']" using lx_run by blast
  show ?thesis using clean_end_announces_all [OF P(1,2) rtranclp.rtrancl_refl] P by (auto simp: mset_single_iff)
qed

end
