(* ===== verification/Startup.thy ===== *)
theory Startup
  imports Instance Wiring
begin

text \<open>
  How the five programs start and end (\<^verbatim>\<open>run\<close> of every \<^verbatim>\<open>cmd/*/main.go\<close>, \<^verbatim>\<open>internal/shared/config\<close>, \<^verbatim>\<open>internal/shared/database\<close> and the set-up of
  \<^verbatim>\<open>internal/shared/telemetry\<close>): configuration is loaded, connections are opened one after the other, the server runs, and the
  deferred calls close what was opened. Each library call may fail; the model records what is opened and
  closed. The last part is the WebSocket service with its error group, composed with the instance it runs.
\<close>

section \<open>Loading the configuration\<close>

text \<open>The configuration library (a file read, a second file merged in, the environment, decoding) and the validator.\<close>

record ('v, 't) config_lib =
  vp_ReadInConfig :: "string \<Rightarrow> string \<Rightarrow> go_error + 'v"
  vp_MergeInConfig :: "string \<Rightarrow> 'v \<Rightarrow> go_error + 'v"
  vp_AutomaticEnv :: "string \<Rightarrow> 'v \<Rightarrow> 'v"
  vp_Unmarshal :: "'v \<Rightarrow> go_error + 't"
  val_Struct :: "'t \<Rightarrow> go_error option"

definition Load :: "('v, 't) config_lib \<Rightarrow> string \<Rightarrow> string \<Rightarrow> string \<Rightarrow> go_error + 't" where
  "Load cl configPath baseName overrideName = (case vp_ReadInConfig cl configPath baseName of
      Inl err \<Rightarrow> Inl (Wrap (''failed to read base config ('' @ baseName @ '')'') err)
    | Inr v \<Rightarrow> (case (if overrideName \<noteq> '''' then vp_MergeInConfig cl overrideName v else Inr v) of
        Inl err \<Rightarrow> Inl (Wrap (''failed to merge override config ('' @ overrideName @ '')'') err)
      | Inr v \<Rightarrow> (case vp_Unmarshal cl (vp_AutomaticEnv cl ''APP'' v) of
          Inl err \<Rightarrow> Inl (Wrap ''failed to unmarshal config'' err)
        | Inr cfg \<Rightarrow> (case val_Struct cl cfg of
            Some err \<Rightarrow> Inl (Wrap ''config validation failed'' err)
          | None \<Rightarrow> Inr cfg))))"

definition LoadRuntime :: "('v, 't) config_lib \<Rightarrow> go_error + 't" where
  "LoadRuntime cl = Load cl ''configs'' ''base'' ''override''"

lemma Load_valid: "Load cl path base override = Inr cfg \<Longrightarrow> val_Struct cl cfg = None"
  by (auto simp: Load_def split: sum.splits option.splits if_splits)

section \<open>Opening and closing\<close>

datatype resource = TracerProvider | MeterProvider | Profiler | HasherPool | PostgresPool | MongoClient | RedisClient | GrpcConn string

datatype boot_event = Open resource | Close resource | Serve

text \<open>A part of a program returns an error or a value and appends to what has happened.\<close>

type_synonym 'a boot = "boot_event list \<Rightarrow> (go_error + 'a) \<times> boot_event list"

definition ready_ok :: "unit boot" where
  "ready_ok log = (Inr (), log)"

definition happens :: "boot_event list \<Rightarrow> 'a boot \<Rightarrow> 'a boot" where
  "happens es k log = k (log @ es)"

text \<open>A call that may fail; on an error some things are closed and the error, perhaps wrapped, is returned.\<close>

definition attempt :: "go_error option \<Rightarrow> (go_error \<Rightarrow> go_error) \<Rightarrow> boot_event list \<Rightarrow> 'a boot \<Rightarrow> 'a boot" where
  "attempt outcome wrap cleanup k log = (case outcome of Some err \<Rightarrow> (Inl (wrap err), log @ cleanup) | None \<Rightarrow> k log)"

definition and_then :: "unit boot \<Rightarrow> 'a boot \<Rightarrow> 'a boot" where
  "and_then p k log = (case p log of (Inl err, log') \<Rightarrow> (Inl err, log') | (Inr _, log') \<Rightarrow> k log')"

text \<open>\<^verbatim>\<open>defer\<close>: the calls happen when the rest has returned, whatever it returned.\<close>

definition deferring :: "boot_event list \<Rightarrow> 'a boot \<Rightarrow> 'a boot" where
  "deferring es k log = (case k log of (r, log') \<Rightarrow> (r, log' @ es))"

text \<open>What the libraries answer.\<close>

record boot_lib =
  bl_NewClient :: "string \<Rightarrow> go_error option"
  bl_RedisPing :: "string \<Rightarrow> go_error option"
  bl_InstrumentTracing :: "go_error option"
  bl_InstrumentMetrics :: "go_error option"
  bl_PgParseConfig :: "string \<Rightarrow> go_error option"
  bl_PgNewWithConfig :: "string \<Rightarrow> go_error option"
  bl_PgPing :: "string \<Rightarrow> go_error option"
  bl_MongoConnect :: "string \<Rightarrow> go_error option"
  bl_MongoPing :: "string \<Rightarrow> go_error option"
  bl_ResourceNew :: "go_error option"
  bl_TraceExporter :: "go_error option"
  bl_MetricExporter :: "go_error option"
  bl_RuntimeStart :: "go_error option"
  bl_PyroscopeStart :: "go_error option"
  bl_Listen :: "string \<Rightarrow> go_error option"
  bl_Wait :: "go_error option"

definition NewRedis :: "boot_lib \<Rightarrow> string \<Rightarrow> unit boot" where
  "NewRedis lib addr = happens [Open RedisClient]
     (attempt (bl_RedisPing lib addr) (Wrap ''unable to ping redis'') [Close RedisClient]
     (attempt (bl_InstrumentTracing lib) (Wrap ''unable to instrument redis tracing'') [Close RedisClient]
     (attempt (bl_InstrumentMetrics lib) (Wrap ''unable to instrument redis metrics'') [Close RedisClient] ready_ok)))"

definition NewPostgres :: "boot_lib \<Rightarrow> string \<Rightarrow> unit boot" where
  "NewPostgres lib dsn =
     attempt (bl_PgParseConfig lib dsn) (Wrap ''unable to parse dsn'') []
     (attempt (bl_PgNewWithConfig lib dsn) (Wrap ''unable to create connection pool'') []
     (happens [Open PostgresPool]
     (attempt (bl_PgPing lib dsn) (Wrap ''unable to ping database'') [Close PostgresPool] ready_ok)))"

definition NewMongo :: "boot_lib \<Rightarrow> string \<Rightarrow> unit boot" where
  "NewMongo lib uri =
     attempt (bl_MongoConnect lib uri) (Wrap ''unable to connect to mongo'') []
     (happens [Open MongoClient]
     (attempt (bl_MongoPing lib uri) (Wrap ''unable to ping mongo'') [Close MongoClient] ready_ok))"

text \<open>
  \<^verbatim>\<open>InitOTel\<close>: once the tracer provider runs, neither a failing metric exporter nor a failing runtime instrumentation
  stops it again. Shutting down closes both providers, in the order they were made.
\<close>

definition InitOTel :: "boot_lib \<Rightarrow> string \<Rightarrow> string \<Rightarrow> unit boot" where
  "InitOTel lib serviceName otelEndpoint =
     attempt (if serviceName = '''' then Some (ErrNew ''serviceName must not be empty'') else None) id []
     (attempt (if otelEndpoint = '''' then Some (ErrNew ''otelEndpoint must not be empty'') else None) id []
     (attempt (bl_ResourceNew lib) (Wrap ''create resource'') []
     (attempt (bl_TraceExporter lib) (Wrap ''create trace exporter'') []
     (happens [Open TracerProvider]
     (attempt (bl_MetricExporter lib) (Wrap ''create metric exporter'') []
     (happens [Open MeterProvider]
     (attempt (bl_RuntimeStart lib) (Wrap ''start runtime instrumentation'') [] ready_ok)))))))"

definition otel_shutdown :: "boot_event list" where
  "otel_shutdown = [Close TracerProvider, Close MeterProvider]"

definition InitProfiling :: "boot_lib \<Rightarrow> unit boot" where
  "InitProfiling lib = attempt (bl_PyroscopeStart lib) (Wrap ''start pyroscope'') [] (happens [Open Profiler] ready_ok)"

text \<open>The name an instance reports: the pod, else the host, else a fresh identifier.\<close>

definition resolveServiceInstanceID :: "string \<Rightarrow> go_error + string \<Rightarrow> string \<Rightarrow> string" where
  "resolveServiceInstanceID podName hostname newID =
    (if podName \<noteq> '''' then podName else case hostname of Inr host \<Rightarrow> if host \<noteq> '''' then host else newID | Inl _ \<Rightarrow> newID)"

section \<open>The programs\<close>

text \<open>The fields of the five configurations that \<^verbatim>\<open>run\<close> reads.\<close>

record boot_cfg =
  bc_OTelEndpoint :: string
  bc_PyroscopeEndpoint :: string
  bc_RedisAddr :: string
  bc_PostgresURL :: string
  bc_MongoURI :: string
  bc_UserAddr :: string
  bc_ChatAddr :: string
  bc_UserGRPC :: string
  bc_ChatGRPC :: string

text \<open>The two blocks every \<^verbatim>\<open>run\<close> begins with: a failure of telemetry is only logged.\<close>

definition with_telemetry :: "boot_lib \<Rightarrow> string \<Rightarrow> boot_cfg \<Rightarrow> 'a boot \<Rightarrow> 'a boot" where
  "with_telemetry lib name cfg k =
    (let profiled = (if bc_PyroscopeEndpoint cfg = '''' then k
           else (\<lambda>log. case InitProfiling lib log of (Inl _, log') \<Rightarrow> k log' | (Inr _, log') \<Rightarrow> deferring [Close Profiler] k log'))
     in if bc_OTelEndpoint cfg = '''' then profiled
        else (\<lambda>log. case InitOTel lib name (bc_OTelEndpoint cfg) log of
          (Inl _, log') \<Rightarrow> profiled log' | (Inr _, log') \<Rightarrow> deferring otel_shutdown profiled log'))"

text \<open>\<^verbatim>\<open>initClients\<close> of the instance and of the API gateway differ in the order of the two connections.\<close>

definition initClients :: "boot_lib \<Rightarrow> string \<Rightarrow> string \<Rightarrow> unit boot" where
  "initClients lib addr1 addr2 =
     attempt (bl_NewClient lib addr1) id []
     (happens [Open (GrpcConn addr1)]
     (attempt (bl_NewClient lib addr2) id [Close (GrpcConn addr1)]
     (happens [Open (GrpcConn addr2)] ready_ok)))"

definition cleanupClients :: "string \<Rightarrow> string \<Rightarrow> boot_event list" where
  "cleanupClients addr1 addr2 = [Close (GrpcConn addr1), Close (GrpcConn addr2)]"

text \<open>The error group of \<^verbatim>\<open>runServer\<close> runs, and its result is returned; the gRPC services listen first.\<close>

definition serve :: "boot_lib \<Rightarrow> unit boot" where
  "serve lib log = (case bl_Wait lib of Some err \<Rightarrow> Inl err | None \<Rightarrow> Inr (), log @ [Serve])"

definition serve_grpc :: "boot_lib \<Rightarrow> string \<Rightarrow> unit boot" where
  "serve_grpc lib port = attempt (bl_Listen lib ('':'' @ port)) id [] (serve lib)"

definition configured :: "('v, boot_cfg) config_lib \<Rightarrow> (boot_cfg \<Rightarrow> 'a boot) \<Rightarrow> 'a boot" where
  "configured cl k log = (case LoadRuntime cl of Inl err \<Rightarrow> (Inl err, log) | Inr cfg \<Rightarrow> k cfg log)"

definition run_websocket_service :: "('v, boot_cfg) config_lib \<Rightarrow> boot_lib \<Rightarrow> unit boot" where
  "run_websocket_service cl lib = configured cl (\<lambda>cfg. with_telemetry lib ''websocket-service'' cfg
     (and_then (initClients lib (bc_ChatAddr cfg) (bc_UserAddr cfg)) (deferring (cleanupClients (bc_ChatAddr cfg) (bc_UserAddr cfg))
     (and_then (NewRedis lib (bc_RedisAddr cfg)) (deferring [Close RedisClient] (serve lib))))))"

definition run_ws_gateway :: "('v, boot_cfg) config_lib \<Rightarrow> boot_lib \<Rightarrow> unit boot" where
  "run_ws_gateway cl lib = configured cl (\<lambda>cfg. with_telemetry lib ''ws-gateway'' cfg
     (and_then (NewRedis lib (bc_RedisAddr cfg)) (deferring [Close RedisClient] (serve lib))))"

definition run_api_gateway :: "('v, boot_cfg) config_lib \<Rightarrow> boot_lib \<Rightarrow> unit boot" where
  "run_api_gateway cl lib = configured cl (\<lambda>cfg. with_telemetry lib ''api-gateway'' cfg
     (and_then (initClients lib (bc_UserAddr cfg) (bc_ChatAddr cfg)) (deferring (cleanupClients (bc_UserAddr cfg) (bc_ChatAddr cfg))
     (and_then (NewRedis lib (bc_RedisAddr cfg)) (deferring [Close RedisClient] (serve lib))))))"

definition run_chat_service :: "('v, boot_cfg) config_lib \<Rightarrow> boot_lib \<Rightarrow> unit boot" where
  "run_chat_service cl lib = configured cl (\<lambda>cfg. with_telemetry lib ''chat-service'' cfg
     (and_then (NewMongo lib (bc_MongoURI cfg)) (deferring [Close MongoClient] (serve_grpc lib (bc_ChatGRPC cfg)))))"

definition run_user_service :: "('v, boot_cfg) config_lib \<Rightarrow> boot_lib \<Rightarrow> unit boot" where
  "run_user_service cl lib = configured cl (\<lambda>cfg. with_telemetry lib ''user-service'' cfg
     (happens [Open HasherPool] (deferring [Close HasherPool]
     (and_then (NewPostgres lib (bc_PostgresURL cfg)) (deferring [Close PostgresPool]
     (and_then (NewRedis lib (bc_RedisAddr cfg)) (deferring [Close RedisClient] (serve_grpc lib (bc_UserGRPC cfg)))))))))"

text \<open>\<^verbatim>\<open>main\<close>: the exit status.\<close>

definition main_status :: "unit boot \<Rightarrow> nat" where
  "main_status p = (case fst (p []) of Inl _ \<Rightarrow> 1 | Inr _ \<Rightarrow> 0)"

datatype program = ApiGateway | WsGateway | WebsocketService | ChatService | UserService

fun run_program :: "program \<Rightarrow> ('v, boot_cfg) config_lib \<Rightarrow> boot_lib \<Rightarrow> unit boot" where
  "run_program ApiGateway = run_api_gateway"
| "run_program WsGateway = run_ws_gateway"
| "run_program WebsocketService = run_websocket_service"
| "run_program ChatService = run_chat_service"
| "run_program UserService = run_user_service"

section \<open>What is open when\<close>

text \<open>The resources that are open after the events, none if something was closed that was not open; and what was open whenever the server ran.\<close>

fun open_after :: "resource multiset \<Rightarrow> boot_event list \<Rightarrow> resource multiset option" where
  "open_after M [] = Some M"
| "open_after M (Open r # es) = open_after (add_mset r M) es"
| "open_after M (Close r # es) = (if r \<in># M then open_after (M - {#r#}) es else None)"
| "open_after M (Serve # es) = open_after M es"

fun at_serve :: "resource multiset \<Rightarrow> boot_event list \<Rightarrow> resource multiset list" where
  "at_serve M [] = []"
| "at_serve M (Open r # es) = at_serve (add_mset r M) es"
| "at_serve M (Close r # es) = at_serve (M - {#r#}) es"
| "at_serve M (Serve # es) = M # at_serve M es"

lemma open_after_append: "open_after M (xs @ ys) = Option.bind (open_after M xs) (\<lambda>N. open_after N ys)"
  by (induction M xs rule: open_after.induct) simp_all

lemma at_serve_append: "open_after M xs = Some N \<Longrightarrow> at_serve M (xs @ ys) = at_serve M xs @ at_serve N ys"
  by (induction M xs rule: open_after.induct) (auto split: if_splits)

lemma open_after_open: "open_after N (map Open rs) = Some (N + mset rs)" "at_serve N (map Open rs) = []"
  by (induction rs arbitrary: N) simp_all

lemma open_after_close: "open_after (N + mset rs) (map Close rs) = Some N"
  by (induction rs arbitrary: N) simp_all

lemma at_serve_close: "at_serve N (map Close rs) = []"
  by (induction rs arbitrary: N) simp_all

text \<open>
  \<open>acquires p rs\<close>: on success \<open>p\<close> has opened \<open>rs\<close>, on an error nothing is left open. \<open>well_run p need leak\<close>: whatever was open before, \<open>p\<close>
  leaves only \<open>leak\<close> open besides, and it either fails without serving or serves once, with all of \<open>need\<close> open.
\<close>

definition acquires :: "unit boot \<Rightarrow> resource list \<Rightarrow> bool" where
  "acquires p rs \<longleftrightarrow> (\<forall>log. \<exists>es. snd (p log) = log @ es \<and>
     (\<forall>N. at_serve N es = [] \<and> open_after N es = Some (if isl (fst (p log)) then N else N + mset rs)))"

definition well_run :: "unit boot \<Rightarrow> resource multiset \<Rightarrow> resource multiset \<Rightarrow> bool" where
  "well_run p need leak \<longleftrightarrow> (\<forall>log. \<exists>es. snd (p log) = log @ es \<and>
     (\<forall>N. open_after N es = Some (N + leak) \<and> (at_serve N es = [] \<and> isl (fst (p log)) \<or> (\<exists>M. at_serve N es = [M] \<and> N + need \<subseteq># M))))"

lemma acquires_NewRedis: "acquires (NewRedis lib addr) [RedisClient]"
  by (auto simp: acquires_def NewRedis_def happens_def attempt_def ready_ok_def split: option.splits)

lemma acquires_NewPostgres: "acquires (NewPostgres lib dsn) [PostgresPool]"
  by (auto simp: acquires_def NewPostgres_def happens_def attempt_def ready_ok_def split: option.splits)

lemma acquires_NewMongo: "acquires (NewMongo lib uri) [MongoClient]"
  by (auto simp: acquires_def NewMongo_def happens_def attempt_def ready_ok_def split: option.splits)

lemma acquires_initClients: "acquires (initClients lib a b) [GrpcConn a, GrpcConn b]"
  by (auto simp: acquires_def initClients_def happens_def attempt_def ready_ok_def add_mset_commute split: option.splits)

lemma well_run_serve: "well_run (serve lib) {#} {#}" "well_run (serve_grpc lib port) {#} {#}"
  by (auto simp: well_run_def serve_def serve_grpc_def attempt_def split: option.splits)

lemma well_run_using:
  assumes p: "acquires p rs" and k: "well_run k need {#}"
  shows "well_run (and_then p (deferring (map Close rs) k)) (mset rs + need) {#}"
  unfolding well_run_def
proof
  fix log
  let ?run = "and_then p (deferring (map Close rs) k) log"
  obtain r log1 where r: "p log = (r, log1)" by fastforce
  then obtain es where es: "log1 = log @ es" "\<And>N. at_serve N es = []" "\<And>N. open_after N es = Some (if isl r then N else N + mset rs)"
    using p [unfolded acquires_def, rule_format, of log] by auto
  obtain q log2 where q: "k log1 = (q, log2)" by fastforce
  then obtain fs where fs: "log2 = log1 @ fs" "\<And>N. open_after N fs = Some N"
      "\<And>N. at_serve N fs = [] \<and> isl q \<or> (\<exists>M. at_serve N fs = [M] \<and> N + need \<subseteq># M)"
    using k [unfolded well_run_def, rule_format, of log1] by auto
  show "\<exists>gs. snd ?run = log @ gs \<and> (\<forall>N. open_after N gs = Some (N + {#}) \<and>
      (at_serve N gs = [] \<and> isl (fst ?run) \<or> (\<exists>M. at_serve N gs = [M] \<and> N + (mset rs + need) \<subseteq># M)))"
  proof (cases r)
    case (Inl err)
    then show ?thesis using r es by (intro exI [of _ es]) (simp add: and_then_def)
  next
    case (Inr x)
    let ?gs = "es @ fs @ map Close rs"
    have run: "?run = (q, log @ ?gs)" using r q es(1) fs(1) Inr by (simp add: and_then_def deferring_def)
    have "open_after N ?gs = Some N" for N using es(3) fs(2) Inr open_after_close by (simp add: open_after_append)
    moreover have "at_serve N ?gs = at_serve (N + mset rs) fs" for N
      using es(2,3) fs(2) Inr by (simp add: at_serve_append at_serve_close)
    moreover have "at_serve (N + mset rs) fs = [] \<and> isl q \<or> (\<exists>M. at_serve (N + mset rs) fs = [M] \<and> N + (mset rs + need) \<subseteq># M)" for N
      using fs(3) [of "N + mset rs"] by (simp add: add.assoc)
    ultimately show ?thesis unfolding run by (intro exI [of _ ?gs]) simp
  qed
qed

text \<open>What a failing \<^verbatim>\<open>InitOTel\<close> leaves running.\<close>

definition otel_leak :: "boot_lib \<Rightarrow> string \<Rightarrow> string \<Rightarrow> resource multiset" where
  "otel_leak lib name endpoint =
    (if endpoint = '''' \<or> name = '''' \<or> bl_ResourceNew lib \<noteq> None \<or> bl_TraceExporter lib \<noteq> None then {#}
     else if bl_MetricExporter lib \<noteq> None then {#TracerProvider#}
     else if bl_RuntimeStart lib \<noteq> None then {#TracerProvider, MeterProvider#}
     else {#})"

text \<open>Opening things before and closing some of them after: the others stay.\<close>

definition around :: "resource list \<Rightarrow> resource list \<Rightarrow> 'a boot \<Rightarrow> 'a boot" where
  "around rs qs k log = deferring (map Close qs) k (log @ map Open rs)"

lemma around_around: "around rs qs (around rs' qs' k) = around (rs @ rs') (qs' @ qs) k"
  by (simp add: around_def deferring_def fun_eq_iff split: prod.splits)

lemma around_nothing: "around [] [] k = k"
  by (simp add: around_def deferring_def fun_eq_iff)

lemma well_run_around:
  assumes k: "well_run k need {#}" and rs: "mset rs = mset qs + leak"
  shows "well_run (around rs qs k) (mset rs + need) leak"
  unfolding well_run_def
proof
  fix log
  obtain q log2 where q: "k (log @ map Open rs) = (q, log2)" by fastforce
  then obtain fs where fs: "log2 = (log @ map Open rs) @ fs" "\<And>N. open_after N fs = Some N"
      "\<And>N. at_serve N fs = [] \<and> isl q \<or> (\<exists>M. at_serve N fs = [M] \<and> N + need \<subseteq># M)"
    using k [unfolded well_run_def, rule_format, of "log @ map Open rs"] by auto
  let ?gs = "map Open rs @ fs @ map Close qs"
  have "around rs qs k log = (q, log @ ?gs)" using q fs(1) by (simp add: around_def deferring_def)
  moreover have "open_after N ?gs = Some (N + leak)" for N
    using fs(2) open_after_close [of "N + leak" qs] by (simp add: open_after_append open_after_open rs ac_simps)
  moreover have "at_serve N ?gs = at_serve (N + mset rs) fs" for N using fs(2) by (simp add: at_serve_append at_serve_close open_after_open)
  moreover have "at_serve (N + mset rs) fs = [] \<and> isl q \<or> (\<exists>M. at_serve (N + mset rs) fs = [M] \<and> N + (mset rs + need) \<subseteq># M)" for N
    using fs(3) [of "N + mset rs"] by (simp add: add.assoc)
  ultimately show "\<exists>es. snd (around rs qs k log) = log @ es \<and> (\<forall>N. open_after N es = Some (N + leak) \<and>
      (at_serve N es = [] \<and> isl (fst (around rs qs k log)) \<or> (\<exists>M. at_serve N es = [M] \<and> N + (mset rs + need) \<subseteq># M)))"
    by (intro exI [of _ ?gs]) simp
qed

lemma well_run_mono: "well_run p need leak \<Longrightarrow> need' \<subseteq># need \<Longrightarrow> well_run p need' leak"
  unfolding well_run_def by (meson subset_mset.add_left_mono subset_mset.order_trans)

lemma InitOTel_cases:
  assumes "endpoint \<noteq> ''''"
  obtains (failed) err rs where "\<And>log. InitOTel lib name endpoint log = (Inl err, log @ map Open rs)" "otel_leak lib name endpoint = mset rs"
  | (started) "\<And>log. InitOTel lib name endpoint log = (Inr (), log @ map Open [TracerProvider, MeterProvider])" "otel_leak lib name endpoint = {#}"
proof -
  note otel = InitOTel_def attempt_def happens_def ready_ok_def otel_leak_def
  consider "name = '''' \<or> bl_ResourceNew lib \<noteq> None \<or> bl_TraceExporter lib \<noteq> None"
    | err where "name \<noteq> ''''" "bl_ResourceNew lib = None" "bl_TraceExporter lib = None" "bl_MetricExporter lib = Some err"
    | err where "name \<noteq> ''''" "bl_ResourceNew lib = None" "bl_TraceExporter lib = None" "bl_MetricExporter lib = None" "bl_RuntimeStart lib = Some err"
    | "name \<noteq> ''''" "bl_ResourceNew lib = None" "bl_TraceExporter lib = None" "bl_MetricExporter lib = None" "bl_RuntimeStart lib = None"
    by fastforce
  then show thesis
  proof cases
    case 1
    then have "\<exists>err. \<forall>log. InitOTel lib name endpoint log = (Inl err, log)" using assms by (cases "bl_ResourceNew lib") (auto simp: otel)
    then show thesis using failed [of _ "[]"] 1 by (auto simp: otel_leak_def)
  next
    case 2
    then show thesis using assms failed [of _ "[TracerProvider]"] by (simp add: otel)
  next
    case 3
    then show thesis using assms failed [of _ "[TracerProvider, MeterProvider]"] by (simp add: otel)
  next
    case 4
    then show thesis using assms started by (simp add: otel)
  qed
qed

lemma telemetry_around:
  obtains rs qs where "with_telemetry lib name cfg k = around rs qs k" "mset rs = mset qs + otel_leak lib name (bc_OTelEndpoint cfg)"
proof -
  define prof where "prof = (if bc_PyroscopeEndpoint cfg = '''' then k
      else (\<lambda>log. case InitProfiling lib log of (Inl _, log') \<Rightarrow> k log' | (Inr _, log') \<Rightarrow> deferring [Close Profiler] k log'))"
  have "prof = around [] [] k \<or> prof = around [Profiler] [Profiler] k"
    by (cases "bl_PyroscopeStart lib") (simp_all add: prof_def InitProfiling_def attempt_def happens_def ready_ok_def around_nothing, simp add: around_def fun_eq_iff)
  then obtain ps where prof: "prof = around ps ps k" by blast
  show thesis
  proof (cases "bc_OTelEndpoint cfg = ''''")
    case True
    then show thesis using that [of ps ps] prof by (simp add: with_telemetry_def Let_def prof_def otel_leak_def)
  next
    case False
    then have run: "with_telemetry lib name cfg k = (\<lambda>log. case InitOTel lib name (bc_OTelEndpoint cfg) log of
        (Inl _, log') \<Rightarrow> prof log' | (Inr _, log') \<Rightarrow> deferring otel_shutdown prof log')"
      by (simp only: with_telemetry_def Let_def prof_def if_False)
    from False show thesis
    proof (cases rule: InitOTel_cases [where lib = lib and name = name])
      case (failed err rs)
      have "with_telemetry lib name cfg k = around rs [] prof" unfolding run failed by (simp add: around_def deferring_def fun_eq_iff)
      then show thesis using that [of "rs @ ps" ps] by (simp add: failed(2) prof around_around)
    next
      case started
      have "with_telemetry lib name cfg k = around [TracerProvider, MeterProvider] [TracerProvider, MeterProvider] prof"
        unfolding run started by (simp add: around_def otel_shutdown_def fun_eq_iff)
      then show thesis using that [of "[TracerProvider, MeterProvider] @ ps" "ps @ [TracerProvider, MeterProvider]"] by (simp add: started(2) prof around_around)
    qed
  qed
qed

lemma well_run_telemetry:
  assumes "well_run k need {#}"
  shows "well_run (with_telemetry lib name cfg k) need (otel_leak lib name (bc_OTelEndpoint cfg))"
proof -
  obtain rs qs where t: "with_telemetry lib name cfg k = around rs qs k" "mset rs = mset qs + otel_leak lib name (bc_OTelEndpoint cfg)"
    by (rule telemetry_around)
  from well_run_mono [OF well_run_around [OF assms t(2)]] show ?thesis by (simp add: t(1))
qed

text \<open>What a program needs while it serves.\<close>

fun needs :: "program \<Rightarrow> boot_cfg \<Rightarrow> resource multiset" where
  "needs ApiGateway cfg = {#RedisClient, GrpcConn (bc_UserAddr cfg), GrpcConn (bc_ChatAddr cfg)#}"
| "needs WsGateway cfg = {#RedisClient#}"
| "needs WebsocketService cfg = {#RedisClient, GrpcConn (bc_ChatAddr cfg), GrpcConn (bc_UserAddr cfg)#}"
| "needs ChatService cfg = {#MongoClient#}"
| "needs UserService cfg = {#HasherPool, PostgresPool, RedisClient#}"

fun program_name :: "program \<Rightarrow> string" where
  "program_name ApiGateway = ''api-gateway''"
| "program_name WsGateway = ''ws-gateway''"
| "program_name WebsocketService = ''websocket-service''"
| "program_name ChatService = ''chat-service''"
| "program_name UserService = ''user-service''"

lemma well_run_program:
  assumes "LoadRuntime cl = Inr cfg"
  shows "well_run (run_program prog cl lib) (needs prog cfg) (otel_leak lib (program_name prog) (bc_OTelEndpoint cfg))"
proof -
  have loaded: "configured cl k = k cfg" for k :: "boot_cfg \<Rightarrow> unit boot" using assms by (simp add: configured_def fun_eq_iff)
  have redis: "well_run (and_then (NewRedis lib a) (deferring [Close RedisClient] k)) (add_mset RedisClient need) {#}" if "well_run k need {#}" for a k need
    using well_run_using [OF acquires_NewRedis that] by simp
  have clients: "well_run (and_then (initClients lib a b) (deferring (cleanupClients a b) k)) ({#GrpcConn a, GrpcConn b#} + need) {#}"
    if "well_run k need {#}" for a b k need
    using well_run_using [OF acquires_initClients that] by (simp add: cleanupClients_def)
  have postgres: "well_run (and_then (NewPostgres lib a) (deferring [Close PostgresPool] k)) (add_mset PostgresPool need) {#}" if "well_run k need {#}" for a k need
    using well_run_using [OF acquires_NewPostgres that] by simp
  have mongo: "well_run (and_then (NewMongo lib a) (deferring [Close MongoClient] k)) (add_mset MongoClient need) {#}" if "well_run k need {#}" for a k need
    using well_run_using [OF acquires_NewMongo that] by simp
  have pool: "well_run (happens [Open HasherPool] (deferring [Close HasherPool] k)) (add_mset HasherPool need) {#}" if "well_run k need {#}" for k need
  proof -
    have "happens [Open HasherPool] (deferring [Close HasherPool] k) = around [HasherPool] [HasherPool] k" by (simp add: happens_def around_def fun_eq_iff)
    then show ?thesis using well_run_around [OF that, of "[HasherPool]" "[HasherPool]"] by simp
  qed
  show ?thesis
  proof (cases prog)
    case ApiGateway
    from well_run_telemetry [OF clients [OF redis [OF well_run_serve(1)]]] show ?thesis by (simp add: ApiGateway run_api_gateway_def loaded)
  next
    case WsGateway
    from well_run_telemetry [OF redis [OF well_run_serve(1)]] show ?thesis by (simp add: WsGateway run_ws_gateway_def loaded)
  next
    case WebsocketService
    from well_run_telemetry [OF clients [OF redis [OF well_run_serve(1)]]] show ?thesis by (simp add: WebsocketService run_websocket_service_def loaded)
  next
    case ChatService
    from well_run_telemetry [OF mongo [OF well_run_serve(2)]] show ?thesis by (simp add: ChatService run_chat_service_def loaded)
  next
    case UserService
    from well_run_telemetry [OF pool [OF postgres [OF redis [OF well_run_serve(2)]]]] show ?thesis by (simp add: UserService run_user_service_def loaded)
  qed
qed

text \<open>C26: Every program starts completely or not at all, and cleans up: whatever the libraries answer, a program serves only with a configuration that
  the validator accepted and with every connection it needs open, and at most once; if it does not come to that, it
  ends with an error. In each case every connection it opened is closed exactly once when it ends and none is closed
  that was not open; only a tracer or meter provider whose set-up failed half-way stays.\<close>

theorem starts_completely_or_not_at_all:
  "let (r, log) = run_program prog cl lib []
   in (case LoadRuntime cl of
       Inl err \<Rightarrow> r = Inl err \<and> log = []
     | Inr cfg \<Rightarrow> val_Struct cl cfg = None \<and> open_after {#} log = Some (otel_leak lib (program_name prog) (bc_OTelEndpoint cfg)) \<and>
         (at_serve {#} log = [] \<and> isl r \<or> (\<exists>M. at_serve {#} log = [M] \<and> needs prog cfg \<subseteq># M)))"
proof (cases "LoadRuntime cl")
  case (Inl err)
  then have "configured cl k [] = (Inl err, [])" for k :: "boot_cfg \<Rightarrow> unit boot" by (simp add: configured_def)
  then have "run_program prog cl lib [] = (Inl err, [])"
    by (cases prog) (simp_all add: run_api_gateway_def run_ws_gateway_def run_websocket_service_def run_chat_service_def run_user_service_def)
  with Inl show ?thesis by simp
next
  case (Inr cfg)
  obtain r log where run: "run_program prog cl lib [] = (r, log)" by fastforce
  have "val_Struct cl cfg = None" using Inr by (auto simp: LoadRuntime_def dest: Load_valid)
  moreover obtain es where "log = [] @ es" and es: "\<And>N. open_after N es = Some (N + otel_leak lib (program_name prog) (bc_OTelEndpoint cfg))"
      "\<And>N. at_serve N es = [] \<and> isl r \<or> (\<exists>M. at_serve N es = [M] \<and> N + needs prog cfg \<subseteq># M)"
    using well_run_program [OF Inr, of prog lib, unfolded well_run_def, rule_format, of "[]"] by (auto simp: run)
  ultimately show ?thesis using es [of "{#}"] by (simp add: run Inr)
qed

text \<open>With working libraries each program comes to serve, returns what its error group returned, and leaves nothing open.\<close>

lemma starts_when_libraries_work:
  assumes "LoadRuntime cl = Inr cfg" "\<And>a. bl_NewClient lib a = None" "\<And>a. bl_RedisPing lib a = None" "bl_InstrumentTracing lib = None"
    "bl_InstrumentMetrics lib = None" "\<And>a. bl_PgParseConfig lib a = None" "\<And>a. bl_PgNewWithConfig lib a = None" "\<And>a. bl_PgPing lib a = None"
    "\<And>a. bl_MongoConnect lib a = None" "\<And>a. bl_MongoPing lib a = None" "\<And>a. bl_Listen lib a = None"
  shows "fst (run_program prog cl lib []) = (case bl_Wait lib of Some err \<Rightarrow> Inl err | None \<Rightarrow> Inr ()) \<and> Serve \<in> set (snd (run_program prog cl lib []))"
proof -
  define good where "good p \<longleftrightarrow> (\<forall>log. fst (p log) = (case bl_Wait lib of Some err \<Rightarrow> Inl err | None \<Rightarrow> Inr ()) \<and> Serve \<in> set (snd (p log)))" for p :: "unit boot"
  have tel: "good (with_telemetry lib name cfg k)" if "good k" for name k
    using that by (auto simp: good_def with_telemetry_def deferring_def Let_def split: prod.splits sum.splits) (metis fst_conv snd_conv)+
  have conf: "configured cl k = k cfg" for k :: "boot_cfg \<Rightarrow> unit boot" using assms(1) by (simp add: configured_def fun_eq_iff)
  have rules: "good (deferring es k)" "good (happens es k)" "(\<And>log. isl (fst (p log)) = False) \<Longrightarrow> good (and_then p k)" if "good k" for es p k
    using that by (auto simp: good_def deferring_def happens_def and_then_def split: prod.splits sum.splits) (metis fst_conv snd_conv isl_def)+
  have opened: "isl (fst (NewRedis lib a log)) = False" "isl (fst (NewPostgres lib a log)) = False" "isl (fst (NewMongo lib a log)) = False"
    "isl (fst (initClients lib a b log)) = False" for a b log
    by (simp_all add: NewRedis_def NewPostgres_def NewMongo_def initClients_def happens_def attempt_def ready_ok_def assms)
  have served: "good (serve lib)" "good (serve_grpc lib port)" for port by (simp_all add: good_def serve_grpc_def serve_def attempt_def assms)
  have "good (run_program prog cl lib)"
    by (cases prog) (simp_all add: run_api_gateway_def run_ws_gateway_def run_websocket_service_def run_chat_service_def run_user_service_def conf
        tel rules opened served)
  then show ?thesis by (simp add: good_def)
qed

text \<open>
  If the metric exporter cannot be made, the program goes on with only a warning, and the tracer provider that was started
  before runs until the process ends without being shut down.
\<close>

lemma failed_metrics_leak_tracer:
  assumes "LoadRuntime cl = Inr cfg" "bc_OTelEndpoint cfg \<noteq> ''''" "bl_ResourceNew lib = None" "bl_TraceExporter lib = None" "bl_MetricExporter lib = Some err"
  shows "open_after {#} (snd (run_program prog cl lib [])) = Some {#TracerProvider#}"
proof -
  obtain es where "snd (run_program prog cl lib []) = [] @ es" "\<And>N. open_after N es = Some (N + otel_leak lib (program_name prog) (bc_OTelEndpoint cfg))"
    using well_run_program [OF assms(1), of prog lib, unfolded well_run_def, rule_format, of "[]"] by auto
  moreover have "program_name prog \<noteq> ''''" by (cases prog) simp_all
  ultimately show ?thesis using assms by (simp add: otel_leak_def)
qed

section \<open>The WebSocket service while it runs\<close>

text \<open>
  The goroutines of \<^verbatim>\<open>runServer\<close> in its error group: registration, watcher, manager, ownership watch, listener and the one that shuts
  the server down.
\<close>

datatype ws_goroutine = GRegistry | GWatcher | GManager | GOwnership | GListen | GShutdown

text \<open>
  \<open>wp_ctx\<close>: the group's context has ended, by the signal or by the first error of a goroutine, which is \<open>wp_err\<close>. \<open>wp_rest\<close>: the
  deferred calls of \<^verbatim>\<open>run\<close> that are still to come once the group has been waited for.
\<close>

record ('c, 'w) ws_prog =
  wp_inst :: "('c, 'w) instance_run"
  wp_ctx :: bool
  wp_shut :: bool
  wp_err :: "go_error option"
  wp_live :: "ws_goroutine list"
  wp_rest :: "boot_event list"

definition deferred_of :: "boot_event list \<Rightarrow> boot_event list" where
  "deferred_of log = tl (dropWhile (\<lambda>e. e \<noteq> Serve) log)"

definition ws_prog_start :: "('c, 'w, 'h, 'u) ws_instance \<Rightarrow> boot_event list \<Rightarrow> ('c, 'w) ws_prog" where
  "ws_prog_start I log = \<lparr>wp_inst = \<lparr>ir_mgr = wi_manager I, ir_pl = NewPipeline (wi_world I), ir_calls = [], ir_phase = Looping, ir_tasks = []\<rparr>,
     wp_ctx = False, wp_shut = False, wp_err = None, wp_live = [GRegistry, GWatcher, GManager, GOwnership, GListen, GShutdown], wp_rest = deferred_of log\<rparr>"

text \<open>A goroutine of the group returns: the first error is kept and ends the context.\<close>

definition group_return :: "ws_goroutine \<Rightarrow> go_error option \<Rightarrow> ('c, 'w) ws_prog \<Rightarrow> ('c, 'w) ws_prog" where
  "group_return g err P = P\<lparr>wp_live := remove1 g (wp_live P), wp_ctx := wp_ctx P \<or> err \<noteq> None, wp_err := (case wp_err P of None \<Rightarrow> err | e \<Rightarrow> e)\<rparr>"

inductive ws_prog_step :: "'c lru_api \<Rightarrow> ('w \<Rightarrow> 'w \<Rightarrow> bool) \<Rightarrow> ('c, 'w) ws_prog \<Rightarrow> ('c, 'w) ws_prog \<Rightarrow> bool" for lru E where
  wp_signal: "ws_prog_step lru E P (P\<lparr>wp_ctx := True\<rparr>)"
| wp_instance: "ir_step lru E (wp_inst P) I \<Longrightarrow> ir_phase (wp_inst P) = Looping \<and> ir_phase I \<noteq> Looping \<longrightarrow> wp_ctx P \<Longrightarrow>
    ws_prog_step lru E P (P\<lparr>wp_inst := I\<rparr>)"
| wp_registry: "GRegistry \<in> set (wp_live P) \<Longrightarrow> wp_ctx P \<or> err \<noteq> None \<Longrightarrow> ws_prog_step lru E P (group_return GRegistry err P)"
| wp_watcher: "GWatcher \<in> set (wp_live P) \<Longrightarrow> wp_ctx P \<Longrightarrow> ws_prog_step lru E P (group_return GWatcher None P)"
| wp_manager: "GManager \<in> set (wp_live P) \<Longrightarrow> ir_phase (wp_inst P) = RunReturned \<Longrightarrow> ws_prog_step lru E P (group_return GManager None P)"
| wp_ownership: "GOwnership \<in> set (wp_live P) \<Longrightarrow> wp_ctx P \<Longrightarrow> ws_prog_step lru E P (group_return GOwnership None P)"
| wp_listen: "GListen \<in> set (wp_live P) \<Longrightarrow> wp_shut P \<or> err \<noteq> None \<Longrightarrow> ws_prog_step lru E P (group_return GListen err P)"
| wp_shutdown: "GShutdown \<in> set (wp_live P) \<Longrightarrow> wp_ctx P \<Longrightarrow> ws_prog_step lru E P (P\<lparr>wp_shut := True\<rparr>)"
| wp_shut_down: "GShutdown \<in> set (wp_live P) \<Longrightarrow> wp_shut P \<Longrightarrow> ws_prog_step lru E P (group_return GShutdown err P)"
| wp_deferred: "wp_live P = [] \<Longrightarrow> wp_rest P = e # es \<Longrightarrow> ws_prog_step lru E P (P\<lparr>wp_rest := es\<rparr>)"

inductive_cases ws_prog_stepE: "ws_prog_step lru E P Q"

text \<open>\<^verbatim>\<open>Run\<close> does not come back once it has returned.\<close>

lemma returned_stays: "ir_step lru E I J \<Longrightarrow> ir_phase I = RunReturned \<Longrightarrow> ir_phase J = RunReturned"
  by (erule ir_stepE) (simp_all add: with_mgr_def with_hub_def)

definition prog_ok :: "boot_event list \<Rightarrow> ('c, 'w) ws_prog \<Rightarrow> bool" where
  "prog_ok rest P \<longleftrightarrow> (GManager \<notin> set (wp_live P) \<longrightarrow> ir_phase (wp_inst P) = RunReturned) \<and> distinct (wp_live P) \<and> (wp_rest P \<noteq> rest \<longrightarrow> wp_live P = []) \<and>
     (ir_phase (wp_inst P) \<noteq> Looping \<longrightarrow> wp_ctx P)"

lemma prog_ok_step:
  assumes "ws_prog_step lru E P Q" "prog_ok rest P"
  shows "prog_ok rest Q"
  using assms(1)
proof cases
  case (wp_instance I)
  then show ?thesis using assms(2) returned_stays [OF wp_instance(2)] by (auto simp: prog_ok_def)
qed (use assms(2) in \<open>auto simp: prog_ok_def group_return_def\<close>)

text \<open>The deferred calls of a service that served: the Redis client is closed first, then the connections to the chat service and the user service.\<close>

lemma ws_deferred:
  assumes "LoadRuntime cl = Inr cfg" "Serve \<in> set (snd (run_websocket_service cl lib []))"
  shows "\<exists>es. deferred_of (snd (run_websocket_service cl lib [])) = Close RedisClient # cleanupClients (bc_ChatAddr cfg) (bc_UserAddr cfg) @ es"
proof -
  let ?k = "and_then (initClients lib (bc_ChatAddr cfg) (bc_UserAddr cfg)) (deferring (cleanupClients (bc_ChatAddr cfg) (bc_UserAddr cfg))
     (and_then (NewRedis lib (bc_RedisAddr cfg)) (deferring [Close RedisClient] (serve lib))))"
  obtain rs qs where t: "with_telemetry lib ''websocket-service'' cfg ?k = around rs qs ?k" by (rule telemetry_around)
  define pre post where "pre = map Open rs" and "post = map Close qs"
  have run: "snd (run_websocket_service cl lib []) = snd (?k pre) @ post"
    using assms(1) by (simp add: run_websocket_service_def configured_def t around_def deferring_def pre_def post_def split: prod.splits)
  have no: "Serve \<notin> set pre" "Serve \<notin> set post" by (auto simp: pre_def post_def)
  have skip: "dropWhile (\<lambda>e. e \<noteq> Serve) (pre @ zs) = dropWhile (\<lambda>e. e \<noteq> Serve) zs" for zs using no(1) by (auto simp: dropWhile_append)
  note defs = and_then_def initClients_def happens_def attempt_def ready_ok_def deferring_def NewRedis_def serve_def cleanupClients_def
  have "Serve \<in> set (snd (?k pre))" using assms(2) no(2) run by auto
  then have "\<exists>es. deferred_of (snd (?k pre) @ post) = Close RedisClient # cleanupClients (bc_ChatAddr cfg) (bc_UserAddr cfg) @ es"
    using no(1) by (auto simp: defs deferred_of_def skip split: option.splits)
  then show ?thesis by (simp add: run)
qed

text \<open>The states of a WebSocket service that serves after the start \<open>log\<close>, on a Redis server and a collection.\<close>

definition ws_prog_reach ::
  "'c lru_api \<Rightarrow> 'r redis_api \<Rightarrow> ('r \<Rightarrow> keyspace) \<Rightarrow> 'm collection \<Rightarrow> ('m \<Rightarrow> chat_message list) \<Rightarrow> ChatConfig \<Rightarrow> uuid_api \<Rightarrow> 'h consistent_api \<Rightarrow>
   WebSocketConfig \<Rightarrow> 'u \<Rightarrow> boot_event list \<Rightarrow> ('c, ('r, 'm) cluster) ws_prog \<Rightarrow> bool" where
  "ws_prog_reach lru api view col docs ccfg uuid ring cfg u log P \<longleftrightarrow>
     (\<exists>t ch uh w. cluster_wf view docs w \<and>
        (ws_prog_step lru (\<lambda>v v'. cluster_wf view docs v' \<and> grows (cluster_level view docs) (cluster_stored docs) v v' \<and>
             (\<forall>m. cluster_saved docs v m \<longrightarrow> cluster_saved docs v' m)))\<^sup>*\<^sup>*
          (ws_prog_start (new_instance api ring ccfg uuid col t ch uh cfg w u) log) P)"

lemma ws_prog_start_instance:
  "wp_inst (ws_prog_start (new_instance api ring ccfg uuid col t ch uh cfg w u) log) =
     run_start (wsc_Manager cfg) (cluster_store ccfg uuid col) (cluster_floor api) (cluster_leases api (wsc_AdvertisedAddr cfg)) [t] w"
  by (simp add: ws_prog_start_def run_start_def new_instance_manager)

lemma ws_prog_projects: "(ws_prog_step lru E)\<^sup>*\<^sup>* P Q \<Longrightarrow> (ir_step lru E)\<^sup>*\<^sup>* (wp_inst P) (wp_inst Q)"
proof (induction rule: rtranclp_induct)
  case (step Q R)
  then have "wp_inst R = wp_inst Q \<or> ir_step lru E (wp_inst Q) (wp_inst R)" by (auto elim!: ws_prog_stepE simp: group_return_def)
  with step.IH show ?case by auto
qed simp

lemma ws_prog_reachD:
  assumes "ws_prog_reach lru api view col docs ccfg uuid ring cfg u log P"
  shows "instance_reach lru api view col docs ccfg uuid (wsc_AdvertisedAddr cfg) (wp_inst P)" "prog_ok (deferred_of log) P"
proof -
  obtain t ch uh w where w: "cluster_wf view docs w" and run: "(ws_prog_step lru (\<lambda>v v'. cluster_wf view docs v' \<and>
      grows (cluster_level view docs) (cluster_stored docs) v v' \<and> (\<forall>m. cluster_saved docs v m \<longrightarrow> cluster_saved docs v' m)))\<^sup>*\<^sup>*
      (ws_prog_start (new_instance api ring ccfg uuid col t ch uh cfg w u) log) P"
    using assms by (auto simp: ws_prog_reach_def)
  show "instance_reach lru api view col docs ccfg uuid (wsc_AdvertisedAddr cfg) (wp_inst P)"
    unfolding instance_reach_def using w ws_prog_projects [OF run, unfolded ws_prog_start_instance] by blast
  have "prog_ok (deferred_of log) (ws_prog_start (new_instance api ring ccfg uuid col t ch uh cfg w u) log)"
    by (simp add: prog_ok_def ws_prog_start_def)
  with run show "prog_ok (deferred_of log) P" by (induction rule: rtranclp_induct) (blast intro: prog_ok_step)+
qed

text \<open>C14: A WebSocket service closes its connections last: as soon as any deferred call of \<^verbatim>\<open>run\<close> has been made, the first of which closes the Redis client, the signal has come
  or a goroutine has failed, every goroutine of the group has returned, \<^verbatim>\<open>Run\<close> of the manager among them, and every message
  any hub ever numbered has been acknowledged, and stored if its hub has no recorded failure; so no save and no
  release of a lease by \<^verbatim>\<open>Run\<close> meets a closed connection.\<close>

theorem connections_closed_last:
  assumes "redis api view clock" and "mongo col docs"
    and "ws_prog_reach lru api view col docs ccfg uuid ring cfg u (snd (run_websocket_service cl lib [])) P"
    and "wp_rest P \<noteq> deferred_of (snd (run_websocket_service cl lib []))"
  shows "wp_live P = [] \<and> wp_ctx P \<and> ir_phase (wp_inst P) = RunReturned \<and>
    (\<forall>S \<in> set (m_heap (ir_mgr (wp_inst P))). mset (map fst (acks S)) = mset (issued S) \<and>
       (persistFailed (hs S) \<or> (\<forall>m \<in> set (issued S). cluster_saved docs (ir_world (wp_inst P)) m)))"
proof -
  note R = ws_prog_reachD [OF assms(3)]
  have fin: "wp_live P = []" "ir_phase (wp_inst P) = RunReturned" "wp_ctx P" using R(2) assms(4) by (auto simp: prog_ok_def)
  have "mset (map fst (acks S)) = mset (issued S) \<and> (persistFailed (hs S) \<or> (\<forall>m \<in> set (issued S). cluster_saved docs (ir_world (wp_inst P)) m))"
    if S: "S \<in> set (m_heap (ir_mgr (wp_inst P)))" for S
  proof -
    obtain i where i: "i < length (m_heap (ir_mgr (wp_inst P)))" "m_heap (ir_mgr (wp_inst P)) ! i = S" using S by (auto simp: in_set_conv_nth)
    show ?thesis using ended_instance [OF assms(1,2) R(1) fin(2) i(1)] unfolding i(2) by blast
  qed
  with fin show ?thesis by blast
qed

text \<open>A service whose libraries work: it gets the signal, its instance ends as in the example, the goroutines return, and the Redis client is closed.\<close>

definition wx_cfg :: boot_cfg where
  "wx_cfg = \<lparr>bc_OTelEndpoint = '''', bc_PyroscopeEndpoint = '''', bc_RedisAddr = ''redis:6379'', bc_PostgresURL = '''', bc_MongoURI = '''',
     bc_UserAddr = ''dns:///user:1'', bc_ChatAddr = ''dns:///chat:1'', bc_UserGRPC = ''1'', bc_ChatGRPC = ''1''\<rparr>"

definition wx_cl :: "(unit, boot_cfg) config_lib" where
  "wx_cl = \<lparr>vp_ReadInConfig = (\<lambda>_ _. Inr ()), vp_MergeInConfig = (\<lambda>_ _. Inr ()), vp_AutomaticEnv = (\<lambda>_ v. v), vp_Unmarshal = (\<lambda>_. Inr wx_cfg),
     val_Struct = (\<lambda>_. None)\<rparr>"

definition wx_lib :: boot_lib where
  "wx_lib = \<lparr>bl_NewClient = (\<lambda>_. None), bl_RedisPing = (\<lambda>_. None), bl_InstrumentTracing = None, bl_InstrumentMetrics = None,
     bl_PgParseConfig = (\<lambda>_. None), bl_PgNewWithConfig = (\<lambda>_. None), bl_PgPing = (\<lambda>_. None), bl_MongoConnect = (\<lambda>_. None), bl_MongoPing = (\<lambda>_. None),
     bl_ResourceNew = None, bl_TraceExporter = None, bl_MetricExporter = None, bl_RuntimeStart = None, bl_PyroscopeStart = None,
     bl_Listen = (\<lambda>_. None), bl_Wait = None\<rparr>"

lemma wx_deferred: "deferred_of (snd (run_websocket_service wx_cl wx_lib [])) =
    [Close RedisClient, Close (GrpcConn ''dns:///chat:1''), Close (GrpcConn ''dns:///user:1'')]"
  by (simp add: run_websocket_service_def configured_def LoadRuntime_def Load_def wx_cl_def wx_cfg_def wx_lib_def with_telemetry_def Let_def and_then_def
      initClients_def happens_def attempt_def ready_ok_def deferring_def NewRedis_def serve_def cleanupClients_def deferred_of_def)

definition wx_at :: "('c, 'w) instance_run \<Rightarrow> ws_goroutine list \<Rightarrow> bool \<Rightarrow> boot_event list \<Rightarrow> ('c, 'w) ws_prog" where
  "wx_at I gs sh es = \<lparr>wp_inst = I, wp_ctx = True, wp_shut = sh, wp_err = None, wp_live = gs, wp_rest = es\<rparr>"

lemma wx_lift: "(ir_step lru E)\<^sup>*\<^sup>* I J \<Longrightarrow> (ws_prog_step lru E)\<^sup>*\<^sup>* (wx_at I gs sh es) (wx_at J gs sh es)"
proof (induction rule: rtranclp_induct)
  case (step J K)
  then have "ws_prog_step lru E (wx_at J gs sh es) (wx_at K gs sh es)" using wp_instance [of lru E "wx_at J gs sh es" K] by (simp add: wx_at_def)
  with step.IH show ?case by (rule rtranclp.rtrancl_into_rtrancl)
qed simp

lemma wx_ends:
  assumes "ir_phase I = RunReturned"
  shows "(ws_prog_step lru E)\<^sup>*\<^sup>* (wx_at I [GRegistry, GWatcher, GManager, GOwnership, GListen, GShutdown] False (e # es)) (wx_at I [] True es)"
proof -
  note more = converse_rtranclp_into_rtranclp [where r = "ws_prog_step lru E"] and defs = wx_at_def group_return_def
  have 1: "ws_prog_step lru E (wx_at I (GRegistry # gs) sh es) (wx_at I gs sh es)" for gs sh es
    using wp_registry [of "wx_at I (GRegistry # gs) sh es" None lru E] by (simp add: defs)
  have 2: "ws_prog_step lru E (wx_at I (GWatcher # gs) sh es) (wx_at I gs sh es)" for gs sh es
    using wp_watcher [of "wx_at I (GWatcher # gs) sh es" lru E] by (simp add: defs)
  have 3: "ws_prog_step lru E (wx_at I (GManager # gs) sh es) (wx_at I gs sh es)" for gs sh es
    using wp_manager [of "wx_at I (GManager # gs) sh es" lru E] assms by (simp add: defs)
  have 4: "ws_prog_step lru E (wx_at I (GOwnership # gs) sh es) (wx_at I gs sh es)" for gs sh es
    using wp_ownership [of "wx_at I (GOwnership # gs) sh es" lru E] by (simp add: defs)
  have 5: "ws_prog_step lru E (wx_at I [GListen, GShutdown] sh es) (wx_at I [GListen, GShutdown] True es)" for sh es
    using wp_shutdown [of "wx_at I [GListen, GShutdown] sh es" lru E] by (simp add: defs)
  have 6: "ws_prog_step lru E (wx_at I (GListen # gs) True es) (wx_at I gs True es)" for gs es
    using wp_listen [of "wx_at I (GListen # gs) True es" None lru E] by (simp add: defs)
  have 7: "ws_prog_step lru E (wx_at I (GShutdown # gs) True es) (wx_at I gs True es)" for gs es
    using wp_shut_down [of "wx_at I (GShutdown # gs) True es" lru E None] by (simp add: defs)
  have 8: "ws_prog_step lru E (wx_at I [] True (e # es)) (wx_at I [] True es)"
    using wp_deferred [of "wx_at I [] True (e # es)" e es lru E] by (simp add: defs)
  show ?thesis by (rule more [OF 1 more [OF 2 more [OF 3 more [OF 4 more [OF 5 more [OF 6 more [OF 7 more [OF 8 rtranclp.rtrancl_refl]]]]]]]])
qed

lemma wx_run:
  "\<exists>P S. ws_prog_reach list_lru mem_api mem_keys mem_col (\<lambda>ds. ds) ex_chat ex_uuid list_ring nx_cfg ex_w2 (snd (run_websocket_service wx_cl wx_lib [])) P \<and>
     wp_rest P = [Close (GrpcConn ''dns:///chat:1''), Close (GrpcConn ''dns:///user:1'')] \<and>
     m_heap (ir_mgr (wp_inst P)) = [S] \<and> issued S = [task_msg ix_task] \<and> \<not> persistFailed (hs S)"
proof -
  let ?I0 = "run_start \<lparr>mc_IdleTimeout = 1, mc_WriteWait = 1, mc_PongWait = 1, mc_PingPeriod = 1, mc_MaxLength = 100\<rparr>
     (cluster_store ex_chat ex_uuid mem_col) (cluster_floor mem_api) (cluster_leases mem_api ''a1'') [] cx_w0 ::
     (nat \<times> string list, (mem_redis, chat_message list) cluster) instance_run"
  let ?log = "snd (run_websocket_service wx_cl wx_lib [])" and ?gs = "[GRegistry, GWatcher, GManager, GOwnership, GListen, GShutdown]"
  let ?E = "\<lambda>v v'. cluster_wf mem_keys (\<lambda>ds. ds) v' \<and> grows (cluster_level mem_keys (\<lambda>ds. ds)) (cluster_stored (\<lambda>ds. ds)) v v' \<and>
      (\<forall>m. cluster_saved (\<lambda>ds. ds) v m \<longrightarrow> cluster_saved (\<lambda>ds. ds) v' m)"
  let ?P0 = "ws_prog_start (new_instance mem_api list_ring ex_chat ex_uuid mem_col 0 NoHealthClient NoHealthClient nx_cfg cx_w0 ex_w2) ?log ::
     (nat \<times> string list, (mem_redis, chat_message list) cluster) ws_prog"
  obtain I S where I: "(ir_step list_lru ?E)\<^sup>*\<^sup>* ?I0 I" "ir_phase I = RunReturned"
    and S: "m_heap (ir_mgr I) = [S]" "issued S = [task_msg ix_task]" "\<not> persistFailed (hs S)" using ix_run [of ?E] by blast
  have "wp_inst ?P0 = ?I0" unfolding ws_prog_start_instance by (simp add: nx_cfg_def run_start_def NewManager_def)
  then have "?P0\<lparr>wp_ctx := True\<rparr> = wx_at ?I0 ?gs False (deferred_of ?log)" by (simp add: ws_prog_start_def wx_at_def)
  then have "ws_prog_step list_lru ?E ?P0 (wx_at ?I0 ?gs False (deferred_of ?log))" using wp_signal [of list_lru ?E ?P0] by simp
  also have "(ws_prog_step list_lru ?E)\<^sup>*\<^sup>* \<dots> (wx_at I ?gs False (deferred_of ?log))" by (rule wx_lift [OF I(1)])
  also have "(ws_prog_step list_lru ?E)\<^sup>*\<^sup>* \<dots> (wx_at I [] True (tl (deferred_of ?log)))" unfolding wx_deferred list.sel by (rule wx_ends [OF I(2)])
  finally have run: "(ws_prog_step list_lru ?E)\<^sup>*\<^sup>* ?P0 (wx_at I [] True (tl (deferred_of ?log)))" by simp
  have "ws_prog_reach list_lru mem_api mem_keys mem_col (\<lambda>ds. ds) ex_chat ex_uuid list_ring nx_cfg ex_w2 ?log (wx_at I [] True (tl (deferred_of ?log)))"
    unfolding ws_prog_reach_def using cx_wf(1) run by blast
  then show ?thesis using S by (intro exI [of _ "wx_at I [] True (tl (deferred_of ?log))"] exI [of _ S]) (simp add: wx_deferred, simp add: wx_at_def)
qed

theorem connections_closed_last_witness:
  "\<exists>P. ws_prog_reach list_lru mem_api mem_keys mem_col (\<lambda>ds. ds) ex_chat ex_uuid list_ring nx_cfg ex_w2 (snd (run_websocket_service wx_cl wx_lib [])) P \<and>
     wp_live P = [] \<and> ir_phase (wp_inst P) = RunReturned \<and> cluster_saved (\<lambda>ds. ds) (ir_world (wp_inst P)) (task_msg ix_task)"
proof -
  obtain P S where P: "ws_prog_reach list_lru mem_api mem_keys mem_col (\<lambda>ds. ds) ex_chat ex_uuid list_ring nx_cfg ex_w2 (snd (run_websocket_service wx_cl wx_lib [])) P"
    and w: "wp_rest P = [Close (GrpcConn ''dns:///chat:1''), Close (GrpcConn ''dns:///user:1'')]"
    and S: "m_heap (ir_mgr (wp_inst P)) = [S]" "issued S = [task_msg ix_task]" "\<not> persistFailed (hs S)" using wx_run by blast
  have "wp_rest P \<noteq> deferred_of (snd (run_websocket_service wx_cl wx_lib []))" by (simp add: w wx_deferred)
  from connections_closed_last [OF mem.redis_axioms mem_mongo.mongo_axioms P this] P S show ?thesis by auto
qed

end
