(* ===== verification/Telemetry.thy ===== *)
theory Telemetry
  imports Access_Log Chat
begin

text \<open>
  The instrumentation (\<^verbatim>\<open>internal/shared/telemetry\<close>): wrappers around handlers, gRPC calls, SQL statements and the
  message collection that count and time what passes. A wrapped operation works on the wrapped state together
  with the samples recorded so far; the lemmas say that it behaves as the plain one and what it records.
\<close>

section \<open>Samples\<close>

text \<open>A recorded value: the instrument's name and the attributes; of a histogram also the value, here in microseconds.\<close>

datatype sample = Counted string "(string \<times> string) list" | Timed string int "(string \<times> string) list"

type_synonym 'w measured = "'w \<times> sample list"

definition plain_op :: "('w \<Rightarrow> 'a \<times> 'w) \<Rightarrow> ('a \<Rightarrow> sample list) \<Rightarrow> 'w measured \<Rightarrow> 'a \<times> 'w measured" where
  "plain_op f rec wt = (case f (fst wt) of (r, w) \<Rightarrow> (r, w, snd wt @ rec r))"

lemma plain_op_transparent:
  "fst (plain_op f rec wt) = fst (f (fst wt))" "fst (snd (plain_op f rec wt)) = snd (f (fst wt))"
  "snd (snd (plain_op f rec wt)) = snd wt @ rec (fst (f (fst wt)))"
  by (simp_all add: plain_op_def split: prod.splits)

section \<open>SQL statements\<close>

definition ToUpper :: "string \<Rightarrow> string" where
  "ToUpper s = map (\<lambda>c. if 97 \<le> byte c \<and> byte c \<le> 122 then char_of (byte c - 32) else c) s"

fun sqlOp_lines :: "string list \<Rightarrow> string" where
  "sqlOp_lines [] = ''UNKNOWN''"
| "sqlOp_lines (l # ls) = (let line = TrimSpace l in
     if line = '''' \<or> take 2 line = ''--'' then sqlOp_lines ls
     else if takeWhile (\<lambda>c. c \<noteq> CHR '' '') line \<noteq> '''' \<and> CHR '' '' \<in> set line then ToUpper (takeWhile (\<lambda>c. c \<noteq> CHR '' '') line)
     else sqlOp_lines ls)"

definition sqlOp :: "string \<Rightarrow> string" where
  "sqlOp sql = sqlOp_lines (Split CHR 0x0A sql)"

definition pgStatus :: "go_error option \<Rightarrow> string" where
  "pgStatus err = (case err of None \<Rightarrow> ''ok'' | Some _ \<Rightarrow> ''error'')"

definition pg_samples :: "int \<Rightarrow> string \<Rightarrow> string \<Rightarrow> sample list" where
  "pg_samples us op status = [Timed ''gochat_pg_query_duration_seconds'' us [(''operation'', op)],
     Counted ''gochat_pg_query'' [(''operation'', op), (''status'', status)]]"

definition err_of :: "go_error + 'a \<Rightarrow> go_error option" where
  "err_of r = (case r of Inl e \<Rightarrow> Some e | Inr _ \<Rightarrow> None)"

text \<open>\<^verbatim>\<open>Exec\<close> and \<^verbatim>\<open>Query\<close> record the error; \<^verbatim>\<open>QueryRow\<close> has none to record, its row carries it.\<close>

definition pg_Exec :: "int \<Rightarrow> (string \<Rightarrow> 'w \<Rightarrow> (go_error + 'a) \<times> 'w) \<Rightarrow> string \<Rightarrow> 'w measured \<Rightarrow> (go_error + 'a) \<times> 'w measured" where
  "pg_Exec us inner sql = plain_op (inner sql) (\<lambda>r. pg_samples us (sqlOp sql) (pgStatus (err_of r)))"

definition pg_Query :: "int \<Rightarrow> (string \<Rightarrow> 'w \<Rightarrow> (go_error + 'a) \<times> 'w) \<Rightarrow> string \<Rightarrow> 'w measured \<Rightarrow> (go_error + 'a) \<times> 'w measured" where
  "pg_Query us inner sql = plain_op (inner sql) (\<lambda>r. pg_samples us (sqlOp sql) (pgStatus (err_of r)))"

definition pg_QueryRow :: "int \<Rightarrow> (string \<Rightarrow> 'w \<Rightarrow> 'a \<times> 'w) \<Rightarrow> string \<Rightarrow> 'w measured \<Rightarrow> 'a \<times> 'w measured" where
  "pg_QueryRow us inner sql = plain_op (inner sql) (\<lambda>r. pg_samples us (sqlOp sql) ''ok'')"

section \<open>The message collection\<close>

definition mongoStatus :: "go_error option \<Rightarrow> string" where
  "mongoStatus err = (case err of None \<Rightarrow> ''ok'' | Some _ \<Rightarrow> ''error'')"

definition mongo_samples :: "int \<Rightarrow> string \<Rightarrow> string \<Rightarrow> sample list" where
  "mongo_samples us op status = [Timed ''gochat_mongo_query_duration_seconds'' us [(''operation'', op)],
     Counted ''gochat_mongo_query'' [(''operation'', op), (''status'', status)]]"

text \<open>
  \<open>insert_status\<close>: an insertion that returns a bulk write exception returned an error. The errors of \<open>col_Find\<close> that come from
  reading the cursor (\<open>cursor_err\<close>) are not errors of \<^verbatim>\<open>Find\<close>.
\<close>

definition insert_status :: "insert_result \<Rightarrow> string" where
  "insert_status r = (case r of InsertOk \<Rightarrow> ''ok'' | _ \<Rightarrow> ''error'')"

definition InstrumentedCollection :: "int \<Rightarrow> (go_error \<Rightarrow> bool) \<Rightarrow> 'm collection \<Rightarrow> 'm measured collection" where
  "InstrumentedCollection us cursor_err col = \<lparr>
     col_InsertMany = (\<lambda>ds. plain_op (col_InsertMany col ds) (\<lambda>r. mongo_samples us ''INSERT_MANY'' (insert_status r))),
     col_Find = (\<lambda>f dir limit. plain_op (col_Find col f dir limit)
       (\<lambda>r. mongo_samples us ''FIND'' (mongoStatus (case err_of r of None \<Rightarrow> None | Some e \<Rightarrow> if cursor_err e then None else Some e)))),
     col_FindOne = (\<lambda>f dir. plain_op (col_FindOne col f dir) (\<lambda>r. mongo_samples us ''FIND_ONE'' ''ok'')),
     col_dupMessage = col_dupMessage col\<rparr>"

lemma instrumented_ops:
  "fst (col_InsertMany (InstrumentedCollection us ce col) ds mt) = fst (col_InsertMany col ds (fst mt))"
  "fst (snd (col_InsertMany (InstrumentedCollection us ce col) ds mt)) = snd (col_InsertMany col ds (fst mt))"
  "fst (col_Find (InstrumentedCollection us ce col) f dir limit mt) = fst (col_Find col f dir limit (fst mt))"
  "fst (snd (col_Find (InstrumentedCollection us ce col) f dir limit mt)) = snd (col_Find col f dir limit (fst mt))"
  "fst (col_FindOne (InstrumentedCollection us ce col) f dir mt) = fst (col_FindOne col f dir (fst mt))"
  "fst (snd (col_FindOne (InstrumentedCollection us ce col) f dir mt)) = snd (col_FindOne col f dir (fst mt))"
  "col_dupMessage (InstrumentedCollection us ce col) = col_dupMessage col"
  by (simp_all add: InstrumentedCollection_def plain_op_transparent)

lemma instrumented_run:
  "col_InsertMany (InstrumentedCollection us ce col) ds mt = (r, mt') \<Longrightarrow> col_InsertMany col ds (fst mt) = (r, fst mt')"
  "col_Find (InstrumentedCollection us ce col) f dir limit mt = (x, mt') \<Longrightarrow> col_Find col f dir limit (fst mt) = (x, fst mt')"
  "col_FindOne (InstrumentedCollection us ce col) f dir mt = (y, mt') \<Longrightarrow> col_FindOne col f dir (fst mt) = (y, fst mt')"
  using instrumented_ops [of us ce col] by (metis prod.collapse fst_conv snd_conv)+

text \<open>The instrumented collection keeps the contract, so what is proved of the chat service holds as the program wires it.\<close>

lemma instrumented_mongo:
  assumes "mongo col docs"
  shows "mongo (InstrumentedCollection us ce col) (\<lambda>mt. docs (fst mt))"
proof
  fix ds :: "chat_message list" and mt mt' :: "'a measured" and wes err
  note M = mongo.insert_ok [OF assms] mongo.insert_bulk [OF assms] mongo.insert_err [OF assms]
  show "docs (fst mt') = docs (fst mt) @ ds" if "col_InsertMany (InstrumentedCollection us ce col) ds mt = (InsertOk, mt')"
    using M(1) instrumented_run(1) [OF that] by blast
  show "\<exists>ins. docs (fst mt') = docs (fst mt) @ ins \<and> set ins \<subseteq> set ds \<and>
            (\<forall>d \<in> set ds. d \<in> set ins \<or> (\<exists>we \<in> set wes. we_Code we = 11000 \<longrightarrow>
               (\<exists>ix. \<exists>e \<in> set (docs (fst mt')). collide ix d e \<and> we_Message we = col_dupMessage (InstrumentedCollection us ce col) ix d)))"
    if "col_InsertMany (InstrumentedCollection us ce col) ds mt = (BulkWrite wes, mt')"
    using M(2) [OF instrumented_run(1) [OF that]] unfolding instrumented_ops(7) .
  show "\<exists>ins. docs (fst mt') = docs (fst mt) @ ins \<and> set ins \<subseteq> set ds"
    if "col_InsertMany (InstrumentedCollection us ce col) ds mt = (InsertErr err, mt')"
    using M(3) [OF instrumented_run(1) [OF that]] .
qed (auto simp: instrumented_ops mongo.insert_unique [OF assms] mongo.find_state [OF assms] mongo.findOne_state [OF assms] mongo.client_named [OF assms]
    mongo.sequence_named [OF assms] mongo.id_named [OF assms] dest!: instrumented_run(2,3) mongo.find_ok [OF assms] mongo.findOne_ok [OF assms])


section \<open>gRPC calls\<close>

text \<open>The labels of a profile: the last part of the service's name, and the method; all of it when it has another form.\<close>

definition splitMethod :: "string \<Rightarrow> string \<times> string" where
  "splitMethod fullMethod =
    (case Split CHR ''/'' (if take 1 fullMethod = ''/'' then drop 1 fullMethod else fullMethod) of
       [svc, method] \<Rightarrow> (last (Split CHR ''.'' svc), method)
     | _ \<Rightarrow> (fullMethod, ''''))"

text \<open>\<open>name\<close> is \<^verbatim>\<open>code.String()\<close>.\<close>

definition grpc_attrs :: "(codes \<Rightarrow> string) \<Rightarrow> string \<Rightarrow> string \<Rightarrow> go_error + 'a \<Rightarrow> (string \<times> string) list" where
  "grpc_attrs name service method r = [(''service'', service), (''method'', method),
     (''code'', name (case r of Inl e \<Rightarrow> status_code e | Inr _ \<Rightarrow> OK))]"

definition MetricsServerInterceptor ::
  "(codes \<Rightarrow> string) \<Rightarrow> int \<Rightarrow> string \<Rightarrow> string \<Rightarrow> ('w \<Rightarrow> (go_error + 'a) \<times> 'w) \<Rightarrow> 'w measured \<Rightarrow> (go_error + 'a) \<times> 'w measured" where
  "MetricsServerInterceptor name us serviceName method handler = plain_op handler (\<lambda>r.
     if take (length health_prefix) method = health_prefix then []
     else [Counted ''gochat_grpc_requests'' (grpc_attrs name serviceName method r), Timed ''gochat_grpc_request_duration_seconds'' us (grpc_attrs name serviceName method r)])"

definition MetricsClientInterceptor ::
  "(codes \<Rightarrow> string) \<Rightarrow> int \<Rightarrow> string \<Rightarrow> string \<Rightarrow> ('w \<Rightarrow> (go_error + 'a) \<times> 'w) \<Rightarrow> 'w measured \<Rightarrow> (go_error + 'a) \<times> 'w measured" where
  "MetricsClientInterceptor name us serviceName method invoker = plain_op invoker (\<lambda>r.
     if take (length health_prefix) method = health_prefix then []
     else [Counted ''gochat_grpc_client_requests'' (grpc_attrs name serviceName method r),
           Timed ''gochat_grpc_client_request_duration_seconds'' us (grpc_attrs name serviceName method r)])"

section \<open>HTTP requests\<close>

definition is_hex :: "char \<Rightarrow> bool" where
  "is_hex c \<longleftrightarrow> (48 \<le> byte c \<and> byte c \<le> 57) \<or> (97 \<le> byte c \<and> byte c \<le> 102)"

text \<open>\<^verbatim>\<open>uuidPattern\<close> at the start of a text: 36 characters, with dashes at four places.\<close>

definition uuid_char :: "nat \<Rightarrow> char \<Rightarrow> bool" where
  "uuid_char i c \<longleftrightarrow> (if i = 8 \<or> i = 13 \<or> i = 18 \<or> i = 23 then c = CHR ''-'' else is_hex c)"

definition uuidPattern :: "string \<Rightarrow> bool" where
  "uuidPattern s \<longleftrightarrow> 36 \<le> length s \<and> list_all (\<lambda>i. uuid_char i (s ! i)) [0..<36]"

lemma uuidPattern_nth: "uuidPattern s \<longleftrightarrow> 36 \<le> length s \<and> (\<forall>i < 36. uuid_char i (s ! i))"
  by (auto simp: uuidPattern_def list_all_iff)

text \<open>\<^verbatim>\<open>ReplaceAllString\<close>: the leftmost match, and then what follows it.\<close>

function (sequential) NormalizePath :: "string \<Rightarrow> string" where
  "NormalizePath [] = []"
| "NormalizePath (c # s) = (if uuidPattern (c # s) then '':id'' @ NormalizePath (drop 36 (c # s)) else c # NormalizePath s)"
  by pat_completeness auto
termination by (relation "measure length") auto

record responseWriter =
  rw_statusCode :: int
  rw_hijacked :: bool

fun rw_call :: "write_call \<Rightarrow> responseWriter \<Rightarrow> responseWriter" where
  "rw_call (CallWriteHeader code) w = w\<lparr>rw_statusCode := code\<rparr>"
| "rw_call (CallWrite n) w = w"
| "rw_call (CallHijack ok) w = (if ok then w\<lparr>rw_hijacked := True\<rparr> else w)"

definition newResponseWriter :: responseWriter where
  "newResponseWriter = \<lparr>rw_statusCode = 200, rw_hijacked = False\<rparr>"

text \<open>A handler is the list of its calls on the writer, as for the access log.\<close>

definition MetricsMiddleware :: "int \<Rightarrow> string \<Rightarrow> write_call list \<Rightarrow> log_request \<Rightarrow> sample list" where
  "MetricsMiddleware us service calls r =
    (if isProbePath (lr_Path r) then []
     else let rw = fold rw_call calls newResponseWriter;
              attrs = [(''service'', service), (''method'', lr_Method r), (''path'', NormalizePath (lr_Path r)), (''status_code'', format_int (rw_statusCode rw))]
          in if rw_hijacked rw then []
             else [Counted ''gochat_http_requests'' attrs, Timed ''gochat_http_request_duration_seconds'' us attrs])"

text \<open>No match reaches over a slash, so a path is normalized one part after the other.\<close>

lemma uuid_no_slash: "uuidPattern s \<Longrightarrow> CHR ''/'' \<notin> set (take 36 s)"
proof
  assume u: "uuidPattern s" and "CHR ''/'' \<in> set (take 36 s)"
  then obtain i where "i < 36" "i < length s" "s ! i = CHR ''/''" by (auto simp: in_set_conv_nth)
  with u have "uuid_char i CHR ''/''" by (metis uuidPattern_nth)
  then show False by (auto simp: uuid_char_def is_hex_def byte_def split: if_splits)
qed

lemma uuid_prefix: "uuidPattern (a @ CHR ''/'' # b) \<longleftrightarrow> uuidPattern a"
proof
  assume u: "uuidPattern (a @ CHR ''/'' # b)"
  have "36 \<le> length a"
  proof (rule ccontr)
    assume "\<not> 36 \<le> length a"
    then have "CHR ''/'' \<in> set (take 36 (a @ CHR ''/'' # b))" by (cases "36 - length a") auto
    then show False using uuid_no_slash [OF u] by blast
  qed
  then show "uuidPattern a" using u unfolding uuidPattern_nth by (simp add: nth_append)
qed (simp add: uuidPattern_nth nth_append)

lemma NormalizePath_slash: "NormalizePath (a @ CHR ''/'' # b) = NormalizePath a @ CHR ''/'' # NormalizePath b"
proof (induction a rule: NormalizePath.induct)
  case 1
  have "\<not> uuidPattern (CHR ''/'' # b)" using uuid_prefix [of "''''" b] by (simp add: uuidPattern_nth)
  then show ?case by simp
next
  case (2 c s)
  show ?case
  proof (cases "uuidPattern (c # s)")
    case True
    then have "36 \<le> length (c # s)" by (simp add: uuidPattern_nth)
    then have "drop 36 ((c # s) @ CHR ''/'' # b) = drop 36 (c # s) @ CHR ''/'' # b" by simp
    then show ?thesis using True 2(1) uuid_prefix [of "c # s" b] by simp
  next
    case False
    then show ?thesis using 2(2) uuid_prefix [of "c # s" b] by simp
  qed
qed

lemma NormalizePath_uuid:
  assumes "uuidPattern u" "length u = 36"
  shows "NormalizePath u = '':id''"
  using assms by (cases u) auto

lemma NormalizePath_short: "length s < 36 \<Longrightarrow> NormalizePath s = s"
  by (induction s) (auto simp: uuidPattern_nth)

text \<open>The metrics have one label per route, not one per room: the path of every request about a room with an identifier as the
  services print it is recorded under the route's pattern, whatever the identifier is.\<close>

theorem one_label_per_route:
  assumes "uuidPattern u" "length u = 36"
  shows "NormalizePath (''/rooms/'' @ u) = ''/rooms/:id'' \<and>
    NormalizePath (''/rooms/'' @ u @ ''/messages'') = ''/rooms/:id/messages'' \<and>
    NormalizePath (''/rooms/'' @ u @ ''/members'') = ''/rooms/:id/members'' \<and>
    NormalizePath (''/rooms/'' @ u @ ''/members/me'') = ''/rooms/:id/members/me'' \<and>
    NormalizePath (''/internal/rooms/'' @ u @ ''/broadcast'') = ''/internal/rooms/:id/broadcast'' \<and>
    NormalizePath (''/internal/rooms/'' @ u) = ''/internal/rooms/:id''"
proof (intro conjI)
  have a: "NormalizePath (''/rooms/'' @ x) = ''/rooms/'' @ NormalizePath x" "NormalizePath (''/internal/rooms/'' @ x) = ''/internal/rooms/'' @ NormalizePath x" for x
    using NormalizePath_slash [of "''/rooms''" x] NormalizePath_slash [of "''/internal/rooms''" x] NormalizePath_short [of "''/rooms''"]
      NormalizePath_short [of "''/internal/rooms''"] by simp_all
  have b: "NormalizePath (u @ CHR ''/'' # x) = '':id/'' @ x" if "length x < 36" for x
    using NormalizePath_slash [of u x] NormalizePath_uuid [OF assms] NormalizePath_short [OF that] by simp
  show "NormalizePath (''/rooms/'' @ u) = ''/rooms/:id''" "NormalizePath (''/internal/rooms/'' @ u) = ''/internal/rooms/:id''"
    unfolding a NormalizePath_uuid [OF assms] by simp_all
  show "NormalizePath (''/rooms/'' @ u @ ''/messages'') = ''/rooms/:id/messages''" "NormalizePath (''/rooms/'' @ u @ ''/members'') = ''/rooms/:id/members''"
    "NormalizePath (''/rooms/'' @ u @ ''/members/me'') = ''/rooms/:id/members/me''"
    "NormalizePath (''/internal/rooms/'' @ u @ ''/broadcast'') = ''/internal/rooms/:id/broadcast''"
    unfolding a using b [of "''messages''"] b [of "''members''"] b [of "''members/me''"] b [of "''broadcast''"] by simp_all
qed

definition tx_uuid :: string where "tx_uuid = ''0191d4a0-1b2c-7d3e-8f40-0123456789ab''"

theorem one_label_per_route_witness: "NormalizePath (''/rooms/'' @ tx_uuid @ ''/messages'') = ''/rooms/:id/messages''"
proof -
  have "uuidPattern tx_uuid" by code_simp
  then show ?thesis using one_label_per_route [of tx_uuid] by (simp add: tx_uuid_def)
qed

end
