(* ===== verification/Spec2Isabelle.thy ===== *)
theory Spec2Isabelle
  imports Hub_Guarantees Instance User_Guarantees User_Validation WS_Router Api_Guarantees
    Hasher Rate_Limit Access_Log Lifecycle Startup Telemetry
begin

text \<open>
  Verification of go-chat-msa, a chat system of five Go programs: an API gateway (\<^verbatim>\<open>cmd/api-gateway\<close>) and a WebSocket gateway
  (\<^verbatim>\<open>cmd/ws-gateway\<close>) face the clients, a user service (\<^verbatim>\<open>cmd/user-service\<close>, PostgreSQL and Redis) and a chat service
  (\<^verbatim>\<open>cmd/chat-service\<close>, MongoDB) keep the data, and any number of WebSocket instances (\<^verbatim>\<open>cmd/websocket-service\<close>) run the rooms.

  \<^bold>\<open>How the parts interact.\<close> A client logs in through the API gateway and gets an access token and a refresh token.
  With the access token it asks the WebSocket gateway for a one-time ticket, and with the ticket for a
  WebSocket connection to a room; the gateway forwards it to the instance that its hash ring names for
  the room. The ring holds the addresses that the instances keep registered in Redis. The instance
  asks the user service whether the user is a member, and its hub manager makes a hub for the room if it has
  none: it takes the room's lease in Redis, reads the last sequence number from the chat service and the floor from
  Redis, and starts the hub. The hub numbers messages, sends them to the sessions and hands them to the
  persistence pipeline, whose workers save them in batches through the chat service. When a room moves, the old
  owner drains the hub and gives the lease back only when all is stored or the floor is recorded. Joining, leaving
  and deleting a room go through the API gateway to the user service, and from there as a system message through both
  gateways to the hub.

  \<^bold>\<open>Shared theories.\<close> \<open>Prelude\<close>: Go's errors, gRPC codes, integers of fixed width, UTF-8 and \<^verbatim>\<open>strconv\<close>, the outcome of a
  call over the network (\<open>net\<close>: answered, request lost, reply lost). \<open>Redis\<close>: the server as a record of commands with a
  locale of their documented effects on the live keys; an in-memory server interprets it.
  \<open>Http\<close>: requests, responses, \<^verbatim>\<open>internal/shared/httpio\<close>, \<^verbatim>\<open>auth\<close> and \<^verbatim>\<open>middleware\<close>.

  \<^bold>\<open>Users and rooms.\<close> \<open>User_DB\<close>: the tables with their constraints, and every generated query of \<^verbatim>\<open>internal/user/db\<close>.
  \<open>Tokens\<close>: the five Lua scripts and the methods of \<^verbatim>\<open>refresh_token_store.go\<close>; an abstract token store and the proof that they
  refine it. \<open>User_Service\<close>: the handlers of \<^verbatim>\<open>internal/user/service.go\<close> as state monads over tables, SQL outcomes and token
  store. \<open>User_Guarantees\<close>: the invariant of the rooms (a manager who is a member, the capacity) under every sequence of
  requests with any SQL outcomes, and what leaving, deleting, joining and refreshing do. \<open>User_Validation\<close>: the password
  rules against a definition without regular expressions. \<open>Hasher\<close>: the pool of \<^verbatim>\<open>internal/user/hasher\<close> under every interleaving.

  \<^bold>\<open>Rooms at run time.\<close> \<open>Message\<close>, \<open>Session\<close>, \<open>Hub\<close>: \<^verbatim>\<open>message.go\<close>, \<^verbatim>\<open>session.go\<close> and \<^verbatim>\<open>hub.go\<close> of \<^verbatim>\<open>internal/websocket/hub\<close>, one function per
  method. \<open>Hub_Run\<close>: the goroutines of a hub as a step relation, its invariant, and numbering without gaps.
  \<open>Hub_Guarantees\<close>: fan-out, duplicates, draining. \<open>Persist\<close>: the workers and the retry queue of \<^verbatim>\<open>manager.go\<close>; no task is lost
  or acknowledged twice, and an acknowledgement without error means stored. \<open>Room_Lease\<close>, \<open>Room_Seq\<close>: the lease store and the floor
  store with their Lua scripts; two unexpired claims on a room are one. \<open>Chat\<close>: the repository on MongoDB
  (a locale with the documented effect of unordered inserts), the service, and the instances' adapter. \<open>Manager\<close>: hub
  creation, leases, renewal and hand-off. \<open>Handoff\<close>: the manager's goroutines as a step relation over an interface of stores
  (locale \<open>hub_world\<close>) and its invariant. \<open>Cluster\<close>: the interface interpreted with the chat service and Redis, and the hand-over
  of a room between instances. \<open>Instance\<close>: the manager, its hubs and the pipeline as one system with the end of \<^verbatim>\<open>Run\<close>
  (locale \<open>persist_world\<close> joins the interfaces of \<open>Handoff\<close> and \<open>Persist\<close>); it refines the manager's system, no goroutine sends
  on a closed channel, and when \<^verbatim>\<open>Run\<close> has returned no message is left behind.

  \<^bold>\<open>Gateways and instances.\<close> \<open>Ring\<close>: \<^verbatim>\<open>internal/wsgateway/loadbalance\<close> over a consistent hashing library. \<open>Membership\<close>: registration with
  heartbeats and the watcher. \<open>WS_Gateway\<close>: tickets, handlers, proxies. \<open>WS_Router\<close>: the HTTP side of an instance; a
  connection needs a ticket, a membership and the owner. \<open>Api_Gateway\<close>: the public API. \<open>Api_Guarantees\<close>: a request from its access
  token to the tables and the messages, and announcements from there to the hub. \<open>Wiring\<close>: the constructors of the
  routers and what the programs give them. \<open>Lifecycle\<close>: the goroutines that report health and that end a
  program. \<open>Startup\<close>: \<^verbatim>\<open>run\<close> of the five programs from loading the configuration to the deferred calls, with every library call that can fail;
  a program serves with everything it needs or ends with an error and closes what it opened; the WebSocket
  service's error group around an instance closes its connections last. \<open>Rate_Limit\<close>: the token buckets of \<^verbatim>\<open>internal/shared/ratelimit/memory.go\<close>. \<open>Access_Log\<close>, \<open>Telemetry\<close>: what
  the logging and measuring wrappers record, and that measuring changes nothing.

  \<^bold>\<open>Conventions.\<close> A definition has the name of the Go function, with a prefix where packages share a name. Errors are values: a
  handler returns \<open>error + result\<close> or an optional error. Every call over a network may lose its request or its reply; a
  schedule in the state or an argument decides, and the theorems hold for all schedules. Loops are
  recursive functions; the scan of Redis keys, which a server may prolong for ever, is a partial function. What a
  \<^verbatim>\<open>select\<close> may choose is a rule of a step relation, so a theorem about reachable states covers every interleaving of these
  steps; a step is the code between two operations on shared channels or locks. Sequence numbers wrap at 64 bits, and the hand-over
  theorems assume them below \<open>2 ^ 53\<close>, the integers that a Lua script compares exactly. Transactions of PostgreSQL
  are serial, as the row locks of the code make them for one room. A float is a rational number with a rounding
  parameter; the bound over time of the rate limiter takes the operations as exact. Libraries that are not in the
  repository (Redis, MongoDB, JWT, bcrypt, UUID, JSON decoding, consistent hashing, the LRU cache, the gRPC health server)
  are parameters; where a theorem needs their behaviour it assumes a locale that states the documentation, and each
  locale has an interpretation on an executable model, which the witnesses use.

  \<^bold>\<open>Not modelled.\<close> The contents of configuration files and the options of servers and clients, which are only passed to
  libraries; the registration of metrics, traces and log handlers (\<^verbatim>\<open>internal/shared/telemetry\<close>,
  \<^verbatim>\<open>internal/shared/logger\<close>, the \<^verbatim>\<open>metrics.go\<close> files), which observe and do not act; the error group of the WebSocket gateway; deadlines of calls as times (any call may end
  with an error of its context); generated protobuf code and mocks; the bytes of JSON and HTTP on the wire; the
  browser client and the deployment files.
\<close>

end
